(* ===== verification/Prelude.thy ===== *)
theory Prelude
  imports Main "HOL-Library.AList" "HOL-Library.Char_ord" "HOL-Library.List_Lexorder"
    "HOL-Library.Sublist"
begin

text \<open>
  What every component shares: JavaScript's two keyed containers and the order on strings.

  A JavaScript string is a HOL \<open>string\<close>, one \<open>char\<close> per code unit (so the model covers
  the code units below 256; the text algorithms of \<open>Text_Merge\<close> are polymorphic in the code
  unit and carry no such bound). \<open><\<close> on strings is JavaScript's: lexicographic by code unit.

  A plain object (\<open>Record<string, T>\<close>) is an association list in enumeration order. The order
  is the language's: integer-like keys come first, ascending, then the others in the order they
  were added. Members inherited from \<open>Object.prototype\<close> are outside the model. A \<open>Map\<close> is
  an association list in insertion order; \<open>Map.set\<close> is \<open>AList.update\<close>, which replaces in
  place or appends, and \<open>Map.delete\<close> is \<open>AList.delete\<close>.
\<close>

section \<open>Hint collections\<close>

named_theorems keyed_simps "reading a keyed container after it was written"
named_theorems wf_intros "well-formedness kept by the operations of a component"

section \<open>The interface of a keyed container\<close>

text \<open>
  Both containers promise the same: a read after a write sees the write, other keys are left
  alone, and keys stay distinct. The components are proved against this contract.
\<close>

locale keyed_store =
  fixes get :: "'s \<Rightarrow> 'k \<Rightarrow> 'v option"
    and put :: "'k \<Rightarrow> 'v \<Rightarrow> 's \<Rightarrow> 's"
    and del :: "'k \<Rightarrow> 's \<Rightarrow> 's"
    and wf :: "'s \<Rightarrow> bool"
  assumes get_put: "get (put k v s) j = (if j = k then Some v else get s j)"
    and get_del: "get (del k s) j = (if j = k then None else get s j)"
    and wf_put: "wf s \<Longrightarrow> wf (put k v s)"
    and wf_del: "wf s \<Longrightarrow> wf (del k s)"
begin

lemma get_put_same: "get (put k v s) k = Some v"
  by (simp add: get_put)

lemma get_fold_put:
  "get (fold (\<lambda>k. put k (f k)) ks s) j = (if j \<in> set ks then Some (f j) else get s j)"
  by (induction ks arbitrary: s) (auto simp: get_put)

lemma get_fold_del: "get (fold del ks s) j = (if j \<in> set ks then None else get s j)"
  by (induction ks arbitrary: s) (auto simp: get_del)

lemma get_foldl_put:
  "get (foldl (\<lambda>s (k, v). put k v s) s xs) j =
     (case map_of (rev xs) j of Some v \<Rightarrow> Some v | None \<Rightarrow> get s j)"
  by (induction xs rule: rev_induct) (auto simp: get_put split: option.splits)

lemma wf_fold_put: "wf s \<Longrightarrow> wf (fold (\<lambda>k. put k (f k)) ks s)"
  by (induction ks arbitrary: s) (auto intro: wf_put)

lemma wf_foldl_put: "wf s \<Longrightarrow> wf (foldl (\<lambda>s (k, v). put k v s) s xs)"
  by (induction xs arbitrary: s) (auto intro: wf_put)

lemma wf_fold_del: "wf s \<Longrightarrow> wf (fold del ks s)"
  by (induction ks arbitrary: s) (auto intro: wf_del)

end

section \<open>Plain objects\<close>

type_synonym 'v jsobj = "(string \<times> 'v) list"

text \<open>Decimal value of a digit string, and the keys the language enumerates as integers.\<close>

definition digit_of :: "char \<Rightarrow> nat" where
  "digit_of c = of_char c - 48"

definition is_digit :: "char \<Rightarrow> bool" where
  "is_digit c \<longleftrightarrow> 48 \<le> (of_char c :: nat) \<and> (of_char c :: nat) \<le> 57"

fun digits_val :: "string \<Rightarrow> nat" where
  "digits_val [] = 0"
| "digits_val (c # cs) = digit_of c * 10 ^ length cs + digits_val cs"

definition is_index :: "string \<Rightarrow> bool" where
  "is_index k \<longleftrightarrow> k \<noteq> [] \<and> list_all is_digit k \<and> (k = ''0'' \<or> hd k \<noteq> CHR ''0'')
     \<and> digits_val k < 2 ^ 32 - 1"

fun index_insert :: "string \<Rightarrow> 'v \<Rightarrow> 'v jsobj \<Rightarrow> 'v jsobj" where
  "index_insert k v [] = [(k, v)]"
| "index_insert k v ((j, w) # r) =
     (if is_index j \<and> digits_val j < digits_val k then (j, w) # index_insert k v r
      else (k, v) # (j, w) # r)"

definition obj_get :: "'v jsobj \<Rightarrow> string \<Rightarrow> 'v option" where
  "obj_get r k = map_of r k"

definition obj_put :: "string \<Rightarrow> 'v \<Rightarrow> 'v jsobj \<Rightarrow> 'v jsobj" where
  "obj_put k v r =
     (if obj_get r k \<noteq> None then AList.update k v r
      else if is_index k then index_insert k v r
      else r @ [(k, v)])"

definition obj_del :: "string \<Rightarrow> 'v jsobj \<Rightarrow> 'v jsobj" where
  "obj_del k r = AList.delete k r"

definition obj_has :: "'v jsobj \<Rightarrow> string \<Rightarrow> bool" where
  "obj_has r k \<longleftrightarrow> obj_get r k \<noteq> None"

definition obj_keys :: "'v jsobj \<Rightarrow> string list" where
  "obj_keys r = map fst r"

text \<open>\<open>{...r, ...s}\<close>\<close>

definition obj_assign :: "'v jsobj \<Rightarrow> 'v jsobj \<Rightarrow> 'v jsobj" where
  "obj_assign r s = foldl (\<lambda>o' (k, v). obj_put k v o') r s"

text \<open>Every object the language can build has distinct keys.\<close>

definition obj_wf :: "'v jsobj \<Rightarrow> bool" where
  "obj_wf r \<longleftrightarrow> distinct (map fst r)"

lemma set_index_insert: "set (index_insert k v r) = insert (k, v) (set r)"
  by (induction k v r rule: index_insert.induct) auto

lemma fst_set_index_insert: "fst ` set (index_insert k v r) = insert k (fst ` set r)"
  by (simp add: set_index_insert)

lemma map_of_index_insert:
  "map_of r k = None \<Longrightarrow> map_of (index_insert k v r) j = (if j = k then Some v else map_of r j)"
  by (induction k v r rule: index_insert.induct) (auto split: if_splits)

lemma obj_wf_index_insert:
  "map_of r k = None \<Longrightarrow> obj_wf r \<Longrightarrow> obj_wf (index_insert k v r)"
  by (induction k v r rule: index_insert.induct)
    (auto simp: obj_wf_def fst_set_index_insert map_of_eq_None_iff split: if_splits)

lemma obj_get_put: "obj_get (obj_put k v r) j = (if j = k then Some v else obj_get r j)"
  by (auto simp: obj_put_def obj_get_def map_of_index_insert update_conv' map_add_def
      split: option.splits)

lemma obj_get_del: "obj_get (obj_del k r) j = (if j = k then None else obj_get r j)"
  by (simp add: obj_get_def obj_del_def delete_conv')

lemma obj_wf_put: "obj_wf r \<Longrightarrow> obj_wf (obj_put k v r)"
  by (auto simp: obj_put_def obj_get_def obj_wf_index_insert distinct_update)
    (auto simp: obj_wf_def distinct_update map_of_eq_None_iff)

lemma obj_wf_del: "obj_wf r \<Longrightarrow> obj_wf (obj_del k r)"
  by (simp add: obj_wf_def obj_del_def distinct_delete)

interpretation obj: keyed_store obj_get obj_put obj_del obj_wf
  by unfold_locales (auto simp: obj_get_put obj_get_del obj_wf_put obj_wf_del)

lemma map_of_rev_distinct: "distinct (map fst xs) \<Longrightarrow> map_of (rev xs) = map_of xs"
  by (subst map_of_inject_set) (simp_all flip: rev_map)

lemma obj_get_assign:
  "obj_wf s \<Longrightarrow> obj_get (obj_assign r s) k =
     (case obj_get s k of Some v \<Rightarrow> Some v | None \<Rightarrow> obj_get r k)"
  by (simp add: obj_assign_def obj.get_foldl_put obj_wf_def map_of_rev_distinct)
    (simp add: obj_get_def)

lemma obj_wf_assign: "obj_wf r \<Longrightarrow> obj_wf (obj_assign r s)"
  by (simp add: obj_assign_def obj.wf_foldl_put)

lemma obj_wf_Nil: "obj_wf []"
  by (simp add: obj_wf_def)

lemma obj_get_Nil: "obj_get [] k = None"
  by (simp add: obj_get_def)

lemma obj_keys_iff: "k \<in> set (obj_keys r) \<longleftrightarrow> obj_get r k \<noteq> None"
  by (auto simp: obj_keys_def obj_get_def map_of_eq_None_iff)

lemma obj_get_some_in: "obj_wf r \<Longrightarrow> (k, v) \<in> set r \<longleftrightarrow> obj_get r k = Some v"
  by (simp add: obj_get_def obj_wf_def)

declare obj_get_put [keyed_simps] obj_get_del [keyed_simps] obj_get_assign [keyed_simps]
  obj_get_Nil [keyed_simps, simp]
declare obj_wf_put [wf_intros] obj_wf_del [wf_intros] obj_wf_assign [wf_intros]
  obj_wf_Nil [wf_intros, simp]

section \<open>Maps\<close>

type_synonym ('k, 'v) jsmap = "('k \<times> 'v) list"

abbreviation map_get :: "('k, 'v) jsmap \<Rightarrow> 'k \<Rightarrow> 'v option" where
  "map_get m k \<equiv> map_of m k"

abbreviation map_set :: "'k \<Rightarrow> 'v \<Rightarrow> ('k, 'v) jsmap \<Rightarrow> ('k, 'v) jsmap" where
  "map_set k v m \<equiv> AList.update k v m"

abbreviation map_del :: "'k \<Rightarrow> ('k, 'v) jsmap \<Rightarrow> ('k, 'v) jsmap" where
  "map_del k m \<equiv> AList.delete k m"

abbreviation map_has :: "('k, 'v) jsmap \<Rightarrow> 'k \<Rightarrow> bool" where
  "map_has m k \<equiv> map_of m k \<noteq> None"

abbreviation map_wf :: "('k, 'v) jsmap \<Rightarrow> bool" where
  "map_wf m \<equiv> distinct (map fst m)"

interpretation jsmap: keyed_store map_of AList.update AList.delete "\<lambda>m. distinct (map fst m)"
  by unfold_locales (auto simp: update_conv' delete_conv' distinct_update distinct_delete)

declare jsmap.get_put [keyed_simps] jsmap.get_del [keyed_simps]
declare jsmap.wf_put [wf_intros] jsmap.wf_del [wf_intros]

lemma length_update: "length (AList.update k v m) = (if map_has m k then length m else Suc (length m))"
  by (induction m) (auto split: if_splits)

lemma map_of_filter_key: "map_of (filter (\<lambda>p. P (fst p)) m) k = (if P k then map_of m k else None)"
  by (induction m) auto

lemma map_of_filter_pair:
  "distinct (map fst m) \<Longrightarrow> map_of (filter P m) k =
     (case map_of m k of Some v \<Rightarrow> (if P (k, v) then Some v else None) | None \<Rightarrow> None)"
  by (induction m) (auto split: option.splits simp: map_of_eq_None_iff)

lemma distinct_fst_filter: "distinct (map fst m) \<Longrightarrow> distinct (map fst (filter P m))"
  by (induction m) auto

text \<open>\<open>new Set\<close> and \<open>Set.add\<close>: a list without repetition, in insertion order.\<close>

definition set_add :: "'a \<Rightarrow> 'a list \<Rightarrow> 'a list" where
  "set_add x xs = (if x \<in> set xs then xs else xs @ [x])"

section \<open>Maps of maps\<close>

text \<open>A missing inner map reads as the empty one; some components drop an inner map once it is
  empty. \<open>total_of f\<close> adds up \<open>f\<close> over the values of a map.\<close>

definition get_map :: "('k, ('j, 'v) jsmap) jsmap \<Rightarrow> 'k \<Rightarrow> ('j, 'v) jsmap" where
  "get_map m k = (case map_get m k of Some x \<Rightarrow> x | None \<Rightarrow> [])"

definition total_of :: "('v \<Rightarrow> int) \<Rightarrow> ('k, 'v) jsmap \<Rightarrow> int" where
  "total_of f m = sum_list (map (f \<circ> snd) m)"

definition amount_at :: "('v \<Rightarrow> int) \<Rightarrow> ('k, 'v) jsmap \<Rightarrow> 'k \<Rightarrow> int" where
  "amount_at f m k = (case map_get m k of Some v \<Rightarrow> f v | None \<Rightarrow> 0)"

lemma total_of_Nil [simp]: "total_of f [] = 0"
  by (simp add: total_of_def)

lemma total_of_set: "total_of f (map_set k v m) = total_of f m + f v - amount_at f m k"
  by (induction m) (auto simp: total_of_def amount_at_def)

lemma total_of_del: "distinct (map fst m) \<Longrightarrow> total_of f (map_del k m) = total_of f m - amount_at f m k"
proof (induction m)
  case (Cons x m)
  then show ?case
    by (cases x) (auto simp: total_of_def amount_at_def delete_id map_of_eq_None_iff split: option.splits)
qed (simp add: total_of_def amount_at_def)

lemma amount_get_map: "f [] = 0 \<Longrightarrow> amount_at f m k = f (get_map m k)"
  by (simp add: amount_at_def get_map_def split: option.split)

definition put_or_del :: "'k \<Rightarrow> ('j, 'v) jsmap \<Rightarrow> ('k, ('j, 'v) jsmap) jsmap \<Rightarrow> ('k, ('j, 'v) jsmap) jsmap" where
  "put_or_del k x m = (if x = [] then map_del k m else map_set k x m)"

lemma get_map_set: "get_map (map_set k x m) j = (if j = k then x else get_map m j)"
  by (simp add: get_map_def jsmap.get_put)

lemma get_map_put_or_del: "get_map (put_or_del k x m) j = (if j = k then x else get_map m j)"
  by (auto simp: put_or_del_def get_map_def jsmap.get_put jsmap.get_del)

lemma total_of_put_or_del:
  "distinct (map fst m) \<Longrightarrow> f [] = 0 \<Longrightarrow> total_of f (put_or_del k x m) = total_of f m + f x - f (get_map m k)"
  by (simp add: put_or_del_def total_of_set total_of_del amount_get_map)

definition maps_wf :: "('k, ('j, 'v) jsmap) jsmap \<Rightarrow> bool" where
  "maps_wf m \<longleftrightarrow> map_wf m \<and> (\<forall>k. map_wf (get_map m k))"

lemma maps_wf_Nil [wf_intros, simp]: "maps_wf []"
  by (simp add: maps_wf_def get_map_def)

lemma maps_wf_set [wf_intros]: "maps_wf m \<Longrightarrow> map_wf x \<Longrightarrow> maps_wf (map_set k x m)"
  by (simp add: maps_wf_def get_map_set distinct_update)

lemma maps_wf_put_or_del [wf_intros]: "maps_wf m \<Longrightarrow> map_wf x \<Longrightarrow> maps_wf (put_or_del k x m)"
  by (simp add: maps_wf_def get_map_put_or_del) (simp add: put_or_del_def distinct_update distinct_delete)

lemma maps_wf_inner: "maps_wf m \<Longrightarrow> map_wf (get_map m k)"
  by (simp add: maps_wf_def)

section \<open>Order on strings\<close>

lemma append_less_append:
  fixes a b x y :: "'a::linorder list"
  assumes "length a = length b"
  shows "a @ x < b @ y \<longleftrightarrow> a < b \<or> (a = b \<and> x < y)"
  using assms by (induction a b rule: list_induct2) auto

lemma append_eq_append_len:
  "length a = length b \<Longrightarrow> a @ x = b @ y \<longleftrightarrow> a = b \<and> x = y"
  by simp

lemma less_append_nonempty: "ys \<noteq> [] \<Longrightarrow> xs < xs @ (ys :: 'a::linorder list)"
  by (induction xs) (auto simp: neq_Nil_conv)

end
