(* ===== verification/Js_Value.thy ===== *)
theory Js_Value
  imports Prelude
begin

text \<open>
  JavaScript values as they travel through rows, payloads and auth contexts, with the operators
  the source applies to them: truthiness, \<open>===\<close>, \<open>typeof x === "string"\<close>, \<open>String(x)\<close> and
  \<open>JSON.stringify\<close>.

  Objects, arrays and dates carry a reference (\<open>ref\<close>), because \<open>===\<close> compares those by
  identity. Reference 0 marks a value created afresh by an expression of the source, which
  is identical to no other value. Numbers are the integers a double holds exactly, and NaN.
\<close>

type_synonym ref = nat

datatype jsval =
    Undefined
  | Null
  | Bool bool
  | Num int
  | NaN
  | Str string
  | Date ref int
  | Arr ref "jsval list"
  | Obj ref "(string \<times> jsval) list"

type_synonym row = "jsval jsobj"

text \<open>Reading a property that is absent gives \<open>undefined\<close>.\<close>

definition get_prop :: "row \<Rightarrow> string \<Rightarrow> jsval" where
  "get_prop r k = (case obj_get r k of Some v \<Rightarrow> v | None \<Rightarrow> Undefined)"

fun truthy :: "jsval \<Rightarrow> bool" where
  "truthy Undefined = False"
| "truthy Null = False"
| "truthy (Bool b) = b"
| "truthy (Num n) = (n \<noteq> 0)"
| "truthy NaN = False"
| "truthy (Str s) = (s \<noteq> [])"
| "truthy _ = True"

text \<open>\<open>x == null\<close>\<close>

definition nullish :: "jsval \<Rightarrow> bool" where
  "nullish v \<longleftrightarrow> v = Undefined \<or> v = Null"

text \<open>\<open>a === b\<close>\<close>

fun strict_eq :: "jsval \<Rightarrow> jsval \<Rightarrow> bool" where
  "strict_eq Undefined w = (w = Undefined)"
| "strict_eq Null w = (w = Null)"
| "strict_eq (Bool b) w = (w = Bool b)"
| "strict_eq (Num n) w = (w = Num n)"
| "strict_eq NaN w = False"
| "strict_eq (Str s) w = (w = Str s)"
| "strict_eq (Date r d) w = (case w of Date r' d' \<Rightarrow> r = r' \<and> r \<noteq> 0 | _ \<Rightarrow> False)"
| "strict_eq (Arr r xs) w = (case w of Arr r' ys \<Rightarrow> r = r' \<and> r \<noteq> 0 | _ \<Rightarrow> False)"
| "strict_eq (Obj r xs) w = (case w of Obj r' ys \<Rightarrow> r = r' \<and> r \<noteq> 0 | _ \<Rightarrow> False)"

definition is_string :: "jsval \<Rightarrow> bool" where
  "is_string v = (case v of Str _ \<Rightarrow> True | _ \<Rightarrow> False)"

text \<open>\<open>typeof v === "string" ? v : ""\<close>\<close>

definition string_or_empty :: "jsval \<Rightarrow> string" where
  "string_or_empty v = (case v of Str s \<Rightarrow> s | _ \<Rightarrow> [])"

definition str_of :: "jsval \<Rightarrow> string option" where
  "str_of v = (case v of Str s \<Rightarrow> Some s | _ \<Rightarrow> None)"

text \<open>\<open>Array.isArray\<close>\<close>

definition arr_of :: "jsval \<Rightarrow> jsval list option" where
  "arr_of v = (case v of Arr _ xs \<Rightarrow> Some xs | _ \<Rightarrow> None)"

definition num_of :: "jsval \<Rightarrow> int option" where
  "num_of v = (case v of Num n \<Rightarrow> Some n | _ \<Rightarrow> None)"

lemma jsval_views [simp]:
  "str_of (Str s) = Some s" "arr_of (Arr r xs) = Some xs" "num_of (Num n) = Some n"
  "string_or_empty (Str s) = s"
  by (simp_all add: str_of_def arr_of_def num_of_def string_or_empty_def)

lemma str_of_some: "str_of v = Some s \<longleftrightarrow> v = Str s"
  by (simp add: str_of_def split: jsval.splits)

section \<open>Decimal numbers\<close>

definition digit_char :: "nat \<Rightarrow> char" where
  "digit_char d = char_of (48 + d)"

fun nat_str :: "nat \<Rightarrow> string" where
  "nat_str n = (if n < 10 then [digit_char n] else nat_str (n div 10) @ [digit_char (n mod 10)])"

declare nat_str.simps [simp del]

definition int_str :: "int \<Rightarrow> string" where
  "int_str i = (if i < 0 then CHR ''-'' # nat_str (nat (- i)) else nat_str (nat i))"

text \<open>\<open>s.padStart(n, "0")\<close>\<close>

definition pad_start :: "nat \<Rightarrow> string \<Rightarrow> string" where
  "pad_start n s = replicate (n - length s) CHR ''0'' @ s"

lemma of_char_digit_char: "d < 10 \<Longrightarrow> (of_char (digit_char d) :: nat) = 48 + d"
  by (simp add: digit_char_def)

lemma digit_of_digit_char [simp]: "d < 10 \<Longrightarrow> digit_of (digit_char d) = d"
  by (simp add: digit_of_def of_char_digit_char)

lemma digit_chars:
  "digit_char 0 = CHR ''0''" "digit_char 1 = CHR ''1''" "digit_char 2 = CHR ''2''" "digit_char 3 = CHR ''3''"
  "digit_char 4 = CHR ''4''" "digit_char 5 = CHR ''5''" "digit_char 6 = CHR ''6''" "digit_char 7 = CHR ''7''"
  "digit_char 8 = CHR ''8''" "digit_char 9 = CHR ''9''"
  by (simp_all add: digit_char_def char_of_def bit_0)

lemma is_digit_digit_char [simp]: "d < 10 \<Longrightarrow> is_digit (digit_char d)"
  by (simp add: is_digit_def of_char_digit_char)

lemma digit_of_lt: "is_digit c \<Longrightarrow> digit_of c < 10"
  unfolding is_digit_def digit_of_def by arith

lemma digits_val_append:
  "digits_val (xs @ ys) = digits_val xs * 10 ^ length ys + digits_val ys"
  by (induction xs) (auto simp: algebra_simps power_add)

lemma digits_val_nat_str [simp]: "digits_val (nat_str n) = n"
proof (induction n rule: nat_str.induct)
  case (1 n)
  then show ?case
    by (subst nat_str.simps) (auto simp: digits_val_append)
qed

lemma nat_str_digits: "list_all is_digit (nat_str n)"
proof (induction n rule: nat_str.induct)
  case (1 n)
  then show ?case by (subst nat_str.simps) auto
qed

lemma nat_str_nonempty [simp]: "nat_str n \<noteq> []"
  by (subst nat_str.simps) simp

lemma length_nat_str: "n < 10 ^ k \<Longrightarrow> 0 < k \<Longrightarrow> length (nat_str n) \<le> k"
proof (induction n arbitrary: k rule: nat_str.induct)
  case (1 n)
  show ?case
  proof (cases "n < 10")
    case True
    with "1.prems" show ?thesis by (subst nat_str.simps) simp
  next
    case False
    with "1.prems" obtain j where k: "k = Suc j" "0 < j"
      by (metis One_nat_def not_gr_zero power_one_right gr0_implies_Suc)
    with "1.prems" have "n div 10 < 10 ^ j" by (simp add: div_less_iff_less_mult mult.commute)
    with "1.IH" False k have "length (nat_str (n div 10)) \<le> j" by blast
    with False k show ?thesis by (subst nat_str.simps) simp
  qed
qed

lemma digits_val_replicate0 [simp]: "digits_val (replicate n CHR ''0'') = 0"
  by (induction n) (auto simp: digit_of_def)

lemma digits_val_pad [simp]: "digits_val (pad_start n s) = digits_val s"
  by (simp add: pad_start_def digits_val_append)

lemma pad_digits: "list_all is_digit s \<Longrightarrow> list_all is_digit (pad_start n s)"
  by (auto simp: pad_start_def list_all_iff is_digit_def)

lemma length_pad: "length s \<le> n \<Longrightarrow> length (pad_start n s) = n"
  by (simp add: pad_start_def)

lemma digits_val_lt: "list_all is_digit s \<Longrightarrow> digits_val s < 10 ^ length s"
proof (induction s)
  case (Cons c s)
  then have "digit_of c * 10 ^ length s \<le> 9 * 10 ^ length s"
    by (intro mult_le_mono1) (use digit_of_lt [of c] in simp)
  moreover have "digits_val s < 10 ^ length s" using Cons by simp
  ultimately have "digit_of c * 10 ^ length s + digits_val s < 10 * 10 ^ length s" by linarith
  then show ?case by simp
qed simp

lemma digit_less_iff: "is_digit c \<Longrightarrow> is_digit d \<Longrightarrow> c < d \<longleftrightarrow> digit_of c < digit_of d"
  by (auto simp: is_digit_def digit_of_def less_char_def)

lemma digit_eq_iff: "is_digit c \<Longrightarrow> is_digit d \<Longrightarrow> c = d \<longleftrightarrow> digit_of c = digit_of d"
  by (metis digit_less_iff linorder_neq_iff)

text \<open>Digit strings of one length are ordered as the numbers they write.\<close>

lemma digits_less_iff:
  assumes "length s = length t" "list_all is_digit s" "list_all is_digit t"
  shows "s < t \<longleftrightarrow> digits_val s < digits_val t"
  using assms
proof (induction s t rule: list_induct2)
  case (Cons c s d t)
  let ?N = "10 ^ length t :: nat"
  have bs: "digits_val s < ?N" and bt: "digits_val t < ?N"
    using Cons.hyps Cons.prems digits_val_lt [of s] digits_val_lt [of t] by simp_all
  have dig: "is_digit c" "is_digit d" using Cons.prems by simp_all
  show ?case
  proof (cases "digit_of c" "digit_of d" rule: linorder_cases)
    case less
    then have "Suc (digit_of c) * ?N \<le> digit_of d * ?N" by (intro mult_le_mono1) simp
    with bs have "digits_val (c # s) < digits_val (d # t)" using Cons.hyps by simp
    with less dig show ?thesis by (simp add: digit_less_iff)
  next
    case equal
    with Cons dig show ?thesis by (simp add: digit_eq_iff [symmetric])
  next
    case greater
    then have "Suc (digit_of d) * ?N \<le> digit_of c * ?N" by (intro mult_le_mono1) simp
    with bt have "\<not> digits_val (c # s) < digits_val (d # t)" using Cons.hyps by simp
    with greater dig show ?thesis by (auto simp: digit_less_iff digit_eq_iff)
  qed
qed simp

lemma digits_val_inj:
  assumes "length s = length t" "list_all is_digit s" "list_all is_digit t"
  shows "s = t \<longleftrightarrow> digits_val s = digits_val t"
  using digits_less_iff [OF assms] digits_less_iff [of t s] assms
  by (metis linorder_neq_iff)

end
