(* ===== verification/Hlc.thy ===== *)
theory Hlc
  imports Js_Value
begin

text \<open>
  \<open>src/core/hlc.ts\<close>: hybrid logical clocks. A clock is a record of milliseconds, counter and
  node; \<open>Date.now()\<close> is the argument \<open>wall\<close>. Numbers are integers, exact below \<open>2 ^ 53\<close>.
  The lemmas show that packed clocks, compared as strings, are ordered by milliseconds, then
  counter, then node; that sending and receiving move a clock strictly forward; and that
  parsing inverts packing.
\<close>

record HLC =
  hlc_ms :: int
  hlc_counter :: int
  hlc_node :: string

definition MS_PAD :: nat where
  "MS_PAD = 19"

definition COUNTER_PAD :: nat where
  "COUNTER_PAD = 4"

definition COUNTER_MAX :: int where
  "COUNTER_MAX = 9999"

definition MAX_CLOCK_DRIFT_MS :: int where
  "MAX_CLOCK_DRIFT_MS = 5 * 60 * 1000"

definition createHlc :: "string \<Rightarrow> HLC" where
  "createHlc node = \<lparr>hlc_ms = 0, hlc_counter = 0, hlc_node = node\<rparr>"

definition normalize :: "int \<Rightarrow> int \<Rightarrow> string \<Rightarrow> HLC" where
  "normalize m c node =
     (if c > COUNTER_MAX then \<lparr>hlc_ms = m + 1, hlc_counter = 0, hlc_node = node\<rparr>
      else \<lparr>hlc_ms = m, hlc_counter = c, hlc_node = node\<rparr>)"

definition sendHlc :: "int \<Rightarrow> HLC \<Rightarrow> HLC" where
  "sendHlc wall local =
     (let m = max wall (hlc_ms local);
          c = (if m = hlc_ms local then hlc_counter local + 1 else 0)
      in normalize m c (hlc_node local))"

definition receiveHlc :: "int \<Rightarrow> HLC \<Rightarrow> HLC \<Rightarrow> HLC" where
  "receiveHlc wall local remote =
     (let clamped = min (hlc_ms remote) (wall + MAX_CLOCK_DRIFT_MS);
          m = max (max wall (hlc_ms local)) clamped;
          c = (if m = hlc_ms local \<and> m = clamped
                 then max (hlc_counter local) (hlc_counter remote) + 1
               else if m = hlc_ms local then hlc_counter local + 1
               else if m = clamped then hlc_counter remote + 1
               else 0)
      in normalize m c (hlc_node local))"

definition packHlc :: "HLC \<Rightarrow> string" where
  "packHlc h = pad_start MS_PAD (int_str (hlc_ms h)) @ ''.'' @
     pad_start COUNTER_PAD (int_str (hlc_counter h)) @ ''.'' @ hlc_node h"

definition compareHlc :: "string \<Rightarrow> string \<Rightarrow> int" where
  "compareHlc a b = (if a < b then -1 else if a > b then 1 else 0)"

section \<open>Parsing\<close>

text \<open>
  \<open>Number(s)\<close> on a string with no dot: blanks around it are ignored, the empty string is 0,
  a sign may precede decimal digits, an exponent may follow them, and \<open>0x\<close>, \<open>0o\<close>, \<open>0b\<close>
  start the other bases. Anything else is NaN (\<open>None\<close>), as are here the infinite values and
  the fractions that a negative exponent writes.
\<close>

definition is_blank :: "char \<Rightarrow> bool" where
  "is_blank c \<longleftrightarrow> (of_char c :: nat) \<in> {9, 10, 11, 12, 13, 32, 160}"

definition js_trim :: "string \<Rightarrow> string" where
  "js_trim s = rev (dropWhile is_blank (rev (dropWhile is_blank s)))"

definition base_digit :: "nat \<Rightarrow> char \<Rightarrow> nat option" where
  "base_digit b c =
     (let n = of_char c :: nat;
          d = (if 48 \<le> n \<and> n \<le> 57 then n - 48
               else if 97 \<le> n \<and> n \<le> 102 then n - 87
               else if 65 \<le> n \<and> n \<le> 70 then n - 55 else 99)
      in if d < b then Some d else None)"

fun base_val :: "nat \<Rightarrow> nat \<Rightarrow> string \<Rightarrow> nat option" where
  "base_val b acc [] = Some acc"
| "base_val b acc (c # cs) =
     (case base_digit b c of None \<Rightarrow> None | Some d \<Rightarrow> base_val b (acc * b + d) cs)"

definition digits_number :: "string \<Rightarrow> nat option" where
  "digits_number s = (if s \<noteq> [] \<and> list_all is_digit s then Some (digits_val s) else None)"

definition drop_plus :: "string \<Rightarrow> string" where
  "drop_plus s = (case s of [] \<Rightarrow> [] | c # r \<Rightarrow> if c = CHR ''+'' then r else s)"

definition decimal_number :: "string \<Rightarrow> nat option" where
  "decimal_number s =
     (let m = takeWhile is_digit s; r = dropWhile is_digit s in
      case r of
        [] \<Rightarrow> digits_number m
      | c # e \<Rightarrow>
          if c = CHR ''e'' \<or> c = CHR ''E'' then
            (case (digits_number m, digits_number (drop_plus e)) of
               (Some x, Some p) \<Rightarrow> Some (x * 10 ^ p)
             | _ \<Rightarrow> None)
          else None)"

text \<open>The base a prefix \<open>0x\<close>, \<open>0o\<close> or \<open>0b\<close> selects, and what follows it.\<close>

definition base_prefix :: "string \<Rightarrow> (nat \<times> string) option" where
  "base_prefix s =
     (case s of
        c # d # r \<Rightarrow>
          if c \<noteq> CHR ''0'' \<or> r = [] then None
          else if d = CHR ''x'' \<or> d = CHR ''X'' then Some (16, r)
          else if d = CHR ''o'' \<or> d = CHR ''O'' then Some (8, r)
          else if d = CHR ''b'' \<or> d = CHR ''B'' then Some (2, r)
          else None
      | _ \<Rightarrow> None)"

definition unsigned_number :: "string \<Rightarrow> nat option" where
  "unsigned_number s =
     (case base_prefix s of Some (b, r) \<Rightarrow> base_val b 0 r | None \<Rightarrow> decimal_number s)"

definition signed_number :: "string \<Rightarrow> int option" where
  "signed_number s =
     (case s of
        [] \<Rightarrow> Some 0
      | c # r \<Rightarrow>
          if c = CHR ''-'' then map_option (\<lambda>n. - int n) (decimal_number r)
          else if c = CHR ''+'' then map_option int (decimal_number r)
          else map_option int (unsigned_number s))"

definition FINITE_LIMIT :: int where
  "FINITE_LIMIT = 2 ^ 1024"

definition js_number :: "string \<Rightarrow> int option" where
  "js_number s =
     (case signed_number (js_trim s) of
        Some n \<Rightarrow> if \<bar>n\<bar> < FINITE_LIMIT then Some n else None
      | None \<Rightarrow> None)"

text \<open>
  \<open>unpackHlc\<close> throws on a malformed string: \<open>None\<close>. The two \<open>indexOf\<close> calls split the
  string at its first two dots; the node keeps any further ones.
\<close>

definition unpackHlc :: "string \<Rightarrow> HLC option" where
  "unpackHlc packed =
     (let a = takeWhile (\<lambda>c. c \<noteq> CHR ''.'') packed;
          r = dropWhile (\<lambda>c. c \<noteq> CHR ''.'') packed in
      case r of
        [] \<Rightarrow> None
      | _ # r' \<Rightarrow>
          (let b = takeWhile (\<lambda>c. c \<noteq> CHR ''.'') r';
               t = dropWhile (\<lambda>c. c \<noteq> CHR ''.'') r' in
           case t of
             [] \<Rightarrow> None
           | _ # node \<Rightarrow>
               (case (js_number a, js_number b) of
                  (Some m, Some c) \<Rightarrow>
                    if node = [] then None
                    else Some \<lparr>hlc_ms = m, hlc_counter = c, hlc_node = node\<rparr>
                | _ \<Rightarrow> None)))"

section \<open>Well-formed clocks\<close>

text \<open>
  The clocks whose packed form is ordered: what \<open>sendHlc\<close> and \<open>receiveHlc\<close> produce, with the
  milliseconds inside the 19 digits of the padding.
\<close>

definition hlc_ok :: "HLC \<Rightarrow> bool" where
  "hlc_ok h \<longleftrightarrow> 0 \<le> hlc_ms h \<and> hlc_ms h < 10 ^ MS_PAD \<and> 0 \<le> hlc_counter h
     \<and> hlc_counter h \<le> COUNTER_MAX"

text \<open>The order the packed strings should have.\<close>

definition hlc_less :: "HLC \<Rightarrow> HLC \<Rightarrow> bool" where
  "hlc_less a b \<longleftrightarrow> hlc_ms a < hlc_ms b \<or> (hlc_ms a = hlc_ms b \<and>
     (hlc_counter a < hlc_counter b \<or> (hlc_counter a = hlc_counter b \<and> hlc_node a < hlc_node b)))"

lemmas hlc_consts = MS_PAD_def COUNTER_PAD_def COUNTER_MAX_def MAX_CLOCK_DRIFT_MS_def

lemma int_str_nonneg: "0 \<le> i \<Longrightarrow> int_str i = nat_str (nat i)"
  by (simp add: int_str_def)

lemma padded_facts:
  assumes "0 \<le> i" "i < 10 ^ k" "0 < k"
  shows "length (pad_start k (int_str i)) = k"
    and "list_all is_digit (pad_start k (int_str i))"
    and "digits_val (pad_start k (int_str i)) = nat i"
proof -
  from assms have "nat i < 10 ^ k" by (simp add: nat_less_iff)
  with assms show "length (pad_start k (int_str i)) = k"
    by (simp add: int_str_nonneg length_pad length_nat_str)
  show "list_all is_digit (pad_start k (int_str i))"
    and "digits_val (pad_start k (int_str i)) = nat i"
    using assms by (simp_all add: int_str_nonneg pad_digits nat_str_digits)
qed

lemma padded_less_iff:
  assumes "0 \<le> i" "i < 10 ^ k" "0 \<le> j" "j < 10 ^ k" "0 < k"
  shows "pad_start k (int_str i) < pad_start k (int_str j) \<longleftrightarrow> i < j"
    and "pad_start k (int_str i) = pad_start k (int_str j) \<longleftrightarrow> i = j"
  using padded_facts [OF assms(1,2,5)] padded_facts [OF assms(3,4,5)] assms(1,3)
  by (auto simp: digits_less_iff digits_val_inj)

lemma hlc_ok_padded:
  assumes "hlc_ok h"
  shows "0 \<le> hlc_ms h" "hlc_ms h < 10 ^ MS_PAD" "0 \<le> hlc_counter h"
    "hlc_counter h < 10 ^ COUNTER_PAD" "0 < MS_PAD" "0 < COUNTER_PAD"
  using assms by (auto simp: hlc_ok_def hlc_consts)

lemma packHlc_less:
  assumes "hlc_ok a" "hlc_ok b"
  shows "packHlc a < packHlc b \<longleftrightarrow> hlc_less a b"
proof -
  note oka = hlc_ok_padded [OF assms(1)] and okb = hlc_ok_padded [OF assms(2)]
  note la = padded_facts(1) [OF oka(1,2,5)] and lb = padded_facts(1) [OF okb(1,2,5)]
  note ca = padded_facts(1) [OF oka(3,4,6)] and cb = padded_facts(1) [OF okb(3,4,6)]
  show ?thesis
    unfolding packHlc_def hlc_less_def
    by (simp add: append_less_append la lb ca cb
        padded_less_iff [OF oka(1,2) okb(1,2) oka(5)] padded_less_iff [OF oka(3,4) okb(3,4) oka(6)])
qed

lemma hlc_less_total: "\<not> hlc_less a b \<Longrightarrow> \<not> hlc_less b a \<Longrightarrow> a = (b :: HLC)"
  by (cases a; cases b) (auto simp: hlc_less_def)

lemma hlc_less_trans: "hlc_less a b \<Longrightarrow> hlc_less b c \<Longrightarrow> hlc_less a c"
  by (auto simp: hlc_less_def)

lemma packHlc_inj: "hlc_ok a \<Longrightarrow> hlc_ok b \<Longrightarrow> packHlc a = packHlc b \<Longrightarrow> a = b"
  using packHlc_less [of a b] packHlc_less [of b a] hlc_less_total by auto

section \<open>Sending and receiving\<close>

lemma normalize_facts:
  assumes "0 \<le> m" "m + 1 < 10 ^ MS_PAD" "0 \<le> c"
  shows "hlc_ok (normalize m c node)"
  using assms by (auto simp: normalize_def hlc_ok_def hlc_consts)

lemma sendHlc_ok:
  "hlc_ok h \<Longrightarrow> max wall (hlc_ms h) + 1 < 10 ^ MS_PAD \<Longrightarrow> hlc_ok (sendHlc wall h)"
  unfolding sendHlc_def Let_def by (intro normalize_facts) (auto simp: hlc_ok_def hlc_consts)

lemma sendHlc_less: "hlc_ok h \<Longrightarrow> hlc_less h (sendHlc wall h)"
  by (auto simp: sendHlc_def Let_def normalize_def hlc_less_def max_def)

lemma receiveHlc_ok:
  assumes "hlc_ok local" "0 \<le> hlc_counter remote" "0 \<le> wall"
    and "wall + MAX_CLOCK_DRIFT_MS + 1 < 10 ^ MS_PAD" "hlc_ms local + 1 < 10 ^ MS_PAD"
  shows "hlc_ok (receiveHlc wall local remote)"
  using assms unfolding receiveHlc_def Let_def
  by (intro normalize_facts) (auto simp: hlc_ok_def hlc_consts)

lemma receiveHlc_less_local: "hlc_less local (receiveHlc wall local remote)"
  by (auto simp: receiveHlc_def Let_def normalize_def hlc_less_def max_def min_def)

lemma receiveHlc_less_remote:
  "hlc_ms remote \<le> wall + MAX_CLOCK_DRIFT_MS \<Longrightarrow> hlc_less remote (receiveHlc wall local remote)"
  by (auto simp: receiveHlc_def Let_def normalize_def hlc_less_def max_def min_def)

section \<open>Parsing inverts packing\<close>

lemma digit_not_blank: "is_digit c \<Longrightarrow> \<not> is_blank c"
  by (auto simp: is_digit_def is_blank_def)

lemma dropWhile_blank_digits: "list_all is_digit s \<Longrightarrow> dropWhile is_blank s = s"
  by (cases s) (simp_all add: digit_not_blank)

lemma js_trim_digits: "list_all is_digit s \<Longrightarrow> js_trim s = s"
  by (simp add: js_trim_def dropWhile_blank_digits)

lemma decimal_number_digits:
  assumes "list_all is_digit s" "s \<noteq> []"
  shows "decimal_number s = Some (digits_val s)"
proof -
  have "takeWhile is_digit s = s" "dropWhile is_digit s = []"
    using assms(1) by (simp_all add: list_all_iff)
  with assms show ?thesis by (simp only: decimal_number_def digits_number_def) simp
qed

lemma digit_not_special:
  assumes "is_digit c"
  shows "c \<noteq> CHR ''-''" "c \<noteq> CHR ''+''" "c \<noteq> CHR ''.''"
    "c \<noteq> CHR ''x''" "c \<noteq> CHR ''X''" "c \<noteq> CHR ''o''" "c \<noteq> CHR ''O''"
    "c \<noteq> CHR ''b''" "c \<noteq> CHR ''B''"
  using assms by (auto simp: is_digit_def)

lemma base_prefix_digits: "list_all is_digit s \<Longrightarrow> base_prefix s = None"
  unfolding base_prefix_def
  by (cases s; cases "tl s") (simp_all add: digit_not_special)

lemma js_number_digits:
  assumes "list_all is_digit s" "s \<noteq> []" "int (digits_val s) < FINITE_LIMIT"
  shows "js_number s = Some (int (digits_val s))"
proof -
  have "unsigned_number s = Some (digits_val s)"
    using assms by (simp add: unsigned_number_def base_prefix_digits decimal_number_digits)
  moreover from assms obtain c r where "s = c # r" "is_digit c" by (cases s) auto
  ultimately have "signed_number s = Some (int (digits_val s))"
    by (simp add: signed_number_def digit_not_special)
  then show ?thesis using assms by (simp add: js_number_def js_trim_digits)
qed

lemma takeWhile_dot:
  "list_all is_digit s \<Longrightarrow> takeWhile (\<lambda>c. c \<noteq> CHR ''.'') (s @ CHR ''.'' # t) = s"
  "list_all is_digit s \<Longrightarrow> dropWhile (\<lambda>c. c \<noteq> CHR ''.'') (s @ CHR ''.'' # t) = CHR ''.'' # t"
  by (induction s) (auto simp: digit_not_special)

lemma padded_number:
  assumes "0 \<le> i" "i < 10 ^ k" "0 < k" "k \<le> 300"
  shows "js_number (pad_start k (int_str i)) = Some i"
proof -
  note f = padded_facts [OF assms(1,2,3)]
  have "(10::int) ^ k \<le> 10 ^ 300" using assms(4) by (intro power_increasing) auto
  moreover have "(10::int) ^ 300 < FINITE_LIMIT" by (simp add: FINITE_LIMIT_def)
  ultimately have "i < FINITE_LIMIT" using assms(2) by linarith
  moreover have "pad_start k (int_str i) \<noteq> []" using f(1) assms(3) by auto
  ultimately show ?thesis using js_number_digits [OF f(2)] f(3) assms(1) by simp
qed

lemma unpack_pack:
  assumes "hlc_ok h" "hlc_node h \<noteq> []"
  shows "unpackHlc (packHlc h) = Some h"
proof -
  note ok = hlc_ok_padded [OF assms(1)]
  have k: "MS_PAD \<le> 300" "COUNTER_PAD \<le> 300" by (simp_all add: hlc_consts)
  show ?thesis
    using assms(2)
    by (simp add: packHlc_def unpackHlc_def takeWhile_dot padded_facts(2) [OF ok(1,2,5)]
        padded_facts(2) [OF ok(3,4,6)] padded_number [OF ok(1,2,5) k(1)]
        padded_number [OF ok(3,4,6) k(2)])
qed

section \<open>The interface of a stamping clock\<close>

text \<open>
  Whoever stamps operations (the client's op creator, the server's clock) relies on one law:
  each stamp is greater, as a string, than the one before. Inside the locale this makes every
  run of stamps strictly increasing.
\<close>

locale stamping_clock =
  fixes tick :: "int \<Rightarrow> 'c \<Rightarrow> 'c"
    and stamp :: "'c \<Rightarrow> string"
    and ok :: "'c \<Rightarrow> bool"
    and room :: "int \<Rightarrow> 'c \<Rightarrow> bool"
  assumes tick_less: "ok c \<Longrightarrow> room w c \<Longrightarrow> stamp c < stamp (tick w c)"
    and tick_ok: "ok c \<Longrightarrow> room w c \<Longrightarrow> ok (tick w c)"
begin

fun stamps :: "int list \<Rightarrow> 'c \<Rightarrow> string list" where
  "stamps [] c = []"
| "stamps (w # ws) c = stamp (tick w c) # stamps ws (tick w c)"

fun all_room :: "int list \<Rightarrow> 'c \<Rightarrow> bool" where
  "all_room [] c = True"
| "all_room (w # ws) c = (room w c \<and> all_room ws (tick w c))"

lemma stamps_above: "ok c \<Longrightarrow> all_room ws c \<Longrightarrow> s \<in> set (stamps ws c) \<Longrightarrow> stamp c < s"
  by (induction ws arbitrary: c) (auto dest: tick_less tick_ok intro: less_trans)

lemma stamps_increasing: "ok c \<Longrightarrow> all_room ws c \<Longrightarrow> sorted_wrt (<) (stamps ws c)"
  by (induction ws arbitrary: c) (auto dest: tick_ok stamps_above)

lemma stamps_distinct: "ok c \<Longrightarrow> all_room ws c \<Longrightarrow> distinct (stamps ws c)"
  using stamps_increasing [of c ws] by (simp add: strict_sorted_iff)

end

text \<open>There is room for a tick while the milliseconds stay inside the padding.\<close>

definition hlc_room :: "int \<Rightarrow> HLC \<Rightarrow> bool" where
  "hlc_room wall h \<longleftrightarrow> max wall (hlc_ms h) + 1 < 10 ^ MS_PAD"

interpretation hlc: stamping_clock sendHlc packHlc hlc_ok hlc_room
proof
  fix c w
  assume ok: "hlc_ok c" "hlc_room w c"
  then show "hlc_ok (sendHlc w c)" by (simp add: hlc_room_def sendHlc_ok)
  with ok show "packHlc c < packHlc (sendHlc w c)"
    by (simp add: packHlc_less sendHlc_less)
qed

section \<open>What the clocks promise\<close>

text \<open>C4: comparing two packed clocks as strings compares the clocks themselves: by milliseconds,
  then counter, then node, and two clocks pack to the same string only when they are equal.\<close>

theorem packed_order_is_clock_order:
  assumes "hlc_ok a" "hlc_ok b"
  shows "compareHlc (packHlc a) (packHlc b) =
    (if hlc_less a b then -1 else if hlc_less b a then 1 else 0)
    \<and> (packHlc a = packHlc b \<longleftrightarrow> a = b)"
  using packHlc_less [OF assms] packHlc_less [OF assms(2,1)] packHlc_inj [OF assms] hlc_less_total
  by (auto simp: compareHlc_def)

theorem packed_order_is_clock_order_witness:
  "compareHlc (packHlc \<lparr>hlc_ms = 99, hlc_counter = 0, hlc_node = ''a''\<rparr>)
      (packHlc \<lparr>hlc_ms = 100, hlc_counter = 12, hlc_node = ''b''\<rparr>) = -1"
  using packed_order_is_clock_order [of "\<lparr>hlc_ms = 99, hlc_counter = 0, hlc_node = ''a''\<rparr>"
      "\<lparr>hlc_ms = 100, hlc_counter = 12, hlc_node = ''b''\<rparr>"]
  by (simp add: hlc_ok_def hlc_consts hlc_less_def)

text \<open>C5: however the wall clock moves, back included, the stamps of a run of sends are strictly
  increasing as strings, also across the roll of a full counter into the milliseconds.\<close>

theorem send_stamps_strictly_increase:
  assumes "hlc_ok h" "hlc.all_room walls h"
  shows "sorted_wrt (<) (packHlc h # hlc.stamps walls h)"
  using hlc.stamps_increasing [OF assms] hlc.stamps_above [OF assms] by auto

theorem send_stamps_strictly_increase_witness:
  "sorted_wrt (<) (packHlc \<lparr>hlc_ms = 7, hlc_counter = 9999, hlc_node = ''n''\<rparr>
     # hlc.stamps [7, 3, 8] \<lparr>hlc_ms = 7, hlc_counter = 9999, hlc_node = ''n''\<rparr>)"
  by (rule send_stamps_strictly_increase)
    (simp_all add: hlc_ok_def hlc_consts hlc_room_def sendHlc_def normalize_def)

text \<open>Receiving a remote clock gives a clock above the local one and, when the remote one is
  within the drift allowed of the wall clock, above the remote one too, as packed strings.\<close>

theorem receive_exceeds_both:
  assumes "hlc_ok l" "hlc_ok remote" "0 \<le> wall"
    and "wall + MAX_CLOCK_DRIFT_MS + 1 < 10 ^ MS_PAD" "hlc_ms l + 1 < 10 ^ MS_PAD"
  shows "packHlc l < packHlc (receiveHlc wall l remote)
    \<and> (hlc_ms remote \<le> wall + MAX_CLOCK_DRIFT_MS \<longrightarrow>
         packHlc remote < packHlc (receiveHlc wall l remote))"
proof -
  have ok: "hlc_ok (receiveHlc wall l remote)"
    using assms by (intro receiveHlc_ok) (simp_all add: hlc_ok_def)
  then show ?thesis
    using packHlc_less [OF assms(1)] packHlc_less [OF assms(2)]
      receiveHlc_less_local receiveHlc_less_remote by simp
qed

theorem receive_exceeds_both_witness:
  "packHlc \<lparr>hlc_ms = 50, hlc_counter = 9999, hlc_node = ''b''\<rparr> <
   packHlc (receiveHlc 10 \<lparr>hlc_ms = 50, hlc_counter = 3, hlc_node = ''a''\<rparr>
     \<lparr>hlc_ms = 50, hlc_counter = 9999, hlc_node = ''b''\<rparr>)"
  using receive_exceeds_both [of "\<lparr>hlc_ms = 50, hlc_counter = 3, hlc_node = ''a''\<rparr>"
      "\<lparr>hlc_ms = 50, hlc_counter = 9999, hlc_node = ''b''\<rparr>" 10]
  by (simp add: hlc_ok_def hlc_consts)

text \<open>C6: a remote clock, whatever it claims, never drags the local one further ahead of the wall
  clock than the allowed drift and the one millisecond of a counter roll.\<close>

theorem receive_bounded_by_drift:
  "hlc_ms (receiveHlc wall l remote) \<le> max (hlc_ms l) (wall + MAX_CLOCK_DRIFT_MS) + 1"
  by (auto simp: receiveHlc_def Let_def normalize_def hlc_consts max_def min_def)

text \<open>Parsing a packed clock gives the clock back, whatever dots its node contains.\<close>

theorem unpack_inverts_pack:
  assumes "hlc_ok h" "hlc_node h \<noteq> []"
  shows "unpackHlc (packHlc h) = Some h"
  by (rule unpack_pack [OF assms])

theorem unpack_inverts_pack_witness:
  "unpackHlc (packHlc \<lparr>hlc_ms = 1700000000000, hlc_counter = 42, hlc_node = ''a.b''\<rparr>) =
     Some \<lparr>hlc_ms = 1700000000000, hlc_counter = 42, hlc_node = ''a.b''\<rparr>"
  by (rule unpack_inverts_pack) (simp_all add: hlc_ok_def hlc_consts)

end
