(* ===== verification/Text_Diff.thy ===== *)
theory Text_Diff
  imports Text_Merge
begin

text \<open>
  Correctness of \<open>diffText\<close>. \<open>far d k\<close> is the furthest point the greedy search reaches on
  diagonal \<open>k\<close> with \<open>d\<close> edits, as a function; the array of the code holds these values. The
  search stops at the first level on which some diagonal leaves the grid at both borders, and
  that point is the end of both texts (\<open>first_hit\<close>), although the search also follows points
  outside the grid. The walk back over the trace then yields an edit script
  (\<open>script_to\<close>), and folding a script into hunks gives a list that turns one text into the
  other.
\<close>

section \<open>Snakes\<close>

definition snake :: "(int \<Rightarrow> int \<Rightarrow> bool) \<Rightarrow> int \<Rightarrow> int \<Rightarrow> int \<Rightarrow> int \<Rightarrow> int \<Rightarrow> bool" where
  "snake eq n m x y j \<longleftrightarrow> 0 \<le> j \<and> (\<forall>i. 0 \<le> i \<longrightarrow> i < j \<longrightarrow> x + i < n \<and> y + i < m \<and> eq (x + i) (y + i))"

lemma slide_snake:
  "\<exists>j. slide eq n m x y = (x + j, y + j) \<and> snake eq n m x y j"
proof (induction eq n m x y rule: slide.induct)
  case (1 eq n m x y)
  show ?case
  proof (cases "x < n \<and> y < m \<and> eq x y")
    case True
    with "1" obtain j where j: "slide eq n m (x + 1) (y + 1) = (x + 1 + j, y + 1 + j)"
      "snake eq n m (x + 1) (y + 1) j" by blast
    have "snake eq n m x y (j + 1)"
      unfolding snake_def
    proof (intro conjI allI impI)
      show "0 \<le> j + 1" using j(2) by (simp add: snake_def)
      fix i assume i: "0 \<le> i" "i < j + 1"
      have "i = 0 \<or> (x + 1 + (i - 1) < n \<and> y + 1 + (i - 1) < m \<and> eq (x + 1 + (i - 1)) (y + 1 + (i - 1)))"
        using j(2) i unfolding snake_def by (metis add_le_imp_le_diff add.commute diff_less_eq
            int_one_le_iff_zero_less linorder_not_le nle_le add_0 zle_diff1_eq le_less)
      then show "x + i < n" "y + i < m" "eq (x + i) (y + i)" using True by auto
    qed
    with j True show ?thesis
      by (subst slide.simps) (auto simp: ac_simps intro!: exI [of _ "j + 1"])
  next
    case False
    then show ?thesis by (subst slide.simps) (auto simp: snake_def intro!: exI [of _ 0])
  qed
qed

lemma snake_bound: "snake eq n m x y j \<Longrightarrow> 0 < j \<Longrightarrow> x + j \<le> n \<and> y + j \<le> m"
  unfolding snake_def by (elim conjE allE [of _ "j - 1"]) auto

lemma slide_ge: "x \<le> fst (slide eq n m x y)"
  using slide_snake [of eq n m x y] by (auto simp: snake_def)

lemma slide_snd: "snd (slide eq n m x y) = fst (slide eq n m x y) - x + y"
  using slide_snake [of eq n m x y] by auto

lemma slide_stuck: "n < fst (slide eq n m x y) \<or> m < snd (slide eq n m x y) \<Longrightarrow> fst (slide eq n m x y) = x"
  using slide_snake [of eq n m x y] snake_bound [of eq n m x y] by (fastforce simp: snake_def)

section \<open>Furthest points\<close>

fun far :: "(int \<Rightarrow> int \<Rightarrow> bool) \<Rightarrow> int \<Rightarrow> int \<Rightarrow> nat \<Rightarrow> int \<Rightarrow> int" where
  "far eq n m 0 k = fst (slide eq n m 0 (- k))"
| "far eq n m (Suc d) k =
     (let x = (if k = - int (Suc d) \<or> (k \<noteq> int (Suc d) \<and> far eq n m d (k - 1) < far eq n m d (k + 1))
               then far eq n m d (k + 1) else far eq n m d (k - 1) + 1)
      in fst (slide eq n m x (x - k)))"

text \<open>The diagonals level \<open>d\<close> visits.\<close>

definition diag :: "nat \<Rightarrow> int \<Rightarrow> bool" where
  "diag d k \<longleftrightarrow> - int d \<le> k \<and> k \<le> int d \<and> even (k + int d)"

definition from_above :: "(int \<Rightarrow> int \<Rightarrow> bool) \<Rightarrow> int \<Rightarrow> int \<Rightarrow> nat \<Rightarrow> int \<Rightarrow> bool" where
  "from_above eq n m d k \<longleftrightarrow>
     k = - int (Suc d) \<or> (k \<noteq> int (Suc d) \<and> far eq n m d (k - 1) < far eq n m d (k + 1))"

definition start_x :: "(int \<Rightarrow> int \<Rightarrow> bool) \<Rightarrow> int \<Rightarrow> int \<Rightarrow> nat \<Rightarrow> int \<Rightarrow> int" where
  "start_x eq n m d k =
     (if from_above eq n m d k then far eq n m d (k + 1) else far eq n m d (k - 1) + 1)"

lemma far_Suc: "far eq n m (Suc d) k = fst (slide eq n m (start_x eq n m d k) (start_x eq n m d k - k))"
  by (simp add: start_x_def from_above_def Let_def)

declare far.simps(2) [simp del]

lemma diag_0: "diag 0 k \<longleftrightarrow> k = 0"
  by (auto simp: diag_def)

lemma diag_above: "diag (Suc d) k \<Longrightarrow> from_above eq n m d k \<Longrightarrow> diag d (k + 1)"
  by (auto simp: diag_def from_above_def) presburger+

lemma diag_left: "diag (Suc d) k \<Longrightarrow> \<not> from_above eq n m d k \<Longrightarrow> diag d (k - 1)"
  by (auto simp: diag_def from_above_def) presburger+

lemma far_up: "diag d k \<Longrightarrow> far eq n m d k + 1 \<le> far eq n m (Suc d) (k + 1)"
proof -
  assume "diag d k"
  then have "far eq n m d k + 1 \<le> start_x eq n m d (k + 1)"
    by (auto simp: start_x_def from_above_def diag_def)
  then show ?thesis using slide_ge far_Suc by (metis order_trans)
qed

lemma far_down: "diag d k \<Longrightarrow> far eq n m d k \<le> far eq n m (Suc d) (k - 1)"
proof -
  assume "diag d k"
  then have "far eq n m d k \<le> start_x eq n m d (k - 1)"
    by (auto simp: start_x_def from_above_def diag_def)
  then show ?thesis using slide_ge far_Suc by (metis order_trans)
qed

lemma far_nonneg: "diag d k \<Longrightarrow> 0 \<le> far eq n m d k \<and> k \<le> far eq n m d k"
proof (induction d arbitrary: k)
  case 0
  then show ?case using slide_ge [of 0 eq n m 0] by (simp add: diag_0)
next
  case (Suc d)
  let ?x = "start_x eq n m d k"
  have "0 \<le> ?x \<and> k \<le> ?x"
  proof (cases "from_above eq n m d k")
    case True
    with Suc.IH [OF diag_above [OF Suc.prems True]] show ?thesis by (simp add: start_x_def)
  next
    case False
    with Suc.IH [OF diag_left [OF Suc.prems False]] show ?thesis by (simp add: start_x_def)
  qed
  then show ?case using slide_ge [of ?x eq n m "?x - k"] by (simp add: far_Suc)
qed

lemma far_stuck:
  "n < far eq n m (Suc d) k \<or> m < far eq n m (Suc d) k - k \<Longrightarrow> far eq n m (Suc d) k = start_x eq n m d k"
  using slide_stuck [of n eq m] by (simp add: far_Suc slide_snd)

lemma far_0: "0 \<le> n \<Longrightarrow> 0 \<le> m \<Longrightarrow> far eq n m 0 0 \<le> n \<and> far eq n m 0 0 \<le> m"
  using slide_snake [of eq n m 0 0] snake_bound [of eq n m 0 0] by (fastforce simp: snake_def)

text \<open>A point right of the grid has been reached with fewer edits at the border already.\<close>

lemma past_right:
  assumes "0 \<le> n" "0 \<le> m" "diag d k" "n < far eq n m d k" "far eq n m d k = n + int e"
  shows "e \<le> d \<and> diag (d - e) (k - int e) \<and> n \<le> far eq n m (d - e) (k - int e)"
  using assms(3-5)
proof (induction d arbitrary: k e)
  case 0
  then show ?case using far_0 [OF assms(1,2), of eq] by (simp add: diag_0)
next
  case (Suc d)
  have st: "far eq n m (Suc d) k = start_x eq n m d k" using Suc.prems by (intro far_stuck) simp
  obtain e' where e: "e = Suc e'" using Suc.prems by (cases e) auto
  show ?case
  proof (cases "from_above eq n m d k")
    case True
    have dg: "diag d (k + 1)" using Suc.prems True by (intro diag_above)
    have "far eq n m d (k + 1) = n + int e" using st True Suc.prems by (simp add: start_x_def)
    with Suc.IH [OF dg] Suc.prems have h: "e \<le> d" "diag (d - e) (k + 1 - int e)"
      "n \<le> far eq n m (d - e) (k + 1 - int e)" by auto
    have "far eq n m (d - e) (k + 1 - int e) \<le> far eq n m (Suc (d - e)) (k - int e)"
      using far_down [OF h(2)] by (simp add: algebra_simps)
    with h show ?thesis by (auto simp: Suc_diff_le diag_def)
  next
    case False
    have dg: "diag d (k - 1)" using Suc.prems False by (intro diag_left)
    have f: "far eq n m d (k - 1) = n + int e'" using st False Suc.prems e by (simp add: start_x_def)
    show ?thesis
    proof (cases "e' = 0")
      case True
      with f e dg show ?thesis by (simp add: diag_def)
    next
      case e0: False
      with Suc.IH [OF dg] f have "e' \<le> d" "diag (d - e') (k - 1 - int e')"
        "n \<le> far eq n m (d - e') (k - 1 - int e')" by auto
      with e show ?thesis by (simp add: algebra_simps)
    qed
  qed
qed

text \<open>The same below the grid.\<close>

lemma past_bottom:
  assumes "0 \<le> n" "0 \<le> m" "diag d k" "m < far eq n m d k - k" "far eq n m d k - k = m + int e"
  shows "e \<le> d \<and> diag (d - e) (k + int e) \<and> far eq n m d k \<le> far eq n m (d - e) (k + int e)"
  using assms(3-5)
proof (induction d arbitrary: k e)
  case 0
  then show ?case using far_0 [OF assms(1,2), of eq] by (simp add: diag_0)
next
  case (Suc d)
  have st: "far eq n m (Suc d) k = start_x eq n m d k" using Suc.prems by (intro far_stuck) simp
  obtain e' where e: "e = Suc e'" using Suc.prems by (cases e) auto
  show ?case
  proof (cases "from_above eq n m d k")
    case True
    have dg: "diag d (k + 1)" using Suc.prems True by (intro diag_above)
    have f: "far eq n m d (k + 1) = far eq n m (Suc d) k" using st True by (simp add: start_x_def)
    show ?thesis
    proof (cases "e' = 0")
      case True
      with f e dg show ?thesis by (simp add: diag_def)
    next
      case e0: False
      have "m < far eq n m d (k + 1) - (k + 1)" "far eq n m d (k + 1) - (k + 1) = m + int e'"
        using f e e0 Suc.prems by auto
      with Suc.IH [OF dg] have "e' \<le> d" "diag (d - e') (k + 1 + int e')"
        "far eq n m d (k + 1) \<le> far eq n m (d - e') (k + 1 + int e')" by auto
      with e f show ?thesis by (simp add: algebra_simps)
    qed
  next
    case False
    have dg: "diag d (k - 1)" using Suc.prems False by (intro diag_left)
    have f: "far eq n m d (k - 1) + 1 = far eq n m (Suc d) k" using st False by (simp add: start_x_def)
    have "m < far eq n m d (k - 1) - (k - 1)" "far eq n m d (k - 1) - (k - 1) = m + int e"
      using f Suc.prems by auto
    with Suc.IH [OF dg] have h: "e \<le> d" "diag (d - e) (k - 1 + int e)"
      "far eq n m d (k - 1) \<le> far eq n m (d - e) (k - 1 + int e)" by auto
    have "far eq n m (d - e) (k - 1 + int e) + 1 \<le> far eq n m (Suc (d - e)) (k + int e)"
      using far_up [OF h(2)] by (simp add: algebra_simps)
    with h f show ?thesis by (auto simp: Suc_diff_le diag_def)
  qed
qed

definition hit :: "(int \<Rightarrow> int \<Rightarrow> bool) \<Rightarrow> int \<Rightarrow> int \<Rightarrow> nat \<Rightarrow> int \<Rightarrow> bool" where
  "hit eq n m d k \<longleftrightarrow> n \<le> far eq n m d k \<and> m \<le> far eq n m d k - k"

lemma first_hit:
  assumes nm: "0 \<le> n" "0 \<le> m" and dg: "diag d k" and h: "hit eq n m d k"
    and first: "\<And>d' k'. d' < d \<Longrightarrow> diag d' k' \<Longrightarrow> \<not> hit eq n m d' k'"
  shows "k = n - m \<and> far eq n m d k = n"
proof -
  have x: "far eq n m d k = n"
  proof (rule ccontr)
    assume "far eq n m d k \<noteq> n"
    with h have gt: "n < far eq n m d k" by (simp add: hit_def)
    define e where "e = nat (far eq n m d k - n)"
    have e: "far eq n m d k = n + int e" "0 < e" using gt by (simp_all add: e_def)
    from past_right [OF nm dg gt e(1)] e h have "hit eq n m (d - e) (k - int e)"
      "diag (d - e) (k - int e)" "d - e < d" by (auto simp: hit_def)
    with first show False by blast
  qed
  have y: "far eq n m d k - k = m"
  proof (rule ccontr)
    assume "far eq n m d k - k \<noteq> m"
    with h have gt: "m < far eq n m d k - k" by (simp add: hit_def)
    define e where "e = nat (far eq n m d k - k - m)"
    have e: "far eq n m d k - k = m + int e" "0 < e" using gt by (simp_all add: e_def)
    from past_bottom [OF nm dg gt e(1)] e h have "hit eq n m (d - e) (k + int e)"
      "diag (d - e) (k + int e)" "d - e < d" by (auto simp: hit_def)
    with first show False by blast
  qed
  from x y show ?thesis by simp
qed

section \<open>The search\<close>

text \<open>The array the search enters level \<open>d\<close> with.\<close>

definition level_in :: "(int \<Rightarrow> int \<Rightarrow> bool) \<Rightarrow> int \<Rightarrow> int \<Rightarrow> int \<Rightarrow> int list \<Rightarrow> nat \<Rightarrow> bool" where
  "level_in eq n m offset v d \<longleftrightarrow>
     (case d of 0 \<Rightarrow> rd v (offset + 1) = 0
      | Suc d' \<Rightarrow> \<forall>k. diag d' k \<longrightarrow> rd v (offset + k) = far eq n m d' k)"

lemma step_point_far:
  assumes "level_in eq n m offset v d" "diag d k"
  shows "step_point eq n m offset v (int d) k = (far eq n m d k, far eq n m d k - k)"
proof (cases d)
  case 0
  with assms show ?thesis
    by (simp add: step_point_def step_down_def level_in_def diag_0 prod_eq_iff slide_snd)
next
  case (Suc d')
  have dn: "step_down v offset (int d) k = from_above eq n m d' k"
  proof (cases "k = - int d \<or> k = int d")
    case True
    with Suc show ?thesis by (auto simp: step_down_def from_above_def)
  next
    case False
    then have "diag d' (k - 1)" "diag d' (k + 1)"
      using assms(2) Suc by (auto simp: diag_def) presburger+
    with assms(1) Suc have "rd v (offset + (k - 1)) = far eq n m d' (k - 1)"
      "rd v (offset + (k + 1)) = far eq n m d' (k + 1)" by (auto simp: level_in_def)
    with False Suc show ?thesis by (simp add: step_down_def from_above_def algebra_simps)
  qed
  have "(if from_above eq n m d' k then rd v (offset + k + 1) else rd v (offset + k - 1) + 1)
      = start_x eq n m d' k"
  proof (cases "from_above eq n m d' k")
    case True
    with diag_above assms Suc have "diag d' (k + 1)" by blast
    with assms(1) Suc have "rd v (offset + (k + 1)) = far eq n m d' (k + 1)"
      by (simp add: level_in_def)
    with True show ?thesis by (simp add: start_x_def algebra_simps)
  next
    case False
    with diag_left assms Suc have "diag d' (k - 1)" by blast
    with assms(1) Suc have "rd v (offset + (k - 1)) = far eq n m d' (k - 1)"
      by (simp add: level_in_def)
    with False show ?thesis by (simp add: start_x_def algebra_simps)
  qed
  then have "step_point eq n m offset v (int d) k = slide eq n m (start_x eq n m d' k) (start_x eq n m d' k - k)"
    unfolding step_point_def dn Let_def by simp
  then show ?thesis using Suc by (simp add: far_Suc prod_eq_iff slide_snd)
qed

lemma rd_wr:
  "0 \<le> i \<Longrightarrow> i < int (length v) \<Longrightarrow> 0 \<le> j \<Longrightarrow> rd (wr v i x) j = (if i = j then x else rd v j)"
  by (auto simp: rd_def wr_def nth_list_update)

lemma length_wr [simp]: "length (wr v i x) = length v"
  by (simp add: wr_def)

text \<open>One level: every diagonal of the level is written, or the scan stopped at a hit.\<close>

lemma scan_level:
  assumes "level_in eq n m offset v d" "offset = int L + 1" "d \<le> L"
    and "diag d k \<or> k = int d + 2" "length next = 2 * L + 3"
    and "\<forall>k'. diag d k' \<longrightarrow> k' < k \<longrightarrow> rd next (offset + k') = far eq n m d k' \<and> \<not> hit eq n m d k'"
    and "scan_diagonals eq n m offset v (int d) k next = (next', b)"
  shows "length next' = 2 * L + 3 \<and>
    (if b then \<exists>k. diag d k \<and> hit eq n m d k
     else \<forall>k. diag d k \<longrightarrow> rd next' (offset + k) = far eq n m d k \<and> \<not> hit eq n m d k)"
  using assms(4-7)
proof (induction "nat (int d + 2 - k)" arbitrary: k "next" rule: less_induct)
  case less
  note sc = less.prems(4)
  show ?case
  proof (cases "k \<le> int d")
    case False
    with sc have "next' = next" "b = False" by (simp_all add: scan_diagonals.simps [of _ _ _ _ _ _ k])
    moreover have "\<And>k'. diag d k' \<Longrightarrow> k' < k" using False by (simp add: diag_def)
    ultimately show ?thesis using less.prems by auto
  next
    case True
    with less.prems(1) have dg: "diag d k" by auto
    let ?nx = "wr next (offset + k) (far eq n m d k)"
    note pt = step_point_far [OF assms(1) dg]
    show ?thesis
    proof (cases "hit eq n m d k")
      case True
      with sc pt \<open>k \<le> int d\<close> have "next' = ?nx" "b"
        by (auto simp: scan_diagonals.simps [of _ _ _ _ _ _ k] hit_def Let_def split: if_splits)
      with less.prems(2) dg True show ?thesis by auto
    next
      case nohit: False
      with sc pt \<open>k \<le> int d\<close>
      have sc': "scan_diagonals eq n m offset v (int d) (k + 2) ?nx = (next', b)"
        by (auto simp: scan_diagonals.simps [of _ _ _ _ _ _ k] hit_def Let_def split: if_splits)
      have "diag d (k + 2) \<or> k + 2 = int d + 2"
        using dg unfolding diag_def by presburger
      moreover have "\<forall>k'. diag d k' \<longrightarrow> k' < k + 2 \<longrightarrow>
          rd ?nx (offset + k') = far eq n m d k' \<and> \<not> hit eq n m d k'"
      proof (intro allI impI)
        fix k' assume k': "diag d k'" "k' < k + 2"
        then have "k' < k \<or> k' = k" using dg unfolding diag_def by presburger
        moreover have "rd ?nx (offset + k') = (if k = k' then far eq n m d k else rd next (offset + k'))"
          using dg k' assms(2,3) less.prems(2) by (subst rd_wr) (auto simp: diag_def)
        ultimately show "rd ?nx (offset + k') = far eq n m d k' \<and> \<not> hit eq n m d k'"
          using less.prems(3) k' nohit by auto
      qed
      moreover have "nat (int d + 2 - (k + 2)) < nat (int d + 2 - k)" using True by simp
      ultimately show ?thesis using less.hyps [of "k + 2" ?nx] sc' less.prems(2) by simp
    qed
  qed
qed

lemma diag_first: "diag d (- int d)"
  by (simp add: diag_def)

lemma search_found:
  assumes "search eq n m L offset d v tr = (Some f, tr')" "offset = int L + 1"
    and "level_in eq n m offset v d" "length v = 2 * L + 3" "length tr = d"
    and "\<forall>i<d. level_in eq n m offset (tr ! i) i" "\<forall>i<d. \<forall>k. diag i k \<longrightarrow> \<not> hit eq n m i k"
  shows "(\<forall>i\<le>f. level_in eq n m offset (tr' ! i) i) \<and> (\<forall>i<f. \<forall>k. diag i k \<longrightarrow> \<not> hit eq n m i k)
    \<and> (\<exists>k. diag f k \<and> hit eq n m f k)"
  using assms
proof (induction "Suc L - d" arbitrary: d v tr rule: less_induct)
  case less
  have dL: "d \<le> L" using less.prems(1) by (auto simp: search.simps [of _ _ _ _ _ d] split: if_splits)
  obtain nx b where sc: "scan_diagonals eq n m offset v (int d) (- int d) v = (nx, b)"
    by (cases "scan_diagonals eq n m offset v (int d) (- int d) v")
  have noless: "\<forall>k'. diag d k' \<longrightarrow> k' < - int d \<longrightarrow> rd v (offset + k') = far eq n m d k' \<and> \<not> hit eq n m d k'"
    by (simp add: diag_def)
  have lv: "length nx = 2 * L + 3 \<and>
    (if b then \<exists>k. diag d k \<and> hit eq n m d k
     else \<forall>k. diag d k \<longrightarrow> rd nx (offset + k) = far eq n m d k \<and> \<not> hit eq n m d k)"
    by (rule scan_level [OF less.prems(3,2) dL _ less.prems(4) noless sc]) (simp add: diag_first)
  have tr: "\<forall>i\<le>d. level_in eq n m offset ((tr @ [v]) ! i) i"
    using less.prems(3,5,6) by (auto simp: nth_append le_less)
  show ?case
  proof (cases b)
    case True
    with less.prems(1) dL sc have "f = d" "tr' = tr @ [v]"
      by (simp_all add: search.simps [of _ _ _ _ _ d])
    with tr lv True less.prems(7) show ?thesis by auto
  next
    case False
    with less.prems(1) dL sc
    have rec: "search eq n m L offset (Suc d) nx (tr @ [v]) = (Some f, tr')"
      by (simp add: search.simps [of _ _ _ _ _ d])
    have "level_in eq n m offset nx (Suc d)" using lv False by (simp add: level_in_def)
    moreover have "\<forall>i<Suc d. \<forall>k. diag i k \<longrightarrow> \<not> hit eq n m i k"
      using lv False less.prems(7) by (auto simp: less_Suc_eq)
    moreover have "\<forall>i<Suc d. level_in eq n m offset ((tr @ [v]) ! i) i"
      using tr by (simp add: less_Suc_eq_le)
    moreover have "Suc L - Suc d < Suc L - d" using dL by simp
    ultimately show ?thesis
      using less.hyps [OF _ rec less.prems(2)] less.prems(5) lv by simp
  qed
qed

section \<open>Edit scripts\<close>

text \<open>
  \<open>script_to eq n m es x y\<close>: the edits \<open>es\<close>, in order, lead from the origin to \<open>(x, y)\<close>, with
  matching runs between them.
\<close>

inductive script_to :: "(int \<Rightarrow> int \<Rightarrow> bool) \<Rightarrow> int \<Rightarrow> int \<Rightarrow> edit list \<Rightarrow> int \<Rightarrow> int \<Rightarrow> bool"
  for eq n m where
  origin: "snake eq n m 0 0 j \<Longrightarrow> script_to eq n m [] j j"
| delete: "script_to eq n m es x y \<Longrightarrow> snake eq n m (x + 1) y j \<Longrightarrow>
     script_to eq n m (es @ [Del x y]) (x + 1 + j) (y + j)"
| insert: "script_to eq n m es x y \<Longrightarrow> snake eq n m x (y + 1) j \<Longrightarrow>
     script_to eq n m (es @ [Ins x y]) (x + j) (y + 1 + j)"

lemma walk_back_script:
  assumes "\<forall>i\<le>d. level_in eq n m offset (tr ! i) i" "diag d k"
  shows "script_to eq n m (rev (walk_back offset tr d (far eq n m d k) (far eq n m d k - k)))
    (far eq n m d k) (far eq n m d k - k)"
  using assms
proof (induction d arbitrary: k)
  case 0
  then have "k = 0" by (simp add: diag_0)
  with slide_snake [of eq n m 0 0] show ?case by (auto intro: script_to.origin)
next
  case (Suc d)
  let ?v = "tr ! Suc d"
  have lv: "\<forall>k. diag d k \<longrightarrow> rd ?v (offset + k) = far eq n m d k"
    using Suc.prems(1) [rule_format, of "Suc d"] by (simp add: level_in_def)
  have dn: "step_down ?v offset (int (Suc d)) k = from_above eq n m d k"
  proof (cases "k = - int (Suc d) \<or> k = int (Suc d)")
    case True
    then show ?thesis by (auto simp: step_down_def from_above_def)
  next
    case False
    then have "diag d (k - 1)" "diag d (k + 1)"
      using Suc.prems(2) by (auto simp: diag_def) presburger+
    with lv have "rd ?v (offset + (k - 1)) = far eq n m d (k - 1)"
      "rd ?v (offset + (k + 1)) = far eq n m d (k + 1)" by auto
    with False show ?thesis by (simp add: step_down_def from_above_def algebra_simps)
  qed
  have kk: "far eq n m (Suc d) k - (far eq n m (Suc d) k - k) = k" by simp
  show ?case
  proof (cases "from_above eq n m d k")
    case True
    have dg: "diag d (k + 1)" using Suc.prems(2) True by (rule diag_above)
    let ?p = "far eq n m d (k + 1)"
    obtain j where j: "?p + j = far eq n m (Suc d) k" "snake eq n m ?p (?p - k) j"
      using slide_snake [of eq n m ?p "?p - k"] True by (auto simp: far_Suc start_x_def)
    have wb: "walk_back offset tr (Suc d) (far eq n m (Suc d) k) (far eq n m (Suc d) k - k)
        = Ins ?p (?p - (k + 1)) # walk_back offset tr d ?p (?p - (k + 1))"
      by (simp only: walk_back.simps Let_def kk dn True if_True lv [rule_format, OF dg])
    have ih: "script_to eq n m (rev (walk_back offset tr d ?p (?p - (k + 1)))) ?p (?p - (k + 1))"
      using Suc.IH [OF _ dg] Suc.prems(1) by simp
    have e: "?p - (k + 1) + 1 + j = far eq n m (Suc d) k - k" using j(1) by simp
    have "snake eq n m ?p (?p - (k + 1) + 1) j" using j(2) by simp
    from script_to.insert [OF ih this] show ?thesis
      by (simp only: wb rev.simps e j(1))
  next
    case False
    have dg: "diag d (k - 1)" using Suc.prems(2) False by (rule diag_left)
    let ?p = "far eq n m d (k - 1)"
    obtain j where j: "?p + 1 + j = far eq n m (Suc d) k" "snake eq n m (?p + 1) (?p + 1 - k) j"
      using slide_snake [of eq n m "?p + 1" "?p + 1 - k"] False by (auto simp: far_Suc start_x_def)
    have wb: "walk_back offset tr (Suc d) (far eq n m (Suc d) k) (far eq n m (Suc d) k - k)
        = Del ?p (?p - (k - 1)) # walk_back offset tr d ?p (?p - (k - 1))"
      by (simp only: walk_back.simps Let_def kk dn False if_False lv [rule_format, OF dg])
    have ih: "script_to eq n m (rev (walk_back offset tr d ?p (?p - (k - 1)))) ?p (?p - (k - 1))"
      using Suc.IH [OF _ dg] Suc.prems(1) by simp
    have e: "?p - (k - 1) + j = far eq n m (Suc d) k - k" using j(1) by simp
    have "snake eq n m (?p + 1) (?p - (k - 1)) j" using j(2) by (simp add: algebra_simps)
    from script_to.delete [OF ih this] show ?thesis
      by (simp only: wb rev.simps e j(1))
  qed
qed

lemma search_script:
  assumes "search eq n m L offset 0 (replicate (2 * L + 3) 0) [] = (Some f, tr)"
    and "offset = int L + 1" "0 \<le> n" "0 \<le> m"
  shows "script_to eq n m (rev (walk_back offset tr f n m)) n m"
proof -
  have "level_in eq n m offset (replicate (2 * L + 3) 0) 0"
    using assms(2) by (simp add: level_in_def rd_def nth_replicate del: replicate_Suc)
  with search_found [OF assms(1,2)] have sf: "\<forall>i\<le>f. level_in eq n m offset (tr ! i) i"
    "\<forall>i<f. \<forall>k. diag i k \<longrightarrow> \<not> hit eq n m i k" "\<exists>k. diag f k \<and> hit eq n m f k" by simp_all
  then obtain k where k: "diag f k" "hit eq n m f k" by blast
  from first_hit [OF assms(3,4) k] sf(2) have "k = n - m" "far eq n m f k = n" by blast+
  with walk_back_script [OF sf(1) k(1)] show ?thesis by simp
qed

section \<open>Folding a script into hunks\<close>

text \<open>Hunks in order, from \<open>pos\<close> on, none past \<open>len\<close>.\<close>

fun hunks_wf :: "nat \<Rightarrow> nat \<Rightarrow> 'a hunk list \<Rightarrow> bool" where
  "hunks_wf pos len [] = (pos \<le> len)"
| "hunks_wf pos len ((s, e, ins) # hs) = (pos \<le> s \<and> s \<le> e \<and> hunks_wf e len hs)"

lemma hunks_wf_snoc:
  "hunks_wf pos len (hs @ [(s, e, ins)]) \<longleftrightarrow> hunks_wf pos s hs \<and> s \<le> e \<and> e \<le> len"
  by (induction pos len hs rule: hunks_wf.induct) auto

lemma hunks_wf_mono: "hunks_wf pos len hs \<Longrightarrow> len \<le> len' \<Longrightarrow> hunks_wf pos len' hs"
  by (induction pos len hs rule: hunks_wf.induct) auto

lemma hunks_wf_le: "hunks_wf pos len hs \<Longrightarrow> pos \<le> len"
  by (induction pos len hs rule: hunks_wf.induct) auto

definition emitted :: "'a list \<Rightarrow> 'a hunk list \<Rightarrow> 'a list \<times> nat" where
  "emitted a hs = foldl (emit_hunk a) ([], 0) hs"

lemma emitted_Nil [simp]: "emitted a [] = ([], 0)"
  by (simp add: emitted_def)

lemma emitted_snoc [simp]:
  "emitted a (hs @ [(s, e, ins)]) =
     (fst (emitted a hs) @ text_slice a (snd (emitted a hs)) s @ ins, e)"
  by (simp add: emitted_def emit_hunk_def split_beta)

lemma emitted_pos: "hunks_wf 0 len hs \<Longrightarrow> snd (emitted a hs) \<le> len"
  by (induction hs rule: rev_induct) (auto simp: hunks_wf_snoc)

lemma applyHunks_emitted:
  "applyHunks a hs = fst (emitted a hs) @ drop (snd (emitted a hs)) a"
  by (simp add: applyHunks_def emitted_def split_beta)

lemma take_text_slice: "p \<le> q \<Longrightarrow> take q a = take p a @ text_slice a p q"
  by (metis le_add_diff_inverse take_add text_slice_def)

lemma text_slice_append:
  assumes "p \<le> q" "q \<le> r"
  shows "text_slice a p q @ text_slice a q r = text_slice a p r"
proof (cases "q \<le> length a")
  case True
  then have "drop p (take q a @ text_slice a q r) = drop p (take q a) @ text_slice a q r"
    using assms by simp
  with assms show ?thesis
    by (simp add: take_text_slice [of q r a, symmetric]) (simp add: text_slice_def drop_take)
next
  case False
  then show ?thesis using assms by (simp add: text_slice_def)
qed

lemma text_slice_Suc: "q < length a \<Longrightarrow> text_slice a q (Suc q) = [a ! q]"
  by (simp add: text_slice_def Suc_diff_le take_Suc hd_drop_conv_nth)

lemma text_slice_same [simp]: "text_slice a p p = []"
  by (simp add: text_slice_def)

definition fold_state :: "'a hunk list \<times> 'a hunk option \<Rightarrow> 'a hunk list" where
  "fold_state st = fst st @ (case snd st of None \<Rightarrow> [] | Some c \<Rightarrow> [c])"

lemma fold_edits_state: "fold_edits b head es = fold_state (foldl (fold_edit b head) ([], None) es)"
  by (simp add: fold_edits_def fold_state_def split_beta split: option.split)

text \<open>
  What the folded hunks have done after the edits that lead to \<open>(x, y)\<close>: up to there, the
  text they emit is the target's.
\<close>

definition folded :: "'a list \<Rightarrow> 'a list \<Rightarrow> nat \<Rightarrow> 'a hunk list \<times> 'a hunk option \<Rightarrow> nat \<Rightarrow> nat \<Rightarrow> bool" where
  "folded a b head st x y \<longleftrightarrow> hunks_wf 0 (head + x) (fold_state st)
     \<and> (snd st = None \<longrightarrow> fst st = [])
     \<and> fst (emitted a (fold_state st)) @ text_slice a (snd (emitted a (fold_state st))) (head + x)
        = take (head + y) b"

lemma folded_advance:
  assumes "folded a b head st x y" "text_slice a (head + x) (head + x + j) = text_slice b (head + y) (head + y + j)"
  shows "folded a b head st (x + j) (y + j)"
proof -
  let ?p = "snd (emitted a (fold_state st))" and ?o = "fst (emitted a (fold_state st))"
  have p: "?p \<le> head + x" using assms(1) by (simp add: folded_def emitted_pos)
  have "?o @ text_slice a ?p (head + (x + j)) = ?o @ text_slice a ?p (head + x) @ text_slice a (head + x) (head + x + j)"
    using p by (simp add: text_slice_append add.assoc)
  also have "\<dots> = take (head + (y + j)) b"
    using assms take_text_slice [of "head + y" "head + y + j" b] by (simp add: folded_def add.assoc)
  finally show ?thesis
    using assms(1) hunks_wf_mono [of 0 "head + x" "fold_state st" "head + (x + j)"] by (simp add: folded_def)
qed

text \<open>An edit either opens a hunk at its place or extends the one that ends there.\<close>

lemma fold_edit_cases:
  fixes head e
  defines "at \<equiv> head + nat (edit_x e)"
  assumes none: "snd st = None \<longrightarrow> fst st = []"
  obtains (new) "fold_state (fold_edit b head st e) = fold_state st @ [grow_hunk b head e (at, at, [])]"
      "snd (fold_edit b head st e) \<noteq> None"
  | (grow) hs s ins where "fold_state st = hs @ [(s, at, ins)]"
      "fold_state (fold_edit b head st e) = hs @ [grow_hunk b head e (s, at, ins)]"
      "snd (fold_edit b head st e) \<noteq> None"
proof -
  obtain hs o' where st: "st = (hs, o')" by (cases st)
  show ?thesis
  proof (cases o')
    case None
    show ?thesis
      by (rule new) (use None st none in \<open>simp_all add: fold_edit_def fold_state_def Let_def at_def\<close>)
  next
    case (Some c)
    obtain s t ins where c: "c = (s, t, ins)" by (cases c)
    show ?thesis
    proof (cases "t = at")
      case True
      show ?thesis
        by (rule grow [of hs s ins])
          (use True Some st c in \<open>simp_all add: fold_edit_def fold_state_def Let_def at_def\<close>)
    next
      case False
      show ?thesis
        by (rule new)
          (use False Some st c in \<open>simp_all add: fold_edit_def fold_state_def Let_def at_def\<close>)
    qed
  qed
qed

lemma folded_delete:
  assumes "folded a b head st x y"
  shows "folded a b head (fold_edit b head st (Del (int x) (int y))) (Suc x) y"
proof (rule fold_edit_cases [of st b head "Del (int x) (int y)"])
  show "snd st = None \<longrightarrow> fst st = []" using assms by (simp add: folded_def)
qed (use assms in \<open>auto simp: folded_def edit_x_def grow_hunk_def hunks_wf_snoc\<close>)

lemma folded_insert:
  assumes "folded a b head st x y" "head + y < length b"
  shows "folded a b head (fold_edit b head st (Ins (int x) (int y))) x (Suc y)"
proof -
  have c: "char_or_empty b (int head + int y) = [b ! (head + y)]"
    using assms(2) by (simp add: char_or_empty_def char_at_def nat_int_add)
  have t: "take (Suc (head + y)) b = take (head + y) b @ [b ! (head + y)]"
    using assms(2) by (rule take_Suc_conv_app_nth)
  show ?thesis
  proof (rule fold_edit_cases [of st b head "Ins (int x) (int y)"])
    show "snd st = None \<longrightarrow> fst st = []" using assms by (simp add: folded_def)
  qed (use assms c t in \<open>auto simp: folded_def edit_x_def grow_hunk_def hunks_wf_snoc\<close>)
qed

section \<open>The trimmed texts\<close>

lemma scan_head_spec:
  assumes "mx \<le> length a" "mx \<le> length b" "i \<le> mx" "take i a = take i b"
  shows "scan_head a b mx i \<le> mx \<and> take (scan_head a b mx i) a = take (scan_head a b mx i) b"
  using assms
proof (induction a b mx i rule: scan_head.induct)
  case (1 a b mx i)
  show ?case
  proof (cases "i < mx \<and> a ! i = b ! i")
    case True
    with "1.prems" have "take (Suc i) a = take (Suc i) b" by (simp add: take_Suc_conv_app_nth)
    with "1.IH" [OF True] "1.prems" True show ?thesis by (subst (1 2 3) scan_head.simps) simp
  next
    case False
    with "1.prems" show ?thesis by (subst (1 2 3) scan_head.simps) auto
  qed
qed

lemma drop_suffix_Cons:
  "t < length a \<Longrightarrow> drop (length a - Suc t) a = a ! (length a - Suc t) # drop (length a - t) a"
  by (metis Cons_nth_drop_Suc Suc_diff_Suc diff_less le_less_trans length_greater_0_conv list.size(3)
      not_less_zero zero_less_Suc)

lemma scan_tail_spec:
  assumes "mx \<le> length a" "mx \<le> length b" "i \<le> mx"
    and "drop (length a - i) a = drop (length b - i) b"
  shows "scan_tail a b mx i \<le> mx
    \<and> drop (length a - scan_tail a b mx i) a = drop (length b - scan_tail a b mx i) b"
  using assms
proof (induction a b mx i rule: scan_tail.induct)
  case (1 a b mx i)
  show ?case
  proof (cases "i < mx \<and> a ! (length a - 1 - i) = b ! (length b - 1 - i)")
    case True
    with "1.prems" have "drop (length a - Suc i) a = drop (length b - Suc i) b"
      by (simp add: drop_suffix_Cons)
    with "1.IH" [OF True] "1.prems" True show ?thesis by (subst (1 2 3) scan_tail.simps) simp
  next
    case False
    with "1.prems" show ?thesis by (subst (1 2 3) scan_tail.simps) auto
  qed
qed

lemma snake_slices:
  assumes "snake (\<lambda>x y. same_at a (int head + x) b (int head + y)) (int n) (int m) (int x) (int y) (int j)"
    and "head + n \<le> length a" "head + m \<le> length b"
  shows "text_slice a (head + x) (head + x + j) = text_slice b (head + y) (head + y + j)"
proof (cases "j = 0")
  case False
  from assms(1) have "x + j \<le> n" "y + j \<le> m"
    using snake_bound [OF assms(1)] False by auto
  with assms(2,3) have len: "head + x + j \<le> length a" "head + y + j \<le> length b" by auto
  show ?thesis
  proof (rule nth_equalityI)
    show "length (text_slice a (head + x) (head + x + j)) = length (text_slice b (head + y) (head + y + j))"
      using len by (simp add: text_slice_def)
    fix i assume "i < length (text_slice a (head + x) (head + x + j))"
    then have i: "i < j" by (simp add: text_slice_def)
    then have "same_at a (int head + (int x + int i)) b (int head + (int y + int i))"
      using assms(1) by (auto simp: snake_def)
    then have "a ! (head + x + i) = b ! (head + y + i)"
      using i len by (simp add: same_at_def char_at_def nat_add_distrib add.assoc)
    then show "text_slice a (head + x) (head + x + j) ! i = text_slice b (head + y) (head + y + j) ! i"
      using i len by (simp add: text_slice_def)
  qed
qed simp

lemma script_folded:
  assumes "script_to (\<lambda>x y. same_at a (int head + x) b (int head + y)) (int n) (int m) es x y"
    and "x \<le> int n" "y \<le> int m" "head + n \<le> length a" "head + m \<le> length b"
    and "take head a = take head b"
  shows "0 \<le> x \<and> 0 \<le> y \<and> folded a b head (foldl (fold_edit b head) ([], None) es) (nat x) (nat y)"
  using assms
proof (induction rule: script_to.induct)
  case (origin j)
  then have j: "0 \<le> j" by (simp add: snake_def)
  have "folded a b head ([], None) 0 0"
    using origin by (simp add: folded_def fold_state_def text_slice_def)
  moreover have "text_slice a (head + 0) (head + 0 + nat j) = text_slice b (head + 0) (head + 0 + nat j)"
    by (rule snake_slices) (use origin j in auto)
  ultimately show ?case using folded_advance [of a b head _ 0 0 "nat j"] j by simp
next
  case (delete es x y j)
  then have "0 \<le> j" by (simp add: snake_def)
  with delete have "0 \<le> x" "0 \<le> y" by auto
  then obtain x' y' j' where n: "x = int x'" "y = int y'" "j = int j'"
    using \<open>0 \<le> j\<close> by (metis nonneg_int_cases)
  have f: "folded a b head (foldl (fold_edit b head) ([], None) es) x' y'"
    using delete n by simp
  have g: "folded a b head (foldl (fold_edit b head) ([], None) (es @ [Del x y])) (Suc x') y'"
    using folded_delete [OF f] n by simp
  have "snake (\<lambda>x y. same_at a (int head + x) b (int head + y)) (int n) (int m) (int (Suc x')) (int y') (int j')"
    using delete(2) n by (simp add: add.commute)
  from folded_advance [OF g snake_slices [OF this]] delete.prems n
  have "folded a b head (foldl (fold_edit b head) ([], None) (es @ [Del x y])) (Suc x' + j') (y' + j')"
    by simp
  moreover have "nat (x + 1 + j) = Suc x' + j'" "nat (y + j) = y' + j'" using n by auto
  ultimately show ?case using n by simp
next
  case (insert es x y j)
  then have "0 \<le> j" by (simp add: snake_def)
  with insert have "0 \<le> x" "0 \<le> y" by auto
  then obtain x' y' j' where n: "x = int x'" "y = int y'" "j = int j'"
    using \<open>0 \<le> j\<close> by (metis nonneg_int_cases)
  have f: "folded a b head (foldl (fold_edit b head) ([], None) es) x' y'"
    using insert n by simp
  have "head + y' < length b" using insert.prems n by linarith
  then have g: "folded a b head (foldl (fold_edit b head) ([], None) (es @ [Ins x y])) x' (Suc y')"
    using folded_insert [OF f] n by simp
  have "snake (\<lambda>x y. same_at a (int head + x) b (int head + y)) (int n) (int m) (int x') (int (Suc y')) (int j')"
    using insert(2) n by (simp add: add.commute)
  from folded_advance [OF g snake_slices [OF this]] insert.prems n
  have "folded a b head (foldl (fold_edit b head) ([], None) (es @ [Ins x y])) (x' + j') (Suc y' + j')"
    by simp
  moreover have "nat (x + j) = x' + j'" "nat (y + 1 + j) = Suc y' + j'" using n by auto
  ultimately show ?case using n by simp
qed

section \<open>The diff turns one text into the other\<close>

lemma whole_hunk:
  assumes "head + tail \<le> length a" "head + tail \<le> length b" "take head a = take head b"
    and "drop (length a - tail) a = drop (length b - tail) b"
  defines "n \<equiv> length a - head - tail" and "m \<equiv> length b - head - tail"
  shows "applyHunks a [(head, head + n, text_slice b head (head + m))] = b"
    and "hunks_wf 0 (length a) [(head, head + n, text_slice b head (head + m))]"
proof -
  have "applyHunks a [(head, head + n, text_slice b head (head + m))]
      = (take head a @ text_slice b head (head + m)) @ drop (head + n) a"
    using emitted_snoc [of a "[]" head "head + n"] by (simp add: applyHunks_emitted text_slice_def)
  also have "take head a @ text_slice b head (head + m) = take (head + m) b"
    using assms(3) take_text_slice [of head "head + m" b] by simp
  also have "drop (head + n) a = drop (head + m) b"
    using assms(1,2,4) by (simp add: n_def m_def)
  finally show "applyHunks a [(head, head + n, text_slice b head (head + m))] = b" by simp
  show "hunks_wf 0 (length a) [(head, head + n, text_slice b head (head + m))]"
    using assms(1) by (simp add: n_def)
qed

lemma diffText_correct: "applyHunks a (diffText a b) = b \<and> hunks_wf 0 (length a) (diffText a b)"
proof (cases "a = b")
  case True
  then show ?thesis by (simp add: diffText_def applyHunks_def)
next
  case ab: False
  define mx where "mx = min (length a) (length b)"
  define head where "head = scan_head a b mx 0"
  define tail where "tail = scan_tail a b (mx - head) 0"
  define n where "n = length a - head - tail"
  define m where "m = length b - head - tail"
  define L where "L = min (n + m) MAX_EDITS"
  define eq where "eq = (\<lambda>x y. same_at a (int head + x) b (int head + y))"
  have hd: "head \<le> mx" "take head a = take head b"
    using scan_head_spec [of mx a b 0] by (simp_all add: mx_def head_def)
  have tl: "tail \<le> mx - head" "drop (length a - tail) a = drop (length b - tail) b"
    using scan_tail_spec [of "mx - head" a b 0] hd(1) by (simp_all add: mx_def tail_def)
  have le: "head + tail \<le> length a" "head + tail \<le> length b"
    using hd(1) tl(1) by (auto simp: mx_def)
  note wh = whole_hunk [OF le hd(2) tl(2), folded n_def m_def]
  let ?s = "search eq (int n) (int m) L (int L + 1) 0 (replicate (2 * L + 3) 0) []"
  have d: "diffText a b = (if n = 0 \<or> m = 0 then [(head, head + n, text_slice b head (head + m))]
      else case ?s of (None, _) \<Rightarrow> [(head, head + n, text_slice b head (head + m))]
        | (Some found, trace) \<Rightarrow>
            fold_edits b head (rev (walk_back (int L + 1) trace found (int n) (int m))))"
    using ab unfolding diffText_def by (simp only: Let_def mx_def [symmetric] head_def [symmetric]
        tail_def [symmetric] n_def [symmetric] m_def [symmetric] L_def [symmetric]
        eq_def [symmetric] if_False)
  show ?thesis
  proof (cases "n = 0 \<or> m = 0 \<or> fst ?s = None")
    case True
    with d wh show ?thesis by (auto split: prod.split)
  next
    case False
    then obtain f tr where s: "?s = (Some f, tr)" by (cases ?s) auto
    define es where "es = rev (walk_back (int L + 1) tr f (int n) (int m))"
    have db: "diffText a b = fold_state (foldl (fold_edit b head) ([], None) es)"
      using d False s by (simp add: es_def fold_edits_state)
    have "script_to eq (int n) (int m) es (int n) (int m)"
      unfolding es_def by (rule search_script [OF s]) simp_all
    moreover have "head + n \<le> length a" "head + m \<le> length b"
      using le by (simp_all add: n_def m_def)
    ultimately have "folded a b head (foldl (fold_edit b head) ([], None) es) n m"
      using script_folded [of a head b n m es "int n" "int m"] hd(2) unfolding eq_def by simp
    then have wf: "hunks_wf 0 (head + n) (diffText a b)" and
      em: "fst (emitted a (diffText a b)) @ text_slice a (snd (emitted a (diffText a b))) (head + n)
        = take (head + m) b"
      by (simp_all add: folded_def db)
    have p: "snd (emitted a (diffText a b)) \<le> head + n" by (rule emitted_pos [OF wf])
    have "drop (snd (emitted a (diffText a b))) a
        = text_slice a (snd (emitted a (diffText a b))) (head + n) @ drop (head + n) a"
      using p by (simp add: text_slice_def) (metis append_take_drop_id drop_drop le_add_diff_inverse2)
    then have "applyHunks a (diffText a b) = take (head + m) b @ drop (head + n) a"
      using em by (simp add: applyHunks_emitted)
    also have "drop (head + n) a = drop (head + m) b"
      using le tl(2) by (simp add: n_def m_def)
    finally have "applyHunks a (diffText a b) = b" by simp
    moreover have "hunks_wf 0 (length a) (diffText a b)"
      using wf le(1) hunks_wf_mono by (fastforce simp: n_def)
    ultimately show ?thesis by blast
  qed
qed

end
