(* ===== verification/Text_Facts.thy ===== *)
theory Text_Facts
  imports Text_Diff
begin

text \<open>
  What the text operations of \<open>src/core/text.ts\<close> promise: a diff is a round trip, its hunks
  satisfy the checks the server makes of a client's hunks, a merge loses nothing typed on
  either side and applies disjoint changes of both, a caret stays inside the text, and a hash
  that matches cannot come from a text with one unit changed.
\<close>

section \<open>Diffs\<close>

text \<open>C1: applying the diff of two texts to the first one gives the second one, for any two
  texts, whether the search found a script or gave up past its edit limit.\<close>

theorem diffText_roundtrip: "applyHunks a (diffText a b) = b"
  by (simp add: diffText_correct)

text \<open>The hunks of a diff never run backwards, never overlap and never run past the end of
  the text they apply to, which is what the server requires of a client's hunks.\<close>

theorem diffText_hunks_in_range: "hunks_wf 0 (length a) (diffText a b)"
  by (simp add: diffText_correct)

section \<open>Merges\<close>

definition inserted :: "'a hunk list \<Rightarrow> 'a list" where
  "inserted hs = concat (map (\<lambda>(s, e, ins). ins) hs)"

lemma inserted_Nil [simp]: "inserted [] = []"
  by (simp add: inserted_def)

lemma inserted_Cons [simp]: "inserted ((s, e, ins) # hs) = ins @ inserted hs"
  by (simp add: inserted_def)

lemma inserted_snoc [simp]: "inserted (hs @ [(s, e, ins)]) = inserted hs @ ins"
  by (simp add: inserted_def)

lemma inserted_emitted: "subseq (inserted hs) (fst (emitted a hs))"
proof (induction hs rule: rev_induct)
  case (snoc h hs)
  obtain s e ins where h: "h = (s, e, ins)" by (cases h)
  have "subseq (inserted hs @ ins) (fst (emitted a hs) @ text_slice a (snd (emitted a hs)) s @ ins)"
    using snoc by (intro list_emb_append_mono list_emb_append2) auto
  with h show ?case by simp
qed simp

lemma inserted_result: "subseq (inserted (diffText a b)) b"
proof -
  have "subseq (inserted (diffText a b)) (applyHunks a (diffText a b))"
    using inserted_emitted [of "diffText a b" a] unfolding applyHunks_emitted
    by (metis append_Nil2 list_emb_append_mono list_emb_Nil)
  then show ?thesis by (simp add: diffText_correct)
qed

lemma merge_loop_append:
  "merge_loop base a b pos (out1 @ out2) = out1 @ merge_loop base a b pos out2"
  by (induction base a b pos out2 arbitrary: out1 rule: merge_loop.induct) auto

lemma merge_loop_out: "merge_loop base a b pos out = out @ merge_loop base a b pos []"
  using merge_loop_append [of base a b pos out "[]"] by simp

text \<open>What a step emits in front of the rest keeps the insertions in front of the rest.\<close>

lemma subseq_emit:
  "subseq xs rest \<Longrightarrow> subseq (ins @ xs) (pre @ ins @ post @ rest)"
  by (intro list_emb_append2 list_emb_append_mono) (auto intro: list_emb_append2)

lemma subseq_skip: "subseq xs rest \<Longrightarrow> subseq xs (pre @ rest)"
  by (rule list_emb_append2)

lemma merge_loop_keeps:
  "subseq (inserted a) (merge_loop base a b pos []) \<and> subseq (inserted b) (merge_loop base a b pos [])"
proof (induction "length a + length b" arbitrary: a b pos rule: less_induct)
  case less
  show ?case
  proof (cases a)
    case Nil
    show ?thesis
    proof (cases b)
      case (Cons h b')
      obtain s e ins where h: "h = (s, e, ins)" by (cases h)
      have "subseq (inserted b') (merge_loop base [] b' e [])" using less [of "[]" b' e] Nil Cons by simp
      then show ?thesis
        using Nil Cons h merge_loop_out [of base "[]" b' e "text_slice base pos s @ ins"]
          subseq_emit [of _ _ ins _ "[]"] by simp
    qed (use Nil in simp)
  next
    case (Cons h a')
    note a = this
    obtain s e ins where h: "h = (s, e, ins)" by (cases h)
    show ?thesis
    proof (cases b)
      case Nil
      have "subseq (inserted a') (merge_loop base a' [] e [])" using less [of a' "[]" e] Nil a by simp
      then show ?thesis
        using Nil a h merge_loop_out [of base a' "[]" e "text_slice base pos s @ ins"]
          subseq_emit [of _ _ ins _ "[]"] by simp
    next
      case (Cons h' b')
      obtain s' e' ins' where h': "h' = (s', e', ins')" by (cases h')
      let ?over = "s = s' \<or> (s < e' \<and> s' < e)"
      consider (over) "?over" | (ours) "\<not> ?over" "s \<le> s'" | (theirs) "\<not> ?over" "\<not> s \<le> s'" by blast
      then show ?thesis
      proof cases
        case over
        let ?both = "ins @ (if ins = ins' then [] else ins')"
        have ih: "subseq (inserted a') (merge_loop base a' b' (max e e') [])"
          "subseq (inserted b') (merge_loop base a' b' (max e e') [])"
          using less [of a' b' "max e e'"] a Cons by auto
        have m: "merge_loop base a b pos [] = text_slice base pos (min s s') @ ?both @ merge_loop base a' b' (max e e') []"
          using over a h Cons h' merge_loop_out [of base a' b' "max e e'" "text_slice base pos (min s s') @ ?both"]
          by auto
        have "subseq (inserted a) (merge_loop base a b pos [])"
          unfolding m using a h subseq_emit [OF ih(1), of ins "text_slice base pos (min s s')"] by simp
        moreover have "subseq (inserted b) (merge_loop base a b pos [])"
          unfolding m using Cons h' subseq_emit [OF ih(2), of ins' "text_slice base pos (min s s') @ (if ins = ins' then [] else ins)" "[]"]
          by (auto split: if_splits)
        ultimately show ?thesis ..
      next
        case ours
        have ih: "subseq (inserted a') (merge_loop base a' b e [])"
          "subseq (inserted b) (merge_loop base a' b e [])"
          using less [of a' b e] a by auto
        have m: "merge_loop base a b pos [] = text_slice base pos s @ ins @ merge_loop base a' b e []"
          using ours a h Cons h' merge_loop_out [of base a' b e "text_slice base pos s @ ins"] by auto
        show ?thesis unfolding m
          using a h subseq_emit [OF ih(1), of ins "text_slice base pos s" "[]"]
            subseq_skip [OF ih(2), of "text_slice base pos s @ ins"] by simp
      next
        case theirs
        have ih: "subseq (inserted a) (merge_loop base a b' e' [])"
          "subseq (inserted b') (merge_loop base a b' e' [])"
          using less [of a b' e'] Cons by auto
        have m: "merge_loop base a b pos [] = text_slice base pos s' @ ins' @ merge_loop base a b' e' []"
          using theirs a h Cons h' merge_loop_out [of base a b' e' "text_slice base pos s' @ ins'"] by auto
        show ?thesis unfolding m
          using Cons h' subseq_emit [OF ih(2), of ins' "text_slice base pos s'" "[]"]
            subseq_skip [OF ih(1), of "text_slice base pos s' @ ins'"] by simp
      qed
    qed
  qed
qed

lemma diffText_same: "diffText a a = []"
  by (simp add: diffText_def)

lemma merge3_keeps:
  "subseq (inserted (diffText base ours)) (merge3 base ours theirs)
   \<and> subseq (inserted (diffText base theirs)) (merge3 base ours theirs)"
  using inserted_result [of base ours] inserted_result [of base theirs]
    merge_loop_keeps [of "diffText base ours" base "diffText base theirs" 0]
  by (auto simp: merge3_def diffText_same)

text \<open>C2: a three-way merge loses nothing either side typed: whatever text the changes from the
  base to each side insert is still in the result, in order.\<close>

theorem merge3_keeps_insertions:
  "subseq (inserted (diffText base ours)) (merge3 base ours theirs)
   \<and> subseq (inserted (diffText base theirs)) (merge3 base ours theirs)"
  by (rule merge3_keeps)

text \<open>Two changes that do not touch, and all changes by position.\<close>

definition apart :: "'a hunk \<Rightarrow> 'a hunk \<Rightarrow> bool" where
  "apart x y \<longleftrightarrow> (case (x, y) of ((s, e, _), (s', e', _)) \<Rightarrow> s \<noteq> s' \<and> (e' \<le> s \<or> e \<le> s'))"

definition in_order :: "'a hunk list \<Rightarrow> 'a hunk list" where
  "in_order hs = sort_key fst hs"

lemma sort_key_min:
  "\<forall>x\<in>set xs. f y < f x \<Longrightarrow> \<forall>x\<in>set ys. f y \<le> f x \<Longrightarrow> sort_key f (xs @ y # ys) = y # sort_key f (xs @ ys)"
  for f :: "_ \<Rightarrow> 'b::linorder"
proof (induction xs)
  case Nil
  then have "\<forall>x\<in>set (sort_key f ys). f y \<le> f x" by simp
  then show ?case by (simp add: insort_is_Cons)
next
  case (Cons x xs)
  then have "\<not> f x \<le> f y" by (simp add: not_le)
  with Cons show ?case by simp
qed

lemma hunks_wf_starts: "hunks_wf p n hs \<Longrightarrow> h \<in> set hs \<Longrightarrow> p \<le> fst h"
  by (induction p n hs rule: hunks_wf.induct) fastforce+

definition finish :: "'a list \<Rightarrow> 'a list \<times> nat \<Rightarrow> 'a list" where
  "finish base st = fst st @ drop (snd st) base"

lemma emit_hunk_simp: "emit_hunk base (out, pos) (s, e, ins) = (out @ text_slice base pos s @ ins, e)"
  by (simp add: emit_hunk_def)

lemma merge_loop_apart:
  assumes "\<forall>x\<in>set a. \<forall>y\<in>set b. apart x y" "hunks_wf p n a" "hunks_wf q n b"
  shows "merge_loop base a b pos out = finish base (foldl (emit_hunk base) (out, pos) (in_order (a @ b)))"
  using assms
proof (induction base a b pos out arbitrary: p q rule: merge_loop.induct)
  case (1 base pos out)
  then show ?case by (simp add: finish_def in_order_def)
next
  case (2 base s e ins a pos out)
  have "sort_key fst ((s, e, ins) # a) = (s, e, ins) # sort_key fst a"
    using 2 hunks_wf_starts [of e n a] sort_key_min [of "[]" fst "(s, e, ins)" a] by force
  with 2(1) [of e q] 2(2-) show ?case by (simp add: in_order_def emit_hunk_simp)
next
  case (3 base s e ins b pos out)
  have "sort_key fst ((s, e, ins) # b) = (s, e, ins) # sort_key fst b"
    using 3 hunks_wf_starts [of e n b] sort_key_min [of "[]" fst "(s, e, ins)" b] by force
  with 3(1) [of p e] 3(2-) show ?case by (simp add: in_order_def emit_hunk_simp)
next
  case (4 base s e ins a s' e' ins' b pos out)
  let ?x = "(s, e, ins)" and ?y = "(s', e', ins')"
  have ap: "s \<noteq> s'" "\<not> (s < e' \<and> s' < e)" using 4(4) by (auto simp: apart_def)
  have a: "\<forall>x\<in>set a. s \<le> fst x" "\<forall>x\<in>set a. e \<le> fst x" and b: "\<forall>x\<in>set b. s' \<le> fst x"
    using 4 hunks_wf_starts [of e n a] hunks_wf_starts [of e' n b] by fastforce+
  show ?case
  proof (cases "s \<le> s'")
    case True
    then have "in_order ((?x # a) @ ?y # b) = ?x # in_order (a @ ?y # b)"
      using a b sort_key_min [of "[]" fst ?x "a @ ?y # b"] unfolding in_order_def by fastforce
    moreover have "merge_loop base a (?y # b) e (out @ text_slice base pos s @ ins) =
      finish base (foldl (emit_hunk base) (out @ text_slice base pos s @ ins, e) (in_order (a @ ?y # b)))"
      using 4(2) [of e q] 4(4,5,6) ap True by auto
    moreover have "merge_loop base (?x # a) (?y # b) pos out =
      merge_loop base a (?y # b) e (out @ text_slice base pos s @ ins)" using ap True by auto
    ultimately show ?thesis by (simp only: foldl_Cons emit_hunk_simp)
  next
    case False
    then have "in_order ((?x # a) @ ?y # b) = ?y # in_order ((?x # a) @ b)"
      using a b sort_key_min [of "?x # a" fst ?y b] unfolding in_order_def by fastforce
    moreover have "merge_loop base (?x # a) b e' (out @ text_slice base pos s' @ ins') =
      finish base (foldl (emit_hunk base) (out @ text_slice base pos s' @ ins', e') (in_order ((?x # a) @ b)))"
      using 4(3) [of p e'] 4(4,5,6) ap False by auto
    moreover have "merge_loop base (?x # a) (?y # b) pos out =
      merge_loop base (?x # a) b e' (out @ text_slice base pos s' @ ins')" using ap False by auto
    ultimately show ?thesis by (simp only: foldl_Cons emit_hunk_simp)
  qed
qed

lemma applyHunks_finish: "applyHunks base hs = finish base (foldl (emit_hunk base) ([], 0) hs)"
  by (simp add: applyHunks_def finish_def split: prod.splits)

lemma in_order_wf: "hunks_wf p n hs \<Longrightarrow> in_order hs = hs"
proof (induction p n hs rule: hunks_wf.induct)
  case (2 pos len s e ins hs)
  then show ?case
    using hunks_wf_starts [of e len hs] sort_key_min [of "[]" fst "(s, e, ins)" hs]
    unfolding in_order_def by fastforce
qed (simp add: in_order_def)

text \<open>C3: when no change of one side touches a change of the other, the merge is the base with
  every change of both sides applied, in order of their position.\<close>

theorem merge3_applies_disjoint_changes:
  assumes "\<forall>x\<in>set (diffText base ours). \<forall>y\<in>set (diffText base theirs). apart x y"
  shows "merge3 base ours theirs = applyHunks base (in_order (diffText base ours @ diffText base theirs))"
proof -
  have wf: "hunks_wf 0 (length base) (diffText base t)" for t by (simp add: diffText_correct)
  have loop: "merge_loop base (diffText base ours) (diffText base theirs) 0 [] =
      applyHunks base (in_order (diffText base ours @ diffText base theirs))"
    unfolding applyHunks_finish by (rule merge_loop_apart [OF assms wf wf])
  have one: "applyHunks base (in_order (diffText base t)) = t" for t
    using diffText_correct [of base t] by (simp add: in_order_wf [of 0 "length base"])
  have "diffText base ours = []" if "ours = theirs"
    using assms that by (cases "diffText base ours") (auto simp: apart_def)
  then have "ours = theirs \<Longrightarrow> applyHunks base (in_order (diffText base ours @ diffText base theirs)) = ours"
    using one [of ours] by simp
  with loop one show ?thesis by (auto simp: merge3_def diffText_same)
qed



lemma update_numeral: "(x # xs)[numeral k := v] = x # xs[pred_numeral k := v]"
  by (simp add: numeral_eq_Suc)

lemmas run_diff = update_numeral diffText_def scan_head.simps scan_tail.simps search.simps scan_diagonals.simps
  step_point_def step_down_def rd_def wr_def slide.simps same_at_def char_at_def fold_edits_def fold_edit_def
  grow_hunk_def edit_x_def char_or_empty_def text_slice_def MAX_EDITS_def

theorem merge3_applies_disjoint_changes_witness:
  "merge3 ''abcd'' ''bXcd'' ''abc'' = ''bXc''"
proof -
  have d: "diffText ''abcd'' ''bXcd'' = [(0, 1, []), (2, 2, ''X'')]" by (simp add: run_diff Let_def cong: let_weak_cong prod.case_cong_weak)
  have e: "diffText ''abcd'' ''abc'' = [(3, 4, [])]" by (simp add: run_diff Let_def cong: let_weak_cong prod.case_cong_weak)
  show ?thesis
    using merge3_applies_disjoint_changes [of "''abcd''" "''bXcd''" "''abc''"]
    by (simp add: d e apart_def in_order_def applyHunks_def emit_hunk_def text_slice_def)
qed

text \<open>
  The union of overlapping deletions is not always deleted: when one change spans several of
  the other side, the position moves back to the end of the last of these. Here one side
  deletes the whole text and the other two of its characters, and the last one survives.
\<close>

lemma merge3_overlap_resurrects:
  "diffText ''abcd'' ''bd'' = [(0, 1, []), (2, 3, [])] \<and> diffText ''abcd'' [] = [(0, 4, [])]
   \<and> merge3 ''abcd'' ''bd'' [] = ''d''"
proof -
  have a: "diffText ''abcd'' ''bd'' = [(0, 1, []), (2, 3, [])]"
    by (simp add: run_diff Let_def cong: let_weak_cong prod.case_cong_weak)
  have b: "diffText ''abcd'' [] = [(0, 4, [])]"
    by (simp add: run_diff Let_def cong: let_weak_cong prod.case_cong_weak)
  show ?thesis by (simp add: merge3_def a b text_slice_def)
qed

section \<open>Carets\<close>

text \<open>How much longer the hunks make the text.\<close>

fun growth :: "'a hunk list \<Rightarrow> int" where
  "growth [] = 0"
| "growth ((s, e, ins) # hs) = int (length ins) - (int e - int s) + growth hs"

lemma growth_snoc: "growth (hs @ [(s, e, ins)]) = growth hs + (int (length ins) - (int e - int s))"
  by (induction hs rule: growth.induct) auto

lemma growth_ge: "hunks_wf p n hs \<Longrightarrow> int p - int n \<le> growth hs"
  by (induction p n hs rule: hunks_wf.induct) auto

lemma emitted_length:
  "hunks_wf 0 (length a) hs \<Longrightarrow> int (length (fst (emitted a hs))) = int (snd (emitted a hs)) + growth hs"
proof (induction hs rule: rev_induct)
  case (snoc h hs)
  obtain s e ins where h: "h = (s, e, ins)" by (cases h)
  with snoc have wf: "hunks_wf 0 s hs" "s \<le> e" "e \<le> length a" by (simp_all add: hunks_wf_snoc)
  then have "snd (emitted a hs) \<le> s" by (simp add: emitted_pos)
  moreover have "hunks_wf 0 (length a) hs" using wf hunks_wf_mono [of 0 s hs "length a"] by simp
  ultimately show ?case using snoc wf h by (simp add: growth_snoc text_slice_def)
qed simp

lemma length_applyHunks:
  "hunks_wf 0 (length a) hs \<Longrightarrow> int (length (applyHunks a hs)) = int (length a) + growth hs"
  using emitted_length [of a hs] emitted_pos [of "length a" hs a] by (simp add: applyHunks_emitted)

lemma map_offset_loop_range:
  assumes "hunks_wf p n hs" "int p \<le> k" "k \<le> int n"
  shows "int p + delta \<le> map_offset_loop hs k delta \<and> map_offset_loop hs k delta \<le> int n + delta + growth hs"
  using assms
proof (induction hs k delta arbitrary: p rule: map_offset_loop.induct)
  case (2 s e ins hs k delta)
  then show ?case using growth_ge [of e n hs] by (fastforce simp: not_less)
qed auto

lemma map_offset_loop_mono:
  assumes "hunks_wf p n hs" "int p \<le> i" "i \<le> j" "j \<le> int n"
  shows "map_offset_loop hs i delta \<le> map_offset_loop hs j delta"
  using assms
proof (induction hs i delta arbitrary: p rule: map_offset_loop.induct)
  case (2 s e ins hs i delta)
  then show ?case
    using map_offset_loop_range [of e n hs j "delta + (int (length ins) - (int e - int s))"]
    by auto
qed auto

text \<open>An offset inside the old text maps to an offset inside the new one, and two offsets keep
  their order, so a selection stays a selection of the new text.\<close>

theorem mapOffset_in_range_and_monotone:
  assumes "0 \<le> i" "i \<le> j" "j \<le> int (length prev)"
  shows "0 \<le> mapOffset prev nxt i \<and> mapOffset prev nxt i \<le> mapOffset prev nxt j
    \<and> mapOffset prev nxt j \<le> int (length nxt)"
proof -
  have wf: "hunks_wf 0 (length prev) (diffText prev nxt)" by (simp add: diffText_correct)
  have len: "int (length nxt) = int (length prev) + growth (diffText prev nxt)"
    using length_applyHunks [OF wf] diffText_correct [of prev nxt] by simp
  show ?thesis
    using map_offset_loop_range [OF wf, of i 0] map_offset_loop_range [OF wf, of j 0]
      map_offset_loop_mono [OF wf, of i j 0] assms len
    by (simp add: mapOffset_def)
qed

theorem mapOffset_in_range_and_monotone_witness:
  "mapOffset ''abcd'' ''abXcd'' 1 \<le> mapOffset ''abcd'' ''abXcd'' 4
   \<and> mapOffset ''abcd'' ''abXcd'' 4 \<le> 5"
  using mapOffset_in_range_and_monotone [of 1 4 "''abcd''" "''abXcd''"] by simp

section \<open>The hash\<close>

lemma FNV_inverse: "FNV_PRIME * 899433627 = 1"
  by (simp add: FNV_PRIME_def)

lemma times_prime_inj: "a * FNV_PRIME = b * FNV_PRIME \<Longrightarrow> a = b"
  by (drule arg_cong [where f = "\<lambda>z. z * 899433627"]) (simp add: mult.assoc FNV_inverse)

lemma word_xor_cancel: "a XOR c = b XOR c \<Longrightarrow> a = b" for a b c :: "'a::len word"
  by (drule arg_cong [where f = "\<lambda>z. z XOR c"]) (simp add: xor.assoc)

lemma hash_step_inj: "hash_step h c = hash_step h' c \<Longrightarrow> h = h'"
  unfolding hash_step_def by (drule times_prime_inj) (rule word_xor_cancel)

lemma hash_fold_inj: "foldl hash_step h cs = foldl hash_step h' cs \<Longrightarrow> h = h'"
  by (induction cs arbitrary: h h') (auto dest: hash_step_inj)

lemma hash_step_same: "hash_step h c = hash_step h d \<longleftrightarrow> c = d"
proof
  assume "hash_step h c = hash_step h d"
  then have "ucast c XOR h = ucast d XOR h"
    unfolding hash_step_def by (simp add: xor.commute times_prime_inj)
  then have "(ucast c :: 32 word) = ucast d" by (rule word_xor_cancel)
  then have "(ucast (ucast c :: 32 word) :: 16 word) = ucast (ucast d :: 32 word)" by simp
  then show "c = d" by (simp add: ucast_up_ucast_id is_up_def source_size_def target_size_def)
qed simp

text \<open>Two texts that differ in exactly one code unit never have the same hash, so a patch is
  never taken for one made on a text with one unit replaced.\<close>

theorem hashText_detects_one_change:
  "hashText (xs @ c # ys) = hashText (xs @ d # ys) \<longleftrightarrow> c = d"
  by (auto simp: hashText_def hash_step_same dest: hash_fold_inj)
end
