(* ===== verification/Types.thy ===== *)
theory Types
  imports Js_Value
begin

text \<open>
  \<open>src/core/types.ts\<close>: operations, conflict policies, the error taxonomy, the messages of the
  protocol and its constants. A field the source marks optional (\<open>?\<close>) is an \<open>option\<close>; a payload
  of \<open>Record<string, unknown> | null\<close> is a \<open>row option\<close>. \<open>unknown\<close> data of a message is a
  \<open>jsval\<close>. The message unions list the messages the modelled code sends or reads.
\<close>

section \<open>Operations\<close>

datatype OpType = Insert | Update | Delete

datatype OpStatus = Pending | Synced | Rejected

record ClientOp =
  co_id :: string
  co_table :: string
  co_op :: OpType
  co_rowId :: string
  co_payload :: "row option"
  co_hlc :: string
  co_batchId :: "string option"
  co_batchSize :: "int option"
  co_batchSeq :: "int option"

section \<open>Errors\<close>

text \<open>The taxonomy is a set of strings, checked at run time by \<open>isErrorReason\<close>.\<close>

definition VALID_ERROR_REASONS :: "string list" where
  "VALID_ERROR_REASONS =
     [''outside_shape'', ''readonly_query'', ''rate_limited'', ''buffer_full'', ''server_conflict'',
      ''custom_conflict'', ''merge_stale'', ''clock_drift'', ''replay'', ''batch_too_large'',
      ''schema_outdated'', ''auth_revoked'', ''compacted'', ''mutation_rejected'', ''server_error'',
      ''unknown_query'']"

text \<open>What application code may throw: a \<open>MutationError\<close> with its reason, or anything else.\<close>

datatype thrown = MutationError string | OtherError

definition isErrorReason :: "jsval \<Rightarrow> bool" where
  "isErrorReason v = (case v of Str s \<Rightarrow> s \<in> set VALID_ERROR_REASONS | _ \<Rightarrow> False)"

definition reasonFromError :: "thrown \<Rightarrow> string" where
  "reasonFromError err =
     (case err of
        MutationError r \<Rightarrow> if isErrorReason (Str r) then r else ''server_error''
      | OtherError \<Rightarrow> ''server_error'')"

lemma reasonFromError_valid: "reasonFromError err \<in> set VALID_ERROR_REASONS"
  by (auto simp: reasonFromError_def isErrorReason_def VALID_ERROR_REASONS_def split: thrown.splits)

section \<open>Conflict policies\<close>

type_synonym clocks = "string jsobj"

record TextConflictPolicy =
  tp_text :: "string list"
  tp_softDelete :: "string option"

record ResolverMeta =
  rm_table :: string
  rm_rowId :: string
  rm_userId :: string

text \<open>A resolver is application code: it returns a row or throws.\<close>

type_synonym ConflictResolver =
  "OpType \<times> row option \<times> string \<Rightarrow> row \<times> clocks \<Rightarrow> ResolverMeta \<Rightarrow> thrown + row"

datatype ConflictPolicy =
    Lww
  | Merge
  | Server
  | Custom ConflictResolver
  | TextPolicy TextConflictPolicy

section \<open>Messages\<close>

record TextPatch =
  pt_hunks :: "(nat \<times> nat \<times> string) list"
  pt_hash :: int

datatype Broadcast = Consistent | Eager | EagerDurable

record TableMeta =
  tm_serverSet :: "string list"
  tm_readonly :: "string list"
  tm_broadcast :: Broadcast
  tm_pk :: "string option"

record DeltaMessage =
  dm_table :: string
  dm_op :: OpType
  dm_rowId :: string
  dm_payload :: "row option"
  dm_hlc :: string
  dm_colClocks :: "clocks option"
  dm_textPatches :: "TextPatch jsobj option"

record SnapshotMessage =
  sm_table :: string
  sm_rows :: "row list"
  sm_colClocks :: "clocks jsobj"
  sm_append :: "bool option"
  sm_totalCount :: "int option"
  sm_pk :: "string option"

datatype ShapeReason = AuthChanged | ParamsChanged | ServerPolicy

datatype ClientMessage =
    Hello int "int list option" string string
  | Bootstrap "jsval jsobj option"
  | Resume string
  | Ops "ClientOp list" string
  | SyncDeclare string "row option" "int option"
  | LoadMore string int
  | Unsync string
  | Auth string
  | Ephemeral string string row "int option"
  | Signal string row
  | IceRequest

datatype ServerMessage =
    HelloAck int string "string option"
  | HelloReject string "int list"
  | Snapshot SnapshotMessage
  | BootstrapComplete string "TableMeta jsobj"
  | Delta DeltaMessage
  | Ack "string list"
  | Reject "string option" "string option" string "row option"
  | ResumeComplete string
  | ResumeRejected string string
  | ShapeChanged string ShapeReason
  | Disconnect string
  | Reauth
  | EphemeralEvent string string string row "int option"
  | SignalEvent string string row
  | IceServers "jsval list" "int option"
  | CountChanged string int

section \<open>Constants\<close>

definition PROTOCOL_VERSION :: int where
  "PROTOCOL_VERSION = 1"

definition SUPPORTED_PROTOCOL_VERSIONS :: "int list" where
  "SUPPORTED_PROTOCOL_VERSIONS = [1]"

definition MAX_BATCH_SIZE :: nat where
  "MAX_BATCH_SIZE = 100"

definition TOMBSTONE_RETENTION_MS :: int where
  "TOMBSTONE_RETENTION_MS = 7 * 24 * 60 * 60 * 1000"

definition SERVER_TOMBSTONE_RETENTION_MS :: int where
  "SERVER_TOMBSTONE_RETENTION_MS = 90 * 24 * 60 * 60 * 1000"

text \<open>Absent limits are unlimited; \<open>perTable\<close> adds a limit for a table.\<close>

record RateLimit =
  rl_opsPerSecond :: "int option"
  rl_opsPerMinute :: "int option"

record RateLimitConfig = RateLimit +
  rl_batchesPerMinute :: "int option"
  rl_perTable :: "RateLimit jsobj"
  rl_ephemeralPerSecond :: "int option"

text \<open>\<open>AuthContext\<close>: the user and whatever else the application put there.\<close>

record AuthContext =
  au_userId :: string
  au_fields :: row

end
