(* ===== verification/Conflict.thy ===== *)
theory Conflict
  imports Types Hlc Text_Merge
begin

text \<open>
  \<open>src/server/conflict.ts\<close>: what an incoming write makes of the stored row, under each policy.
  Spreads are \<open>obj_assign\<close>, an assignment \<open>o[k] = v\<close> is \<open>obj_put\<close>. A text edit arrives as
  unchecked client data, so it is a \<open>jsval\<close> that \<open>isTextEdit\<close> inspects.
\<close>

section \<open>Definitions\<close>

record ConflictInput =
  ci_op :: OpType
  ci_payload :: "row option"
  ci_hlc :: string
  ci_rowId :: string
  ci_tableName :: string
  ci_userId :: string

record ExistingRow =
  ex_row :: "row option"
  ex_rowHlc :: "string option"
  ex_colClocks :: clocks

record ConflictResult =
  cr_accepted :: bool
  cr_resolvedRow :: "row option"
  cr_colClocks :: clocks
  cr_reason :: "string option"

definition ROW_CLOCK :: string where
  "ROW_CLOCK = ''_row''"

definition TEXT_EDIT_KEY :: string where
  "TEXT_EDIT_KEY = ''$text''"

definition TEXT_SEEN_COLUMN :: string where
  "TEXT_SEEN_COLUMN = ''_seen''"

definition TEXT_SEEN_LIMIT :: nat where
  "TEXT_SEEN_LIMIT = 64"

definition accept :: "row option \<Rightarrow> clocks \<Rightarrow> ConflictResult" where
  "accept r c = \<lparr>cr_accepted = True, cr_resolvedRow = r, cr_colClocks = c, cr_reason = None\<rparr>"

definition refuse :: "ExistingRow \<Rightarrow> string option \<Rightarrow> ConflictResult" where
  "refuse ex reason = \<lparr>cr_accepted = False, cr_resolvedRow = ex_row ex,
     cr_colClocks = ex_colClocks ex, cr_reason = reason\<rparr>"

text \<open>An absent or empty string is falsy.\<close>

definition falsy_str :: "string option \<Rightarrow> bool" where
  "falsy_str s \<longleftrightarrow> s = None \<or> s = Some []"

definition stamp_keys :: "string \<Rightarrow> row option \<Rightarrow> clocks \<Rightarrow> clocks" where
  "stamp_keys hlc payload c =
     (case payload of None \<Rightarrow> c | Some p \<Rightarrow> fold (\<lambda>col. obj_put col hlc) (obj_keys p) c)"

definition buildColClocks :: "ConflictInput \<Rightarrow> clocks" where
  "buildColClocks inc = stamp_keys (ci_hlc inc) (ci_payload inc) [(ROW_CLOCK, ci_hlc inc)]"

definition first_write :: "ConflictInput \<Rightarrow> ConflictResult" where
  "first_write inc =
     accept (if ci_op inc = Delete then None else ci_payload inc) (buildColClocks inc)"

definition resolveLww :: "ConflictInput \<Rightarrow> ExistingRow \<Rightarrow> ConflictResult" where
  "resolveLww inc ex =
     (case ex_row ex of
        None \<Rightarrow> first_write inc
      | Some row \<Rightarrow>
          if falsy_str (ex_rowHlc ex) then first_write inc
          else if compareHlc (ci_hlc inc) (the (ex_rowHlc ex)) > 0 then
            let clocks = obj_assign (ex_colClocks ex) [(ROW_CLOCK, ci_hlc inc)] in
            if ci_op inc = Delete then accept None clocks
            else
              let resolved = (if ci_op inc = Update
                    then Some (obj_assign row (case ci_payload inc of Some p \<Rightarrow> p | None \<Rightarrow> []))
                    else ci_payload inc);
                  clocks1 = stamp_keys (ci_hlc inc) (ci_payload inc) clocks;
                  clocks2 = (if ci_op inc = Insert
                    then stamp_keys (ci_hlc inc) (ci_payload inc) clocks1 else clocks1)
              in accept resolved clocks2
          else refuse ex None)"

text \<open>One turn of the loop over the payload of \<open>resolveMerge\<close>.\<close>

definition merge_col ::
  "string \<Rightarrow> string \<times> jsval \<Rightarrow> row \<times> clocks \<times> bool \<Rightarrow> row \<times> clocks \<times> bool" where
  "merge_col hlc cv st =
     (case (cv, st) of ((col, value), (merged, clocks, anyAccepted)) \<Rightarrow>
        if falsy_str (obj_get clocks col) \<or> compareHlc hlc (the (obj_get clocks col)) > 0
        then (obj_put col value merged, obj_put col hlc clocks, True)
        else st)"

definition resolveMerge :: "ConflictInput \<Rightarrow> ExistingRow \<Rightarrow> ConflictResult" where
  "resolveMerge inc ex =
     (case ex_row ex of
        None \<Rightarrow> first_write inc
      | Some row \<Rightarrow>
          if falsy_str (ex_rowHlc ex) then first_write inc
          else if ci_op inc = Delete then
            (if compareHlc (ci_hlc inc) (the (ex_rowHlc ex)) > 0
             then accept None (obj_assign (ex_colClocks ex) [(ROW_CLOCK, ci_hlc inc)])
             else refuse ex (Some ''merge_stale''))
          else
            let payload = (case ci_payload inc of Some p \<Rightarrow> p | None \<Rightarrow> []) in
            (case fold (merge_col (ci_hlc inc)) payload (row, ex_colClocks ex, False) of
               (merged, clocks, anyAccepted) \<Rightarrow>
                 if \<not> anyAccepted then refuse ex (Some ''merge_stale'')
                 else
                   let clocks' = (if falsy_str (obj_get clocks ROW_CLOCK)
                                    \<or> compareHlc (ci_hlc inc) (the (obj_get clocks ROW_CLOCK)) > 0
                                  then obj_put ROW_CLOCK (ci_hlc inc) clocks else clocks)
                   in accept (Some merged) clocks'))"

definition resolveServer :: "ConflictInput \<Rightarrow> ExistingRow \<Rightarrow> ConflictResult" where
  "resolveServer inc ex =
     (case ex_row ex of
        None \<Rightarrow> first_write inc
      | Some _ \<Rightarrow> refuse ex (Some ''server_conflict''))"

definition custom_col ::
  "row \<Rightarrow> string \<Rightarrow> string \<times> jsval \<Rightarrow> clocks \<times> bool \<Rightarrow> clocks \<times> bool" where
  "custom_col row hlc cv st =
     (case (cv, st) of ((col, value), (clocks, anyChanged)) \<Rightarrow>
        if \<not> strict_eq (get_prop row col) value then (obj_put col hlc clocks, True) else st)"

definition resolveCustom ::
  "ConflictResolver \<Rightarrow> ConflictInput \<Rightarrow> ExistingRow \<Rightarrow> ConflictResult" where
  "resolveCustom resolve inc ex =
     (case ex_row ex of
        None \<Rightarrow> first_write inc
      | Some row \<Rightarrow>
          (case resolve (ci_op inc, ci_payload inc, ci_hlc inc) (row, ex_colClocks ex)
                 \<lparr>rm_table = ci_tableName inc, rm_rowId = ci_rowId inc, rm_userId = ci_userId inc\<rparr> of
             Inl (MutationError reason) \<Rightarrow> refuse ex (Some reason)
           | Inl OtherError \<Rightarrow> refuse ex (Some ''server_error'')
           | Inr result \<Rightarrow>
               (case fold (custom_col row (ci_hlc inc)) result (ex_colClocks ex, False) of
                  (clocks, anyChanged) \<Rightarrow>
                    accept (Some result)
                      (if anyChanged then obj_put ROW_CLOCK (ci_hlc inc) clocks else clocks))))"

section \<open>Text edits\<close>

text \<open>\<open>x?.k\<close> for the property names of a text edit, which only plain objects have.\<close>

definition prop_of :: "jsval \<Rightarrow> string \<Rightarrow> jsval" where
  "prop_of v k = (case v of Obj _ f \<Rightarrow> get_prop f k | _ \<Rightarrow> Undefined)"

text \<open>\<open>Object.entries(v ?? {})\<close>, also what \<open>{...v}\<close> copies.\<close>

definition indexed :: "'a list \<Rightarrow> (string \<times> 'a) list" where
  "indexed xs = zip (map nat_str [0..<length xs]) xs"

definition entries_of :: "jsval \<Rightarrow> row" where
  "entries_of v =
     (case v of
        Obj _ f \<Rightarrow> f
      | Arr _ xs \<Rightarrow> indexed xs
      | Str s \<Rightarrow> indexed (map (\<lambda>c. Str [c]) s)
      | _ \<Rightarrow> [])"

text \<open>A hunk as it arrives: an array of two integers and a string.\<close>

definition hunk_parts :: "jsval \<Rightarrow> (int \<times> int \<times> string) option" where
  "hunk_parts h =
     (case arr_of h of
        Some [a, b, c] \<Rightarrow>
          (case (num_of a, num_of b, str_of c) of
             (Some s, Some e, Some ins) \<Rightarrow> Some (s, e, ins)
           | _ \<Rightarrow> None)
      | _ \<Rightarrow> None)"

text \<open>The bounds \<open>isTextEdit\<close> asks of one column's hunks, from \<open>pos\<close> on.\<close>

fun hunks_in_range :: "int \<Rightarrow> int \<Rightarrow> jsval list \<Rightarrow> bool" where
  "hunks_in_range pos len [] = True"
| "hunks_in_range pos len (h # hs) =
     (case hunk_parts h of
        Some (s, e, ins) \<Rightarrow> \<not> (s < pos \<or> e < s \<or> e > len) \<and> hunks_in_range e len hs
      | None \<Rightarrow> False)"

definition change_ok :: "TextConflictPolicy \<Rightarrow> string \<times> jsval \<Rightarrow> bool" where
  "change_ok policy cc =
     (case cc of (column, change) \<Rightarrow>
        column \<in> set (tp_text policy) \<and>
        (case (str_of (prop_of change ''value''), arr_of (prop_of change ''back'')) of
           (Some value, Some back) \<Rightarrow> hunks_in_range 0 (int (length value)) back
         | _ \<Rightarrow> False))"

definition is_number :: "jsval \<Rightarrow> bool" where
  "is_number v = (case v of Num _ \<Rightarrow> True | NaN \<Rightarrow> True | _ \<Rightarrow> False)"

definition isTextEdit :: "jsval \<Rightarrow> TextConflictPolicy \<Rightarrow> bool" where
  "isTextEdit edit policy =
     (case str_of (prop_of edit ''who'') of
        Some who \<Rightarrow>
          length who \<le> 64 \<and> is_number (prop_of edit ''n'')
          \<and> list_all (change_ok policy) (entries_of (prop_of edit ''edits''))
          \<and> (truthy (prop_of edit ''remove'') \<longrightarrow>
               (case str_of (prop_of (prop_of edit ''remove'') ''column'') of
                  Some c \<Rightarrow> c \<in> set (tp_text policy)
                | None \<Rightarrow> False)
               \<and> \<not> falsy_str (tp_softDelete policy)
               \<and> is_number (prop_of (prop_of edit ''remove'') ''baseHash''))
      | None \<Rightarrow> False)"

text \<open>The hunks \<open>applyHunks\<close> reads, once \<open>isTextEdit\<close> has let them through.\<close>

definition hunk_of :: "jsval \<Rightarrow> char hunk" where
  "hunk_of h = (case hunk_parts h of Some (s, e, ins) \<Rightarrow> (nat s, nat e, ins) | None \<Rightarrow> (0, 0, []))"

definition hunks_of :: "jsval \<Rightarrow> char hunk list" where
  "hunks_of back = (case arr_of back of Some hs \<Rightarrow> map hunk_of hs | None \<Rightarrow> [])"

definition stamp :: "string \<Rightarrow> string \<Rightarrow> jsval \<Rightarrow> row \<times> clocks \<Rightarrow> row \<times> clocks" where
  "stamp hlc column value st =
     (case st of (row, clocks) \<Rightarrow> (obj_put column value row, obj_put column hlc clocks))"

definition edit_column ::
  "TextConflictPolicy \<Rightarrow> string \<Rightarrow> string \<times> jsval \<Rightarrow> row \<times> clocks \<Rightarrow> row \<times> clocks" where
  "edit_column policy hlc cc st =
     (case cc of (column, change) \<Rightarrow>
        let value = string_or_empty (prop_of change ''value'');
            back = hunks_of (prop_of change ''back'');
            current = string_or_empty (get_prop (fst st) column);
            merged = merge3 (applyHunks value back) current value;
            st1 = (if \<not> strict_eq (Str merged) (get_prop (fst st) column)
                   then stamp hlc column (Str merged) st else st)
        in case tp_softDelete policy of
             Some sd \<Rightarrow> if sd \<noteq> [] \<and> truthy (get_prop (fst st1) sd)
                        then stamp hlc sd (Bool False) st1 else st1
           | None \<Rightarrow> st1)"

definition hash_string :: "string \<Rightarrow> int" where
  "hash_string s = uint (hashText (map of_char s))"

definition edit_remove ::
  "TextConflictPolicy \<Rightarrow> string \<Rightarrow> jsval \<Rightarrow> row \<times> clocks \<Rightarrow> row \<times> clocks" where
  "edit_remove policy hlc remove st =
     (if truthy remove \<and> \<not> falsy_str (tp_softDelete policy)
         \<and> Num (hash_string (string_or_empty
              (get_prop (fst st) (string_or_empty (prop_of remove ''column'')))))
           = prop_of remove ''baseHash''
      then stamp hlc (the (tp_softDelete policy)) (Bool True) st else st)"

definition remember_writer :: "string \<Rightarrow> jsval \<Rightarrow> row \<Rightarrow> row" where
  "remember_writer who n seen0 =
     (let seen = obj_put who n (obj_del who seen0)
      in fold obj_del (take (length seen - TEXT_SEEN_LIMIT) (obj_keys seen)) seen)"

definition apply_text_edit ::
  "TextConflictPolicy \<Rightarrow> string \<Rightarrow> jsval \<Rightarrow> row \<times> clocks \<Rightarrow> row \<times> clocks" where
  "apply_text_edit policy hlc edit st0 =
     (let st1 = fold (edit_column policy hlc) (entries_of (prop_of edit ''edits'')) st0;
          st2 = edit_remove policy hlc (prop_of edit ''remove'') st1;
          seen = remember_writer (string_or_empty (prop_of edit ''who'')) (prop_of edit ''n'')
                   (entries_of (get_prop (fst st2) TEXT_SEEN_COLUMN));
          st3 = stamp hlc TEXT_SEEN_COLUMN (Obj 0 seen) st2
      in (fst st3, obj_put ROW_CLOCK hlc (snd st3)))"

definition resolveText ::
  "TextConflictPolicy \<Rightarrow> ConflictInput \<Rightarrow> ExistingRow \<Rightarrow> ConflictResult" where
  "resolveText policy inc ex =
     (if ci_op inc = Delete then resolveLww inc ex
      else if ci_op inc = Insert \<and> ex_row ex \<noteq> None then accept (ex_row ex) (ex_colClocks ex)
      else
        let payload = (case ci_payload inc of Some p \<Rightarrow> p | None \<Rightarrow> []);
            edit = get_prop payload TEXT_EDIT_KEY;
            plain = obj_del TEXT_EDIT_KEY payload
        in if edit \<noteq> Undefined \<and> \<not> isTextEdit edit policy then refuse ex (Some ''validation_failed'')
           else
             let base = (if obj_keys plain = []
                    then accept (Some (case ex_row ex of Some r \<Rightarrow> r | None \<Rightarrow> [])) (ex_colClocks ex)
                    else resolveMerge (inc\<lparr>ci_payload := Some plain\<rparr>) ex)
             in if edit = Undefined then base
                else
                  (case apply_text_edit policy (ci_hlc inc) edit
                         (case cr_resolvedRow base of Some r \<Rightarrow> r | None \<Rightarrow> [], cr_colClocks base) of
                     (row, clocks) \<Rightarrow> accept (Some row) clocks))"

definition resolveConflict ::
  "ConflictPolicy \<Rightarrow> ConflictInput \<Rightarrow> ExistingRow \<Rightarrow> ConflictResult" where
  "resolveConflict policy inc ex =
     (case policy of
        Lww \<Rightarrow> resolveLww inc ex
      | Merge \<Rightarrow> resolveMerge inc ex
      | Server \<Rightarrow> resolveServer inc ex
      | Custom resolve \<Rightarrow> resolveCustom resolve inc ex
      | TextPolicy p \<Rightarrow> resolveText p inc ex)"

end
