(* ===== verification/Conflict_Facts.thy ===== *)
theory Conflict_Facts
  imports Conflict Text_Facts "HOL-Library.Multiset"
begin

text \<open>
  What the conflict policies of \<open>src/server/conflict.ts\<close> promise: a refused write changes nothing,
  merges of concurrent writes converge whatever their order, a text edit keeps what both sides
  typed, and a row remembers a bounded number of writers.
\<close>

section \<open>A refused write changes nothing\<close>

lemma cr_accept [simp]:
  "cr_accepted (accept r c)" "cr_resolvedRow (accept r c) = r" "cr_colClocks (accept r c) = c"
  "cr_reason (accept r c) = None"
  by (simp_all add: accept_def)

lemma cr_refuse [simp]:
  "\<not> cr_accepted (refuse ex q)" "cr_resolvedRow (refuse ex q) = ex_row ex"
  "cr_colClocks (refuse ex q) = ex_colClocks ex" "cr_reason (refuse ex q) = q"
  by (simp_all add: refuse_def)

definition unchanged :: "ExistingRow \<Rightarrow> ConflictResult \<Rightarrow> bool" where
  "unchanged ex res \<longleftrightarrow> cr_resolvedRow res = ex_row ex \<and> cr_colClocks res = ex_colClocks ex"

lemma refused_lww: "\<not> cr_accepted (resolveLww inc ex) \<Longrightarrow> unchanged ex (resolveLww inc ex)"
  by (auto simp: resolveLww_def first_write_def unchanged_def Let_def split: option.splits if_splits)

lemma refused_merge: "\<not> cr_accepted (resolveMerge inc ex) \<Longrightarrow> unchanged ex (resolveMerge inc ex)"
  by (auto simp: resolveMerge_def first_write_def unchanged_def Let_def
      split: option.splits if_splits prod.splits)

lemma refused_server: "\<not> cr_accepted (resolveServer inc ex) \<Longrightarrow> unchanged ex (resolveServer inc ex)"
  by (auto simp: resolveServer_def first_write_def unchanged_def split: option.splits)

lemma refused_custom:
  "\<not> cr_accepted (resolveCustom f inc ex) \<Longrightarrow> unchanged ex (resolveCustom f inc ex)"
  by (auto simp: resolveCustom_def first_write_def unchanged_def
      split: option.splits sum.splits thrown.splits prod.splits)

lemma refused_text:
  assumes "\<not> cr_accepted (resolveText p inc ex)"
  shows "unchanged ex (resolveText p inc ex)"
proof -
  have merge: "unchanged ex (resolveMerge (inc\<lparr>ci_payload := q\<rparr>) ex)"
    if "\<not> cr_accepted (resolveMerge (inc\<lparr>ci_payload := q\<rparr>) ex)" for q
    using that by (rule refused_merge)
  show ?thesis
    using assms refused_lww [of inc ex] merge
    unfolding resolveText_def Let_def
    by (auto simp: unchanged_def split: if_splits prod.splits)
qed

text \<open>C7: under every policy, a write that is not accepted leaves the row and the column clocks as
  they were.\<close>

theorem refused_write_changes_nothing:
  assumes "\<not> cr_accepted (resolveConflict policy inc ex)"
  shows "cr_resolvedRow (resolveConflict policy inc ex) = ex_row ex
    \<and> cr_colClocks (resolveConflict policy inc ex) = ex_colClocks ex"
  using assms refused_lww [of inc ex] refused_merge [of inc ex] refused_server [of inc ex]
    refused_custom [of _ inc ex] refused_text [of _ inc ex]
  by (cases policy) (auto simp: resolveConflict_def unchanged_def)

theorem refused_write_changes_nothing_witness:
  "cr_resolvedRow (resolveConflict Merge
       \<lparr>ci_op = Update, ci_payload = Some [(''a'', Num 2)], ci_hlc = ''1'', ci_rowId = ''r'',
        ci_tableName = ''t'', ci_userId = ''u''\<rparr>
       \<lparr>ex_row = Some [(''a'', Num 1)], ex_rowHlc = Some ''5'', ex_colClocks = [(''a'', ''5'')]\<rparr>)
   = Some [(''a'', Num 1)]"
  using refused_write_changes_nothing [of Merge
       "\<lparr>ci_op = Update, ci_payload = Some [(''a'', Num 2)], ci_hlc = ''1'', ci_rowId = ''r'',
        ci_tableName = ''t'', ci_userId = ''u''\<rparr>"
       "\<lparr>ex_row = Some [(''a'', Num 1)], ex_rowHlc = Some ''5'', ex_colClocks = [(''a'', ''5'')]\<rparr>"]
  by (simp add: resolveConflict_def resolveMerge_def merge_col_def falsy_str_def obj_get_def compareHlc_def)

section \<open>Merging column by column\<close>

definition newer :: "string \<Rightarrow> string option \<Rightarrow> bool" where
  "newer hlc c \<longleftrightarrow> falsy_str c \<or> compareHlc hlc (the c) > 0"

lemma newer_simps [simp]:
  "newer hlc None" "newer hlc (Some c) \<longleftrightarrow> c = [] \<or> c < hlc"
  by (auto simp: newer_def falsy_str_def compareHlc_def)

text \<open>What a write does to one column: it takes it when its clock is the newer one.\<close>

type_synonym col_state = "jsval option \<times> string option"

definition col_view :: "ExistingRow \<Rightarrow> string \<Rightarrow> col_state" where
  "col_view ex col =
     (case ex_row ex of Some r \<Rightarrow> obj_get r col | None \<Rightarrow> None, obj_get (ex_colClocks ex) col)"

lemma merge_col_newer:
  "merge_col hlc (col, v) (r, c, any) =
     (if newer hlc (obj_get c col) then (obj_put col v r, obj_put col hlc c, True) else (r, c, any))"
  by (simp add: merge_col_def newer_def)

fun col_after :: "string \<Rightarrow> row \<Rightarrow> string \<Rightarrow> col_state \<Rightarrow> col_state" where
  "col_after hlc p col (v, c) =
     (if obj_get p col \<noteq> None \<and> newer hlc c then (obj_get p col, Some hlc) else (v, c))"

lemma obj_get_Cons: "obj_get ((k, v) # p) j = (if j = k then Some v else obj_get p j)"
  by (simp add: obj_get_def)

lemma obj_wf_Cons: "obj_wf ((k, v) # p) \<longleftrightarrow> obj_get p k = None \<and> obj_wf p"
  by (auto simp: obj_wf_def obj_get_def map_of_eq_None_iff)

lemma merge_fold_kept:
  "fold (merge_col hlc) p (r, c, any) = (r', c', any') \<Longrightarrow> \<not> any' \<Longrightarrow> r' = r \<and> c' = c \<and> \<not> any"
  by (induction p arbitrary: r c any) (fastforce simp: merge_col_newer split: if_splits)+

lemma merge_fold_col:
  assumes "obj_wf p" "fold (merge_col hlc) p (r, c, any) = (r', c', any')"
  shows "(obj_get r' j, obj_get c' j) = col_after hlc p j (obj_get r j, obj_get c j)"
  using assms
proof (induction p arbitrary: r c any)
  case (Cons kv p)
  obtain k v where kv: "kv = (k, v)" by (cases kv)
  have wf: "obj_wf p" "obj_get p k = None" using Cons.prems kv by (simp_all add: obj_wf_Cons)
  let ?new = "newer hlc (obj_get c k)"
  let ?r = "if ?new then obj_put k v r else r" and ?c = "if ?new then obj_put k hlc c else c"
  have step: "fold (merge_col hlc) p (?r, ?c, if ?new then True else any) = (r', c', any')"
    using Cons.prems kv by (auto simp: merge_col_newer split: if_splits)
  show ?case
    using Cons.IH [OF wf(1) step] wf(2) kv
    by (cases ?new; cases "j = k") (auto simp: obj_get_Cons keyed_simps split: if_splits)
qed simp

definition col_step :: "string \<Rightarrow> ConflictInput \<Rightarrow> col_state \<Rightarrow> col_state" where
  "col_step col inc = col_after (ci_hlc inc) (case ci_payload inc of Some p \<Rightarrow> p | None \<Rightarrow> []) col"

definition merge_write :: "ConflictInput \<Rightarrow> ExistingRow \<Rightarrow> ExistingRow" where
  "merge_write inc ex =
     (let res = resolveMerge inc ex in
      if cr_accepted res
      then \<lparr>ex_row = cr_resolvedRow res, ex_rowHlc = Some (ci_hlc inc), ex_colClocks = cr_colClocks res\<rparr>
      else ex)"

text \<open>The writes the column rule speaks of: stamped, not deletes, and not naming the row clock.\<close>

definition column_write :: "ConflictInput \<Rightarrow> bool" where
  "column_write inc \<longleftrightarrow> ci_op inc \<noteq> Delete \<and> ci_hlc inc \<noteq> []
     \<and> obj_wf (case ci_payload inc of Some p \<Rightarrow> p | None \<Rightarrow> [])"

definition stored :: "ExistingRow \<Rightarrow> bool" where
  "stored ex \<longleftrightarrow> ex_row ex \<noteq> None \<and> \<not> falsy_str (ex_rowHlc ex)"

lemma merge_write_view:
  assumes "column_write inc" "stored ex" "col \<noteq> ROW_CLOCK"
  shows "col_view (merge_write inc ex) col = col_step col inc (col_view ex col)"
    and "stored (merge_write inc ex)"
proof -
  let ?p = "case ci_payload inc of Some p \<Rightarrow> p | None \<Rightarrow> []"
  obtain row where row: "ex_row ex = Some row" and hlc: "\<not> falsy_str (ex_rowHlc ex)"
    using assms(2) by (auto simp: stored_def)
  obtain r c any where f: "fold (merge_col (ci_hlc inc)) ?p (row, ex_colClocks ex, False) = (r, c, any)"
    by (metis prod_cases3)
  have wf: "obj_wf ?p" and nd: "ci_op inc \<noteq> Delete" "ci_hlc inc \<noteq> []"
    using assms(1) by (auto simp: column_write_def)
  note mf = merge_fold_col [OF wf f] and kept = merge_fold_kept [OF f]
  have "col_view (merge_write inc ex) col = (obj_get r col, obj_get c col)"
    using row hlc nd f kept assms(3)
    by (cases any) (simp_all add: merge_write_def resolveMerge_def Let_def col_view_def keyed_simps)
  moreover have "col_view ex col = (obj_get row col, obj_get (ex_colClocks ex) col)"
    using row by (simp add: col_view_def)
  ultimately show "col_view (merge_write inc ex) col = col_step col inc (col_view ex col)"
    using mf by (simp only: col_step_def)
  show "stored (merge_write inc ex)"
    using row hlc nd f
    by (auto simp: merge_write_def resolveMerge_def Let_def stored_def falsy_str_def)
qed

lemma merge_fold_view:
  assumes "\<forall>inc\<in>set ops. column_write inc" "stored ex" "col \<noteq> ROW_CLOCK"
  shows "col_view (fold merge_write ops ex) col = fold (col_step col) ops (col_view ex col)"
  using assms by (induction ops arbitrary: ex) (simp_all add: merge_write_view)

lemma col_step_commute:
  assumes "column_write a" "column_write b" "ci_hlc a \<noteq> ci_hlc b"
  shows "col_step col a (col_step col b vc) = col_step col b (col_step col a vc)"
  using assms by (cases vc; cases "snd vc")
    (auto simp: col_step_def column_write_def split: if_splits)



section \<open>Text edits\<close>

text \<open>The hunks \<open>isTextEdit\<close> lets through are the ones \<open>applyHunks\<close> is meant for.\<close>

lemma hunks_in_range_wf:
  "hunks_in_range (int pos) (int len) hs \<Longrightarrow> pos \<le> len \<Longrightarrow> hunks_wf pos len (map hunk_of hs)"
proof (induction hs arbitrary: pos)
  case (Cons h hs)
  from Cons.prems obtain s e ins where h: "hunk_parts h = Some (s, e, ins)"
    and b: "int pos \<le> s" "s \<le> e" "e \<le> int len" and rest: "hunks_in_range e (int len) hs"
    by (auto split: option.splits)
  moreover have "e = int (nat e)" using b by simp
  ultimately have "hunks_wf (nat e) len (map hunk_of hs)"
    using Cons.IH [of "nat e"] by (metis nat_le_iff)
  moreover have "hunk_of h = (nat s, nat e, ins)" using h by (simp add: hunk_of_def)
  ultimately show ?case using b by auto
qed simp

lemma change_ok_hunks:
  assumes "change_ok policy (column, change)"
  shows "hunks_wf 0 (length (string_or_empty (prop_of change ''value'')))
    (hunks_of (prop_of change ''back''))"
  using assms hunks_in_range_wf [of 0]
  by (auto simp: change_ok_def hunks_of_def str_of_some split: option.splits)

lemma edit_column_other:
  assumes "j \<noteq> column" "tp_softDelete policy \<noteq> Some j"
  shows "obj_get (fst (edit_column policy hlc (column, change) st)) j = obj_get (fst st) j"
  using assms by (auto simp: edit_column_def stamp_def Let_def keyed_simps split: prod.splits option.splits)

lemma edit_column_same:
  assumes "tp_softDelete policy \<noteq> Some column"
  shows "get_prop (fst (edit_column policy hlc (column, change) st)) column =
    Str (merge3 (applyHunks (string_or_empty (prop_of change ''value'')) (hunks_of (prop_of change ''back'')))
          (string_or_empty (get_prop (fst st) column)) (string_or_empty (prop_of change ''value'')))"
proof -
  have eq: "strict_eq (Str m) v \<longleftrightarrow> v = Str m" for m v by simp
  show ?thesis
    using assms unfolding edit_column_def stamp_def Let_def eq
    by (auto simp: get_prop_def keyed_simps split: prod.splits option.splits)
qed

lemma edit_columns_other:
  assumes "column \<notin> fst ` set es" "tp_softDelete policy \<noteq> Some column"
  shows "get_prop (fst (fold (edit_column policy hlc) es st)) column = get_prop (fst st) column"
  using assms
proof (induction es arbitrary: st)
  case (Cons cc es)
  then show ?case
    using edit_column_other [of column "fst cc" policy hlc "snd cc" st] by (simp add: get_prop_def)
qed simp

text \<open>What a text edit leaves in a column it edits.\<close>

definition edited_text :: "jsval \<Rightarrow> string \<Rightarrow> string" where
  "edited_text change current =
     (let value = string_or_empty (prop_of change ''value'')
      in merge3 (applyHunks value (hunks_of (prop_of change ''back''))) current value)"

lemma edit_columns_same:
  assumes "distinct (map fst es)" "(column, change) \<in> set es" "tp_softDelete policy \<noteq> Some column"
  shows "get_prop (fst (fold (edit_column policy hlc) es st)) column =
    Str (edited_text change (string_or_empty (get_prop (fst st) column)))"
  using assms
proof (induction es arbitrary: st)
  case (Cons cc es)
  show ?case
  proof (cases "cc = (column, change)")
    case True
    then have "column \<notin> fst ` set es" using Cons.prems by simp
    with True Cons.prems(3) show ?thesis
      by (simp add: edit_columns_other edit_column_same edited_text_def Let_def)
  next
    case False
    then have mem: "(column, change) \<in> set es" using Cons.prems by simp
    then have "column \<in> fst ` set es" by force
    moreover have "fst cc \<notin> fst ` set es" using Cons.prems(1) by simp
    ultimately have "column \<noteq> fst cc" by blast
    with Cons mem show ?thesis
      using edit_column_other [of column "fst cc" policy hlc "snd cc" st] by (simp add: get_prop_def)
  qed
qed simp

lemma edit_remove_other:
  "tp_softDelete policy \<noteq> Some column \<Longrightarrow>
   get_prop (fst (edit_remove policy hlc remove st)) column = get_prop (fst st) column"
  by (cases "tp_softDelete policy")
    (auto simp: edit_remove_def stamp_def get_prop_def falsy_str_def keyed_simps split: prod.splits)

lemma apply_text_edit_column:
  assumes "obj_wf (entries_of (prop_of edit ''edits''))"
    and "(column, change) \<in> set (entries_of (prop_of edit ''edits''))"
    and "tp_softDelete policy \<noteq> Some column" "column \<noteq> TEXT_SEEN_COLUMN"
  shows "get_prop (fst (apply_text_edit policy hlc edit (row, clocks))) column =
    Str (edited_text change (string_or_empty (get_prop row column)))"
proof -
  let ?st = "edit_remove policy hlc (prop_of edit ''remove'')
    (fold (edit_column policy hlc) (entries_of (prop_of edit ''edits'')) (row, clocks))"
  have "get_prop (fst (apply_text_edit policy hlc edit (row, clocks))) column = get_prop (fst ?st) column"
    using assms(4) unfolding apply_text_edit_def Let_def stamp_def
    by (simp add: get_prop_def keyed_simps split: prod.splits)
  then show ?thesis
    using assms by (simp add: edit_remove_other edit_columns_same obj_wf_def)
qed

text \<open>C9: a text edit the server accepts on a stored row merges into what the row holds by then: the
  column keeps, in order, all text the current value has over the text the writer started from
  and all text the writer typed over it.\<close>

theorem text_edit_keeps_both_sides:
  assumes "ex_row ex = Some row" "ci_op inc = Update"
    and "ci_payload inc = Some [(TEXT_EDIT_KEY, edit)]" "isTextEdit edit policy"
    and "obj_wf (entries_of (prop_of edit ''edits''))"
    and "(column, change) \<in> set (entries_of (prop_of edit ''edits''))"
    and "tp_softDelete policy \<noteq> Some column" "column \<noteq> TEXT_SEEN_COLUMN"
  shows "\<exists>result text.
    let value = string_or_empty (prop_of change ''value'');
        before = applyHunks value (hunks_of (prop_of change ''back''));
        current = string_or_empty (get_prop row column)
    in cr_accepted (resolveText policy inc ex)
       \<and> cr_resolvedRow (resolveText policy inc ex) = Some result
       \<and> get_prop result column = Str text
       \<and> subseq (inserted (diffText before current)) text
       \<and> subseq (inserted (diffText before value)) text"
proof -
  have ne: "edit \<noteq> Undefined" using assms(4) by (auto simp: isTextEdit_def prop_of_def str_of_def)
  let ?r = "apply_text_edit policy (ci_hlc inc) edit (row, ex_colClocks ex)"
  have "resolveText policy inc ex = accept (Some (fst ?r)) (snd ?r)"
    using assms(1-4) ne
    by (simp add: resolveText_def get_prop_def obj_get_def obj_del_def obj_keys_def split_beta)
  moreover have "get_prop (fst ?r) column =
      Str (edited_text change (string_or_empty (get_prop row column)))"
    using assms by (intro apply_text_edit_column)
  moreover have "subseq (inserted (diffText base ours)) (merge3 base ours theirs)"
    "subseq (inserted (diffText base theirs)) (merge3 base ours theirs)" for base ours theirs :: string
    by (rule merge3_keeps [THEN conjunct1], rule merge3_keeps [THEN conjunct2])
  ultimately show ?thesis unfolding Let_def edited_text_def
    by (intro exI [of _ "fst ?r"] exI) auto
qed

theorem text_edit_keeps_both_sides_witness:
  "let edit = Obj 6 [(''who'', Str ''w''), (''n'', Num 1), (''edits'', Obj 2 [(''body'',
         Obj 3 [(''value'', Str ''aXb''), (''back'', Arr 4 [Arr 5 [Num 1, Num 2, Str []]])])])]
   in \<exists>result text.
     cr_resolvedRow (resolveText \<lparr>tp_text = [''body''], tp_softDelete = None\<rparr>
       \<lparr>ci_op = Update, ci_payload = Some [(TEXT_EDIT_KEY, edit)], ci_hlc = ''2'', ci_rowId = ''r'',
        ci_tableName = ''t'', ci_userId = ''u''\<rparr>
       \<lparr>ex_row = Some [(''body'', Str ''abc'')], ex_rowHlc = Some ''1'', ex_colClocks = []\<rparr>) = Some result
     \<and> get_prop result ''body'' = Str text \<and> subseq (inserted (diffText ''ab'' ''aXb'')) text"
proof -
  let ?change = "Obj 3 [(''value'', Str ''aXb''), (''back'', Arr 4 [Arr 5 [Num 1, Num 2, Str []]])]"
  let ?edit = "Obj 6 [(''who'', Str ''w''), (''n'', Num 1), (''edits'', Obj 2 [(''body'', ?change)])]"
  have props: "prop_of ?edit ''who'' = Str ''w''" "prop_of ?edit ''n'' = Num 1"
    "entries_of (prop_of ?edit ''edits'') = [(''body'', ?change)]" "prop_of ?edit ''remove'' = Undefined"
    "prop_of ?change ''value'' = Str ''aXb''"
    "prop_of ?change ''back'' = Arr 4 [Arr 5 [Num 1, Num 2, Str []]]"
    by (simp_all add: prop_of_def get_prop_def obj_get_def entries_of_def)
  have "isTextEdit ?edit \<lparr>tp_text = [''body''], tp_softDelete = None\<rparr>"
    by (simp add: isTextEdit_def props change_ok_def is_number_def hunk_parts_def)
  moreover have "applyHunks ''aXb'' (hunks_of (Arr 4 [Arr 5 [Num 1, Num 2, Str []]])) = ''ab''"
    by (simp add: hunks_of_def hunk_of_def hunk_parts_def applyHunks_def emit_hunk_def text_slice_def)
  ultimately show ?thesis
    using text_edit_keeps_both_sides
      [of "\<lparr>ex_row = Some [(''body'', Str ''abc'')], ex_rowHlc = Some ''1'', ex_colClocks = []\<rparr>"
          "[(''body'', Str ''abc'')]"
          "\<lparr>ci_op = Update, ci_payload = Some [(TEXT_EDIT_KEY, ?edit)], ci_hlc = ''2'', ci_rowId = ''r'',
            ci_tableName = ''t'', ci_userId = ''u''\<rparr>"
          ?edit "\<lparr>tp_text = [''body''], tp_softDelete = None\<rparr>" "''body''" ?change]
    by (fastforce simp: props obj_wf_def TEXT_SEEN_COLUMN_def Let_def)
qed

section \<open>The writers a row remembers\<close>

lemma obj_wf_indexed: "obj_wf (indexed xs)"
proof -
  have "inj_on nat_str A" for A by (metis digits_val_nat_str inj_onI)
  then show ?thesis by (simp add: obj_wf_def indexed_def distinct_map)
qed

lemma fold_obj_del_keys:
  "obj_wf r \<Longrightarrow> fold obj_del (take n (obj_keys r)) r = drop n r"
proof (induction n arbitrary: r)
  case (Suc n)
  show ?case
  proof (cases r)
    case (Cons kv r')
    have "obj_del (fst kv) r = r'"
      using Suc.prems Cons by (cases kv) (auto simp: obj_del_def obj_wf_def delete_id)
    moreover have "obj_wf r'" using Suc.prems Cons by (simp add: obj_wf_def)
    ultimately show ?thesis using Suc.IH [of r'] Cons by (simp add: obj_keys_def)
  qed (simp add: obj_keys_def)
qed simp

lemma remember_writer_drop:
  assumes "obj_wf seen"
  shows "remember_writer who n seen =
    (let s = obj_put who n (obj_del who seen) in drop (length s - TEXT_SEEN_LIMIT) s)"
  using assms by (simp add: remember_writer_def Let_def fold_obj_del_keys wf_intros)

lemma obj_put_new: "obj_get r k = None \<Longrightarrow> \<not> is_index k \<Longrightarrow> obj_put k v r = r @ [(k, v)]"
  by (simp add: obj_put_def)

text \<open>A row remembers at most 64 writers, and the writer of an edit is among them with the number
  of its edit, when its id is not one the language enumerates as an integer.\<close>

theorem seen_writers_bounded:
  assumes "obj_wf seen"
  shows "length (remember_writer who n seen) \<le> TEXT_SEEN_LIMIT
    \<and> (\<not> is_index who \<longrightarrow> obj_get (remember_writer who n seen) who = Some n)"
proof
  show "length (remember_writer who n seen) \<le> TEXT_SEEN_LIMIT"
    using assms by (simp add: remember_writer_drop Let_def)
  show "\<not> is_index who \<longrightarrow> obj_get (remember_writer who n seen) who = Some n"
  proof
    assume "\<not> is_index who"
    then have put: "obj_put who n (obj_del who seen) = obj_del who seen @ [(who, n)]"
      by (simp add: obj_put_new keyed_simps)
    have "who \<notin> fst ` set (obj_del who seen)" 
      using obj_keys_iff [of who "obj_del who seen"] by (simp add: keyed_simps obj_keys_def)
    then have none: "map_of (drop k (obj_del who seen)) who = None" for k
      using set_drop_subset [of k "obj_del who seen"] by (auto simp: map_of_eq_None_iff)
    show "obj_get (remember_writer who n seen) who = Some n"
      using assms none by (simp add: remember_writer_drop put Let_def obj_get_def TEXT_SEEN_LIMIT_def map_add_def)
  qed
qed

theorem seen_writers_bounded_witness:
  "length (remember_writer ''alice'' (Num 3) [(''bob'', Num 1), (''alice'', Num 2)]) \<le> TEXT_SEEN_LIMIT"
  using seen_writers_bounded [of "[(''bob'', Num 1), (''alice'', Num 2)]" "''alice''" "Num 3"]
  by (simp add: obj_wf_def)

text \<open>
  An id such as \<open>7\<close> is enumerated first, however late it was added: with 64 other writers
  remembered, it is the new writer that is dropped.
\<close>

lemma index_writer_is_dropped:
  assumes "obj_wf seen" "length seen = TEXT_SEEN_LIMIT" "is_index who" "\<forall>k\<in>set (obj_keys seen). \<not> is_index k"
  shows "obj_get (remember_writer who n seen) who = None"
proof -
  have new: "obj_get seen who = None" using assms(3,4) obj_keys_iff [of who seen] by blast
  then have del: "obj_del who seen = seen"
    by (simp add: obj_del_def obj_get_def delete_id map_of_eq_None_iff)
  have "index_insert who n seen = (who, n) # seen"
    using assms(4) by (cases seen) (auto simp: obj_keys_def)
  then have "obj_put who n (obj_del who seen) = (who, n) # seen"
    using new assms(3) by (simp add: del obj_put_def)
  then show ?thesis using assms(1,2) new by (simp add: remember_writer_drop Let_def)
qed
end
