(* ===== verification/Enforcement_Facts.thy ===== *)
theory Enforcement_Facts
  imports Enforcement Conflict_Facts
begin

text \<open>
  What the gates of \<open>src/server/enforcement.ts\<close>, \<open>pipeline.ts\<close> and \<open>replay-detector.ts\<close> promise: what
  an accepted write has passed, that readonly columns survive it, that a burst of writes is
  bounded and that an operation id is remembered.
\<close>

section \<open>Readonly columns\<close>

definition payload_row :: "row option \<Rightarrow> row" where
  "payload_row p = (case p of Some r \<Rightarrow> r | None \<Rightarrow> [])"

lemma obj_assign_Nil: "obj_assign r [] = r"
  by (simp add: obj_assign_def)

lemma enforce_keeps [simp]:
  "co_op (enforceServerSet op o') = co_op op" "co_op (enforceReadonly op o') = co_op op"
  "co_hlc (enforceServerSet op o') = co_hlc op" "co_hlc (enforceReadonly op o') = co_hlc op"
  by (simp_all add: enforceServerSet_def enforceReadonly_def split: option.splits)

lemma readonly_payload:
  assumes "co_op op = Update" "qo_readonly options = Some ro"
  shows "payload_row (co_payload (enforceReadonly op options)) =
    fold obj_del ro (payload_row (co_payload op))"
proof -
  have "fold obj_del ro ([] :: row) = []" by (induction ro) (simp_all add: obj_del_def)
  with assms show ?thesis by (simp add: enforceReadonly_def payload_row_def split: option.splits)
qed

lemma serverSet_payload:
  assumes "co_op op \<noteq> Delete"
  shows "payload_row (co_payload (enforceServerSet op options)) =
    obj_assign (payload_row (co_payload op)) (payload_row (qo_serverSet options))"
  using assms by (cases "qo_serverSet options") (simp_all add: enforceServerSet_def payload_row_def obj_assign_Nil)

definition enforced :: "ClientOp \<Rightarrow> QueryOptions \<Rightarrow> ClientOp" where
  "enforced op options = enforceServerSet (enforceReadonly op options) options"

lemma enforced_column:
  assumes "co_op op = Update" "qo_readonly options = Some ro" "f \<in> set ro"
    and "obj_wf (payload_row (co_payload op))" "obj_wf (payload_row (qo_serverSet options))"
  shows "obj_wf (payload_row (co_payload (enforced op options)))"
    and "obj_get (payload_row (co_payload (enforced op options))) f =
      obj_get (payload_row (qo_serverSet options)) f"
  using assms
  by (simp_all add: enforced_def serverSet_payload readonly_payload obj_wf_assign obj.wf_fold_del
      obj_get_assign obj.get_fold_del split: option.splits)

lemma lww_keeps_column:
  assumes "ex_row ex = Some row" "\<not> falsy_str (ex_rowHlc ex)" "ci_op inc = Update"
    and "obj_wf (payload_row (ci_payload inc))" "obj_get (payload_row (ci_payload inc)) f = None"
    and "cr_accepted (resolveLww inc ex)"
  shows "\<exists>r. cr_resolvedRow (resolveLww inc ex) = Some r \<and> obj_get r f = obj_get row f"
  using assms
  by (auto simp: resolveLww_def Let_def payload_row_def obj_get_assign split: if_splits)

lemma merge_keeps_column:
  assumes "ex_row ex = Some row" "\<not> falsy_str (ex_rowHlc ex)" "ci_op inc = Update"
    and "obj_wf (payload_row (ci_payload inc))" "obj_get (payload_row (ci_payload inc)) f = None"
    and "cr_accepted (resolveMerge inc ex)"
  shows "\<exists>r. cr_resolvedRow (resolveMerge inc ex) = Some r \<and> obj_get r f = obj_get row f"
proof -
  let ?p = "payload_row (ci_payload inc)"
  obtain r c any where f: "fold (merge_col (ci_hlc inc)) ?p (row, ex_colClocks ex, False) = (r, c, any)"
    by (metis prod_cases3)
  have "obj_get r f = obj_get row f"
    using merge_fold_col [OF assms(4) f, of f] assms(5) by simp
  then show ?thesis
    using assms f
    by (auto simp: resolveMerge_def Let_def payload_row_def [symmetric] split: if_splits)
qed


text \<open>C16: a write the pipeline accepts carries a clock that parses and lies within the allowed drift
  of the server's, has passed the rate limit, and belongs to no batch above the limit.\<close>

theorem accepted_write_passed_the_gates:
  assumes "processOp now op ex ctx l = (r, l')" "pr_accepted r"
  shows "(\<exists>h. unpackHlc (co_hlc op) = Some h \<and> hlc_ms h \<le> now + MAX_CLOCK_DRIFT_MS)
    \<and> fst (rate_gate now ctx (co_table op) l) = None
    \<and> (\<forall>mx n. pc_maxBatchSize ctx = Some mx \<and> co_batchSize op = Some n \<longrightarrow> n \<le> mx)"
proof (rule processOp_accepted [OF assms])
  assume drift: "enforceClockDrift now (co_hlc op) = None"
    and rate: "fst (rate_gate now ctx (co_table op) l) = None"
    and batch: "\<And>mx. pc_maxBatchSize ctx = Some mx \<Longrightarrow> enforceBatchSize (co_batchSize op) mx = None"
  have "\<exists>h. unpackHlc (co_hlc op) = Some h \<and> hlc_ms h \<le> now + MAX_CLOCK_DRIFT_MS"
    using drift by (auto simp: enforceClockDrift_def split: option.splits if_splits)
  moreover have "\<forall>mx n. pc_maxBatchSize ctx = Some mx \<and> co_batchSize op = Some n \<longrightarrow> n \<le> mx"
    using batch by (fastforce simp: enforceBatchSize_def split: if_splits)
  ultimately show ?thesis using rate by simp
qed

section \<open>Rate limits\<close>

text \<open>Attempts of one client: each is checked and, when it passes, recorded.\<close>

fun attempts ::
  "RateLimitConfig \<Rightarrow> string \<Rightarrow> string \<Rightarrow> (int \<times> string) list \<Rightarrow> RateLimiter \<Rightarrow> nat" where
  "attempts config u c [] l = 0"
| "attempts config u c ((now, table) # rest) l =
     (case limiter_check config now u c table l of
        (Some _, l') \<Rightarrow> attempts config u c rest l'
      | (None, l') \<Rightarrow> Suc (attempts config u c rest (limiter_record config now u c table l')))"

lemma tableKey_not_global: "tableKey u c t \<noteq> globalKey u c"
  by (simp add: tableKey_def globalKey_def)

lemma cleanup_second:
  assumes "distinct (map fst (lim_second l))"
  shows "map_get (lim_second (cleanupStale now l)) k =
      (case map_get (lim_second l) k of
         Some (cnt, reset) \<Rightarrow>
           if now - lim_lastCleanup l < 60000 \<or> now < reset then Some (cnt, reset) else None
       | None \<Rightarrow> None)"
    and "distinct (map fst (lim_second (cleanupStale now l)))"
  using assms
  by (auto simp: cleanupStale_def map_of_filter_pair distinct_fst_filter split: option.splits prod.splits)

lemma recordBucket_wf: "distinct (map fst b) \<Longrightarrow> distinct (map fst (recordBucket b k lim w now))"
  by (auto simp: recordBucket_def distinct_update split: option.splits)

lemma recordBucket_get:
  "map_get (recordBucket b k lim w now) j =
     (if j = k \<and> \<not> no_limit lim then
        (case map_get b k of
           None \<Rightarrow> Some (1, now + w)
         | Some (cnt, reset) \<Rightarrow> if now \<ge> reset then Some (1, now + w) else Some (cnt + 1, reset))
      else map_get b j)"
  by (auto simp: recordBucket_def jsmap.get_put split: option.splits)

text \<open>The bucket of the client in a window: at most \<open>m\<close> recorded, and not reset inside it.\<close>

definition window :: "int \<Rightarrow> string \<Rightarrow> nat \<Rightarrow> RateLimiter \<Rightarrow> bool" where
  "window t0 k m l \<longleftrightarrow> distinct (map fst (lim_second l)) \<and>
     (case map_get (lim_second l) k of
        None \<Rightarrow> m = 0
      | Some (cnt, reset) \<Rightarrow> cnt = int m \<and> t0 + 1000 \<le> reset)"

lemma window_cleanup: "window t0 k m l \<Longrightarrow> now < t0 + 1000 \<Longrightarrow> window t0 k m (cleanupStale now l)"
  using cleanup_second(1) [of l now k] cleanup_second(2) [of l now]
  by (auto simp: window_def simp del: map_of_eq_Some_iff split: option.splits prod.splits if_splits)

lemma window_record:
  assumes "window t0 (globalKey u c) m l" "t0 \<le> now" "now < t0 + 1000" "\<not> no_limit (rl_opsPerSecond config)"
  shows "window t0 (globalKey u c) (Suc m) (limiter_record config now u c table l)"
proof -
  have one: "window t0 (globalKey u c) (Suc m)
     (l\<lparr>lim_second := recordBucket (lim_second l) (globalKey u c) (rl_opsPerSecond config) 1000 now,
        lim_minute := x\<rparr>)" for x
    using assms by (auto simp: window_def recordBucket_get recordBucket_wf simp del: map_of_eq_Some_iff split: option.splits prod.splits)
  then have "window t0 (globalKey u c) (Suc m)
     (l\<lparr>lim_second := recordBucket (recordBucket (lim_second l) (globalKey u c) (rl_opsPerSecond config) 1000 now)
           (tableKey u c table) lim 1000 now, lim_minute := x\<rparr>)" for lim x
    using tableKey_not_global [of u c table]
    by (auto simp: window_def recordBucket_get recordBucket_wf simp del: map_of_eq_Some_iff split: option.splits prod.splits)
  with one show ?thesis
    unfolding limiter_record_def Let_def
    by (intro window_cleanup [OF _ assms(3)]) (auto split: option.splits)
qed

lemma window_check:
  assumes "window t0 (globalKey u c) m l" "now < t0 + 1000" "rl_opsPerSecond config = Some n" "0 < n"
    and "limiter_check config now u c table l = (res, l')"
  shows "window t0 (globalKey u c) m l'" and "res = None \<Longrightarrow> int m < n"
proof -
  note w = window_cleanup [OF assms(1,2)]
  have l': "l' = cleanupStale now l"
    using assms(5) by (auto simp: limiter_check_def Let_def split: option.splits if_splits)
  then show "window t0 (globalKey u c) m l'" using w by simp
  assume "res = None"
  then have "checkBucket (lim_second l') (globalKey u c) (Some n) now"
    using assms(3,5) l' by (auto simp: limiter_check_def Let_def split: option.splits if_splits)
  then show "int m < n"
    using w l' assms(2,4)
    by (auto simp: window_def checkBucket_def no_limit_def split: option.splits prod.splits)
qed

lemma attempts_bound:
  assumes "window t0 (globalKey u c) m l" "\<forall>(now, table)\<in>set xs. t0 \<le> now \<and> now < t0 + 1000"
    and "rl_opsPerSecond config = Some n" "0 < n" "int m \<le> n"
  shows "int (m + attempts config u c xs l) \<le> n"
  using assms
proof (induction xs arbitrary: m l)
  case (Cons x xs)
  obtain now table where x: "x = (now, table)" by (cases x)
  obtain res l' where chk: "limiter_check config now u c table l = (res, l')" by (metis surj_pair)
  have now: "t0 \<le> now" "now < t0 + 1000" using Cons.prems(2) x by auto
  note w = window_check [OF Cons.prems(1) now(2) Cons.prems(3,4) chk]
  show ?case
  proof (cases res)
    case None
    have "window t0 (globalKey u c) (Suc m) (limiter_record config now u c table l')"
      using Cons.prems(3,4) by (intro window_record [OF w(1) now]) (auto simp: no_limit_def)
    then show ?thesis
      using Cons.IH [of "Suc m"] Cons.prems(2-4) w(2) None chk x by auto
  next
    case (Some q)
    then show ?thesis using Cons.IH [OF w(1)] Cons.prems chk x by auto
  qed
qed auto

text \<open>C18: from a fresh limiter with a limit per second, a client gets at most that many writes through
  in any stretch of one second, however many it tries and whatever the tables.\<close>

theorem rate_limit_bounds_a_burst:
  assumes "rl_opsPerSecond config = Some n" "0 < n"
    and "\<forall>(now, table)\<in>set xs. t0 \<le> now \<and> now < t0 + 1000"
  shows "int (attempts config u c xs (createRateLimiter start)) \<le> n"
  using attempts_bound [of t0 u c 0 "createRateLimiter start" xs config n] assms
  by (simp add: window_def createRateLimiter_def)

theorem rate_limit_bounds_a_burst_witness:
  "attempts \<lparr>rl_opsPerSecond = Some 2, rl_opsPerMinute = None, rl_batchesPerMinute = None,
      rl_perTable = [], rl_ephemeralPerSecond = None\<rparr> ''u'' ''c''
     [(5, ''t''), (6, ''t''), (7, ''s''), (8, ''t'')] (createRateLimiter 0) \<le> 2"
  using rate_limit_bounds_a_burst [of
      "\<lparr>rl_opsPerSecond = Some 2, rl_opsPerMinute = None, rl_batchesPerMinute = None,
      rl_perTable = [], rl_ephemeralPerSecond = None\<rparr>" 2 "[(5, ''t''), (6, ''t''), (7, ''s''), (8, ''t'')]" 5
      "''u''" "''c''" 0]
  by simp
section \<open>A concrete run\<close>

definition hlc_at :: "int \<Rightarrow> string" where
  "hlc_at m = packHlc \<lparr>hlc_ms = m, hlc_counter = 0, hlc_node = ''n''\<rparr>"

definition sample_op :: ClientOp where
  "sample_op = \<lparr>co_id = ''o1'', co_table = ''t'', co_op = Update, co_rowId = ''r'',
     co_payload = Some [(''a'', Num 2), (''owner'', Str ''eve'')], co_hlc = hlc_at 5,
     co_batchId = None, co_batchSize = Some 1, co_batchSeq = None\<rparr>"

definition sample_options :: QueryOptions where
  "sample_options = \<lparr>qo_tables = [''t''], qo_pk = None, qo_conflict = None, qo_oplog = None,
     qo_serverSet = None, qo_readonly = Some [''owner''], qo_countHints = False, qo_room = None,
     qo_broadcast = Consistent, qo_flushInterval = None, qo_maxBufferSize = None, qo_mutate = True\<rparr>"

definition sample_context :: PipelineContext where
  "sample_context = \<lparr>pc_userId = ''u'', pc_nodeId = ''c'', pc_options = sample_options,
     pc_conflict = Lww, pc_limits = None, pc_maxBatchSize = Some 100\<rparr>"

definition sample_row :: ExistingRow where
  "sample_row = \<lparr>ex_row = Some [(''a'', Num 1), (''owner'', Str ''bob'')],
     ex_rowHlc = Some (hlc_at 1), ex_colClocks = []\<rparr>"

lemma unpack_hlc_at: "0 \<le> m \<Longrightarrow> m < 10 ^ MS_PAD \<Longrightarrow>
  unpackHlc (hlc_at m) = Some \<lparr>hlc_ms = m, hlc_counter = 0, hlc_node = ''n''\<rparr>"
  unfolding hlc_at_def by (rule unpack_pack) (simp_all add: hlc_ok_def hlc_consts)

lemma hlc_at_less: "0 \<le> a \<Longrightarrow> a < b \<Longrightarrow> b < 10 ^ MS_PAD \<Longrightarrow> hlc_at a < hlc_at b"
  unfolding hlc_at_def by (subst packHlc_less) (simp_all add: hlc_ok_def hlc_less_def hlc_consts)

lemma hlc_at_nonempty: "hlc_at m \<noteq> []"
  by (simp add: hlc_at_def packHlc_def)

lemma sample_accepted:
  "pr_accepted (fst (processOp 0 sample_op sample_row sample_context (createRateLimiter 0)))"
proof -
  have drift: "enforceClockDrift 0 (co_hlc sample_op) = None"
    by (simp add: enforceClockDrift_def sample_op_def unpack_hlc_at hlc_consts)
  have "hlc_at 1 < hlc_at 5" by (rule hlc_at_less) (simp_all add: hlc_consts)
  then have "cr_accepted (resolveConflict Lww (conflict_input (enforceServerSet
      (enforceReadonly sample_op sample_options) sample_options) u) sample_row)" for u
    using hlc_at_nonempty [of 1]
    by (simp add: resolveConflict_def resolveLww_def conflict_input_def sample_row_def falsy_str_def
        compareHlc_def Let_def)
      (simp add: sample_op_def)
  then show ?thesis
    by (simp add: processOp_def drift rate_gate_def Let_def enforceBatchSize_def)
      (simp add: sample_context_def sample_op_def enforceBatchSize_def Let_def)
qed

theorem accepted_write_passed_the_gates_witness:
  "\<exists>h. unpackHlc (co_hlc sample_op) = Some h \<and> hlc_ms h \<le> 0 + MAX_CLOCK_DRIFT_MS"
  using accepted_write_passed_the_gates [OF surjective_pairing sample_accepted] by blast


section \<open>Replays\<close>

text \<open>Where an id stands: with its time, and how many entries came after it.\<close>

definition remembered :: "string \<Rightarrow> int \<Rightarrow> nat \<Rightarrow> (string, int) jsmap \<Rightarrow> bool" where
  "remembered i t0 a m \<longleftrightarrow> distinct (map fst m) \<and> length m \<le> REPLAY_MAX_ENTRIES
     \<and> (\<exists>pre ts post. m = pre @ (i, ts) # post \<and> t0 \<le> ts \<and> length post \<le> a)"

lemma distinct_fst_drop: "distinct (map fst m) \<Longrightarrow> distinct (map fst (drop n m))"
  by (simp add: drop_map [symmetric])

lemma update_keys: "map_has m k \<Longrightarrow> map fst (AList.update k v m) = map fst m"
  by (induction m) auto

lemma update_in_place:
  "k \<noteq> i \<Longrightarrow> AList.update k v (pre @ (i, ts) # post) =
     (if map_has pre k then AList.update k v pre @ (i, ts) # post
      else pre @ (i, ts) # AList.update k v post)"
  by (induction pre) auto

lemma map_has_append: "map_has (pre @ post) k \<longleftrightarrow> map_has pre k \<or> map_has post k"
  by (auto simp: map_add_def split: option.splits)

lemma update_absent: "map_of m k = None \<Longrightarrow> AList.update k v m = m @ [(k, v)]"
  by (induction m) (auto split: if_splits)

lemma remembered_reserve_known:
  assumes "remembered i t0 a m" "map_has m k" "t0 \<le> now"
  shows "remembered i t0 a (AList.update k now m)"
proof -
  obtain pre ts post where m: "m = pre @ (i, ts) # post" "t0 \<le> ts" "length post \<le> a"
    using assms(1) by (auto simp: remembered_def)
  have "length (AList.update k now m) = length m" using assms(2) by (simp add: length_update)
  moreover have "\<exists>pre ts post. AList.update k now m = pre @ (i, ts) # post \<and> t0 \<le> ts \<and> length post \<le> a"
  proof (cases "k = i")
    case True
    have "i \<notin> fst ` set pre" using assms(1) m by (auto simp: remembered_def)
    then have "AList.update i now m = pre @ (i, now) # post" unfolding m(1) by (induction pre) auto
    then show ?thesis using True assms(3) m(3) by blast
  next
    case False
    show ?thesis
    proof (cases "map_has pre k")
      case True
      then show ?thesis using m update_in_place [OF False, of now pre ts post] by auto
    next
      case notin: False
      then have "map_has post k" using assms(2) m(1) False map_has_append [of pre "(i, ts) # post" k]
        by (auto split: if_splits)
      then have "length (AList.update k now post) \<le> a" using m(3) by (simp add: length_update)
      then show ?thesis using m notin update_in_place [OF False, of now pre ts post] by auto
    qed
  qed
  ultimately show ?thesis using assms(1) by (simp add: remembered_def update_keys [OF assms(2)])
qed

lemma remembered_reserve_new:
  assumes "remembered i t0 a m" "\<not> map_has m k" "t0 \<le> now" "now \<le> t0 + REPLAY_TTL_MS" "a < 5000"
  shows "remembered i t0 (Suc a) (snd (reserve now k m))"
proof -
  let ?live = "\<lambda>(k, ts). \<not> ts < now - REPLAY_TTL_MS"
  obtain pre ts post where m: "m = pre @ (i, ts) # post" "t0 \<le> ts" "length post \<le> a"
    using assms(1) by (auto simp: remembered_def)
  have dist: "distinct (map fst m)" using assms(1) by (simp add: remembered_def)
  have none: "map_of m k = None" using assms(2) by simp
  define swept where "swept = (if length m \<ge> REPLAY_MAX_ENTRIES then filter ?live m else m)"
  define kept where "kept = (if length m \<ge> REPLAY_MAX_ENTRIES \<and> length swept \<ge> REPLAY_MAX_ENTRIES
    then drop 5000 swept else swept)"
  have res: "snd (reserve now k m) = AList.update k now kept"
    using none by (simp add: reserve_def Let_def swept_def kept_def REPLAY_MAX_ENTRIES_def)
  have "?live (i, ts)" using m(2) assms(4) by simp
  then obtain pre1 post1 where sw: "swept = pre1 @ (i, ts) # post1" "length post1 \<le> a"
    using m by (cases "length m \<ge> REPLAY_MAX_ENTRIES")
      (auto simp: swept_def intro: le_trans [OF length_filter_le])
  have len: "length swept \<le> length m" by (simp add: swept_def)
  have "\<exists>pre2. kept = pre2 @ (i, ts) # post1"
  proof (cases "length m \<ge> REPLAY_MAX_ENTRIES \<and> length swept \<ge> REPLAY_MAX_ENTRIES")
    case True
    then have "5000 \<le> length pre1" using sw assms(5) by (simp add: REPLAY_MAX_ENTRIES_def)
    then have "drop 5000 swept = drop 5000 pre1 @ (i, ts) # post1" using sw(1) by simp
    with True show ?thesis by (auto simp: kept_def)
  qed (use sw in \<open>auto simp: kept_def\<close>)
  then obtain pre2 where kept: "kept = pre2 @ (i, ts) # post1" ..
  have sub: "set kept \<subseteq> set m"
    by (auto simp: kept_def swept_def dest: in_set_dropD split: if_splits)
  have "map_of kept k = None" using none sub by (auto simp: map_of_eq_None_iff)
  then have upd: "AList.update k now kept = kept @ [(k, now)]" by (rule update_absent)
  have d2: "distinct (map fst kept)"
    using dist by (auto simp: kept_def swept_def distinct_fst_drop distinct_fst_filter)
  have "length kept < REPLAY_MAX_ENTRIES"
    using assms(1) len by (auto simp: kept_def swept_def remembered_def REPLAY_MAX_ENTRIES_def split: if_splits)
  moreover have "k \<notin> fst ` set kept" using \<open>map_of kept k = None\<close> by (simp add: map_of_eq_None_iff)
  ultimately show ?thesis
    unfolding res upd remembered_def using kept sw(2) m(2) d2
    by (intro conjI exI [of _ pre2] exI [of _ ts] exI [of _ "post1 @ [(k, now)]"]) auto
qed

fun reserves :: "(int \<times> string) list \<Rightarrow> (string, int) jsmap \<Rightarrow> (string, int) jsmap" where
  "reserves [] m = m"
| "reserves ((now, k) # rest) m = reserves rest (snd (reserve now k m))"

lemma remembered_reserves:
  assumes "remembered i t0 a m" "a + length xs \<le> 5000"
    and "\<forall>(now, k)\<in>set xs. t0 \<le> now \<and> now \<le> t0 + REPLAY_TTL_MS"
  shows "map_has (reserves xs m) i"
  using assms
proof (induction xs arbitrary: a m)
  case Nil
  then show ?case by (auto simp: remembered_def map_has_append)
next
  case (Cons x xs)
  obtain now k where x: "x = (now, k)" by (cases x)
  have now: "t0 \<le> now" "now \<le> t0 + REPLAY_TTL_MS" using Cons.prems(3) x by auto
  have "\<exists>b. remembered i t0 b (snd (reserve now k m)) \<and> b \<le> Suc a"
  proof (cases "map_has m k")
    case True
    then show ?thesis using remembered_reserve_known [OF Cons.prems(1) True now(1)]
      by (intro exI [of _ a]) (auto simp: reserve_def)
  next
    case False
    then show ?thesis using remembered_reserve_new [OF Cons.prems(1) False now] Cons.prems(2) by auto
  qed
  then obtain b where "remembered i t0 b (snd (reserve now k m))" "b \<le> Suc a" by blast
  then show ?case using Cons.IH [of b] Cons.prems(2,3) x by auto
qed

lemma reserve_fresh:
  assumes "distinct (map fst m)" "length m \<le> REPLAY_MAX_ENTRIES" "\<not> map_has m i"
  shows "remembered i now 0 (snd (reserve now i m))"
proof -
  define kept where "kept =
    (let swept = (if length m \<ge> REPLAY_MAX_ENTRIES then filter (\<lambda>(k, ts). \<not> ts < now - REPLAY_TTL_MS) m else m)
     in if length m \<ge> REPLAY_MAX_ENTRIES \<and> length swept \<ge> REPLAY_MAX_ENTRIES
        then drop ((REPLAY_MAX_ENTRIES + 1) div 2) swept else swept)"
  have "set kept \<subseteq> set m" by (auto simp: kept_def Let_def dest: in_set_dropD split: if_splits)
  then have none: "map_of kept i = None" using assms(3) by (auto simp: map_of_eq_None_iff)
  have "snd (reserve now i m) = kept @ [(i, now)]"
    using assms(3) update_absent [OF none] by (simp add: reserve_def kept_def Let_def)
  moreover have "distinct (map fst kept)"
    using assms(1) by (auto simp: kept_def Let_def distinct_fst_drop distinct_fst_filter)
  moreover have "length (filter (\<lambda>(k, ts). \<not> ts < now - REPLAY_TTL_MS) m) - 5000 < 10000"
    using assms(2) length_filter_le [of "\<lambda>(k, ts). \<not> ts < now - REPLAY_TTL_MS" m]
    unfolding REPLAY_MAX_ENTRIES_def by linarith
  moreover from this have "length kept < REPLAY_MAX_ENTRIES"
    using assms(2) by (auto simp: kept_def Let_def REPLAY_MAX_ENTRIES_def)
  ultimately show ?thesis using none by (auto simp: remembered_def map_of_eq_None_iff)
qed



end
