(* ===== verification/Client_Store.thy ===== *)
theory Client_Store
  imports Types Hlc
begin

text \<open>
  The client's local state: \<open>src/client/store.ts\<close>, the in-memory storage adapter
  \<open>src/client/storage/memory.ts\<close> and the op creator \<open>src/client/ops.ts\<close>.

  A store is a record; its methods are functions on it. Storage writes go through a serial
  chain: \<open>enqueue\<close> appends a \<open>storage_write\<close> to \<open>cs_queue\<close> with the values it has then, and
  running the chain is \<open>run_writes\<close>. An op id is a UUID, so it stands for the identity of its
  \<open>PendingOp\<close> object. A primary key is a string, as the casts of the source say. The table
  metadata is stored as its entries rather than as their JSON text.
\<close>

section \<open>Data\<close>

record PreState =
  ps_data :: "row option"
  ps_colClocks :: clocks
  ps_serverHlc :: "string option"

record PendingOp =
  po_op :: ClientOp
  po_status :: OpStatus
  po_rejectedReason :: "string option"
  po_createdAt :: int
  po_preState :: "PreState option"

record LocalRow =
  lr_table :: string
  lr_rowId :: string
  lr_data :: "row option"
  lr_colClocks :: clocks
  lr_serverHlc :: "string option"

record StoreMeta =
  st_serverSet :: "string list"
  st_readonly :: "string list"
  st_broadcast :: Broadcast
  st_pk :: string

type_synonym row_maps = "(string, (string, LocalRow) jsmap) jsmap"

text \<open>\<open>rows.get(table)?.get(rowId)\<close>, \<open>set\<close> creating the table's map, and \<open>delete\<close>.\<close>

definition rows_get :: "row_maps \<Rightarrow> string \<Rightarrow> string \<Rightarrow> LocalRow option" where
  "rows_get rows table rowId =
     (case map_get rows table of Some m \<Rightarrow> map_get m rowId | None \<Rightarrow> None)"

definition rows_set :: "string \<Rightarrow> string \<Rightarrow> LocalRow \<Rightarrow> row_maps \<Rightarrow> row_maps" where
  "rows_set table rowId row rows =
     map_set table (map_set rowId row (case map_get rows table of Some m \<Rightarrow> m | None \<Rightarrow> [])) rows"

definition rows_del :: "string \<Rightarrow> string \<Rightarrow> row_maps \<Rightarrow> row_maps" where
  "rows_del table rowId rows =
     (case map_get rows table of Some m \<Rightarrow> map_set table (map_del rowId m) rows | None \<Rightarrow> rows)"

section \<open>The storage adapter in memory\<close>

record MemoryStorage =
  ms_rows :: row_maps
  ms_pendingOps :: "PendingOp list"
  ms_meta :: "(string, StoreMeta jsobj) jsmap"

definition createMemoryStorage :: MemoryStorage where
  "createMemoryStorage = \<lparr>ms_rows = [], ms_pendingOps = [], ms_meta = []\<rparr>"

definition storage_getRows :: "string \<Rightarrow> MemoryStorage \<Rightarrow> LocalRow list" where
  "storage_getRows table st =
     (case map_get (ms_rows st) table of Some m \<Rightarrow> map snd m | None \<Rightarrow> [])"

definition storage_getAllRows :: "MemoryStorage \<Rightarrow> LocalRow list" where
  "storage_getAllRows st = concat (map (\<lambda>(t, m). map snd m) (ms_rows st))"

definition op_id :: "PendingOp \<Rightarrow> string" where
  "op_id p = co_id (po_op p)"

definition replace_ops :: "PendingOp list \<Rightarrow> PendingOp list \<Rightarrow> PendingOp list" where
  "replace_ops ops old =
     (let updateMap = foldl (\<lambda>m p. map_set (op_id p) p m) [] ops
      in map (\<lambda>p. case map_get updateMap (op_id p) of Some q \<Rightarrow> q | None \<Rightarrow> p) old)"

datatype storage_write =
    PutRow string string LocalRow
  | DeleteRow string string
  | ClearTable string
  | AppendPendingOps "PendingOp list"
  | UpdatePendingOps "PendingOp list"
  | RemovePendingOps "string list"
  | PutPendingOps "PendingOp list"
  | SetMeta string "StoreMeta jsobj"

fun run_write :: "storage_write \<Rightarrow> MemoryStorage \<Rightarrow> MemoryStorage" where
  "run_write (PutRow t r row) st = st\<lparr>ms_rows := rows_set t r row (ms_rows st)\<rparr>"
| "run_write (DeleteRow t r) st = st\<lparr>ms_rows := rows_del t r (ms_rows st)\<rparr>"
| "run_write (ClearTable t) st = st\<lparr>ms_rows := map_del t (ms_rows st)\<rparr>"
| "run_write (AppendPendingOps ops) st = st\<lparr>ms_pendingOps := ms_pendingOps st @ ops\<rparr>"
| "run_write (UpdatePendingOps ops) st = st\<lparr>ms_pendingOps := replace_ops ops (ms_pendingOps st)\<rparr>"
| "run_write (RemovePendingOps ids) st =
     st\<lparr>ms_pendingOps := filter (\<lambda>p. op_id p \<notin> set ids) (ms_pendingOps st)\<rparr>"
| "run_write (PutPendingOps ops) st = st\<lparr>ms_pendingOps := ops\<rparr>"
| "run_write (SetMeta k v) st = st\<lparr>ms_meta := map_set k v (ms_meta st)\<rparr>"

definition storage_clear :: "MemoryStorage \<Rightarrow> MemoryStorage" where
  "storage_clear st = createMemoryStorage"

section \<open>The store\<close>

record ClientStore =
  cs_pendingOps :: "PendingOp list"
  cs_rows :: row_maps
  cs_tableMeta :: "(string, StoreMeta) jsmap"
  cs_hasStorage :: bool
  cs_queue :: "storage_write list"

definition new_store :: "bool \<Rightarrow> ClientStore" where
  "new_store hasStorage = \<lparr>cs_pendingOps = [], cs_rows = [], cs_tableMeta = [],
     cs_hasStorage = hasStorage, cs_queue = []\<rparr>"

definition enqueue :: "storage_write \<Rightarrow> ClientStore \<Rightarrow> ClientStore" where
  "enqueue w s = (if cs_hasStorage s then s\<lparr>cs_queue := cs_queue s @ [w]\<rparr> else s)"

text \<open>\<open>flush\<close> waits until the chain has run.\<close>

definition flush :: "ClientStore \<Rightarrow> MemoryStorage \<Rightarrow> ClientStore \<times> MemoryStorage" where
  "flush s st = (s\<lparr>cs_queue := []\<rparr>, fold run_write (cs_queue s) st)"

definition hydrate :: "string list option \<Rightarrow> ClientStore \<Rightarrow> MemoryStorage \<Rightarrow> ClientStore" where
  "hydrate tables s st =
     (if \<not> cs_hasStorage s then s
      else
        let allRows = (case tables of
              Some ts \<Rightarrow> concat (map (\<lambda>t. storage_getRows t st) ts)
            | None \<Rightarrow> storage_getAllRows st)
        in s\<lparr>cs_rows := fold (\<lambda>row. rows_set (lr_table row) (lr_rowId row) row) allRows (cs_rows s),
             cs_pendingOps := ms_pendingOps st,
             cs_tableMeta := (case map_get (ms_meta st) ''tableMeta'' of
                Some m \<Rightarrow> foldl (\<lambda>tm (t, x). map_set t x tm) (cs_tableMeta s) m
              | None \<Rightarrow> cs_tableMeta s)\<rparr>)"

definition getRowEntry :: "ClientStore \<Rightarrow> string \<Rightarrow> string \<Rightarrow> LocalRow option" where
  "getRowEntry s table rowId = rows_get (cs_rows s) table rowId"

definition getRow :: "ClientStore \<Rightarrow> string \<Rightarrow> string \<Rightarrow> LocalRow option" where
  "getRow s table rowId =
     (case rows_get (cs_rows s) table rowId of
        Some row \<Rightarrow> if lr_data row = None then None else Some row
      | None \<Rightarrow> None)"

definition soft_deleted :: "row \<Rightarrow> bool" where
  "soft_deleted d \<longleftrightarrow> \<not> nullish (get_prop d ''deletedAt'') \<or> \<not> nullish (get_prop d ''deleted_at'')"

definition getRows :: "ClientStore \<Rightarrow> string \<Rightarrow> bool \<Rightarrow> LocalRow list" where
  "getRows s table includeDeleted =
     (case map_get (cs_rows s) table of
        None \<Rightarrow> []
      | Some m \<Rightarrow> filter (\<lambda>row. case lr_data row of
                       Some d \<Rightarrow> \<not> (\<not> includeDeleted \<and> soft_deleted d)
                     | None \<Rightarrow> False) (map snd m))"

definition snapshot_of :: "LocalRow option \<Rightarrow> PreState option" where
  "snapshot_of row = map_option
     (\<lambda>r. \<lparr>ps_data = lr_data r, ps_colClocks = lr_colClocks r, ps_serverHlc = lr_serverHlc r\<rparr>) row"

definition addPendingOp :: "int \<Rightarrow> ClientOp \<Rightarrow> ClientStore \<Rightarrow> ClientStore" where
  "addPendingOp now op s =
     (let p = \<lparr>po_op = op, po_status = Pending, po_rejectedReason = None, po_createdAt = now,
               po_preState = snapshot_of (getRow s (co_table op) (co_rowId op))\<rparr>
      in enqueue (AppendPendingOps [p]) (s\<lparr>cs_pendingOps := cs_pendingOps s @ [p]\<rparr>))"

definition getPendingOps :: "ClientStore \<Rightarrow> PendingOp list" where
  "getPendingOps s = filter (\<lambda>p. po_status p = Pending) (cs_pendingOps s)"

definition markSynced :: "string list \<Rightarrow> ClientStore \<Rightarrow> ClientStore" where
  "markSynced opIds s = enqueue (RemovePendingOps opIds)
     (s\<lparr>cs_pendingOps := filter (\<lambda>p. op_id p \<notin> set opIds) (cs_pendingOps s)\<rparr>)"

definition autoTrimRejected :: "int \<Rightarrow> ClientStore \<Rightarrow> ClientStore" where
  "autoTrimRejected now s =
     (let kept = filter (\<lambda>p. po_status p \<noteq> Rejected \<or> po_createdAt p > now - 60000) (cs_pendingOps s);
          s' = s\<lparr>cs_pendingOps := kept\<rparr>
      in if length kept < length (cs_pendingOps s) then enqueue (PutPendingOps kept) s' else s')"

definition rejected_by :: "string \<Rightarrow> PendingOp \<Rightarrow> PendingOp" where
  "rejected_by reason p = p\<lparr>po_status := Rejected, po_rejectedReason := Some reason\<rparr>"

definition markRejected :: "int \<Rightarrow> string \<Rightarrow> string \<Rightarrow> ClientStore \<Rightarrow> ClientStore" where
  "markRejected now opId reason s =
     autoTrimRejected now
       (case List.find (\<lambda>p. op_id p = opId) (cs_pendingOps s) of
          None \<Rightarrow> s
        | Some p \<Rightarrow>
            enqueue (UpdatePendingOps [rejected_by reason p])
              (s\<lparr>cs_pendingOps := map (\<lambda>q. if op_id q = opId then rejected_by reason q else q)
                  (cs_pendingOps s)\<rparr>))"

definition rejectBatch :: "int \<Rightarrow> string \<Rightarrow> string \<Rightarrow> ClientStore \<Rightarrow> ClientStore" where
  "rejectBatch now batchId reason s =
     (let hit = (\<lambda>p. co_batchId (po_op p) = Some batchId);
          updated = map (rejected_by reason) (filter hit (cs_pendingOps s));
          s' = s\<lparr>cs_pendingOps := map (\<lambda>p. if hit p then rejected_by reason p else p) (cs_pendingOps s)\<rparr>
      in autoTrimRejected now
           (if updated \<noteq> [] then enqueue (UpdatePendingOps updated) s' else s'))"

definition clearRejected :: "ClientStore \<Rightarrow> ClientStore" where
  "clearRejected s =
     (let kept = filter (\<lambda>p. po_status p \<noteq> Rejected) (cs_pendingOps s)
      in enqueue (PutPendingOps kept) (s\<lparr>cs_pendingOps := kept\<rparr>))"

definition setRow ::
  "string \<Rightarrow> string \<Rightarrow> row option \<Rightarrow> clocks \<Rightarrow> string option \<Rightarrow> ClientStore \<Rightarrow> ClientStore" where
  "setRow table rowId data colClocks serverHlc s =
     (if data = None \<and> serverHlc = None
      then enqueue (DeleteRow table rowId) (s\<lparr>cs_rows := rows_del table rowId (cs_rows s)\<rparr>)
      else
        let row = \<lparr>lr_table = table, lr_rowId = rowId, lr_data = data, lr_colClocks = colClocks,
                   lr_serverHlc = serverHlc\<rparr>
        in enqueue (PutRow table rowId row) (s\<lparr>cs_rows := rows_set table rowId row (cs_rows s)\<rparr>))"

definition clearTable :: "string \<Rightarrow> ClientStore \<Rightarrow> ClientStore" where
  "clearTable table s = enqueue (ClearTable table) (s\<lparr>cs_rows := map_del table (cs_rows s)\<rparr>)"

definition pk_of :: "ClientStore \<Rightarrow> string \<Rightarrow> string" where
  "pk_of s table = (case map_get (cs_tableMeta s) table of Some m \<Rightarrow> st_pk m | None \<Rightarrow> ''id'')"

definition withPk :: "ClientStore \<Rightarrow> string \<Rightarrow> string \<Rightarrow> row \<Rightarrow> row" where
  "withPk s table rowId data =
     (if get_prop data (pk_of s table) \<noteq> Undefined then data
      else obj_put (pk_of s table) (Str rowId) data)"

section \<open>Optimistic writes\<close>

text \<open>The payload of an optimistic write: no text edit, no server-set column.\<close>

definition optimistic_payload :: "ClientStore \<Rightarrow> ClientOp \<Rightarrow> row option" where
  "optimistic_payload s op =
     (case co_payload op of
        None \<Rightarrow> None
      | Some p \<Rightarrow>
          let p1 = (if obj_has p ''$text'' then obj_del ''$text'' p else p);
              p2 = (case map_get (cs_tableMeta s) (co_table op) of
                      Some m \<Rightarrow> fold obj_del (st_serverSet m) p1
                    | None \<Rightarrow> p1)
          in Some (if co_op op = Insert then withPk s (co_table op) (co_rowId op) p2 else p2))"

definition payload_fields :: "row option \<Rightarrow> row" where
  "payload_fields p = (case p of Some r \<Rightarrow> r | None \<Rightarrow> [])"

definition applyOptimistic :: "ClientOp \<Rightarrow> ClientStore \<Rightarrow> ClientStore" where
  "applyOptimistic op s =
     (let payload = optimistic_payload s op; t = co_table op; r = co_rowId op in
      case co_op op of
        Delete \<Rightarrow> setRow t r None [(''_row'', co_hlc op)] (Some (co_hlc op)) s
      | Insert \<Rightarrow>
          (case getRow s t r of
             Some ex \<Rightarrow> setRow t r (Some (obj_assign (payload_fields (lr_data ex)) (payload_fields payload)))
                          (lr_colClocks ex) (lr_serverHlc ex) s
           | None \<Rightarrow> setRow t r (Some (payload_fields payload)) [(''_row'', co_hlc op)] (Some (co_hlc op)) s)
      | Update \<Rightarrow>
          (case getRow s t r of
             Some ex \<Rightarrow> setRow t r (Some (obj_assign (payload_fields (lr_data ex)) (payload_fields payload)))
                          (lr_colClocks ex) (lr_serverHlc ex) s
           | None \<Rightarrow> s))"

section \<open>Server state\<close>

definition apply_snapshot_row ::
  "string \<Rightarrow> string \<Rightarrow> clocks jsobj \<Rightarrow> row \<Rightarrow> ClientStore \<Rightarrow> ClientStore" where
  "apply_snapshot_row table pk colClocks row s =
     (let rowId = string_or_empty (get_prop row pk);
          clocks = (case obj_get colClocks rowId of Some c \<Rightarrow> c | None \<Rightarrow> [])
      in setRow table rowId (Some row) clocks (obj_get clocks ''_row'') s)"

definition replay_pending :: "string \<Rightarrow> PendingOp \<Rightarrow> ClientStore \<Rightarrow> ClientStore" where
  "replay_pending table p s =
     (if po_status p = Pending \<and> co_table (po_op p) = table then applyOptimistic (po_op p) s else s)"

definition applySnapshot ::
  "string \<Rightarrow> row list \<Rightarrow> clocks jsobj \<Rightarrow> bool \<Rightarrow> string option \<Rightarrow> ClientStore \<Rightarrow> ClientStore" where
  "applySnapshot table rows colClocks appending pk s0 =
     (let s1 = (if appending then s0 else clearTable table s0);
          effectivePk = (case pk of Some k \<Rightarrow> k | None \<Rightarrow> pk_of s1 table);
          s2 = fold (apply_snapshot_row table effectivePk colClocks) rows s1
      in fold (replay_pending table) (cs_pendingOps s2) s2)"

text \<open>A falsy server clock (none or empty) never outranks anything.\<close>

definition not_newer :: "string \<Rightarrow> string option \<Rightarrow> bool" where
  "not_newer hlc c = (case c of Some h \<Rightarrow> h \<noteq> [] \<and> compareHlc hlc h \<le> 0 | None \<Rightarrow> False)"

definition delta_col ::
  "string \<Rightarrow> clocks \<Rightarrow> clocks \<Rightarrow> string \<times> jsval \<Rightarrow> row \<times> clocks \<times> bool \<Rightarrow> row \<times> clocks \<times> bool" where
  "delta_col hlc incoming existing cv st =
     (case (cv, st) of ((col, value), (data, clocks, anyApplied)) \<Rightarrow>
        let c = (case obj_get incoming col of Some c \<Rightarrow> c | None \<Rightarrow> hlc) in
        if (case obj_get existing col of Some e \<Rightarrow> e = [] \<or> compareHlc c e > 0 | None \<Rightarrow> True)
        then (obj_put col value data, obj_put col c clocks, True) else st)"

definition applyDelta ::
  "string \<Rightarrow> OpType \<Rightarrow> string \<Rightarrow> row option \<Rightarrow> string \<Rightarrow> clocks option \<Rightarrow> ClientStore \<Rightarrow> ClientStore" where
  "applyDelta table op rowId payload hlc colClocks s =
     (let existing = getRowEntry s table rowId;
          stale = (case existing of Some ex \<Rightarrow> not_newer hlc (lr_serverHlc ex) | None \<Rightarrow> False)
      in if op = Delete then
           (if stale then s else setRow table rowId None [] (Some hlc) s)
         else if op = Insert \<or> existing = None then
           (if stale then s
            else setRow table rowId (Some (withPk s table rowId (payload_fields payload)))
                   (case colClocks of Some c \<Rightarrow> c | None \<Rightarrow> [(''_row'', hlc)]) (Some hlc) s)
         else
           let ex = the existing in
           (case fold (delta_col hlc (case colClocks of Some c \<Rightarrow> c | None \<Rightarrow> []) (lr_colClocks ex))
                   (payload_fields payload) (payload_fields (lr_data ex), lr_colClocks ex, False) of
              (data, clocks, anyApplied) \<Rightarrow>
                if \<not> anyApplied then s
                else
                  let newRowHlc = (case lr_serverHlc ex of
                        Some h \<Rightarrow> if h \<noteq> [] \<and> compareHlc h hlc \<ge> 0 then h else hlc
                      | None \<Rightarrow> hlc)
                  in setRow table rowId (Some (withPk s table rowId data))
                       (obj_put ''_row'' newRowHlc clocks) (Some newRowHlc) s))"

section \<open>Reverting\<close>

definition refresh_preState :: "string \<Rightarrow> string \<Rightarrow> PendingOp \<Rightarrow> ClientStore \<Rightarrow> ClientStore" where
  "refresh_preState table rowId p s =
     (let pre = snapshot_of (getRow s table rowId);
          s' = s\<lparr>cs_pendingOps := map (\<lambda>q. if op_id q = op_id p then q\<lparr>po_preState := pre\<rparr> else q)
                   (cs_pendingOps s)\<rparr>
      in if po_status p = Pending then applyOptimistic (po_op p) s' else s')"

definition revertOp :: "string \<Rightarrow> row option \<Rightarrow> ClientStore \<Rightarrow> ClientStore" where
  "revertOp opId serverRow s =
     (case List.find (\<lambda>p. op_id p = opId) (cs_pendingOps s) of
        None \<Rightarrow> s
      | Some pending \<Rightarrow>
          let t = co_table (po_op pending); r = co_rowId (po_op pending);
              chain = filter (\<lambda>p. co_table (po_op p) = t \<and> co_rowId (po_op p) = r) (cs_pendingOps s);
              existing = getRow s t r;
              s1 = (case serverRow of
                      Some sr \<Rightarrow> setRow t r (Some sr)
                        (case existing of Some e \<Rightarrow> lr_colClocks e | None \<Rightarrow> [])
                        (case existing of Some e \<Rightarrow> lr_serverHlc e | None \<Rightarrow> None) s
                    | None \<Rightarrow>
                        (case po_preState (hd chain) of
                           Some pre \<Rightarrow> setRow t r (ps_data pre) (ps_colClocks pre) (ps_serverHlc pre) s
                         | None \<Rightarrow>
                             if map_has (cs_rows s) t
                             then enqueue (DeleteRow t r) (s\<lparr>cs_rows := rows_del t r (cs_rows s)\<rparr>)
                             else s));
              rest = filter (\<lambda>p. op_id p \<noteq> opId) chain;
              s2 = fold (refresh_preState t r) rest s1;
              s3 = (if rest \<noteq> []
                    then enqueue (UpdatePendingOps
                           (filter (\<lambda>q. op_id q \<in> set (map op_id rest)) (cs_pendingOps s2))) s2
                    else s2)
          in enqueue (RemovePendingOps [opId])
               (s3\<lparr>cs_pendingOps := filter (\<lambda>p. op_id p \<noteq> opId) (cs_pendingOps s3)\<rparr>))"

section \<open>Metadata and reset\<close>

text \<open>A message's metadata carries \<open>broadcast\<close> and may leave \<open>pk\<close> out.\<close>

definition store_meta_of :: "TableMeta \<Rightarrow> StoreMeta" where
  "store_meta_of m = \<lparr>st_serverSet = tm_serverSet m, st_readonly = tm_readonly m,
     st_broadcast = tm_broadcast m, st_pk = (case tm_pk m of Some k \<Rightarrow> k | None \<Rightarrow> ''id'')\<rparr>"

definition setTableMeta :: "TableMeta jsobj \<Rightarrow> ClientStore \<Rightarrow> ClientStore" where
  "setTableMeta meta s =
     (let tm = foldl (\<lambda>tm (t, m). map_set t (store_meta_of m) tm) (cs_tableMeta s) meta
      in enqueue (SetMeta ''tableMeta'' (foldl (\<lambda>o' (t, m). obj_put t m o') [] tm)) (s\<lparr>cs_tableMeta := tm\<rparr>))"

definition clear_store :: "ClientStore \<Rightarrow> MemoryStorage \<Rightarrow> ClientStore \<times> MemoryStorage" where
  "clear_store s st =
     (new_store (cs_hasStorage s),
      if cs_hasStorage s then storage_clear (snd (flush s st)) else st)"

section \<open>Creating ops\<close>

text \<open>The generator's clock is its state; \<open>id\<close> is the UUID drawn and \<open>wall\<close> the clock read.\<close>

definition nextOp ::
  "int \<Rightarrow> string \<Rightarrow> string \<Rightarrow> OpType \<Rightarrow> string \<Rightarrow> row option \<Rightarrow> HLC \<Rightarrow> ClientOp \<times> HLC" where
  "nextOp wall uuid table op rowId payload hlc =
     (let hlc' = sendHlc wall hlc in
      (\<lparr>co_id = uuid, co_table = table, co_op = op, co_rowId = rowId, co_payload = payload,
        co_hlc = packHlc hlc', co_batchId = None, co_batchSize = None, co_batchSeq = None\<rparr>, hlc'))"

type_synonym op_spec = "string \<times> OpType \<times> string \<times> row option"

fun batch_ops ::
  "string \<Rightarrow> int \<Rightarrow> int \<Rightarrow> (int \<times> string \<times> op_spec) list \<Rightarrow> HLC \<Rightarrow> ClientOp list \<times> HLC" where
  "batch_ops batchId n i [] hlc = ([], hlc)"
| "batch_ops batchId n i ((wall, uuid, table, op, rowId, payload) # specs) hlc =
     (let (o1, hlc1) = nextOp wall uuid table op rowId payload hlc;
          (os, hlc2) = batch_ops batchId n (i + 1) specs hlc1
      in (o1\<lparr>co_batchId := Some batchId, co_batchSize := Some n, co_batchSeq := Some i\<rparr> # os, hlc2))"

definition createBatch ::
  "string \<Rightarrow> (int \<times> string \<times> op_spec) list \<Rightarrow> HLC \<Rightarrow> ClientOp list \<times> HLC" where
  "createBatch batchId specs hlc = batch_ops batchId (int (length specs)) 0 specs hlc"

end
