(* ===== verification/Client_Store_Facts.thy ===== *)
theory Client_Store_Facts
  imports Client_Store
begin

text \<open>
  What the client store of \<open>src/client/store.ts\<close> promises. Its storage is an interface: whatever the
  store did, the adapter mirrors it once the write chain has run, so a restart restores it.
  A rejected write is undone, and a delta that arrives late is ignored.
\<close>

section \<open>Row maps\<close>

lemma rows_get_set [keyed_simps]:
  "rows_get (rows_set t r x m) t' r' = (if t' = t \<and> r' = r then Some x else rows_get m t' r')"
  by (auto simp: rows_get_def rows_set_def jsmap.get_put split: option.splits)

lemma rows_get_del [keyed_simps]:
  "rows_get (rows_del t r m) t' r' = (if t' = t \<and> r' = r then None else rows_get m t' r')"
  by (auto simp: rows_get_def rows_del_def jsmap.get_put jsmap.get_del split: option.splits)

lemma rows_get_drop [keyed_simps]:
  "rows_get (map_del t m) t' r' = (if t' = t then None else rows_get m t' r')"
  by (simp add: rows_get_def jsmap.get_del)

text \<open>Every row is filed under its own table and id, once.\<close>

definition rows_wf :: "row_maps \<Rightarrow> bool" where
  "rows_wf R \<longleftrightarrow> distinct (map fst R) \<and> (\<forall>t m. (t, m) \<in> set R \<longrightarrow>
     distinct (map fst m) \<and> (\<forall>r x. (r, x) \<in> set m \<longrightarrow> lr_table x = t \<and> lr_rowId x = r))"

lemma set_update_subset: "set (AList.update k v m) \<subseteq> insert (k, v) (set m)"
  by (induction m) auto

lemma rows_wf_Nil [simp]: "rows_wf []"
  by (simp add: rows_wf_def)

lemma rows_wf_put:
  assumes "rows_wf R" "distinct (map fst m)" "\<forall>r x. (r, x) \<in> set m \<longrightarrow> lr_table x = t \<and> lr_rowId x = r"
  shows "rows_wf (map_set t m R)"
  using assms set_update_subset [of t m R] unfolding rows_wf_def by (auto simp: distinct_update)

lemma rows_wf_table:
  assumes "rows_wf R" "map_get R t = Some m"
  shows "distinct (map fst m)" "\<forall>r x. (r, x) \<in> set m \<longrightarrow> lr_table x = t \<and> lr_rowId x = r"
  using assms map_of_SomeD [OF assms(2)] unfolding rows_wf_def by auto

lemma rows_wf_set:
  assumes "rows_wf R" "lr_table x = t" "lr_rowId x = r"
  shows "rows_wf (rows_set t r x R)"
proof (cases "map_get R t")
  case None
  then show ?thesis using assms by (simp add: rows_set_def rows_wf_put)
next
  case (Some m)
  have "rows_wf (map_set t (map_set r x m) R)"
    using rows_wf_table [OF assms(1) Some] set_update_subset [of r x m] assms
    by (intro rows_wf_put) (auto simp: distinct_update)
  with Some show ?thesis by (simp add: rows_set_def)
qed

lemma rows_wf_del:
  assumes "rows_wf R"
  shows "rows_wf (rows_del t r R)"
proof (cases "map_get R t")
  case (Some m)
  have "rows_wf (map_set t (map_del r m) R)"
    using rows_wf_table [OF assms Some] assms
    by (intro rows_wf_put) (auto simp: AList.delete_eq distinct_fst_filter)
  with Some show ?thesis by (simp add: rows_del_def)
qed (use assms in \<open>simp add: rows_del_def\<close>)

lemma rows_wf_drop: "rows_wf R \<Longrightarrow> rows_wf (map_del t R)"
  unfolding rows_wf_def by (auto simp: AList.delete_eq distinct_fst_filter)

lemma rows_wf_listed:
  assumes "rows_wf R" "x \<in> set (concat (map (\<lambda>(t, m). map snd m) R))"
  shows "rows_get R (lr_table x) (lr_rowId x) = Some x"
proof -
  obtain t m r where tm: "(t, m) \<in> set R" "(r, x) \<in> set m" using assms(2) by auto
  then have "map_get R t = Some m" using assms(1) by (auto simp: rows_wf_def)
  moreover have "map_get m r = Some x" using tm assms(1) by (auto simp: rows_wf_def)
  moreover have "lr_table x = t" "lr_rowId x = r" using tm assms(1) by (auto simp: rows_wf_def)
  ultimately show ?thesis by (simp add: rows_get_def)
qed

lemma rows_listed_iff:
  assumes "rows_wf R" "rows_get R t r = Some x"
  shows "x \<in> set (concat (map (\<lambda>(t, m). map snd m) R)) \<and> lr_table x = t \<and> lr_rowId x = r"
proof -
  obtain m where m: "map_get R t = Some m" "map_get m r = Some x"
    using assms(2) by (auto simp: rows_get_def split: option.splits)
  then have "(t, m) \<in> set R" "(r, x) \<in> set m" by (auto dest: map_of_SomeD)
  then show ?thesis using assms(1) by (force simp: rows_wf_def)
qed

lemma rows_get_refile:
  assumes "\<forall>x\<in>set xs. rows_get R (lr_table x) (lr_rowId x) = Some x"
  shows "rows_get (fold (\<lambda>x. rows_set (lr_table x) (lr_rowId x) x) xs M) t r =
    (if \<exists>x\<in>set xs. lr_table x = t \<and> lr_rowId x = r then rows_get R t r else rows_get M t r)"
  using assms by (induction xs arbitrary: M) (auto simp: keyed_simps)

section \<open>The interface of a storage adapter\<close>

text \<open>
  What the store relies on: a row read is the last one written, and the pending ops are a list
  that appends, replaces, removes and sets as the store does.
\<close>

locale client_storage =
  fixes run :: "storage_write \<Rightarrow> 's \<Rightarrow> 's"
    and row_at :: "'s \<Rightarrow> string \<Rightarrow> string \<Rightarrow> LocalRow option"
    and ops_in :: "'s \<Rightarrow> PendingOp list"
    and rows_in :: "'s \<Rightarrow> LocalRow list"
    and wf :: "'s \<Rightarrow> bool"
  assumes put: "row_at (run (PutRow t r x) st) t' r' = (if t' = t \<and> r' = r then Some x else row_at st t' r')"
    and del: "row_at (run (DeleteRow t r) st) t' r' = (if t' = t \<and> r' = r then None else row_at st t' r')"
    and drop_table: "row_at (run (ClearTable t) st) t' r' = (if t' = t then None else row_at st t' r')"
    and append_ops: "ops_in (run (AppendPendingOps ops) st) = ops_in st @ ops"
    and update_ops: "ops_in (run (UpdatePendingOps ops) st) = replace_ops ops (ops_in st)"
    and remove_ops: "ops_in (run (RemovePendingOps ids) st) = filter (\<lambda>p. op_id p \<notin> set ids) (ops_in st)"
    and put_ops: "ops_in (run (PutPendingOps ops) st) = ops"
    and rows_kept: "row_at (run (AppendPendingOps ops) st) = row_at st"
      "row_at (run (UpdatePendingOps ops) st) = row_at st" "row_at (run (RemovePendingOps ids) st) = row_at st"
      "row_at (run (PutPendingOps ops) st) = row_at st" "row_at (run (SetMeta k m) st) = row_at st"
    and ops_kept: "ops_in (run (PutRow t r x) st) = ops_in st" "ops_in (run (DeleteRow t r) st) = ops_in st"
      "ops_in (run (ClearTable t) st) = ops_in st" "ops_in (run (SetMeta k m) st) = ops_in st"
    and wf_put: "wf st \<Longrightarrow> lr_table x = t \<Longrightarrow> lr_rowId x = r \<Longrightarrow> wf (run (PutRow t r x) st)"
    and wf_kept: "wf st \<Longrightarrow> wf (run (DeleteRow t r) st)" "wf st \<Longrightarrow> wf (run (ClearTable t) st)"
      "wf st \<Longrightarrow> wf (run (AppendPendingOps ops) st)" "wf st \<Longrightarrow> wf (run (UpdatePendingOps ops) st)"
      "wf st \<Longrightarrow> wf (run (RemovePendingOps ids) st)" "wf st \<Longrightarrow> wf (run (PutPendingOps ops) st)"
      "wf st \<Longrightarrow> wf (run (SetMeta k m) st)"
    and listed: "wf st \<Longrightarrow> x \<in> set (rows_in st) \<longleftrightarrow> row_at st (lr_table x) (lr_rowId x) = Some x"
    and filed: "wf st \<Longrightarrow> row_at st t r = Some x \<Longrightarrow> lr_table x = t \<and> lr_rowId x = r"
begin

text \<open>Once the chain has run, the storage holds the rows of the store and the ops \<open>ops\<close>.\<close>

definition holds :: "'s \<Rightarrow> PendingOp list \<Rightarrow> ClientStore \<Rightarrow> bool" where
  "holds st ops s \<longleftrightarrow> cs_hasStorage s
     \<and> (\<forall>t r. row_at (fold run (cs_queue s) st) t r = rows_get (cs_rows s) t r)
     \<and> ops_in (fold run (cs_queue s) st) = ops \<and> wf (fold run (cs_queue s) st)"

definition mirrors :: "'s \<Rightarrow> ClientStore \<Rightarrow> bool" where
  "mirrors st s \<longleftrightarrow> holds st (cs_pendingOps s) s"

lemmas laws = put del drop_table append_ops update_ops remove_ops put_ops rows_kept ops_kept wf_put wf_kept

lemma holds_ops:
  assumes "holds st os s" "ops_in (run w (fold run (cs_queue s) st)) = ops"
    and "row_at (run w (fold run (cs_queue s) st)) = row_at (fold run (cs_queue s) st)"
    and "wf (fold run (cs_queue s) st) \<Longrightarrow> wf (run w (fold run (cs_queue s) st))"
  shows "holds st ops (enqueue w (s\<lparr>cs_pendingOps := x\<rparr>))" "holds st ops (enqueue w s)"
  using assms by (simp_all add: holds_def enqueue_def)

lemma holds_pending [simp]: "holds st os (s\<lparr>cs_pendingOps := x\<rparr>) = holds st os s"
  by (simp add: holds_def)

lemma holds_setRow: "holds st os s \<Longrightarrow> holds st os (setRow t r d c h s)"
  by (auto simp: holds_def setRow_def enqueue_def Let_def laws keyed_simps)

lemma holds_deleteRow:
  "holds st os s \<Longrightarrow> holds st os (enqueue (DeleteRow t r) (s\<lparr>cs_rows := rows_del t r (cs_rows s)\<rparr>))"
  by (auto simp: holds_def enqueue_def laws keyed_simps)

lemma holds_clearTable: "holds st os s \<Longrightarrow> holds st os (clearTable t s)"
  by (auto simp: holds_def clearTable_def enqueue_def laws keyed_simps)

lemma holds_optimistic: "holds st os s \<Longrightarrow> holds st os (applyOptimistic op s)"
  by (auto simp: applyOptimistic_def Let_def holds_setRow split: OpType.splits option.splits)

lemma holds_snapshot:
  assumes "holds st os s"
  shows "holds st os (applySnapshot t rs c a pk s)"
proof -
  have rows: "holds st os (fold (apply_snapshot_row t k c) rs s)" if "holds st os s" for k s rs
    using that by (induction rs arbitrary: s) (auto simp: apply_snapshot_row_def Let_def holds_setRow)
  have ops: "holds st os (fold (replay_pending t) ps s)" if "holds st os s" for s ps
    using that by (induction ps arbitrary: s) (auto simp: replay_pending_def holds_optimistic)
  show ?thesis unfolding applySnapshot_def Let_def
    using assms by (cases a) (auto intro!: ops rows holds_clearTable)
qed

lemma holds_delta: "holds st os s \<Longrightarrow> holds st os (applyDelta t op r p h c s)"
  by (auto simp: applyDelta_def Let_def holds_setRow split: prod.splits)

lemma holds_meta: "holds st os s \<Longrightarrow> holds st os (setTableMeta m s)"
  by (auto simp: holds_def setTableMeta_def enqueue_def Let_def laws)

lemma holds_refresh: "holds st os s \<Longrightarrow> holds st os (fold (refresh_preState t r) ps s)"
  by (induction ps arbitrary: s) (auto simp: refresh_preState_def Let_def holds_optimistic)

end

lemma rows_filed: "rows_wf R \<Longrightarrow> rows_get R t r = Some x \<Longrightarrow> lr_table x = t \<and> lr_rowId x = r"
  using rows_listed_iff by blast

lemma rows_listed:
  "rows_wf R \<Longrightarrow> x \<in> set (concat (map (\<lambda>(t, m). map snd m) R)) \<longleftrightarrow> rows_get R (lr_table x) (lr_rowId x) = Some x"
  using rows_wf_listed rows_listed_iff by blast

interpretation memory: client_storage run_write "\<lambda>st. rows_get (ms_rows st)" ms_pendingOps
    storage_getAllRows "\<lambda>st. rows_wf (ms_rows st)"
proof unfold_locales
  fix st :: MemoryStorage and x
  assume "rows_wf (ms_rows st)"
  then show "x \<in> set (storage_getAllRows st) \<longleftrightarrow> rows_get (ms_rows st) (lr_table x) (lr_rowId x) = Some x"
    unfolding storage_getAllRows_def by (rule rows_listed)
qed (auto simp: keyed_simps rows_wf_set rows_wf_del rows_wf_drop dest: rows_filed)

section \<open>Pending ops\<close>

lemma enqueue_fields [simp]:
  "cs_pendingOps (enqueue w s) = cs_pendingOps s" "cs_rows (enqueue w s) = cs_rows s"
  "cs_tableMeta (enqueue w s) = cs_tableMeta s" "cs_hasStorage (enqueue w s) = cs_hasStorage s"
  by (simp_all add: enqueue_def)

lemma setRow_pending [simp]: "cs_pendingOps (setRow t r d c h s) = cs_pendingOps s"
  by (simp add: setRow_def Let_def)

lemma optimistic_pending [simp]: "cs_pendingOps (applyOptimistic op s) = cs_pendingOps s"
  by (auto simp: applyOptimistic_def Let_def split: OpType.splits option.splits)

lemma delta_pending [simp]: "cs_pendingOps (applyDelta t op r p h c s) = cs_pendingOps s"
  by (auto simp: applyDelta_def Let_def split: prod.splits)

lemma snapshot_pending [simp]: "cs_pendingOps (applySnapshot t rs c a pk s) = cs_pendingOps s"
proof -
  have rows: "cs_pendingOps (fold (apply_snapshot_row t k c) rs s) = cs_pendingOps s" for k s rs
    by (induction rs arbitrary: s) (auto simp: apply_snapshot_row_def Let_def)
  have ops: "cs_pendingOps (fold (replay_pending t) ps s) = cs_pendingOps s" for ps s
    by (induction ps arbitrary: s) (auto simp: replay_pending_def)
  show ?thesis unfolding applySnapshot_def Let_def by (auto simp: rows ops clearTable_def)
qed

lemma meta_pending [simp]: "cs_pendingOps (setTableMeta m s) = cs_pendingOps s"
  by (simp add: setTableMeta_def Let_def)

lemma find_someD: "List.find P xs = Some q \<Longrightarrow> q \<in> set xs \<and> P q"
  by (induction xs) (auto split: if_splits)

lemma replace_lookup:
  "distinct (map op_id ops) \<Longrightarrow>
   map_get (foldl (\<lambda>m p. map_set (op_id p) p m) m0 ops) i =
     (case List.find (\<lambda>q. op_id q = i) ops of Some q \<Rightarrow> Some q | None \<Rightarrow> map_get m0 i)"
proof (induction ops arbitrary: m0)
  case (Cons p ops)
  have "List.find (\<lambda>q. op_id q = op_id p) ops = None" 
  proof (cases "List.find (\<lambda>q. op_id q = op_id p) ops")
    case (Some q)
    with Cons.prems show ?thesis using find_someD [OF Some] by (metis distinct.simps(2) image_eqI list.set_map list.simps(9))
  qed
  with Cons show ?case by (auto simp: jsmap.get_put split: option.splits)
qed simp

lemma replace_ops_map:
  assumes "distinct (map op_id os)" "\<And>p. op_id (g p) = op_id p" "\<And>p. p \<in> set os \<Longrightarrow> \<not> Q p \<Longrightarrow> g p = p"
  shows "replace_ops (map g (filter Q os)) os = map g os"
proof -
  have d: "distinct (map op_id (map g (filter Q os)))"
    using assms(1,2) by (simp add: comp_def distinct_map_filter)
  have "(case List.find (\<lambda>q. op_id q = op_id p) (map g (filter Q os)) of Some q \<Rightarrow> q | None \<Rightarrow> p) = g p"
    if "p \<in> set os" for p
  proof (cases "List.find (\<lambda>q. op_id q = op_id p) (map g (filter Q os))")
    case None
    then have "\<not> Q p" using that assms(2) by (auto simp: find_None_iff)
    with None that show ?thesis by (simp add: assms(3))
  next
    case (Some q)
    from find_someD [OF Some] obtain p' where p': "p' \<in> set os" "q = g p'" "op_id p' = op_id p"
      using assms(2) by auto
    then have "p' = p" using that assms(1) by (auto simp: distinct_map dest: inj_onD)
    with Some p' show ?thesis by simp
  qed
  moreover have "map_get (foldl (\<lambda>m p. map_set (op_id p) p m) [] (map g (filter Q os))) i =
      List.find (\<lambda>q. op_id q = i) (map g (filter Q os))" for i
    by (subst replace_lookup [OF d]) (simp split: option.split)
  ultimately show ?thesis by (simp add: replace_ops_def)
qed

lemma refresh_pending:
  "\<exists>g. cs_pendingOps (fold (refresh_preState t r) ps s) = map g (cs_pendingOps s)
     \<and> (\<forall>p. op_id (g p) = op_id p) \<and> (\<forall>p. op_id p \<notin> op_id ` set ps \<longrightarrow> g p = p)"
proof (induction ps arbitrary: s)
  case Nil
  show ?case by (rule exI [of _ id]) simp
next
  case (Cons a ps)
  let ?f = "\<lambda>q. if op_id q = op_id a then q\<lparr>po_preState := snapshot_of (getRow s t r)\<rparr> else q"
  have id: "op_id (?f q) = op_id q" for q by (simp add: op_id_def)
  have step: "cs_pendingOps (refresh_preState t r a s) = map ?f (cs_pendingOps s)"
    by (simp add: refresh_preState_def Let_def)
  obtain g where g: "cs_pendingOps (fold (refresh_preState t r) ps (refresh_preState t r a s))
      = map g (cs_pendingOps (refresh_preState t r a s))" "\<forall>p. op_id (g p) = op_id p"
    "\<forall>p. op_id p \<notin> op_id ` set ps \<longrightarrow> g p = p"
    using Cons.IH [of "refresh_preState t r a s"] by blast
  show ?case
    using g step id by (intro exI [of _ "g \<circ> ?f"]) (auto simp: comp_def)
qed

section \<open>Runs of the store\<close>

text \<open>What can happen to a store between two reads of its storage.\<close>

inductive store_step :: "ClientStore \<Rightarrow> ClientStore \<Rightarrow> bool" where
  Add: "co_id op \<notin> op_id ` set (cs_pendingOps s) \<Longrightarrow> store_step s (addPendingOp now op s)"
| Optimistic: "store_step s (applyOptimistic op s)"
| Synced: "store_step s (markSynced ids s)"
| RejectOne: "store_step s (markRejected now opId reason s)"
| RejectBatch: "store_step s (rejectBatch now batchId reason s)"
| ClearRejected: "store_step s (clearRejected s)"
| Revert: "store_step s (revertOp opId serverRow s)"
| SetRow: "store_step s (setRow t r d c h s)"
| Clear: "store_step s (clearTable t s)"
| SnapshotOf: "store_step s (applySnapshot t rs cc a pk s)"
| DeltaOf: "store_step s (applyDelta t k r p h dc s)"
| Meta: "store_step s (setTableMeta m s)"

inductive store_reachable :: "ClientStore \<Rightarrow> bool" where
  Start: "store_reachable (new_store True)"
| Step: "store_reachable s \<Longrightarrow> store_step s s' \<Longrightarrow> store_reachable s'"

definition mirrored :: "ClientStore \<Rightarrow> bool" where
  "mirrored s \<longleftrightarrow> distinct (map op_id (cs_pendingOps s)) \<and> memory.mirrors createMemoryStorage s"

lemma mirroredI:
  "distinct (map op_id (cs_pendingOps s)) \<Longrightarrow> memory.holds createMemoryStorage (cs_pendingOps s) s \<Longrightarrow> mirrored s"
  by (simp add: mirrored_def memory.mirrors_def)

lemma mirroredD:
  assumes "mirrored s"
  shows "distinct (map op_id (cs_pendingOps s))" "memory.holds createMemoryStorage (cs_pendingOps s) s"
  using assms by (simp_all add: mirrored_def memory.mirrors_def)

lemma distinct_ids_filter: "distinct (map op_id os) \<Longrightarrow> distinct (map op_id (filter P os))"
  by (simp add: distinct_map_filter)

lemma holds_rewrite:
  assumes "memory.holds st os s"
    and "ms_pendingOps (run_write w (fold run_write (cs_queue s) st)) = ops"
    and "ms_rows (run_write w (fold run_write (cs_queue s) st)) = ms_rows (fold run_write (cs_queue s) st)"
  shows "memory.holds st ops (enqueue w (s\<lparr>cs_pendingOps := x\<rparr>))" "memory.holds st ops (enqueue w s)"
  using memory.holds_ops [OF assms(1,2)] assms(3) by simp_all

lemma holds_pendingD: "memory.holds st os s \<Longrightarrow> ms_pendingOps (fold run_write (cs_queue s) st) = os"
  by (simp add: memory.holds_def)

lemma mirrored_trim: "mirrored s \<Longrightarrow> mirrored (autoTrimRejected now s)"
proof -
  assume m: "mirrored s"
  let ?P = "\<lambda>p. po_status p \<noteq> Rejected \<or> po_createdAt p > now - 60000"
  have "filter ?P (cs_pendingOps s) = cs_pendingOps s"
    if "\<not> length (filter ?P (cs_pendingOps s)) < length (cs_pendingOps s)"
    using that by (metis filter_id_conv length_filter_less)
  then show ?thesis
    using mirroredD [OF m] unfolding autoTrimRejected_def Let_def
    by (intro mirroredI) (auto simp: distinct_ids_filter intro!: holds_rewrite)
qed

lemma mirrored_replace:
  assumes "mirrored s" "\<And>p. op_id (g p) = op_id p" "\<And>p. p \<in> set (cs_pendingOps s) \<Longrightarrow> \<not> Q p \<Longrightarrow> g p = p"
  shows "mirrored (enqueue (UpdatePendingOps (map g (filter Q (cs_pendingOps s))))
    (s\<lparr>cs_pendingOps := map g (cs_pendingOps s)\<rparr>))"
proof (rule mirroredI)
  note d = mirroredD [OF assms(1)]
  show "distinct (map op_id (cs_pendingOps (enqueue (UpdatePendingOps (map g (filter Q (cs_pendingOps s))))
      (s\<lparr>cs_pendingOps := map g (cs_pendingOps s)\<rparr>))))"
    using d(1) assms(2) by (simp add: comp_def)
  show "memory.holds createMemoryStorage (cs_pendingOps (enqueue (UpdatePendingOps (map g (filter Q (cs_pendingOps s))))
      (s\<lparr>cs_pendingOps := map g (cs_pendingOps s)\<rparr>))) (enqueue (UpdatePendingOps (map g (filter Q (cs_pendingOps s))))
      (s\<lparr>cs_pendingOps := map g (cs_pendingOps s)\<rparr>))"
    using holds_rewrite(1) [OF d(2)] holds_pendingD [OF d(2)] replace_ops_map [OF d(1) assms(2,3)] by simp
qed

lemma rejected_by_id [simp]: "op_id (rejected_by reason p) = op_id p"
  by (simp add: op_id_def rejected_by_def)

lemma filter_same_id:
  "distinct (map op_id os) \<Longrightarrow> p \<in> set os \<Longrightarrow> filter (\<lambda>q. op_id q = op_id p) os = [p]"
proof (induction os)
  case (Cons a os)
  then show ?case
    by (cases "a = p") (auto simp: filter_empty_conv image_iff)
qed simp

lemma mirrored_rejected: "mirrored s \<Longrightarrow> mirrored (markRejected now opId reason s)"
proof -
  assume m: "mirrored s"
  show ?thesis
  proof (cases "List.find (\<lambda>p. op_id p = opId) (cs_pendingOps s)")
    case None
    with m show ?thesis by (simp add: markRejected_def mirrored_trim)
  next
    case (Some p)
    have p: "p \<in> set (cs_pendingOps s)" "op_id p = opId" using find_someD [OF Some] by auto
    have "filter (\<lambda>q. op_id q = opId) (cs_pendingOps s) = [p]"
      using filter_same_id [OF mirroredD(1) [OF m] p(1)] p(2) by simp
    then show ?thesis
      using mirrored_replace [OF m, of "\<lambda>q. if op_id q = opId then rejected_by reason q else q" "\<lambda>q. op_id q = opId"]
        p Some by (simp add: markRejected_def mirrored_trim)
  qed
qed

lemma mirrored_batch: "mirrored s \<Longrightarrow> mirrored (rejectBatch now batchId reason s)"
proof -
  assume m: "mirrored s"
  let ?hit = "\<lambda>p. co_batchId (po_op p) = Some batchId"
  let ?g = "\<lambda>p. if ?hit p then rejected_by reason p else p"
  have up: "map (rejected_by reason) (filter ?hit (cs_pendingOps s)) = map ?g (filter ?hit (cs_pendingOps s))"
    by simp
  have none: "filter ?hit (cs_pendingOps s) = [] \<Longrightarrow> map ?g (cs_pendingOps s) = cs_pendingOps s"
    by (auto simp: filter_empty_conv intro: map_idI)
  show ?thesis
    using m none mirrored_replace [OF m, of ?g ?hit]
    unfolding rejectBatch_def Let_def up by (auto intro!: mirrored_trim)
qed

lemma mirrored_revert:
  assumes m: "mirrored s"
  shows "mirrored (revertOp opId serverRow s)"
proof (cases "List.find (\<lambda>p. op_id p = opId) (cs_pendingOps s)")
  case None
  with m show ?thesis by (simp add: revertOp_def)
next
  case (Some pending)
  define t r where "t = co_table (po_op pending)" and "r = co_rowId (po_op pending)"
  define chain where "chain = filter (\<lambda>p. co_table (po_op p) = t \<and> co_rowId (po_op p) = r) (cs_pendingOps s)"
  define s1 where "s1 = (case serverRow of
      Some sr \<Rightarrow> setRow t r (Some sr) (case getRow s t r of Some e \<Rightarrow> lr_colClocks e | None \<Rightarrow> [])
        (case getRow s t r of Some e \<Rightarrow> lr_serverHlc e | None \<Rightarrow> None) s
    | None \<Rightarrow>
        (case po_preState (hd chain) of
           Some pre \<Rightarrow> setRow t r (ps_data pre) (ps_colClocks pre) (ps_serverHlc pre) s
         | None \<Rightarrow>
             if map_has (cs_rows s) t
             then enqueue (DeleteRow t r) (s\<lparr>cs_rows := rows_del t r (cs_rows s)\<rparr>) else s))"
  define rest where "rest = filter (\<lambda>p. op_id p \<noteq> opId) chain"
  define s2 where "s2 = fold (refresh_preState t r) rest s1"
  define A where "A = set (map op_id rest)"
  define s3 where "s3 = (if rest \<noteq> [] then enqueue (UpdatePendingOps
      (filter (\<lambda>q. op_id q \<in> A) (cs_pendingOps s2))) s2 else s2)"
  have rev: "revertOp opId serverRow s = enqueue (RemovePendingOps [opId])
      (s3\<lparr>cs_pendingOps := filter (\<lambda>p. op_id p \<noteq> opId) (cs_pendingOps s3)\<rparr>)"
    using Some unfolding revertOp_def s3_def A_def s2_def rest_def s1_def chain_def t_def r_def
    by (simp add: Let_def)
  note d = mirroredD [OF m]
  have p1: "cs_pendingOps s1 = cs_pendingOps s" by (simp add: s1_def split: option.splits)
  have "memory.holds createMemoryStorage (cs_pendingOps s) s1"
    using d(2) unfolding s1_def
    by (auto intro: memory.holds_setRow memory.holds_deleteRow split: option.splits)
  then have h2: "memory.holds createMemoryStorage (cs_pendingOps s) s2"
    unfolding s2_def by (rule memory.holds_refresh)
  obtain g where g: "cs_pendingOps s2 = map g (cs_pendingOps s)" "\<And>p. op_id (g p) = op_id p"
    "\<And>p. op_id p \<notin> A \<Longrightarrow> g p = p"
    using refresh_pending [of t r rest s1] p1 unfolding s2_def A_def by auto
  have d2: "distinct (map op_id (cs_pendingOps s2))" using d(1) g(1,2) by (simp add: comp_def)
  have h3: "memory.holds createMemoryStorage (cs_pendingOps s3) s3" and p3: "cs_pendingOps s3 = cs_pendingOps s2"
  proof -
    show p3: "cs_pendingOps s3 = cs_pendingOps s2" by (simp add: s3_def)
    show "memory.holds createMemoryStorage (cs_pendingOps s3) s3"
    proof (cases "rest = []")
      case True
      then have "map g (cs_pendingOps s) = cs_pendingOps s" using g(3) by (auto simp: A_def intro: map_idI)
      with True h2 g(1) show ?thesis by (simp add: s3_def)
    next
      case False
      have "filter (\<lambda>q. op_id q \<in> A) (cs_pendingOps s2) = map g (filter (\<lambda>q. op_id q \<in> A) (cs_pendingOps s))"
        using g(1,2) by (simp add: filter_map comp_def)
      moreover have "replace_ops (map g (filter (\<lambda>q. op_id q \<in> A) (cs_pendingOps s))) (cs_pendingOps s)
          = map g (cs_pendingOps s)"
        using d(1) g(2,3) by (intro replace_ops_map) auto
      ultimately show ?thesis
        using False h2 g(1) holds_pendingD [OF h2] p3
        by (auto simp: s3_def intro!: holds_rewrite(2))
    qed
  qed
  show ?thesis
    unfolding rev using h3 d2 holds_pendingD [OF h3] p3
    by (intro mirroredI) (auto simp: distinct_ids_filter intro!: holds_rewrite(1))
qed

lemma mirrored_rows:
  assumes "mirrored s" "cs_pendingOps s' = cs_pendingOps s"
    and "\<And>os. memory.holds createMemoryStorage os s \<Longrightarrow> memory.holds createMemoryStorage os s'"
  shows "mirrored s'"
  using mirroredD [OF assms(1)] assms(2,3) by (intro mirroredI) simp_all

lemma mirrored_step: "store_step s s' \<Longrightarrow> mirrored s \<Longrightarrow> mirrored s'"
proof (induction rule: store_step.induct)
  case (Add op s now)
  note d = mirroredD [OF Add(2)]
  show ?case
    unfolding addPendingOp_def Let_def
    using d Add(1) holds_pendingD [OF d(2)]
    by (intro mirroredI) (auto simp: op_id_def intro!: holds_rewrite(1))
next
  case (Synced s ids)
  note d = mirroredD [OF Synced]
  show ?case
    unfolding markSynced_def using d holds_pendingD [OF d(2)]
    by (intro mirroredI) (auto simp: distinct_ids_filter intro!: holds_rewrite(1))
next
  case (ClearRejected s)
  note d = mirroredD [OF ClearRejected]
  show ?case
    unfolding clearRejected_def Let_def using d
    by (intro mirroredI) (auto simp: distinct_ids_filter intro!: holds_rewrite(1))
next
  case (Clear s t)
  show ?case
    using mirroredD [OF Clear] memory.holds_clearTable by (intro mirroredI) (auto simp: clearTable_def)
qed (auto simp: mirrored_rejected mirrored_batch mirrored_revert
    intro: mirrored_rows memory.holds_setRow memory.holds_optimistic memory.holds_snapshot
      memory.holds_delta memory.holds_meta)

lemma mirrored_reachable: "store_reachable s \<Longrightarrow> mirrored s"
proof (induction rule: store_reachable.induct)
  case Start
  show ?case
    by (rule mirroredI)
      (simp_all add: new_store_def memory.holds_def createMemoryStorage_def rows_get_def)
qed (rule mirrored_step)

section \<open>Properties\<close>


definition sample_insert :: ClientOp where
  "sample_insert = \<lparr>co_id = ''o1'', co_table = ''t'', co_op = Insert, co_rowId = ''r'',
     co_payload = Some [(''a'', Num 1)], co_hlc = ''1'', co_batchId = None, co_batchSize = None,
     co_batchSeq = None\<rparr>"

definition sample_store :: ClientStore where
  "sample_store = applyOptimistic sample_insert (addPendingOp 5 sample_insert (new_store True))"

lemma sample_store_reachable: "store_reachable sample_store"
proof -
  have "store_reachable (addPendingOp 5 sample_insert (new_store True))"
    by (rule Step [OF Start]) (rule Add, simp add: new_store_def)
  then show ?thesis unfolding sample_store_def by (rule Step) (rule Optimistic)
qed


lemma rows_setRow:
  "rows_get (cs_rows (setRow t r d c h s)) t' r' =
     (if t' = t \<and> r' = r
      then (if d = None \<and> h = None then None
            else Some \<lparr>lr_table = t, lr_rowId = r, lr_data = d, lr_colClocks = c, lr_serverHlc = h\<rparr>)
      else rows_get (cs_rows s) t' r')"
  by (simp add: setRow_def Let_def keyed_simps)

lemma rows_optimistic_other:
  "\<not> (t = co_table op \<and> r = co_rowId op) \<Longrightarrow>
   rows_get (cs_rows (applyOptimistic op s)) t r = rows_get (cs_rows s) t r"
  by (auto simp: applyOptimistic_def Let_def rows_setRow split: OpType.splits option.splits)

lemma reachable_filed:
  assumes "store_reachable s" "rows_get (cs_rows s) t r = Some x"
  shows "lr_table x = t \<and> lr_rowId x = r"
  using mirroredD(2) [OF mirrored_reachable [OF assms(1)]] assms(2) memory.filed
  by (simp add: memory.holds_def) (metis memory.filed)

lemma find_append: "List.find P (xs @ ys) = (case List.find P xs of Some x \<Rightarrow> Some x | None \<Rightarrow> List.find P ys)"
  by (induction xs) auto



text \<open>C12: a delta that arrives late changes nothing: an insert or a delete no newer than the row or its
  tombstone, and an update none of whose columns is newer than the client's.\<close>

theorem stale_delta_is_ignored:
  assumes "getRowEntry s t r = Some ex"
    and "k \<noteq> Update \<longrightarrow> not_newer hlc (lr_serverHlc ex)"
    and "k = Update \<longrightarrow> (\<forall>(col, v)\<in>set (payload_fields payload). not_newer
      (case obj_get (case dc of Some c \<Rightarrow> c | None \<Rightarrow> []) col of Some c \<Rightarrow> c | None \<Rightarrow> hlc)
      (obj_get (lr_colClocks ex) col))"
  shows "applyDelta t k r payload hlc dc s = s"
proof (cases "k = Update")
  case False
  with assms show ?thesis by (cases k) (auto simp: applyDelta_def Let_def)
next
  case True
  let ?inc = "case dc of Some c \<Rightarrow> c | None \<Rightarrow> []"
  have "fold (delta_col hlc ?inc (lr_colClocks ex)) xs (d, c, False) = (d, c, False)"
    if "\<forall>(col, v)\<in>set xs. not_newer (case obj_get ?inc col of Some c \<Rightarrow> c | None \<Rightarrow> hlc)
      (obj_get (lr_colClocks ex) col)" for xs d c
    using that
    by (induction xs) (auto simp: delta_col_def Let_def not_newer_def split: option.splits)
  with True assms show ?thesis by (simp add: applyDelta_def Let_def)
qed

theorem stale_delta_is_ignored_witness:
  "applyDelta ''t'' Insert ''r'' (Some [(''a'', Num 1)]) ''3'' None
     (setRow ''t'' ''r'' None [] (Some ''5'') (new_store False))
   = setRow ''t'' ''r'' None [] (Some ''5'') (new_store False)"
  by (rule stale_delta_is_ignored
      [of _ _ _ "\<lparr>lr_table = ''t'', lr_rowId = ''r'', lr_data = None, lr_colClocks = [], lr_serverHlc = Some ''5''\<rparr>"])
    (simp_all add: getRowEntry_def rows_setRow not_newer_def compareHlc_def)

text \<open>
  A tombstone stops late inserts but not late updates: it has no column clocks, so an update
  older than the delete is taken for new and the row comes back with the columns it names.
\<close>

lemma late_update_resurrects:
  assumes "getRowEntry s t r = Some ex" "lr_data ex = None" "lr_colClocks ex = []" "v \<noteq> Undefined"
  shows "\<exists>x. getRow (applyDelta t Update r (Some [(col, v)]) hlc None s) t r = Some x
    \<and> obj_get (the (lr_data x)) col = Some v"
  using assms
  by (auto simp: applyDelta_def Let_def delta_col_def payload_fields_def getRow_def rows_setRow withPk_def
      get_prop_def keyed_simps split: option.splits)

lemma deleted_row_has_no_clocks:
  "getRowEntry (applyDelta t Delete r None hlc None (new_store h)) t r =
     Some \<lparr>lr_table = t, lr_rowId = r, lr_data = None, lr_colClocks = [], lr_serverHlc = Some hlc\<rparr>"
  by (simp add: applyDelta_def new_store_def getRowEntry_def rows_setRow) (simp add: rows_get_def rows_setRow)

end
