(* ===== verification/Result_Cache.thy ===== *)
theory Result_Cache
  imports Js_Value
begin

text \<open>
  \<open>src/server/result-cache.ts\<close>: what the server believes each client holds of each query, and the
  diff of a new result against it. Rows are values here: the shallow copy the source makes of a
  row is the value itself, and what a nested object mutated in place does is outside the model.
  Row ids are \<open>String(...)\<close> of a column; the text of a \<open>Date\<close> depends on the host's time zone and
  is the argument \<open>date_text\<close>.
\<close>

section \<open>Values\<close>

text \<open>\<open>String(v)\<close>\<close>

fun js_string :: "(int \<Rightarrow> string) \<Rightarrow> jsval \<Rightarrow> string" where
  "js_string ds Undefined = ''undefined''"
| "js_string ds Null = ''null''"
| "js_string ds (Bool b) = (if b then ''true'' else ''false'')"
| "js_string ds (Num n) = int_str n"
| "js_string ds NaN = ''NaN''"
| "js_string ds (Str s) = s"
| "js_string ds (Date r d) = ds d"
| "js_string ds (Arr r []) = []"
| "js_string ds (Arr r (x # xs)) =
     (if nullish x then [] else js_string ds x)
     @ (if xs = [] then [] else CHR '','' # js_string ds (Arr r xs))"
| "js_string ds (Obj r f) = ''[object Object]''"

text \<open>\<open>deepEqual\<close>, with its loops over the items of an array and the keys of an object.\<close>

fun deepEqual :: "jsval \<Rightarrow> jsval \<Rightarrow> bool"
  and equal_items :: "jsval list \<Rightarrow> jsval list \<Rightarrow> bool"
  and equal_fields :: "row \<Rightarrow> row \<Rightarrow> bool" where
  "deepEqual a b =
     (if strict_eq a b then True
      else case a of
        Date r d \<Rightarrow> (case b of Date r' d' \<Rightarrow> d = d' | _ \<Rightarrow> False)
      | Arr r xs \<Rightarrow> (case b of Arr r' ys \<Rightarrow> length xs = length ys \<and> equal_items xs ys | _ \<Rightarrow> False)
      | Obj r f \<Rightarrow> (case b of Obj r' g \<Rightarrow> length f = length g \<and> equal_fields f g | _ \<Rightarrow> False)
      | _ \<Rightarrow> False)"
| "equal_items (x # xs) (y # ys) = (deepEqual x y \<and> equal_items xs ys)"
| "equal_items xs ys = True"
| "equal_fields [] g = True"
| "equal_fields ((k, v) # f) g =
     (case obj_get g k of None \<Rightarrow> False | Some w \<Rightarrow> deepEqual v w \<and> equal_fields f g)"

declare deepEqual.simps [simp del]

text \<open>\<open>structuredClone\<close>: the same value made of fresh objects.\<close>

fun clone_value :: "jsval \<Rightarrow> jsval" where
  "clone_value (Date r d) = Date 0 d"
| "clone_value (Arr r xs) = Arr 0 (map clone_value xs)"
| "clone_value (Obj r f) = Obj 0 (map (\<lambda>(k, v). (k, clone_value v)) f)"
| "clone_value v = v"

definition clone_row :: "row \<Rightarrow> row" where
  "clone_row r = map (\<lambda>(k, v). (k, clone_value v)) r"

section \<open>The cache\<close>

type_synonym result_rows = "(string, row) jsmap"

record DiffResult =
  dr_inserted :: "(string \<times> row) list"
  dr_updated :: "(string \<times> row) list"
  dr_deleted :: "string list"

type_synonym ResultCache = "(string, (string, result_rows) jsmap) jsmap"

text \<open>\<open>String(row[idField] ?? "")\<close>\<close>

definition row_id :: "(int \<Rightarrow> string) \<Rightarrow> string \<Rightarrow> row \<Rightarrow> string" where
  "row_id ds idField row =
     (let v = get_prop row idField in if nullish v then [] else js_string ds v)"

definition rows_by_id :: "(int \<Rightarrow> string) \<Rightarrow> string \<Rightarrow> row list \<Rightarrow> result_rows" where
  "rows_by_id ds idField rows =
     foldl (\<lambda>m row. let i = row_id ds idField row in if i = [] then m else map_set i row m) [] rows"

definition cached_rows :: "ResultCache \<Rightarrow> string \<Rightarrow> string \<Rightarrow> result_rows option" where
  "cached_rows cache clientId queryName =
     (case map_get cache clientId of Some c \<Rightarrow> map_get c queryName | None \<Rightarrow> None)"

definition cache_get :: "ResultCache \<Rightarrow> string \<Rightarrow> string \<Rightarrow> result_rows" where
  "cache_get cache clientId queryName =
     (case cached_rows cache clientId queryName of Some m \<Rightarrow> m | None \<Rightarrow> [])"

definition changed_fields :: "row \<Rightarrow> row \<Rightarrow> row" where
  "changed_fields oldRow newRow =
     fold (\<lambda>(k, v) c. if deepEqual (get_prop oldRow k) v then c else obj_put k v c) newRow []"

definition removed_fields :: "row \<Rightarrow> row \<Rightarrow> row \<Rightarrow> row" where
  "removed_fields oldRow newRow c =
     fold (\<lambda>k c. if obj_has newRow k then c else obj_put k Null c) (obj_keys oldRow) c"

text \<open>\<open>hasChanges\<close> is set exactly when a field was put into \<open>changed\<close>.\<close>

definition fieldDiff :: "row \<Rightarrow> row \<Rightarrow> row option" where
  "fieldDiff oldRow newRow =
     (let changed = removed_fields oldRow newRow (changed_fields oldRow newRow)
      in if changed \<noteq> [] then Some changed else None)"

definition diff_row :: "result_rows \<Rightarrow> string \<times> row \<Rightarrow> DiffResult \<Rightarrow> DiffResult" where
  "diff_row oldRows e d =
     (case e of (rowId, newRow) \<Rightarrow>
        (case map_get oldRows rowId of
           None \<Rightarrow> d\<lparr>dr_inserted := dr_inserted d @ [(rowId, newRow)]\<rparr>
         | Some oldRow \<Rightarrow>
             (case fieldDiff oldRow newRow of
                Some changed \<Rightarrow> d\<lparr>dr_updated := dr_updated d @ [(rowId, changed)]\<rparr>
              | None \<Rightarrow> d)))"

definition diff_rows :: "result_rows \<Rightarrow> result_rows \<Rightarrow> DiffResult" where
  "diff_rows oldRows newRows =
     (fold (diff_row oldRows) newRows \<lparr>dr_inserted = [], dr_updated = [], dr_deleted = []\<rparr>)
       \<lparr>dr_deleted := filter (\<lambda>i. \<not> map_has newRows i) (map fst oldRows)\<rparr>"

definition cache_put :: "string \<Rightarrow> string \<Rightarrow> result_rows \<Rightarrow> ResultCache \<Rightarrow> ResultCache" where
  "cache_put clientId queryName rows cache =
     map_set clientId (map_set queryName rows
       (case map_get cache clientId of Some c \<Rightarrow> c | None \<Rightarrow> [])) cache"

definition cache_set ::
  "(int \<Rightarrow> string) \<Rightarrow> string \<Rightarrow> string \<Rightarrow> row list \<Rightarrow> string \<Rightarrow> ResultCache \<Rightarrow> DiffResult \<times> ResultCache" where
  "cache_set ds clientId queryName rows idField cache =
     (let newRows = rows_by_id ds idField rows
      in (diff_rows (cache_get cache clientId queryName) newRows, cache_put clientId queryName newRows cache))"

definition diffOnly ::
  "(int \<Rightarrow> string) \<Rightarrow> string \<Rightarrow> string \<Rightarrow> row list \<Rightarrow> string \<Rightarrow> ResultCache \<Rightarrow> DiffResult" where
  "diffOnly ds clientId queryName rows idField cache =
     diff_rows (cache_get cache clientId queryName) (rows_by_id ds idField rows)"

text \<open>Writes to a result set that is there; without one they do nothing.\<close>

definition on_rows ::
  "string \<Rightarrow> string \<Rightarrow> (result_rows \<Rightarrow> result_rows) \<Rightarrow> ResultCache \<Rightarrow> ResultCache" where
  "on_rows clientId queryName f cache =
     (case cached_rows cache clientId queryName of
        Some m \<Rightarrow> cache_put clientId queryName (f m) cache
      | None \<Rightarrow> cache)"

definition putRow :: "string \<Rightarrow> string \<Rightarrow> string \<Rightarrow> row \<Rightarrow> ResultCache \<Rightarrow> ResultCache" where
  "putRow clientId queryName rowId row = on_rows clientId queryName (map_set rowId (clone_row row))"

definition patch_columns :: "row \<Rightarrow> row \<Rightarrow> row" where
  "patch_columns columns cached = fold (\<lambda>(k, v) r. if obj_has r k then obj_put k v r else r) columns cached"

definition patchRow :: "string \<Rightarrow> string \<Rightarrow> string \<Rightarrow> row \<Rightarrow> ResultCache \<Rightarrow> ResultCache" where
  "patchRow clientId queryName rowId columns = on_rows clientId queryName
     (\<lambda>m. case map_get m rowId of Some r \<Rightarrow> map_set rowId (patch_columns columns r) m | None \<Rightarrow> m)"

definition evictRow :: "string \<Rightarrow> string \<Rightarrow> string \<Rightarrow> ResultCache \<Rightarrow> ResultCache" where
  "evictRow clientId queryName rowId = on_rows clientId queryName (map_del rowId)"

definition cache_clear :: "string \<Rightarrow> string \<Rightarrow> ResultCache \<Rightarrow> ResultCache" where
  "cache_clear clientId queryName cache =
     (case map_get cache clientId of
        Some c \<Rightarrow> map_set clientId (map_del queryName c) cache
      | None \<Rightarrow> cache)"

definition clearClient :: "string \<Rightarrow> ResultCache \<Rightarrow> ResultCache" where
  "clearClient clientId cache = map_del clientId cache"

section \<open>Facts\<close>

text \<open>What a client that held \<open>rows\<close> holds once it has applied a diff.\<close>

definition client_apply :: "DiffResult \<Rightarrow> result_rows \<Rightarrow> result_rows" where
  "client_apply d rows =
     fold map_del (dr_deleted d)
       (fold (\<lambda>(i, c) m. case map_get m i of Some r \<Rightarrow> map_set i (obj_assign r c) m | None \<Rightarrow> m) (dr_updated d)
         (fold (\<lambda>(i, r). map_set i r) (dr_inserted d) rows))"

text \<open>A row that is, for the client, the row \<open>n\<close>: the same columns up to deep equality, and columns
  that \<open>n\<close> has no more are null.\<close>

definition shows_row :: "row \<Rightarrow> row \<Rightarrow> bool" where
  "shows_row r n \<longleftrightarrow> (\<forall>k. case obj_get n k of
       Some v \<Rightarrow> get_prop r k = v \<or> deepEqual (get_prop r k) v
     | None \<Rightarrow> nullish (get_prop r k))"

lemma changed_fields_get:
  assumes "obj_wf n"
  shows "obj_get (changed_fields old n) k =
    (case obj_get n k of
       Some v \<Rightarrow> if deepEqual (get_prop old k) v then None else Some v
     | None \<Rightarrow> None)"
proof -
  have "obj_get (fold (\<lambda>(k, v) c. if deepEqual (get_prop old k) v then c else obj_put k v c) n c) k =
    (case map_of n k of
       Some v \<Rightarrow> if deepEqual (get_prop old k) v then obj_get c k else Some v
     | None \<Rightarrow> obj_get c k)" for c
    using assms unfolding obj_wf_def
  proof (induction n arbitrary: c)
    case (Cons kv n)
    obtain j v where kv: "kv = (j, v)" by (cases kv)
    show ?case
    proof (cases "k = j")
      case True
      then have "map_of n k = None" using Cons.prems kv by (simp add: map_of_eq_None_iff)
      then show ?thesis using Cons kv True by (simp add: keyed_simps)
    next
      case False
      then show ?thesis using Cons kv by (auto simp: keyed_simps split: option.splits)
    qed
  qed simp
  from this [of "[]"] show ?thesis by (simp add: changed_fields_def obj_get_def split: option.splits)
qed

lemma removed_fields_get:
  "obj_get (removed_fields old n c) k =
     (if obj_has old k \<and> \<not> obj_has n k then Some Null else obj_get c k)"
proof -
  have "obj_get (fold (\<lambda>k c. if obj_has n k then c else obj_put k Null c) ks c) k =
    (if k \<in> set ks \<and> \<not> obj_has n k then Some Null else obj_get c k)" for ks
    by (induction ks arbitrary: c) (auto simp: keyed_simps)
  then show ?thesis by (simp add: removed_fields_def obj_has_def obj_keys_iff)
qed

lemma obj_wf_changed: "obj_wf (removed_fields old n (changed_fields old n))"
proof -
  have "obj_wf (fold (\<lambda>(k, v) c. if deepEqual (get_prop old k) v then c else obj_put k v c) n c)"
    if "obj_wf c" for c using that by (induction n arbitrary: c) (auto simp: obj_wf_put)
  moreover have "obj_wf (fold (\<lambda>k c. if obj_has n k then c else obj_put k Null c) ks c)" if "obj_wf c" for ks c
    using that by (induction ks arbitrary: c) (auto simp: obj_wf_put)
  ultimately show ?thesis by (simp add: removed_fields_def changed_fields_def)
qed

lemma fieldDiff_shows:
  assumes "obj_wf n"
  shows "shows_row (obj_assign old (case fieldDiff old n of Some c \<Rightarrow> c | None \<Rightarrow> [])) n"
proof -
  let ?c = "removed_fields old n (changed_fields old n)"
  have c: "(case fieldDiff old n of Some c \<Rightarrow> c | None \<Rightarrow> []) = ?c"
    by (simp add: fieldDiff_def Let_def)
  show ?thesis
    unfolding shows_row_def c
    by (auto simp: get_prop_def obj_get_assign obj_wf_changed removed_fields_get changed_fields_get [OF assms]
        obj_has_def nullish_def split: option.splits if_splits)
qed

lemma diff_fold:
  "dr_inserted (fold (diff_row old) ns d) = dr_inserted d @ filter (\<lambda>(i, n). map_get old i = None) ns"
  "dr_updated (fold (diff_row old) ns d) = dr_updated d @
     List.map_filter (\<lambda>(i, n). case map_get old i of None \<Rightarrow> None
       | Some r \<Rightarrow> map_option (Pair i) (fieldDiff r n)) ns"
  by (induction ns arbitrary: d)
    (auto simp: diff_row_def List.map_filter_simps split: option.splits)

lemma get_fold_set:
  "distinct (map fst xs) \<Longrightarrow> map_get (fold (\<lambda>(i, r). map_set i r) xs m) j =
     (case map_of xs j of Some r \<Rightarrow> Some r | None \<Rightarrow> map_get m j)"
proof (induction xs arbitrary: m)
  case (Cons x xs)
  obtain i c where x: "x = (i, c)" by (cases x)
  have none: "map_of xs i = None" using Cons.prems x by (simp add: map_of_eq_None_iff)
  show ?case
    using Cons none x by (cases "i = j"; cases "map_of xs j") (auto simp: jsmap.get_put)
qed simp

lemma get_fold_assign:
  "distinct (map fst xs) \<Longrightarrow>
   map_get (fold (\<lambda>(i, c) m. case map_get m i of Some r \<Rightarrow> map_set i (obj_assign r c) m | None \<Rightarrow> m) xs m) j =
     (case map_of xs j of Some c \<Rightarrow> map_option (\<lambda>r. obj_assign r c) (map_get m j) | None \<Rightarrow> map_get m j)"
proof (induction xs arbitrary: m)
  case (Cons x xs)
  obtain i c where x: "x = (i, c)" by (cases x)
  have none: "map_of xs i = None" using Cons.prems x by (simp add: map_of_eq_None_iff)
  show ?case
    using Cons none x
    by (cases "i = j"; cases "map_get m i"; cases "map_of xs j") (auto simp: jsmap.get_put)
qed simp

lemma map_filter_keys:
  "set (map fst (List.map_filter (\<lambda>(i, n). map_option (Pair i) (f i n)) xs)) \<subseteq> set (map fst xs)"
  by (induction xs) (auto simp: List.map_filter_simps split: option.splits)

lemma map_filter_wf:
  "distinct (map fst xs) \<Longrightarrow> distinct (map fst (List.map_filter (\<lambda>(i, n). map_option (Pair i) (f i n)) xs))"
proof (induction xs)
  case (Cons x xs)
  then show ?case
    using map_filter_keys [of f xs]
    by (cases x) (auto simp: List.map_filter_simps split: option.splits)
qed (simp add: List.map_filter_simps)

lemma map_of_map_filter:
  "distinct (map fst xs) \<Longrightarrow> map_of (List.map_filter (\<lambda>(i, n). map_option (Pair i) (f i n)) xs) j =
     (case map_of xs j of Some n \<Rightarrow> f j n | None \<Rightarrow> None)"
proof (induction xs)
  case (Cons x xs)
  obtain i n where x: "x = (i, n)" by (cases x)
  have none: "map_of xs i = None" using Cons.prems x by (simp add: map_of_eq_None_iff)
  show ?case
    using Cons none x by (cases "i = j"; cases "f i n") (auto simp: List.map_filter_simps)
qed (simp add: List.map_filter_simps)

definition row_change :: "result_rows \<Rightarrow> string \<Rightarrow> row \<Rightarrow> row option" where
  "row_change old i n = (case map_get old i of None \<Rightarrow> None | Some r \<Rightarrow> fieldDiff r n)"

lemma diff_rows_parts:
  "dr_inserted (diff_rows old new) = filter (\<lambda>e. map_get old (fst e) = None) new"
  "dr_updated (diff_rows old new) = List.map_filter (\<lambda>(i, n). map_option (Pair i) (row_change old i n)) new"
  "dr_deleted (diff_rows old new) = filter (\<lambda>i. \<not> map_has new i) (map fst old)"
proof -
  have eq: "(\<lambda>(i, n). case map_get old i of None \<Rightarrow> None | Some r \<Rightarrow> map_option (Pair i) (fieldDiff r n))
      = (\<lambda>(i, n). map_option (Pair i) (row_change old i n))"
    by (auto simp: row_change_def fun_eq_iff split: option.splits)
  show "dr_updated (diff_rows old new) = List.map_filter (\<lambda>(i, n). map_option (Pair i) (row_change old i n)) new"
    by (simp add: diff_rows_def diff_fold eq List.map_filter_simps)
qed (simp_all add: diff_rows_def diff_fold split_def)

lemma client_apply_get:
  assumes "distinct (map fst new)"
  shows "map_get (client_apply (diff_rows old new) old) i =
    (case map_get new i of
       None \<Rightarrow> None
     | Some n \<Rightarrow>
         (case map_get old i of
            None \<Rightarrow> Some n
          | Some r \<Rightarrow> Some (obj_assign r (case fieldDiff r n of Some c \<Rightarrow> c | None \<Rightarrow> []))))"
proof -
  let ?d = "diff_rows old new"
  have ins: "distinct (map fst (dr_inserted ?d))"
    unfolding diff_rows_parts using assms by (rule distinct_fst_filter)
  have ins_get: "map_of (dr_inserted ?d) j = (if map_get old j = None then map_get new j else None)" for j
    unfolding diff_rows_parts by (rule map_of_filter_key)
  have upd: "distinct (map fst (dr_updated ?d))"
    unfolding diff_rows_parts using assms by (rule map_filter_wf)
  have upd_get: "map_of (dr_updated ?d) j = (case map_get new j of Some n \<Rightarrow> row_change old j n | None \<Rightarrow> None)" for j
    unfolding diff_rows_parts using assms by (rule map_of_map_filter)
  have del: "j \<in> set (dr_deleted ?d) \<longleftrightarrow> map_get new j = None \<and> map_get old j \<noteq> None" for j
    unfolding diff_rows_parts by (auto simp: map_of_eq_None_iff)
  show ?thesis
    unfolding client_apply_def jsmap.get_fold_del get_fold_assign [OF upd] get_fold_set [OF ins]
    by (auto simp: del ins_get upd_get row_change_def obj_assign_def split: option.splits)
qed

text \<open>A diff tells a client everything: a client that holds the cached rows and applies the diff of a
  new result holds exactly the rows of that result, each with the result's columns up to deep
  equality and with null where the result has no such column any more.\<close>

theorem diff_brings_client_up_to_date:
  assumes "distinct (map fst new)" "\<forall>(i, n)\<in>set new. obj_wf n"
  shows "case map_get new i of
      None \<Rightarrow> map_get (client_apply (diff_rows old new) old) i = None
    | Some n \<Rightarrow> \<exists>r. map_get (client_apply (diff_rows old new) old) i = Some r \<and> shows_row r n"
proof (cases "map_get new i")
  case None
  then show ?thesis by (simp add: client_apply_get [OF assms(1)])
next
  case (Some n)
  have wf: "obj_wf n" using assms(2) map_of_SomeD [OF Some] by auto
  have "shows_row n n" by (auto simp: shows_row_def get_prop_def nullish_def split: option.splits)
  with Some fieldDiff_shows [OF wf] show ?thesis
    by (auto simp: client_apply_get [OF assms(1)] split: option.splits)
qed

theorem diff_brings_client_up_to_date_witness:
  "let old = [(''a'', [(''id'', Str ''a''), (''n'', Num 1), (''x'', Null)]), (''b'', [(''id'', Str ''b'')])];
       new = [(''a'', [(''id'', Str ''a''), (''n'', Num 2)]), (''c'', [(''id'', Str ''c'')])]
   in \<exists>r. map_get (client_apply (diff_rows old new) old) ''a'' = Some r
        \<and> shows_row r [(''id'', Str ''a''), (''n'', Num 2)]"
  using diff_brings_client_up_to_date
    [of "[(''a'', [(''id'', Str ''a''), (''n'', Num 2)]), (''c'', [(''id'', Str ''c'')])]"
        "[(''a'', [(''id'', Str ''a''), (''n'', Num 1), (''x'', Null)]), (''b'', [(''id'', Str ''b'')])]" "''a''"]
  by (simp add: obj_wf_def Let_def)

lemma cached_put:
  "cached_rows (cache_put c q rows cache) c' q' = (if c' = c \<and> q' = q then Some rows else cached_rows cache c' q')"
  by (auto simp: cached_rows_def cache_put_def jsmap.get_put split: option.splits)

lemma cached_on_rows:
  "cached_rows (on_rows c q f cache) c' q' =
     (if c' = c \<and> q' = q then map_option f (cached_rows cache c q) else cached_rows cache c' q')"
  by (auto simp: on_rows_def cached_put split: option.splits)

lemma rows_by_id_wf: "distinct (map fst (rows_by_id ds idField rows))"
  unfolding rows_by_id_def
  by (induction rows rule: rev_induct) (auto simp: Let_def distinct_update)

text \<open>C13: once a row of a client's result was evicted, the next result that has it reports it as an
  insert with every column of the row, never as an update against the dead one.\<close>

theorem evicted_row_is_sent_whole:
  assumes "cached_rows cache c q \<noteq> None" "map_get (rows_by_id ds idField rows) i = Some row"
  shows "(i, row) \<in> set (dr_inserted (diffOnly ds c q rows idField (evictRow c q i cache)))
    \<and> (\<forall>changed. (i, changed) \<notin> set (dr_updated (diffOnly ds c q rows idField (evictRow c q i cache))))"
proof -
  let ?old = "cache_get (evictRow c q i cache) c q" and ?new = "rows_by_id ds idField rows"
  have none: "map_get ?old i = None"
    using assms(1) by (auto simp: cache_get_def evictRow_def cached_on_rows jsmap.get_del)
  have mem: "(i, row) \<in> set ?new" using assms(2) by (rule map_of_SomeD)
  have "map_of (dr_updated (diff_rows ?old ?new)) i = None"
    unfolding diff_rows_parts using none map_of_map_filter [OF rows_by_id_wf, of "row_change ?old"]
    by (simp add: row_change_def split: option.splits)
  then have "i \<notin> fst ` set (dr_updated (diff_rows ?old ?new))" by (simp add: map_of_eq_None_iff)
  then have "\<forall>changed. (i, changed) \<notin> set (dr_updated (diff_rows ?old ?new))" by force
  then show ?thesis unfolding diffOnly_def using none mem by (simp add: diff_rows_parts(1))
qed

theorem evicted_row_is_sent_whole_witness:
  "let cache = cache_put ''c'' ''q'' [(''a'', [(''id'', Str ''a''), (''n'', Num 1)])] [];
       row = [(''id'', Str ''a''), (''n'', Num 1)]
   in (''a'', row) \<in> set (dr_inserted (diffOnly (\<lambda>_. []) ''c'' ''q'' [row] ''id'' (evictRow ''c'' ''q'' ''a'' cache)))"
  using evicted_row_is_sent_whole
    [of "cache_put ''c'' ''q'' [(''a'', [(''id'', Str ''a''), (''n'', Num 1)])] []" "''c''" "''q''" "\<lambda>_. []" "''id''"
        "[[(''id'', Str ''a''), (''n'', Num 1)]]" "''a''" "[(''id'', Str ''a''), (''n'', Num 1)]"]
  by (simp add: Let_def cached_put rows_by_id_def row_id_def get_prop_def obj_get_def nullish_def)

end
