(* ===== verification/Ephemeral.thy ===== *)
theory Ephemeral
  imports Types
begin

text \<open>
  \<open>src/server/ephemeral/memory.ts\<close>: presence state in the server process, as rooms of channels of
  clients, with an index from a client to its entries and a count. \<open>Date.now()\<close> is an argument.
  The lemmas show that the count is the number of entries and stays within the limit, that the
  index is exact, that a client that leaves leaves nothing behind, and what a sweep removes.
\<close>

section \<open>Definitions\<close>

record EphemeralState =
  es_clientId :: string
  es_userId :: string
  es_key :: string
  es_data :: row
  es_updatedAt :: int
  es_ttlMs :: "int option"

type_synonym channel = "(string, EphemeralState) jsmap"
type_synonym room_map = "(string, channel) jsmap"

definition DEFAULT_MAX_ENTRIES :: nat where
  "DEFAULT_MAX_ENTRIES = 10000"

definition NUL :: char where
  "NUL = char_of (0 :: nat)"

definition indexKey :: "string \<Rightarrow> string \<Rightarrow> string \<Rightarrow> string" where
  "indexKey room key clientId = room @ NUL # key @ NUL # clientId"

fun split_at :: "char \<Rightarrow> string \<Rightarrow> string list" where
  "split_at d [] = [[]]"
| "split_at d (c # cs) =
     (if c = d then [] # split_at d cs
      else case split_at d cs of w # ws \<Rightarrow> (c # w) # ws | [] \<Rightarrow> [[c]])"

text \<open>A packed key always has its three parts.\<close>

definition parseIndexKey :: "string \<Rightarrow> string \<times> string \<times> string" where
  "parseIndexKey packed =
     (case split_at NUL packed of a # b # c # _ \<Rightarrow> (a, b, c) | _ \<Rightarrow> ([], [], []))"

record EphemeralManager =
  em_store :: "(string, room_map) jsmap"
  em_clientIndex :: "(string, string list) jsmap"
  em_entryCount :: int
  em_maxEntries :: int

definition createMemoryEphemeral :: "int option \<Rightarrow> EphemeralManager" where
  "createMemoryEphemeral maxEntries = \<lparr>em_store = [], em_clientIndex = [], em_entryCount = 0,
     em_maxEntries = (case maxEntries of Some n \<Rightarrow> n | None \<Rightarrow> int DEFAULT_MAX_ENTRIES)\<rparr>"

definition addToClientIndex :: "string \<Rightarrow> string \<Rightarrow> EphemeralManager \<Rightarrow> EphemeralManager" where
  "addToClientIndex clientId packed m =
     m\<lparr>em_clientIndex := map_set clientId
        (set_add packed (case map_get (em_clientIndex m) clientId of Some s \<Rightarrow> s | None \<Rightarrow> []))
        (em_clientIndex m)\<rparr>"

definition removeFromClientIndex :: "string \<Rightarrow> string \<Rightarrow> EphemeralManager \<Rightarrow> EphemeralManager" where
  "removeFromClientIndex clientId packed m =
     (case map_get (em_clientIndex m) clientId of
        None \<Rightarrow> m
      | Some s \<Rightarrow>
          let s' = filter (\<lambda>p. p \<noteq> packed) s in
          m\<lparr>em_clientIndex := (if s' = [] then map_del clientId (em_clientIndex m)
              else map_set clientId s' (em_clientIndex m))\<rparr>)"

definition eph_set ::
  "int \<Rightarrow> string \<Rightarrow> string \<Rightarrow> string \<Rightarrow> string \<Rightarrow> row \<Rightarrow> int option \<Rightarrow> EphemeralManager
     \<Rightarrow> bool \<times> EphemeralManager" where
  "eph_set now room key clientId userId data ttlMs m =
     (let roomMap = get_map (em_store m) room;
          keyMap = get_map roomMap key;
          existing = map_has keyMap clientId
      in if \<not> existing \<and> em_entryCount m \<ge> em_maxEntries m then (False, m)
         else
           let state = \<lparr>es_clientId = clientId, es_userId = userId, es_key = key, es_data = data,
                        es_updatedAt = now, es_ttlMs = ttlMs\<rparr>;
               m1 = m\<lparr>em_store := map_set room (map_set key (map_set clientId state keyMap) roomMap) (em_store m)\<rparr>
           in (True, if existing then m1
                     else addToClientIndex clientId (indexKey room key clientId)
                            (m1\<lparr>em_entryCount := em_entryCount m1 + 1\<rparr>)))"

definition eph_get :: "EphemeralManager \<Rightarrow> string \<Rightarrow> string \<Rightarrow> EphemeralState jsobj" where
  "eph_get m room key =
     (case map_get (em_store m) room of
        None \<Rightarrow> []
      | Some roomMap \<Rightarrow>
          (case map_get roomMap key of
             None \<Rightarrow> []
           | Some keyMap \<Rightarrow> foldl (\<lambda>o' (c, st). obj_put c st o') [] keyMap))"

definition eph_getRoom :: "EphemeralManager \<Rightarrow> string \<Rightarrow> EphemeralState jsobj jsobj" where
  "eph_getRoom m room =
     (case map_get (em_store m) room of
        None \<Rightarrow> []
      | Some roomMap \<Rightarrow>
          foldl (\<lambda>out (key, keyMap). obj_put key (foldl (\<lambda>o' (c, st). obj_put c st o') [] keyMap) out)
            [] roomMap)"

definition eph_remove :: "string \<Rightarrow> string \<Rightarrow> string \<Rightarrow> EphemeralManager \<Rightarrow> EphemeralManager" where
  "eph_remove room key clientId m =
     (case map_get (em_store m) room of
        None \<Rightarrow> m
      | Some roomMap \<Rightarrow>
          (case map_get roomMap key of
             None \<Rightarrow> m
           | Some keyMap \<Rightarrow>
               let had = map_has keyMap clientId;
                   keyMap' = (if had then map_del clientId keyMap else keyMap);
                   roomMap' = (if keyMap' = [] then map_del key roomMap else map_set key keyMap' roomMap);
                   store' = (if roomMap' = [] then map_del room (em_store m)
                             else map_set room roomMap' (em_store m));
                   m1 = (if had then removeFromClientIndex clientId (indexKey room key clientId)
                                       (m\<lparr>em_entryCount := em_entryCount m - 1\<rparr>)
                         else m)
               in m1\<lparr>em_store := store'\<rparr>))"

definition removeClient :: "string \<Rightarrow> EphemeralManager \<Rightarrow> EphemeralManager" where
  "removeClient clientId m =
     (case map_get (em_clientIndex m) clientId of
        None \<Rightarrow> m
      | Some entries \<Rightarrow>
          let m' = fold (\<lambda>packed. case parseIndexKey packed of (room, key, owner) \<Rightarrow> eph_remove room key owner)
                     entries m
          in m'\<lparr>em_clientIndex := map_del clientId (em_clientIndex m')\<rparr>)"

definition expired :: "int \<Rightarrow> EphemeralState \<Rightarrow> bool" where
  "expired now st = (case es_ttlMs st of Some t \<Rightarrow> t \<noteq> 0 \<and> now - es_updatedAt st > t | None \<Rightarrow> False)"

definition expired_entries :: "int \<Rightarrow> EphemeralManager \<Rightarrow> (string \<times> string \<times> string) list" where
  "expired_entries now m =
     concat (map (\<lambda>(room, roomMap). concat (map (\<lambda>(key, keyMap).
       map (\<lambda>(clientId, st). (room, key, clientId)) (filter (\<lambda>(clientId, st). expired now st) keyMap))
       roomMap)) (em_store m))"

definition cleanupExpired :: "int \<Rightarrow> EphemeralManager \<Rightarrow> EphemeralManager" where
  "cleanupExpired now m = fold (\<lambda>(room, key, clientId). eph_remove room key clientId) (expired_entries now m) m"

definition eph_size :: "EphemeralManager \<Rightarrow> int" where
  "eph_size m = em_entryCount m"

definition eph_destroy :: "EphemeralManager \<Rightarrow> EphemeralManager" where
  "eph_destroy m = m\<lparr>em_store := [], em_clientIndex := [], em_entryCount := 0\<rparr>"

section \<open>Packed keys\<close>

definition no_nul :: "string \<Rightarrow> bool" where
  "no_nul s \<longleftrightarrow> NUL \<notin> set s"

lemma split_at_absent: "d \<notin> set s \<Longrightarrow> split_at d s = [s]"
  by (induction s) auto

lemma split_at_append: "d \<notin> set s \<Longrightarrow> split_at d (s @ d # t) = s # split_at d t"
  by (induction s) auto

lemma parse_index:
  "no_nul room \<Longrightarrow> no_nul key \<Longrightarrow> no_nul c \<Longrightarrow> parseIndexKey (indexKey room key c) = (room, key, c)"
  by (simp add: no_nul_def parseIndexKey_def indexKey_def split_at_append split_at_absent)

section \<open>Entries and their number\<close>

definition entry :: "EphemeralManager \<Rightarrow> string \<Rightarrow> string \<Rightarrow> string \<Rightarrow> EphemeralState option" where
  "entry m room key c = map_get (get_map (get_map (em_store m) room) key) c"

definition channel_size :: "channel \<Rightarrow> int" where
  "channel_size km = int (length km)"

definition room_size :: "room_map \<Rightarrow> int" where
  "room_size = total_of channel_size"

definition entries_in :: "EphemeralManager \<Rightarrow> int" where
  "entries_in m = total_of room_size (em_store m)"

definition store_wf :: "(string, room_map) jsmap \<Rightarrow> bool" where
  "store_wf s \<longleftrightarrow> distinct (map fst s) \<and> (\<forall>r rm. map_get s r = Some rm \<longrightarrow>
     distinct (map fst rm) \<and> (\<forall>k km. map_get rm k = Some km \<longrightarrow> distinct (map fst km)))"

lemma store_wfD:
  assumes "store_wf s"
  shows "distinct (map fst s)" "distinct (map fst (get_map s r))"
    "distinct (map fst (get_map (get_map s r) k))"
  using assms by (auto simp: store_wf_def get_map_def split: option.splits)

lemma store_wf_put:
  assumes "store_wf s" "distinct (map fst km)"
  shows "store_wf (map_set r (map_set k km (get_map s r)) s)"
  using assms store_wfD(2) [OF assms(1), of r]
  by (auto simp: store_wf_def jsmap.get_put distinct_update get_map_def split: option.splits if_splits
      simp del: map_of_eq_Some_iff)


text \<open>The index of a client, and what it should hold: the packed keys of the client's entries.\<close>

definition index_of :: "EphemeralManager \<Rightarrow> string \<Rightarrow> string list" where
  "index_of m c = (case map_get (em_clientIndex m) c of Some s \<Rightarrow> s | None \<Rightarrow> [])"

definition keys_of :: "EphemeralManager \<Rightarrow> string \<Rightarrow> (string \<times> string) set" where
  "keys_of m c = {(room, key). entry m room key c \<noteq> None}"

definition eph_inv :: "EphemeralManager \<Rightarrow> bool" where
  "eph_inv m \<longleftrightarrow> store_wf (em_store m) \<and> em_entryCount m = entries_in m \<and> em_entryCount m \<le> em_maxEntries m
     \<and> (\<forall>room key c. entry m room key c \<noteq> None \<longrightarrow> no_nul room \<and> no_nul key \<and> no_nul c)
     \<and> (\<forall>c. set (index_of m c) = (\<lambda>(room, key). indexKey room key c) ` keys_of m c)"

lemma indexKey_inj:
  assumes "indexKey r k c = indexKey r' k' c'" "no_nul r" "no_nul k" "no_nul c" "no_nul r'" "no_nul k'" "no_nul c'"
  shows "r = r' \<and> k = k' \<and> c = c'"
  using parse_index [OF assms(2-4)] parse_index [OF assms(5-7)] unfolding assms(1) by simp

lemma sizes_Nil [simp]: "channel_size [] = 0" "room_size [] = 0"
  by (simp_all add: channel_size_def room_size_def)

lemma channel_size_set: "channel_size (map_set c v km) = channel_size km + (if map_has km c then 0 else 1)"
  by (simp add: channel_size_def length_update)

lemma map_del_absent: "map_get m k = None \<Longrightarrow> map_del k m = m"
  by (simp add: delete_id map_of_eq_None_iff)

lemma channel_size_del:
  assumes "distinct (map fst km)"
  shows "channel_size (map_del c km) = channel_size km - (if map_has km c then 1 else 0)"
proof (cases "map_get km c")
  case (Some v)
  then show ?thesis
    using total_of_del [OF assms, of "\<lambda>_. 1" c]
    by (simp add: channel_size_def total_of_def comp_def sum_list_triv amount_at_def del: map_of_eq_Some_iff)
qed (simp add: map_del_absent)

lemma store_wf_remove:
  assumes "store_wf s" "distinct (map fst km)"
  shows "store_wf (put_or_del r (put_or_del k km (get_map s r)) s)"
  using assms store_wfD(1,2) [OF assms(1)]
  unfolding store_wf_def put_or_del_def
  by (auto simp: jsmap.get_put jsmap.get_del distinct_update distinct_delete get_map_def split: option.splits if_splits
      simp del: map_of_eq_Some_iff)

lemma index_of_add:
  "set (index_of (addToClientIndex c p m) j) = (if j = c then insert p (set (index_of m j)) else set (index_of m j))"
  by (auto simp: index_of_def addToClientIndex_def jsmap.get_put set_add_def split: option.splits)

lemma index_of_remove:
  "set (index_of (removeFromClientIndex c p m) j) = (if j = c then set (index_of m j) - {p} else set (index_of m j))"
  by (auto simp: index_of_def removeFromClientIndex_def Let_def jsmap.get_put jsmap.get_del filter_empty_conv
      split: option.splits if_splits)

lemma index_fields [simp]:
  "em_store (addToClientIndex c p m) = em_store m" "em_entryCount (addToClientIndex c p m) = em_entryCount m"
  "em_maxEntries (addToClientIndex c p m) = em_maxEntries m"
  "em_store (removeFromClientIndex c p m) = em_store m"
  "em_entryCount (removeFromClientIndex c p m) = em_entryCount m"
  "em_maxEntries (removeFromClientIndex c p m) = em_maxEntries m"
  by (simp_all add: addToClientIndex_def removeFromClientIndex_def Let_def split: option.split)

lemma index_of_store [simp]: "index_of (m\<lparr>em_store := s\<rparr>) = index_of m" "index_of (m\<lparr>em_entryCount := n\<rparr>) = index_of m"
  by (simp_all add: index_of_def fun_eq_iff)

lemma entry_count [simp]: "entry (m\<lparr>em_entryCount := n\<rparr>) = entry m"
  by (simp add: entry_def fun_eq_iff)

section \<open>Writing an entry\<close>

lemma entry_set:
  assumes "eph_set now room key c u d ttl m = (True, m')"
  shows "entry m' r k j = (if r = room \<and> k = key \<and> j = c
    then Some \<lparr>es_clientId = c, es_userId = u, es_key = key, es_data = d, es_updatedAt = now, es_ttlMs = ttl\<rparr>
    else entry m r k j)"
  using assms by (auto simp: eph_set_def Let_def entry_def get_map_set jsmap.get_put split: if_splits)

lemma eph_set_inv:
  assumes "eph_inv m" "no_nul room" "no_nul key" "no_nul c" "eph_set now room key c u d ttl m = (ok, m')"
  shows "eph_inv m'"
proof (cases ok)
  case False
  with assms show ?thesis by (auto simp: eph_set_def Let_def split: if_splits)
next
  case True
  let ?rm = "get_map (em_store m) room" and ?km = "get_map (get_map (em_store m) room) key"
  let ?st = "\<lparr>es_clientId = c, es_userId = u, es_key = key, es_data = d, es_updatedAt = now, es_ttlMs = ttl\<rparr>"
  have wf: "store_wf (em_store m)" using assms(1) by (simp add: eph_inv_def)
  have st: "em_store m' = map_set room (map_set key (map_set c ?st ?km) ?rm) (em_store m)"
    and cnt: "em_entryCount m' = em_entryCount m + (if map_has ?km c then 0 else 1)"
    and mx: "em_maxEntries m' = em_maxEntries m" and room: "\<not> map_has ?km c \<Longrightarrow> em_entryCount m < em_maxEntries m"
    and idx: "set (index_of m' j) = (if j = c \<and> \<not> map_has ?km c
      then insert (indexKey room key c) (set (index_of m j)) else set (index_of m j))" for j
    using assms(5) True by (auto simp: eph_set_def Let_def index_of_add split: if_splits)
  have "store_wf (em_store m')"
    unfolding st using store_wfD(3) [OF wf, of room key] by (intro store_wf_put wf) (simp add: distinct_update)
  moreover have "entries_in m' = entries_in m + (if map_has ?km c then 0 else 1)"
    unfolding entries_in_def st
    by (simp add: total_of_set amount_get_map channel_size_set room_size_def)
  moreover have ent: "entry m' r k j = (if r = room \<and> k = key \<and> j = c then Some ?st else entry m r k j)" for r k j
    using entry_set assms(5) True by simp
  moreover have "set (index_of m' j) = (\<lambda>(r, k). indexKey r k j) ` keys_of m' j" for j
  proof -
    have "keys_of m' j = (if j = c then insert (room, key) (keys_of m j) else keys_of m j)"
      using ent by (auto simp: keys_of_def)
    moreover have "map_has ?km c \<longleftrightarrow> (room, key) \<in> keys_of m c" by (simp add: keys_of_def entry_def)
    moreover have "set (index_of m j) = (\<lambda>(r, k). indexKey r k j) ` keys_of m j"
      using assms(1) by (simp add: eph_inv_def)
    ultimately show ?thesis unfolding idx by (auto simp: insert_absorb)
  qed
  moreover have "em_entryCount m \<le> em_maxEntries m" "em_entryCount m = entries_in m"
    "entry m r k j \<noteq> None \<longrightarrow> no_nul r \<and> no_nul k \<and> no_nul j" for r k j
    using assms(1) by (simp_all add: eph_inv_def)
  ultimately show ?thesis
    using assms(2-4) cnt mx room unfolding eph_inv_def by auto
qed

section \<open>Removing entries\<close>

lemma eph_remove_store:
  assumes "map_get (em_store m) r = Some rm" "map_get rm k = Some km"
  shows "em_store (eph_remove r k c m) = put_or_del r (put_or_del k (map_del c km) rm) (em_store m)"
    "em_entryCount (eph_remove r k c m) = em_entryCount m - (if map_has km c then 1 else 0)"
    "set (index_of (eph_remove r k c m) j) = (if j = c \<and> map_has km c
      then set (index_of m j) - {indexKey r k c} else set (index_of m j))"
  using assms map_del_absent [of km c]
  by (auto simp: eph_remove_def Let_def put_or_del_def index_of_remove)

lemma eph_remove_absent:
  "map_get (em_store m) r = None \<or> map_get (get_map (em_store m) r) k = None \<Longrightarrow> eph_remove r k c m = m"
  by (auto simp: eph_remove_def get_map_def split: option.splits)

lemma entry_remove: "entry (eph_remove r k c m) r' k' c' = (if r' = r \<and> k' = k \<and> c' = c then None else entry m r' k' c')"
proof (cases "map_get (em_store m) r = None \<or> map_get (get_map (em_store m) r) k = None")
  case True
  then have "entry m r k c = None" by (auto simp: entry_def get_map_def)
  with True show ?thesis by (auto simp: eph_remove_absent)
next
  case False
  then obtain rm km where m: "map_get (em_store m) r = Some rm" "map_get rm k = Some km"
    by (auto simp: get_map_def)
  then have g: "get_map (em_store m) r = rm" "get_map rm k = km" by (simp_all add: get_map_def)
  show ?thesis
    unfolding entry_def eph_remove_store(1) [OF m] get_map_put_or_del using g by (auto simp: jsmap.get_del get_map_put_or_del)
qed

lemma eph_remove_max [simp]: "em_maxEntries (eph_remove r k c m) = em_maxEntries m"
  by (simp add: eph_remove_def Let_def split: option.split)

lemma eph_remove_inv:
  assumes "eph_inv m"
  shows "eph_inv (eph_remove r k c m)"
proof (cases "map_get (em_store m) r = None \<or> map_get (get_map (em_store m) r) k = None")
  case True
  with assms show ?thesis by (simp add: eph_remove_absent)
next
  case False
  then obtain rm km where m: "map_get (em_store m) r = Some rm" "map_get rm k = Some km"
    by (auto simp: get_map_def)
  have g: "get_map (em_store m) r = rm" "get_map rm k = km" using m by (simp_all add: get_map_def)
  have wf: "store_wf (em_store m)" using assms by (simp add: eph_inv_def)
  have d: "distinct (map fst (em_store m))" "distinct (map fst rm)" "distinct (map fst km)"
    using store_wfD [OF wf] g by metis+
  note st = eph_remove_store [OF m, of c]
  have "store_wf (em_store (eph_remove r k c m))"
    unfolding st using store_wf_remove [OF wf, of "map_del c km" r k] d g by (simp add: distinct_delete)
  moreover have "entries_in (eph_remove r k c m) = entries_in m - (if map_has km c then 1 else 0)"
    unfolding entries_in_def st
    using d g by (simp add: total_of_put_or_del room_size_def channel_size_del)
  moreover have has: "map_has km c \<longleftrightarrow> entry m r k c \<noteq> None" using g by (simp add: entry_def)
  moreover have "set (index_of (eph_remove r k c m) j) = (\<lambda>(r, k). indexKey r k j) ` keys_of (eph_remove r k c m) j" for j
  proof -
    let ?f = "\<lambda>(r, k). indexKey r k c"
    have keys: "keys_of (eph_remove r k c m) j = (if j = c then keys_of m j - {(r, k)} else keys_of m j)"
      by (auto simp: keys_of_def entry_remove)
    have idx: "set (index_of m j) = (\<lambda>(r, k). indexKey r k j) ` keys_of m j" for j
      using assms by (simp add: eph_inv_def)
    have "inj_on ?f (keys_of m c)"
      using assms unfolding eph_inv_def by (auto simp: inj_on_def keys_of_def dest!: indexKey_inj)
    then have "(r, k) \<in> keys_of m c \<Longrightarrow> ?f ` (keys_of m c - {(r, k)}) = ?f ` keys_of m c - {indexKey r k c}"
      by (subst inj_on_image_set_diff) auto
    moreover have "map_has km c \<longleftrightarrow> (r, k) \<in> keys_of m c" using has by (simp add: keys_of_def)
    ultimately show ?thesis unfolding st(3) keys idx by auto
  qed
  moreover have "em_entryCount m \<le> em_maxEntries m" "em_entryCount m = entries_in m"
    "entry m r k j \<noteq> None \<longrightarrow> no_nul r \<and> no_nul k \<and> no_nul j" for r k j
    using assms by (simp_all add: eph_inv_def)
  ultimately show ?thesis
    unfolding eph_inv_def st(2) entry_remove eph_remove_max by auto
qed

section \<open>Leaving and sweeping\<close>

lemma removes:
  "entry (fold (\<lambda>(r, k, c). eph_remove r k c) xs m) r k c = (if (r, k, c) \<in> set xs then None else entry m r k c)"
  by (induction xs arbitrary: m) (auto simp: entry_remove split: if_splits)

lemma removes_inv: "eph_inv m \<Longrightarrow> eph_inv (fold (\<lambda>(r, k, c). eph_remove r k c) xs m)"
  by (induction xs arbitrary: m) (auto simp: eph_remove_inv)

lemma removeClient_fold:
  assumes "map_get (em_clientIndex m) c = Some ps"
  shows "removeClient c m = (let m' = fold (\<lambda>(r, k, c). eph_remove r k c) (map parseIndexKey ps) m
    in m'\<lparr>em_clientIndex := map_del c (em_clientIndex m')\<rparr>)"
  using assms by (simp add: removeClient_def fold_map comp_def)

lemma entry_index [simp]: "entry (m\<lparr>em_clientIndex := x\<rparr>) = entry m"
  by (simp add: entry_def fun_eq_iff)

lemma parsed_index:
  assumes "eph_inv m"
  shows "set (map parseIndexKey (index_of m c)) = {(r, k, c') |r k c'. c' = c \<and> entry m r k c \<noteq> None}"
proof -
  have "\<forall>(r, k)\<in>keys_of m c. parseIndexKey (indexKey r k c) = (r, k, c)"
    using assms by (auto simp: eph_inv_def keys_of_def parse_index)
  moreover have "set (index_of m c) = (\<lambda>(r, k). indexKey r k c) ` keys_of m c"
    using assms by (simp add: eph_inv_def)
  ultimately show ?thesis by (force simp: keys_of_def image_iff)
qed

lemma removeClient_entry:
  assumes "eph_inv m"
  shows "entry (removeClient c m) r k j = (if j = c then None else entry m r k j)"
proof (cases "map_get (em_clientIndex m) c")
  case None
  then have "set (index_of m c) = {}" by (simp add: index_of_def)
  moreover have "set (index_of m c) = (\<lambda>(r, k). indexKey r k c) ` keys_of m c"
    using assms by (simp add: eph_inv_def)
  ultimately have "keys_of m c = {}" by simp
  then have "entry m r k c = None" by (auto simp: keys_of_def)
  then show ?thesis using None by (auto simp: removeClient_def)
next
  case (Some ps)
  then have "index_of m c = ps" by (simp add: index_of_def)
  then have "set (map parseIndexKey ps) = {(r, k, c') |r k c'. c' = c \<and> entry m r k c \<noteq> None}"
    using parsed_index [OF assms, of c] by simp
  then show ?thesis
    unfolding removeClient_fold [OF Some] Let_def by (simp only: entry_index removes) auto
qed

lemma removeClient_inv:
  assumes "eph_inv m"
  shows "eph_inv (removeClient c m)"
proof (cases "map_get (em_clientIndex m) c")
  case (Some ps)
  define m' where "m' = fold (\<lambda>(r, k, c). eph_remove r k c) (map parseIndexKey ps) m"
  have r: "removeClient c m = m'\<lparr>em_clientIndex := map_del c (em_clientIndex m')\<rparr>"
    unfolding removeClient_fold [OF Some] m'_def Let_def ..
  have inv: "eph_inv m'" unfolding m'_def by (rule removes_inv [OF assms])
  have gone: "keys_of m' c = {}"
    using removeClient_entry [OF assms, of c] by (auto simp: r keys_of_def)
  have "index_of (removeClient c m) j = (if j = c then [] else index_of m' j)" for j
    by (simp add: r index_of_def jsmap.get_del)
  moreover have "keys_of (removeClient c m) = keys_of m'" by (simp add: r keys_of_def fun_eq_iff)
  moreover have "entries_in (removeClient c m) = entries_in m'" by (simp add: r entries_in_def)
  ultimately show ?thesis using inv gone unfolding eph_inv_def by (auto simp: r)
qed (use assms in \<open>simp add: removeClient_def\<close>)

lemma expired_entries_iff:
  assumes "store_wf (em_store m)"
  shows "(r, k, c) \<in> set (expired_entries now m) \<longleftrightarrow> (\<exists>st. entry m r k c = Some st \<and> expired now st)"
proof
  assume "(r, k, c) \<in> set (expired_entries now m)"
  then obtain rm km st where e: "(r, rm) \<in> set (em_store m)" "(k, km) \<in> set rm" "(c, st) \<in> set km" "expired now st"
    by (auto simp: expired_entries_def)
  then have "map_get (em_store m) r = Some rm" using assms by (simp add: store_wf_def)
  moreover from this have "map_get rm k = Some km" using assms e(2) by (simp add: store_wf_def)
  moreover from calculation have "map_get km c = Some st" using assms e(3) by (simp add: store_wf_def)
  ultimately show "\<exists>st. entry m r k c = Some st \<and> expired now st"
    using e(4) by (simp add: entry_def get_map_def)
next
  assume "\<exists>st. entry m r k c = Some st \<and> expired now st"
  then obtain rm km st where "map_get (em_store m) r = Some rm" "map_get rm k = Some km" "map_get km c = Some st"
    "expired now st"
    by (auto simp: entry_def get_map_def split: option.splits)
  then show "(r, k, c) \<in> set (expired_entries now m)"
    unfolding expired_entries_def by (force dest: map_of_SomeD)
qed

lemma cleanup_entry:
  assumes "store_wf (em_store m)"
  shows "entry (cleanupExpired now m) r k c =
    (case entry m r k c of Some st \<Rightarrow> if expired now st then None else Some st | None \<Rightarrow> None)"
  unfolding cleanupExpired_def removes expired_entries_iff [OF assms] by (auto split: option.split)

section \<open>Reachable stores\<close>

inductive eph_reachable :: "EphemeralManager \<Rightarrow> bool" where
  Created: "case mx of Some n \<Rightarrow> 0 \<le> n | None \<Rightarrow> True \<Longrightarrow> eph_reachable (createMemoryEphemeral mx)"
| Published: "eph_reachable m \<Longrightarrow> no_nul room \<Longrightarrow> no_nul key \<Longrightarrow> no_nul c \<Longrightarrow>
    eph_reachable (snd (eph_set now room key c u d ttl m))"
| Removed: "eph_reachable m \<Longrightarrow> eph_reachable (eph_remove room key c m)"
| Left: "eph_reachable m \<Longrightarrow> eph_reachable (removeClient c m)"
| Swept: "eph_reachable m \<Longrightarrow> eph_reachable (cleanupExpired now m)"
| Destroyed: "eph_reachable m \<Longrightarrow> 0 \<le> em_maxEntries m \<Longrightarrow> eph_reachable (eph_destroy m)"

lemma empty_inv:
  "em_store m = [] \<Longrightarrow> em_clientIndex m = [] \<Longrightarrow> em_entryCount m = 0 \<Longrightarrow> 0 \<le> em_maxEntries m \<Longrightarrow> eph_inv m"
  by (auto simp: eph_inv_def store_wf_def entries_in_def entry_def get_map_def index_of_def keys_of_def)

lemma eph_reachable_inv: "eph_reachable m \<Longrightarrow> eph_inv m"
proof (induction rule: eph_reachable.induct)
  case (Created mx)
  then show ?case
    by (intro empty_inv) (auto simp: createMemoryEphemeral_def DEFAULT_MAX_ENTRIES_def split: option.splits)
next
  case (Published m room key c now u d ttl)
  then show ?case
    using eph_set_inv [of m room key c now u d ttl] by (metis prod.collapse)
next
  case (Swept m now)
  then show ?case unfolding cleanupExpired_def by (intro removes_inv)
next
  case (Destroyed m)
  then show ?case by (intro empty_inv) (auto simp: eph_destroy_def)
qed (auto simp: eph_remove_inv removeClient_inv)

text \<open>C14: the size the store reports is the number of its entries and never exceeds its limit, whatever
  was published, removed, swept or left.\<close>

theorem ephemeral_count_is_exact_and_bounded:
  assumes "eph_reachable m"
  shows "eph_size m = entries_in m \<and> eph_size m \<le> em_maxEntries m"
  using eph_reachable_inv [OF assms] by (simp add: eph_inv_def eph_size_def)

definition sample_presence :: EphemeralManager where
  "sample_presence = snd (eph_set 0 ''room'' ''cursor'' ''c1'' ''u'' [] (Some 10) (createMemoryEphemeral None))"

lemma sample_presence_reachable: "eph_reachable sample_presence"
  unfolding sample_presence_def
  by (rule Published [OF Created]) (simp_all add: no_nul_def NUL_def char_of_def)

theorem ephemeral_count_is_exact_and_bounded_witness:
  "eph_size sample_presence = entries_in sample_presence \<and> eph_size sample_presence \<le> em_maxEntries sample_presence"
  by (rule ephemeral_count_is_exact_and_bounded [OF sample_presence_reachable])



text \<open>A sweep removes exactly the entries whose time to live has passed.\<close>

theorem sweep_removes_exactly_the_expired:
  assumes "eph_reachable m"
  shows "entry (cleanupExpired now m) room key c =
    (case entry m room key c of Some st \<Rightarrow> if expired now st then None else Some st | None \<Rightarrow> None)"
  using eph_reachable_inv [OF assms] by (intro cleanup_entry) (simp add: eph_inv_def)

theorem sweep_removes_exactly_the_expired_witness:
  "entry (cleanupExpired 11 sample_presence) ''room'' ''cursor'' ''c1'' =
    (case entry sample_presence ''room'' ''cursor'' ''c1'' of
       Some st \<Rightarrow> if expired 11 st then None else Some st | None \<Rightarrow> None)"
  by (rule sweep_removes_exactly_the_expired [OF sample_presence_reachable])

text \<open>An id with a NUL in it is packed but not parsed back, so leaving does not find its entry.\<close>

lemma nul_id_is_misparsed: "parseIndexKey (indexKey ''r'' ''k'' [NUL, CHR ''c'']) = (''r'', ''k'', [])"
  by (simp add: parseIndexKey_def indexKey_def NUL_def char_of_def)

end
