(* ===== verification/Json_Size.thy ===== *)
theory Json_Size
  imports Js_Value
begin

text \<open>
  The length of \<open>JSON.stringify(v)\<close>, which is all the code that budgets bytes reads of the text.
  \<open>None\<close> is the result \<open>undefined\<close>. Strings are counted in code units, escapes included.
\<close>

definition json_char_len :: "char \<Rightarrow> nat" where
  "json_char_len c =
     (let n = of_char c :: nat
      in if n = 34 \<or> n = 92 \<or> n = 8 \<or> n = 9 \<or> n = 10 \<or> n = 12 \<or> n = 13 then 2
         else if n < 32 then 6 else 1)"

definition json_string_len :: "string \<Rightarrow> nat" where
  "json_string_len s = sum_list (map json_char_len s) + 2"

text \<open>\<open>Date.prototype.toJSON\<close>: an ISO string, with a signed six-digit year outside 0 to 9999,
  and \<open>null\<close> outside the range of dates.\<close>

definition json_date_len :: "int \<Rightarrow> nat" where
  "json_date_len d =
     (if \<bar>d\<bar> > 8640000000000000 then 4
      else if -62167219200000 \<le> d \<and> d < 253402300800000 then 26 else 29)"

text \<open>Brackets, and a comma between two members.\<close>

definition bracketed :: "nat list \<Rightarrow> nat" where
  "bracketed ns = sum_list ns + (length ns - 1) + 2"

fun json_len :: "jsval \<Rightarrow> nat option"
  and item_lens :: "jsval list \<Rightarrow> nat list"
  and member_lens :: "row \<Rightarrow> nat list" where
  "json_len Undefined = None"
| "json_len Null = Some 4"
| "json_len (Bool b) = Some (if b then 4 else 5)"
| "json_len (Num n) = Some (length (int_str n))"
| "json_len NaN = Some 4"
| "json_len (Str s) = Some (json_string_len s)"
| "json_len (Date r d) = Some (json_date_len d)"
| "json_len (Arr r xs) = Some (bracketed (item_lens xs))"
| "json_len (Obj r f) = Some (bracketed (member_lens f))"
| "item_lens [] = []"
| "item_lens (x # xs) = (case json_len x of None \<Rightarrow> 4 | Some n \<Rightarrow> n) # item_lens xs"
| "member_lens [] = []"
| "member_lens ((k, v) # f) =
     (case json_len v of
        None \<Rightarrow> member_lens f
      | Some n \<Rightarrow> (json_string_len k + 1 + n) # member_lens f)"

lemma json_len_sample:
  "json_len (Obj 0 [(''id'', Str ''a\"''), (''n'', Num 12), (''u'', Undefined), (''x'', Arr 0 [Null, Undefined])])
     = Some (length ''{.id.:.a...,.n.:12,.x.:[null,null]}'')"
  by (simp add: json_string_len_def json_char_len_def bracketed_def int_str_def
      nat_str.simps Let_def)

end
