(* ===== verification/Room_State.thy ===== *)
theory Room_State
  imports Conflict Json_Size
begin

text \<open>
  \<open>src/server/storage/object/state.ts\<close>: the authoritative state of a room held in memory, with
  the records of its write-ahead log. A \<open>Map\<close> is a \<open>jsmap\<close>; the clock's \<open>now()\<close> is the
  argument \<open>now\<close> of the operations that read it. An operation returns what the method returns
  or throws, and the state it leaves, because a throw can come after a change. The process
  budget, which rooms share, is the field \<open>rs_budget\<close>: what other rooms charge is a change of
  that field between two operations. A table without rows has no inner map, which reads as the
  empty one. A byte limit of \<open>None\<close> is \<open>Infinity\<close>.
\<close>

section \<open>The memory budget\<close>

datatype MemoryPolicy = RejectPolicy | Evict | Spill

record MemoryConfig =
  mc_maxTotalBytes :: "int option"
  mc_maxRoomBytes :: "int option"
  mc_onExceeded :: MemoryPolicy
  mc_idleEvictMs :: int

text \<open>\<open>MemoryLimitExceededError(used, limit)\<close>, and the error for the policies left for later.\<close>

datatype StateError = MemoryLimitExceeded int int | PolicyNotImplemented MemoryPolicy int

record ProcessMemoryBudget =
  pb_limitBytes :: "int option"
  pb_usedBytes :: int

definition new_budget :: ProcessMemoryBudget where
  "new_budget = \<lparr>pb_limitBytes = None, pb_usedBytes = 0\<rparr>"

definition exceeds :: "int \<Rightarrow> int option \<Rightarrow> bool" where
  "exceeds n limit = (case limit of None \<Rightarrow> False | Some l \<Rightarrow> l < n)"

definition constrain :: "int option \<Rightarrow> ProcessMemoryBudget \<Rightarrow> ProcessMemoryBudget" where
  "constrain limit b =
     (case limit of
        None \<Rightarrow> b
      | Some l \<Rightarrow> (case pb_limitBytes b of
          None \<Rightarrow> b\<lparr>pb_limitBytes := Some l\<rparr>
        | Some m \<Rightarrow> if l < m then b\<lparr>pb_limitBytes := Some l\<rparr> else b))"

definition budget_add :: "int \<Rightarrow> ProcessMemoryBudget \<Rightarrow> ProcessMemoryBudget" where
  "budget_add d b = (let u = pb_usedBytes b + d in b\<lparr>pb_usedBytes := if u < 0 then 0 else u\<rparr>)"

definition approxBytes :: "jsval \<Rightarrow> int" where
  "approxBytes v = (case json_len v of None \<Rightarrow> 0 | Some n \<Rightarrow> int n)"

definition reservationBytes :: "string \<Rightarrow> int" where
  "reservationBytes opId = int (length opId) + 24"

section \<open>Records of the log\<close>

text \<open>\<open>OpLogEntry\<close> of \<open>src/server/handler.ts\<close>.\<close>

record OpLogEntry =
  ol_table :: string
  ol_op :: string
  ol_rowId :: string
  ol_payload :: "row option"
  ol_hlc :: string
  ol_colClocks :: clocks

record WalRowMutation =
  wm_table :: string
  wm_rowId :: string
  wm_row :: "row option"
  wm_colClocks :: clocks
  wm_hlc :: string

datatype WalRecord =
    RowRecord WalRowMutation
  | OpRecord OpLogEntry
  | ApplyRecord WalRowMutation OpLogEntry
  | ReserveRecord "string list" int

definition recordHlc :: "WalRecord \<Rightarrow> string" where
  "recordHlc r =
     (case r of ReserveRecord ids at \<Rightarrow> [] | OpRecord e \<Rightarrow> ol_hlc e
      | RowRecord m \<Rightarrow> wm_hlc m | ApplyRecord m e \<Rightarrow> wm_hlc m)"

definition row_value :: "row option \<Rightarrow> jsval" where
  "row_value r = (case r of None \<Rightarrow> Null | Some f \<Rightarrow> Obj 0 f)"

definition clocks_value :: "clocks \<Rightarrow> jsval" where
  "clocks_value c = Obj 0 (map (\<lambda>(k, h). (k, Str h)) c)"

definition op_value :: "OpLogEntry \<Rightarrow> jsval" where
  "op_value e = Obj 0
     [(''table'', Str (ol_table e)), (''op'', Str (ol_op e)), (''rowId'', Str (ol_rowId e)),
      (''payload'', row_value (ol_payload e)), (''hlc'', Str (ol_hlc e)),
      (''colClocks'', clocks_value (ol_colClocks e))]"

section \<open>The state\<close>

record RowEntry =
  re_row :: row
  re_colClocks :: clocks
  re_hlc :: string
  re_bytes :: int

record OpEntry =
  oe_entry :: OpLogEntry
  oe_bytes :: int

definition OP_ID_RETENTION_MS :: int where
  "OP_ID_RETENTION_MS = 24 * 60 * 60 * 1000"

definition OP_ID_SWEEP_INTERVAL_MS :: int where
  "OP_ID_SWEEP_INTERVAL_MS = 60000"

type_synonym state_rows = "(string, (string, RowEntry) jsmap) jsmap"

record RoomState =
  rs_memory :: MemoryConfig
  rs_budget :: ProcessMemoryBudget
  rs_rows :: state_rows
  rs_ops :: "OpEntry list"
  rs_reserved :: "(string, int) jsmap"
  rs_meta :: "(string, string) jsmap"
  rs_roomBytes :: int
  rs_highestHlc :: "string option"
  rs_lastSweepAt :: int

definition new_room_state :: "MemoryConfig \<Rightarrow> ProcessMemoryBudget \<Rightarrow> RoomState" where
  "new_room_state m b =
     \<lparr>rs_memory = m, rs_budget = constrain (mc_maxTotalBytes m) b, rs_rows = [], rs_ops = [],
      rs_reserved = [], rs_meta = [], rs_roomBytes = 0, rs_highestHlc = None, rs_lastSweepAt = 0\<rparr>"

text \<open>What a method returns or throws, and the state after it.\<close>

type_synonym 'a effect = "RoomState \<Rightarrow> (StateError + 'a) \<times> RoomState"

definition and_then :: "'a effect \<Rightarrow> ('a \<Rightarrow> 'b effect) \<Rightarrow> 'b effect" where
  "and_then m f s = (case m s of (Inl e, t) \<Rightarrow> (Inl e, t) | (Inr a, t) \<Rightarrow> f a t)"

definition modify :: "(RoomState \<Rightarrow> RoomState) \<Rightarrow> unit effect" where
  "modify f s = (Inr (), f s)"

fun each :: "('a \<Rightarrow> unit effect) \<Rightarrow> 'a list \<Rightarrow> unit effect" where
  "each f [] s = (Inr (), s)"
| "each f (x # xs) s = and_then (f x) (\<lambda>_. each f xs) s"

section \<open>Reads\<close>

definition entry_of :: "state_rows \<Rightarrow> string \<Rightarrow> string \<Rightarrow> RowEntry option" where
  "entry_of rows t r = map_get (get_map rows t) r"

definition existing :: "RowEntry \<Rightarrow> ExistingRow" where
  "existing e = \<lparr>ex_row = Some (re_row e), ex_rowHlc = Some (re_hlc e), ex_colClocks = re_colClocks e\<rparr>"

definition state_getRow :: "RoomState \<Rightarrow> string \<Rightarrow> string \<Rightarrow> ExistingRow" where
  "state_getRow s t r =
     (case entry_of (rs_rows s) t r of
        None \<Rightarrow> \<lparr>ex_row = None, ex_rowHlc = None, ex_colClocks = []\<rparr>
      | Some e \<Rightarrow> existing e)"

definition state_getRowsByIds :: "RoomState \<Rightarrow> string \<Rightarrow> string list \<Rightarrow> ExistingRow jsobj" where
  "state_getRowsByIds s t ids =
     foldl (\<lambda>out r. case map_get (get_map (rs_rows s) t) r of
        None \<Rightarrow> out | Some e \<Rightarrow> obj_put r (existing e) out) [] ids"

definition matches_filter :: "row \<Rightarrow> row \<Rightarrow> bool" where
  "matches_filter f r \<longleftrightarrow> list_all (\<lambda>k. strict_eq (get_prop r k) (get_prop f k)) (obj_keys f)"

definition state_getRows :: "RoomState \<Rightarrow> string \<Rightarrow> row option \<Rightarrow> row list \<times> clocks jsobj" where
  "state_getRows s t flt =
     (let hits = filter (\<lambda>(r, e). case flt of None \<Rightarrow> True | Some f \<Rightarrow> matches_filter f (re_row e))
                   (get_map (rs_rows s) t)
      in (map (\<lambda>(r, e). re_row e) hits,
          foldl (\<lambda>cc (r, e). obj_put r (re_colClocks e) cc) [] hits))"

text \<open>The loop of both binary searches: the first index of \<open>[lo, hi)\<close> past which \<open>p\<close> holds.\<close>

function bisect :: "(nat \<Rightarrow> bool) \<Rightarrow> nat \<Rightarrow> nat \<Rightarrow> nat" where
  "bisect p lo hi =
     (if lo < hi
      then let mid = (lo + hi) div 2 in if p mid then bisect p lo mid else bisect p (mid + 1) hi
      else lo)"
  by pat_completeness auto
termination by (relation "measure (\<lambda>(p, lo, hi). hi - lo)") auto

declare bisect.simps [simp del]

definition op_hlc :: "OpEntry \<Rightarrow> string" where
  "op_hlc o' = ol_hlc (oe_entry o')"

definition op_table :: "OpEntry \<Rightarrow> string" where
  "op_table o' = ol_table (oe_entry o')"

definition indexAfter :: "OpEntry list \<Rightarrow> string \<Rightarrow> nat" where
  "indexAfter ops hlc = bisect (\<lambda>i. hlc < op_hlc (ops ! i)) 0 (length ops)"

definition indexBefore :: "OpEntry list \<Rightarrow> string \<Rightarrow> nat" where
  "indexBefore ops hlc = bisect (\<lambda>i. hlc \<le> op_hlc (ops ! i)) 0 (length ops)"

definition getOpsSince :: "RoomState \<Rightarrow> string \<Rightarrow> string list \<Rightarrow> OpLogEntry list" where
  "getOpsSince s since tables =
     (if tables = [] then []
      else map oe_entry (filter (\<lambda>o'. op_table o' \<in> set tables)
             (drop (indexAfter (rs_ops s) since) (rs_ops s))))"

text \<open>The scan stops once every wanted table has changed; a \<open>Set\<close> is a list without repetition.\<close>

fun changed_tables :: "string list \<Rightarrow> string list \<Rightarrow> OpEntry list \<Rightarrow> string list" where
  "changed_tables wanted changed [] = changed"
| "changed_tables wanted changed (o' # os) =
     (let t = op_table o';
          changed' = (if t \<in> set wanted then set_add t changed else changed)
      in if length changed' = length wanted then changed' else changed_tables wanted changed' os)"

definition getChangedTablesSince :: "RoomState \<Rightarrow> string \<Rightarrow> string list \<Rightarrow> string list" where
  "getChangedTablesSince s since tables =
     (if tables = [] then []
      else changed_tables (remdups tables) [] (drop (indexAfter (rs_ops s) since) (rs_ops s)))"

definition getOplogHead :: "RoomState \<Rightarrow> string list \<Rightarrow> string option" where
  "getOplogHead s tables =
     (if tables = [] then None
      else map_option op_hlc (find (\<lambda>o'. op_table o' \<in> set tables) (rev (rs_ops s))))"

definition getMeta :: "RoomState \<Rightarrow> string \<Rightarrow> string option" where
  "getMeta s k = map_get (rs_meta s) k"

text \<open>\<open>Object.fromEntries\<close>\<close>

definition from_entries :: "(string \<times> 'v) list \<Rightarrow> 'v jsobj" where
  "from_entries xs = foldl (\<lambda>o' (k, v). obj_put k v o') [] xs"

definition metaSnapshot :: "RoomState \<Rightarrow> string jsobj" where
  "metaSnapshot s = from_entries (rs_meta s)"

section \<open>Accounting\<close>

definition room_refuse :: "RoomState \<Rightarrow> int \<Rightarrow> int \<Rightarrow> StateError" where
  "room_refuse s used limit =
     (if mc_onExceeded (rs_memory s) \<noteq> RejectPolicy
      then PolicyNotImplemented (mc_onExceeded (rs_memory s)) limit
      else MemoryLimitExceeded used limit)"

definition checkBytes :: "int \<Rightarrow> unit effect" where
  "checkBytes d s =
     (let roomTotal = rs_roomBytes s + d; processTotal = pb_usedBytes (rs_budget s) + d
      in if exceeds roomTotal (mc_maxRoomBytes (rs_memory s))
         then (Inl (room_refuse s roomTotal (the (mc_maxRoomBytes (rs_memory s)))), s)
         else if exceeds processTotal (pb_limitBytes (rs_budget s))
         then (Inl (room_refuse s processTotal (the (pb_limitBytes (rs_budget s)))), s)
         else (Inr (), s))"

definition charge :: "int \<Rightarrow> RoomState \<Rightarrow> RoomState" where
  "charge d s =
     (let n = rs_roomBytes s + d
      in s\<lparr>rs_roomBytes := if n < 0 then 0 else n, rs_budget := budget_add d (rs_budget s)\<rparr>)"

definition addBytes :: "int \<Rightarrow> unit effect" where
  "addBytes d = and_then (if 0 < d then checkBytes d else modify id) (\<lambda>_. modify (charge d))"

definition noteHlc :: "string \<Rightarrow> RoomState \<Rightarrow> RoomState" where
  "noteHlc hlc s =
     (if falsy_str (rs_highestHlc s) \<or> the (rs_highestHlc s) < hlc
      then s\<lparr>rs_highestHlc := Some hlc\<rparr> else s)"

section \<open>Writes\<close>

definition row_bytes :: "string \<Rightarrow> string \<Rightarrow> row \<Rightarrow> clocks \<Rightarrow> string \<Rightarrow> int" where
  "row_bytes t r row cc hlc =
     int (length t) + int (length r) + int (length hlc) + approxBytes (Obj 0 row)
     + approxBytes (clocks_value cc)"

definition bytes_or_0 :: "RowEntry option \<Rightarrow> int" where
  "bytes_or_0 e = (case e of None \<Rightarrow> 0 | Some e \<Rightarrow> re_bytes e)"

definition delete_entry :: "string \<Rightarrow> string \<Rightarrow> state_rows \<Rightarrow> state_rows" where
  "delete_entry t r rows =
     put_or_del t (map_del r (get_map rows t)) rows"

definition set_entry :: "string \<Rightarrow> string \<Rightarrow> RowEntry \<Rightarrow> state_rows \<Rightarrow> state_rows" where
  "set_entry t r e rows =
     map_set t (map_set r e (get_map rows t)) rows"

definition state_putRow :: "string \<Rightarrow> string \<Rightarrow> row option \<Rightarrow> clocks \<Rightarrow> string \<Rightarrow> unit effect" where
  "state_putRow t r row cc hlc s =
     (let previous = entry_of (rs_rows s) t r
      in case row of
        None \<Rightarrow>
          (case previous of
             None \<Rightarrow> modify (noteHlc hlc) s
           | Some e \<Rightarrow>
               and_then (addBytes (- re_bytes e)) (\<lambda>_. modify (\<lambda>s.
                 noteHlc hlc (s\<lparr>rs_rows := delete_entry t r (rs_rows s)\<rparr>))) s)
      | Some f \<Rightarrow>
          (let bytes = row_bytes t r f cc hlc;
               e = \<lparr>re_row = f, re_colClocks = cc, re_hlc = hlc, re_bytes = bytes\<rparr>
           in and_then (addBytes (bytes - bytes_or_0 previous)) (\<lambda>_. modify (\<lambda>s.
                noteHlc hlc (s\<lparr>rs_rows := set_entry t r e (rs_rows s)\<rparr>))) s))"

definition apply_delta :: "WalRowMutation \<Rightarrow> OpLogEntry option \<Rightarrow> RoomState \<Rightarrow> int" where
  "apply_delta m op s =
     (case wm_row m of None \<Rightarrow> 0
      | Some f \<Rightarrow> row_bytes (wm_table m) (wm_rowId m) f (wm_colClocks m) (wm_hlc m))
     - bytes_or_0 (entry_of (rs_rows s) (wm_table m) (wm_rowId m))
     + (case op of None \<Rightarrow> 0 | Some e \<Rightarrow> approxBytes (op_value e))"

definition assertCanAdmitApply :: "WalRowMutation \<Rightarrow> OpLogEntry option \<Rightarrow> unit effect" where
  "assertCanAdmitApply m op s =
     (let delta = apply_delta m op s in if 0 < delta then checkBytes delta s else (Inr (), s))"

definition insert_op :: "OpEntry \<Rightarrow> OpEntry list \<Rightarrow> OpEntry list" where
  "insert_op item ops =
     (if ops = [] \<or> op_hlc (last ops) \<le> op_hlc item then ops @ [item]
      else let i = indexAfter ops (op_hlc item) in take i ops @ item # drop i ops)"

definition appendOp :: "OpLogEntry \<Rightarrow> unit effect" where
  "appendOp e =
     (let bytes = approxBytes (op_value e)
      in and_then (addBytes bytes) (\<lambda>_. modify (\<lambda>s.
           noteHlc (ol_hlc e)
             (s\<lparr>rs_ops := insert_op \<lparr>oe_entry = e, oe_bytes = bytes\<rparr> (rs_ops s)\<rparr>))))"

definition deleteOpsBefore :: "string \<Rightarrow> nat effect" where
  "deleteOpsBefore hlc s =
     (let cut = indexBefore (rs_ops s) hlc; removed = take cut (rs_ops s)
      in if cut = 0 then (Inr 0, s)
         else and_then (addBytes (- sum_list (map oe_bytes removed)))
                (\<lambda>_ s. (Inr (length removed), s)) (s\<lparr>rs_ops := drop cut (rs_ops s)\<rparr>))"

definition sweepReservedOps :: "int \<Rightarrow> unit effect" where
  "sweepReservedOps now s =
     (if now - rs_lastSweepAt s < OP_ID_SWEEP_INTERVAL_MS then (Inr (), s)
      else let cutoff = now - OP_ID_RETENTION_MS;
               dead = filter (\<lambda>(opId, at). at < cutoff) (rs_reserved s);
               freed = sum_list (map (\<lambda>(opId, at). reservationBytes opId) dead);
               s' = s\<lparr>rs_lastSweepAt := now,
                      rs_reserved := filter (\<lambda>(opId, at). \<not> at < cutoff) (rs_reserved s)\<rparr>
           in if 0 < freed then addBytes (- freed) s' else (Inr (), s'))"

text \<open>\<open>this.reserved.set(opId, at)\<close> comes before the charge, which may throw.\<close>

definition admit_reservation :: "string \<Rightarrow> int \<Rightarrow> unit effect" where
  "admit_reservation opId at =
     and_then (modify (\<lambda>s. s\<lparr>rs_reserved := map_set opId at (rs_reserved s)\<rparr>))
       (\<lambda>_. addBytes (reservationBytes opId))"

definition reserveOp :: "int \<Rightarrow> string \<Rightarrow> bool effect" where
  "reserveOp now opId =
     and_then (sweepReservedOps now) (\<lambda>_ s.
       if map_has (rs_reserved s) opId then (Inr False, s)
       else and_then (admit_reservation opId now) (\<lambda>_ s. (Inr True, s)) s)"

fun reserve_loop :: "int \<Rightarrow> string list \<Rightarrow> string list effect" where
  "reserve_loop now [] s = (Inr [], s)"
| "reserve_loop now (opId # ids) s =
     (if map_has (rs_reserved s) opId then reserve_loop now ids s
      else and_then (admit_reservation opId now) (\<lambda>_.
             and_then (reserve_loop now ids) (\<lambda>fresh s. (Inr (opId # fresh), s))) s)"

definition reserveOps :: "int \<Rightarrow> string list \<Rightarrow> string list effect" where
  "reserveOps now ids s =
     (if ids = [] then (Inr [], s)
      else and_then (sweepReservedOps now) (\<lambda>_. reserve_loop now ids) s)"

definition setMeta :: "string \<Rightarrow> string \<Rightarrow> RoomState \<Rightarrow> RoomState" where
  "setMeta k v s = s\<lparr>rs_meta := map_set k v (rs_meta s)\<rparr>"

definition loadMeta :: "string jsobj \<Rightarrow> RoomState \<Rightarrow> RoomState" where
  "loadMeta meta s = s\<lparr>rs_meta := foldl (\<lambda>m (k, v). map_set k v m) [] meta\<rparr>"

section \<open>Boot and compaction\<close>

definition restore_one :: "int \<Rightarrow> string \<Rightarrow> unit effect" where
  "restore_one at opId s =
     (case map_get (rs_reserved s) opId of
        None \<Rightarrow> admit_reservation opId at s
      | Some earlier \<Rightarrow>
          if at < earlier then (Inr (), s\<lparr>rs_reserved := map_set opId at (rs_reserved s)\<rparr>)
          else (Inr (), s))"

definition restoreReservations :: "int \<Rightarrow> string list \<Rightarrow> int \<Rightarrow> unit effect" where
  "restoreReservations now ids at s =
     (if at < now - OP_ID_RETENTION_MS then (Inr (), s) else each (restore_one at) ids s)"

definition put_mutation :: "WalRowMutation \<Rightarrow> unit effect" where
  "put_mutation m = state_putRow (wm_table m) (wm_rowId m) (wm_row m) (wm_colClocks m) (wm_hlc m)"

definition applyRecord :: "int \<Rightarrow> WalRecord \<Rightarrow> unit effect" where
  "applyRecord now rec =
     (case rec of
        ReserveRecord ids at \<Rightarrow> restoreReservations now ids at
      | RowRecord m \<Rightarrow> put_mutation m
      | ApplyRecord m e \<Rightarrow> and_then (put_mutation m) (\<lambda>_. appendOp e)
      | OpRecord e \<Rightarrow> appendOp e)"

definition applyRecords :: "int \<Rightarrow> WalRecord list \<Rightarrow> unit effect" where
  "applyRecords now = each (applyRecord now)"

record SnapshotRow =
  sr_table :: string
  sr_rowId :: string
  sr_row :: row
  sr_colClocks :: clocks
  sr_hlc :: string

record SnapshotRecord =
  sn_hlc :: "string option"
  sn_rows :: "SnapshotRow list"
  sn_reservedOps :: "(string \<times> int) list"

definition snapshot_row :: "string \<Rightarrow> string \<times> RowEntry \<Rightarrow> SnapshotRow" where
  "snapshot_row t p = \<lparr>sr_table = t, sr_rowId = fst p, sr_row = re_row (snd p),
     sr_colClocks = re_colClocks (snd p), sr_hlc = re_hlc (snd p)\<rparr>"

definition toSnapshot :: "int \<Rightarrow> RoomState \<Rightarrow> SnapshotRecord" where
  "toSnapshot now s =
     \<lparr>sn_hlc = rs_highestHlc s,
      sn_rows = concat (map (\<lambda>(t, m). map (snapshot_row t) m) (rs_rows s)),
      sn_reservedOps = filter (\<lambda>(opId, at). now - OP_ID_RETENTION_MS \<le> at) (rs_reserved s)\<rparr>"

definition reset :: "unit effect" where
  "reset s = and_then (addBytes (- rs_roomBytes s))
     (\<lambda>_. modify (\<lambda>s. s\<lparr>rs_rows := [], rs_ops := [], rs_reserved := [], rs_highestHlc := None\<rparr>)) s"

definition load_row :: "SnapshotRow \<Rightarrow> unit effect" where
  "load_row r = state_putRow (sr_table r) (sr_rowId r) (Some (sr_row r)) (sr_colClocks r) (sr_hlc r)"

definition load_reservation :: "int \<Rightarrow> string \<times> int \<Rightarrow> unit effect" where
  "load_reservation now p s =
     (if snd p < now - OP_ID_RETENTION_MS then (Inr (), s) else admit_reservation (fst p) (snd p) s)"

definition load_hlc :: "string option \<Rightarrow> RoomState \<Rightarrow> RoomState" where
  "load_hlc h s =
     (if \<not> falsy_str h \<and> (falsy_str (rs_highestHlc s) \<or> the (rs_highestHlc s) < the h)
      then s\<lparr>rs_highestHlc := h\<rparr> else s)"

definition loadSnapshot :: "int \<Rightarrow> SnapshotRecord \<Rightarrow> unit effect" where
  "loadSnapshot now sn =
     and_then reset (\<lambda>_.
       and_then (each load_row (sn_rows sn)) (\<lambda>_.
         and_then (each (load_reservation now) (sn_reservedOps sn)) (\<lambda>_.
           modify (load_hlc (sn_hlc sn)))))"

definition dispose :: "unit effect" where
  "dispose = reset"

end
