(* ===== verification/Room_State_Inv.thy ===== *)
theory Room_State_Inv
  imports Room_State
begin

text \<open>
  The invariant of a room's state: the op log is sorted (so the binary searches of \<open>Room_State\<close>
  find what they look for), maps have distinct keys, and the bytes charged are the bytes held. Every
  method that returns keeps it; \<open>reachable\<close> are the states a room gets to, with other rooms of the
  process charging the shared budget in between.
\<close>

section \<open>Binary search\<close>

lemma bisect_step:
  "lo < hi \<Longrightarrow> bisect p lo hi =
     (if p ((lo + hi) div 2) then bisect p lo ((lo + hi) div 2) else bisect p ((lo + hi) div 2 + 1) hi)"
  by (subst bisect.simps) (simp add: Let_def)

lemma bisect_done: "\<not> lo < hi \<Longrightarrow> bisect p lo hi = lo"
  by (subst bisect.simps) simp

lemma bisect_finds:
  assumes "lo \<le> b" "b \<le> hi" "\<And>i. lo \<le> i \<Longrightarrow> i < hi \<Longrightarrow> p i \<longleftrightarrow> b \<le> i"
  shows "bisect p lo hi = b"
  using assms
proof (induction p lo hi rule: bisect.induct)
  case (1 p lo hi)
  show ?case
  proof (cases "lo < hi")
    case True
    let ?m = "(lo + hi) div 2"
    have m: "lo \<le> ?m" "?m < hi" using True by auto
    show ?thesis
    proof (cases "p ?m")
      case t: True
      then have "b \<le> ?m" using "1.prems"(3) [of ?m] m by blast
      then show ?thesis using "1.IH"(1) [OF True refl t] "1.prems" m
        by (simp add: bisect_step [OF True] t)
    next
      case f: False
      then have "?m + 1 \<le> b" using "1.prems"(3) [of ?m] m by simp
      then show ?thesis using "1.IH"(2) [OF True refl f] "1.prems" m
        by (simp add: bisect_step [OF True] f)
    qed
  next
    case False
    then show ?thesis using "1.prems" by (simp add: bisect_done)
  qed
qed

definition hlcs :: "OpEntry list \<Rightarrow> string list" where
  "hlcs ops = map op_hlc ops"

text \<open>On a sorted list the search splits where the predicate turns.\<close>

lemma bisect_takeWhile:
  assumes "sorted (hlcs ops)" "\<And>h k. h \<le> k \<Longrightarrow> P h \<Longrightarrow> P k"
  shows "bisect (\<lambda>i. P (op_hlc (ops ! i))) 0 (length ops) = length (takeWhile (\<lambda>o'. \<not> P (op_hlc o')) ops)"
proof (rule bisect_finds)
  let ?n = "length (takeWhile (\<lambda>o'. \<not> P (op_hlc o')) ops)"
  fix i assume i: "i < length ops"
  show "P (op_hlc (ops ! i)) \<longleftrightarrow> ?n \<le> i"
  proof
    assume "P (op_hlc (ops ! i))"
    then show "?n \<le> i"
      using takeWhile_nth [of i "\<lambda>o'. \<not> P (op_hlc o')" ops] nth_length_takeWhile
      by (metis i linorder_not_le set_takeWhileD nth_mem)
  next
    assume n: "?n \<le> i"
    then have "P (op_hlc (ops ! ?n))"
      using nth_length_takeWhile [of "\<lambda>o'. \<not> P (op_hlc o')" ops] i by simp
    moreover have "op_hlc (ops ! ?n) \<le> op_hlc (ops ! i)"
      using sorted_nth_mono [OF assms(1) n] n i by (simp add: hlcs_def)
    ultimately show "P (op_hlc (ops ! i))" using assms(2) by blast
  qed
qed (simp_all add: length_takeWhile_le)

lemma filter_sorted_suffix:
  assumes "sorted (hlcs ops)" "\<And>h k. h \<le> k \<Longrightarrow> P h \<Longrightarrow> P k"
  shows "filter (\<lambda>o'. P (op_hlc o')) ops = dropWhile (\<lambda>o'. \<not> P (op_hlc o')) ops"
  using assms(1)
proof (induction ops)
  case (Cons a ops)
  show ?case
  proof (cases "P (op_hlc a)")
    case True
    have "\<forall>o' \<in> set ops. P (op_hlc o')"
      using Cons.prems True assms(2) by (auto simp: hlcs_def)
    with True show ?thesis by simp
  next
    case False
    with Cons show ?thesis by (simp add: hlcs_def)
  qed
qed simp

lemma drop_indexAfter:
  "sorted (hlcs ops) \<Longrightarrow> drop (indexAfter ops h) ops = filter (\<lambda>o'. h < op_hlc o') ops"
  unfolding indexAfter_def
  by (subst bisect_takeWhile) (auto simp: filter_sorted_suffix [where P = "\<lambda>k. h < k"] dropWhile_eq_drop)

lemma drop_indexBefore:
  "sorted (hlcs ops) \<Longrightarrow> drop (indexBefore ops h) ops = filter (\<lambda>o'. h \<le> op_hlc o') ops"
  unfolding indexBefore_def
  by (subst bisect_takeWhile) (auto simp: filter_sorted_suffix [where P = "\<lambda>k. h \<le> k"] dropWhile_eq_drop)

lemma take_indexAfter:
  "sorted (hlcs ops) \<Longrightarrow> take (indexAfter ops h) ops = takeWhile (\<lambda>o'. \<not> h < op_hlc o') ops"
  unfolding indexAfter_def
  by (subst bisect_takeWhile) (auto simp: takeWhile_eq_take [symmetric])

lemma insert_op_sorted: "sorted (hlcs ops) \<Longrightarrow> sorted (hlcs (insert_op item ops))"
proof (cases "ops = [] \<or> op_hlc (last ops) \<le> op_hlc item")
  case True
  assume s: "sorted (hlcs ops)"
  have "op_hlc o' \<le> op_hlc item" if "o' \<in> set ops" for o'
    using that s True by (cases ops rule: rev_cases) (auto simp: hlcs_def sorted_append intro: order_trans)
  with s True show ?thesis by (auto simp: insert_op_def hlcs_def sorted_append)
next
  case False
  assume s: "sorted (hlcs ops)"
  let ?i = "indexAfter ops (op_hlc item)"
  have a: "\<forall>o' \<in> set (take ?i ops). op_hlc o' \<le> op_hlc item"
    using set_takeWhileD by (fastforce simp: take_indexAfter [OF s])
  have b: "\<forall>o' \<in> set (drop ?i ops). op_hlc item \<le> op_hlc o'"
    by (auto simp: drop_indexAfter [OF s] intro: less_imp_le)
  have "sorted (hlcs (take ?i ops))" "sorted (hlcs (drop ?i ops))"
    using s by (simp_all add: hlcs_def sorted_wrt_take sorted_wrt_drop flip: take_map drop_map)
  then show ?thesis using a b False
    by (fastforce simp: insert_op_def Let_def hlcs_def sorted_append intro: order_trans)
qed

lemma set_insert_op: "set (insert_op item ops) = insert item (set ops)"
proof -
  have "set ops = set (take i ops) \<union> set (drop i ops)" for i
    by (metis append_take_drop_id set_append)
  then show ?thesis by (auto simp: insert_op_def Let_def)
qed

lemma sum_insert_op: "sum_list (map oe_bytes (insert_op item ops)) = oe_bytes item + sum_list (map oe_bytes ops)"
proof -
  have "sum_list (map oe_bytes ops) = sum_list (map oe_bytes (take i ops)) + sum_list (map oe_bytes (drop i ops))" for i
    by (metis append_take_drop_id map_append sum_list_append)
  then show ?thesis by (simp add: insert_op_def Let_def)
qed

section \<open>Effects\<close>

named_theorems effect_simps "when an effect returns, and what it leaves"

lemma and_then_Inr [effect_simps]:
  "and_then m f s = (Inr b, t) \<longleftrightarrow> (\<exists>a u. m s = (Inr a, u) \<and> f a u = (Inr b, t))"
  by (auto simp: and_then_def split: prod.splits sum.splits)

lemma and_then_Inl [effect_simps]:
  "and_then m f s = (Inl e, t) \<longleftrightarrow>
     m s = (Inl e, t) \<or> (\<exists>a u. m s = (Inr a, u) \<and> f a u = (Inl e, t))"
  by (auto simp: and_then_def split: prod.splits sum.splits)

lemma modify_returns [effect_simps]: "modify f s = (r, t) \<longleftrightarrow> r = Inr () \<and> t = f s"
  by (auto simp: modify_def)

definition fits :: "int \<Rightarrow> RoomState \<Rightarrow> bool" where
  "fits d s \<longleftrightarrow> \<not> exceeds (rs_roomBytes s + d) (mc_maxRoomBytes (rs_memory s))
     \<and> \<not> exceeds (pb_usedBytes (rs_budget s) + d) (pb_limitBytes (rs_budget s))"

lemma checkBytes_Inr [effect_simps]: "checkBytes d s = (Inr u, t) \<longleftrightarrow> t = s \<and> fits d s"
  by (auto simp: checkBytes_def fits_def Let_def)

lemma checkBytes_Inl [effect_simps]: "checkBytes d s = (Inl e, t) \<Longrightarrow> t = s \<and> \<not> fits d s"
  by (auto simp: checkBytes_def fits_def Let_def split: if_splits)

lemma addBytes_Inr [effect_simps]:
  "addBytes d s = (Inr u, t) \<longleftrightarrow> t = charge d s \<and> (0 < d \<longrightarrow> fits d s)"
  by (auto simp: addBytes_def effect_simps)

lemma addBytes_Inl: "addBytes d s = (Inl e, t) \<Longrightarrow> t = s \<and> 0 < d \<and> \<not> fits d s"
  by (auto simp: addBytes_def effect_simps dest: checkBytes_Inl split: if_splits)

lemma addBytes_refund: "d \<le> 0 \<Longrightarrow> addBytes d s = (Inr (), charge d s)"
  by (simp add: effect_simps)

lemma each_keeps:
  assumes "\<And>x s t. x \<in> set xs \<Longrightarrow> P s \<Longrightarrow> f x s = (Inr (), t) \<Longrightarrow> P t"
    and "each f xs s = (Inr (), t)" "P s"
  shows "P t"
  using assms
proof (induction xs arbitrary: s)
  case (Cons x xs)
  then obtain u where u: "f x s = (Inr (), u)" "each f xs u = (Inr (), t)" by (auto simp: effect_simps)
  have "P u" using Cons.prems(1) [of x s u] Cons.prems(3) u(1) by simp
  show ?case
    by (rule Cons.IH [OF _ u(2) \<open>P u\<close>]) (rule Cons.prems(1), simp_all)
qed simp

lemma returns_pair: "fst p = Inr x \<Longrightarrow> p = (Inr x, snd p)"
  by (cases p) simp

section \<open>Rows\<close>

lemma entry_of_set [keyed_simps]:
  "entry_of (set_entry t r e rows) t' r' = (if t' = t \<and> r' = r then Some e else entry_of rows t' r')"
  by (auto simp: entry_of_def set_entry_def get_map_set jsmap.get_put)

lemma entry_of_delete [keyed_simps]:
  "entry_of (delete_entry t r rows) t' r' = (if t' = t \<and> r' = r then None else entry_of rows t' r')"
  by (auto simp: entry_of_def delete_entry_def get_map_put_or_del jsmap.get_del)

lemma maps_wf_entry [wf_intros]:
  "maps_wf rows \<Longrightarrow> maps_wf (set_entry t r e rows)"
  "maps_wf rows \<Longrightarrow> maps_wf (delete_entry t r rows)"
  by (simp_all add: set_entry_def delete_entry_def maps_wf_set maps_wf_put_or_del maps_wf_inner
      distinct_update distinct_delete)

definition rows_bytes :: "state_rows \<Rightarrow> int" where
  "rows_bytes = total_of (total_of re_bytes)"

lemma amount_entry: "amount_at re_bytes (get_map rows t) r = bytes_or_0 (entry_of rows t r)"
  by (simp add: amount_at_def entry_of_def bytes_or_0_def split: option.split)

lemma rows_bytes_set:
  "rows_bytes (set_entry t r e rows) = rows_bytes rows + re_bytes e - bytes_or_0 (entry_of rows t r)"
  by (simp add: rows_bytes_def set_entry_def total_of_set amount_get_map amount_entry)

lemma rows_bytes_delete:
  "maps_wf rows \<Longrightarrow>
     rows_bytes (delete_entry t r rows) = rows_bytes rows - bytes_or_0 (entry_of rows t r)"
  by (simp add: rows_bytes_def delete_entry_def total_of_put_or_del total_of_del maps_wf_inner
      maps_wf_def amount_entry)

section \<open>The invariant\<close>

definition reserved_bytes :: "(string, int) jsmap \<Rightarrow> int" where
  "reserved_bytes m = sum_list (map (\<lambda>p. reservationBytes (fst p)) m)"

definition charged :: "RoomState \<Rightarrow> int" where
  "charged s = rows_bytes (rs_rows s) + sum_list (map oe_bytes (rs_ops s)) + reserved_bytes (rs_reserved s)"

definition sized :: "RoomState \<Rightarrow> bool" where
  "sized s \<longleftrightarrow> (\<forall>t r e. entry_of (rs_rows s) t r = Some e \<longrightarrow> 0 \<le> re_bytes e)
     \<and> (\<forall>o' \<in> set (rs_ops s). 0 \<le> oe_bytes o')"

lemma sizedD: "sized s \<Longrightarrow> entry_of (rs_rows s) t r = Some e \<Longrightarrow> 0 \<le> re_bytes e"
  by (auto simp: sized_def)

definition state_inv :: "RoomState \<Rightarrow> bool" where
  "state_inv s \<longleftrightarrow> sorted (hlcs (rs_ops s)) \<and> maps_wf (rs_rows s) \<and> map_wf (rs_reserved s) \<and> sized s
     \<and> rs_roomBytes s = charged s \<and> rs_roomBytes s \<le> pb_usedBytes (rs_budget s)
     \<and> \<not> exceeds (rs_roomBytes s) (mc_maxRoomBytes (rs_memory s))"

lemma reserved_bytes_nonneg: "0 \<le> reserved_bytes m"
  unfolding reserved_bytes_def by (rule sum_list_nonneg) (auto simp: reservationBytes_def)

lemma total_nonneg: "(\<And>k v. map_get m k = Some v \<Longrightarrow> 0 \<le> f v) \<Longrightarrow> map_wf m \<Longrightarrow> 0 \<le> total_of f m"
  unfolding total_of_def by (rule sum_list_nonneg) auto

lemma rows_bytes_nonneg:
  assumes "maps_wf rows" "\<And>t r e. entry_of rows t r = Some e \<Longrightarrow> 0 \<le> re_bytes e"
  shows "0 \<le> rows_bytes rows"
  unfolding rows_bytes_def
proof (rule total_nonneg)
  fix t m assume m: "map_get rows t = Some m"
  then have "map_wf m" using maps_wf_inner [OF assms(1), of t] by (simp add: get_map_def)
  moreover have "0 \<le> re_bytes e" if "map_get m r = Some e" for r e
    using assms(2) [of t r e] m that by (simp add: entry_of_def get_map_def del: map_of_eq_Some_iff)
  ultimately show "0 \<le> total_of re_bytes m" by (intro total_nonneg) auto
qed (use assms in \<open>simp add: maps_wf_def\<close>)

lemma charged_nonneg:
  assumes "maps_wf (rs_rows s)" "sized s"
  shows "0 \<le> charged s"
proof -
  have "0 \<le> rows_bytes (rs_rows s)" using assms by (intro rows_bytes_nonneg) (auto simp: sized_def)
  moreover have "0 \<le> sum_list (map oe_bytes (rs_ops s))"
    using assms by (intro sum_list_nonneg) (auto simp: sized_def)
  ultimately show ?thesis using reserved_bytes_nonneg [of "rs_reserved s"] by (simp add: charged_def)
qed

lemma exceeds_mono: "m \<le> n \<Longrightarrow> exceeds m l \<Longrightarrow> exceeds n l"
  by (auto simp: exceeds_def split: option.splits)

lemma charge_simps [simp]:
  "rs_rows (charge d s) = rs_rows s" "rs_ops (charge d s) = rs_ops s"
  "rs_reserved (charge d s) = rs_reserved s" "rs_memory (charge d s) = rs_memory s"
  "rs_highestHlc (charge d s) = rs_highestHlc s" "rs_meta (charge d s) = rs_meta s"
  "rs_lastSweepAt (charge d s) = rs_lastSweepAt s"
  "rs_roomBytes (charge d s) = max 0 (rs_roomBytes s + d)"
  "pb_usedBytes (rs_budget (charge d s)) = max 0 (pb_usedBytes (rs_budget s) + d)"
  "pb_limitBytes (rs_budget (charge d s)) = pb_limitBytes (rs_budget s)"
  by (auto simp: charge_def budget_add_def Let_def)

lemma noteHlc_simps [simp]:
  "rs_rows (noteHlc h s) = rs_rows s" "rs_ops (noteHlc h s) = rs_ops s"
  "rs_reserved (noteHlc h s) = rs_reserved s" "rs_memory (noteHlc h s) = rs_memory s"
  "rs_budget (noteHlc h s) = rs_budget s" "rs_roomBytes (noteHlc h s) = rs_roomBytes s"
  "rs_meta (noteHlc h s) = rs_meta s" "rs_lastSweepAt (noteHlc h s) = rs_lastSweepAt s"
  by (auto simp: noteHlc_def)

text \<open>A change that was charged by exactly what it adds keeps the invariant.\<close>

lemma state_inv_charge:
  assumes inv: "state_inv s" and fit: "0 < d \<longrightarrow> fits d s"
    and t: "sorted (hlcs (rs_ops t))" "maps_wf (rs_rows t)" "map_wf (rs_reserved t)" "sized t"
    and d: "charged t = charged s + d"
    and bytes: "rs_roomBytes t = max 0 (rs_roomBytes s + d)" "rs_memory t = rs_memory s"
      "pb_usedBytes (rs_budget t) = max 0 (pb_usedBytes (rs_budget s) + d)"
  shows "state_inv t"
proof -
  have n: "0 \<le> charged s + d" using charged_nonneg [OF t(2,4)] d by simp
  have "\<not> exceeds (rs_roomBytes s + d) (mc_maxRoomBytes (rs_memory s))"
  proof (cases "0 < d")
    case True with fit show ?thesis by (simp add: fits_def)
  next
    case False with inv show ?thesis
      using exceeds_mono [of "rs_roomBytes s + d" "rs_roomBytes s"] by (auto simp: state_inv_def)
  qed
  with inv t d n show ?thesis by (auto simp: state_inv_def bytes)
qed

lemma row_bytes_nonneg: "0 \<le> row_bytes t r f cc h"
  by (simp add: row_bytes_def approxBytes_def split: option.split)

lemma approxBytes_nonneg: "0 \<le> approxBytes v"
  by (simp add: approxBytes_def split: option.split)

lemma state_inv_noteHlc [simp]: "state_inv (noteHlc h s) = state_inv s"
  by (simp add: state_inv_def charged_def sized_def)

lemma state_putRow_inv: "state_putRow t r row cc h s = (Inr (), s') \<Longrightarrow> state_inv s \<Longrightarrow> state_inv s'"
proof (cases row)
  case None
  assume p: "state_putRow t r row cc h s = (Inr (), s')" and inv: "state_inv s"
  show ?thesis
  proof (cases "entry_of (rs_rows s) t r")
    case (Some e)
    with p None have "s' = noteHlc h ((charge (- re_bytes e) s)\<lparr>rs_rows := delete_entry t r (rs_rows s)\<rparr>)"
      by (simp add: state_putRow_def effect_simps)
    moreover have fit: "0 < - re_bytes e \<longrightarrow> fits (- re_bytes e) s"
      using inv sizedD [OF _ Some] by (fastforce simp: state_inv_def)
    have "state_inv ((charge (- re_bytes e) s)\<lparr>rs_rows := delete_entry t r (rs_rows s)\<rparr>)"
      using inv Some
      by (intro state_inv_charge [OF inv fit])
        (auto simp: state_inv_def charged_def sized_def keyed_simps maps_wf_entry rows_bytes_delete
          bytes_or_0_def)
    ultimately show ?thesis by simp
  qed (use p inv None in \<open>simp add: state_putRow_def effect_simps\<close>)
next
  case (Some f)
  assume p: "state_putRow t r row cc h s = (Inr (), s')" and inv: "state_inv s"
  let ?e = "\<lparr>re_row = f, re_colClocks = cc, re_hlc = h, re_bytes = row_bytes t r f cc h\<rparr>"
  let ?d = "row_bytes t r f cc h - bytes_or_0 (entry_of (rs_rows s) t r)"
  have fit: "0 < ?d \<longrightarrow> fits ?d s"
    and s': "s' = noteHlc h ((charge ?d s)\<lparr>rs_rows := set_entry t r ?e (rs_rows s)\<rparr>)"
    using p Some by (auto simp: state_putRow_def Let_def effect_simps)
  have "state_inv ((charge ?d s)\<lparr>rs_rows := set_entry t r ?e (rs_rows s)\<rparr>)"
    using inv
    by (intro state_inv_charge [OF inv fit])
      (auto simp: state_inv_def charged_def sized_def keyed_simps maps_wf_entry rows_bytes_set
        row_bytes_nonneg)
  with s' show ?thesis by simp
qed

lemma appendOp_inv: "appendOp e s = (Inr (), s') \<Longrightarrow> state_inv s \<Longrightarrow> state_inv s'"
proof -
  assume p: "appendOp e s = (Inr (), s')" and inv: "state_inv s"
  let ?d = "approxBytes (op_value e)"
  let ?t = "(charge ?d s)\<lparr>rs_ops := insert_op \<lparr>oe_entry = e, oe_bytes = ?d\<rparr> (rs_ops s)\<rparr>"
  have fit: "0 < ?d \<longrightarrow> fits ?d s" and s': "s' = noteHlc (ol_hlc e) ?t"
    using p by (auto simp: appendOp_def Let_def effect_simps)
  have "state_inv ?t"
    using inv by (intro state_inv_charge [OF inv fit])
      (auto simp: state_inv_def charged_def sized_def insert_op_sorted sum_insert_op set_insert_op
        approxBytes_nonneg)
  with s' show ?thesis by simp
qed

lemma deleteOpsBefore_inv: "deleteOpsBefore h s = (Inr n, s') \<Longrightarrow> state_inv s \<Longrightarrow> state_inv s'"
proof (cases "indexBefore (rs_ops s) h = 0")
  case False
  assume p: "deleteOpsBefore h s = (Inr n, s')" and inv: "state_inv s"
  let ?c = "indexBefore (rs_ops s) h"
  let ?d = "- sum_list (map oe_bytes (take ?c (rs_ops s)))"
  have split: "sum_list (map oe_bytes (rs_ops s)) =
      sum_list (map oe_bytes (take ?c (rs_ops s))) + sum_list (map oe_bytes (drop ?c (rs_ops s)))"
    by (metis append_take_drop_id map_append sum_list_append)
  have neg: "0 \<le> - ?d"
    using inv by (simp add: state_inv_def sized_def) (rule sum_list_nonneg, auto dest: in_set_takeD)
  then have s': "s' = charge ?d (s\<lparr>rs_ops := drop ?c (rs_ops s)\<rparr>)"
    using p False by (simp add: deleteOpsBefore_def Let_def effect_simps)
  show ?thesis unfolding s'
    using inv neg split
    by (intro state_inv_charge [OF inv, where d = ?d])
      (auto simp: state_inv_def charged_def sized_def hlcs_def sorted_wrt_drop drop_map [symmetric]
        dest: in_set_dropD)
qed (simp add: deleteOpsBefore_def)

lemma reserved_bytes_set_new:
  "map_get m k = None \<Longrightarrow> reserved_bytes (map_set k v m) = reserved_bytes m + reservationBytes k"
  by (induction m) (auto simp: reserved_bytes_def split: if_splits)

lemma reserved_bytes_set_old:
  "map_has m k \<Longrightarrow> reserved_bytes (map_set k v m) = reserved_bytes m"
  by (induction m) (auto simp: reserved_bytes_def split: if_splits)

lemma reserved_bytes_filter:
  "reserved_bytes (filter P m) + reserved_bytes (filter (\<lambda>p. \<not> P p) m) = reserved_bytes m"
  by (induction m) (auto simp: reserved_bytes_def)

lemma reservationBytes_pos: "0 < reservationBytes k"
  by (simp add: reservationBytes_def)

lemma admit_reservation_Inr [effect_simps]:
  "admit_reservation k at s = (Inr u, t) \<longleftrightarrow>
     fits (reservationBytes k) s
     \<and> t = charge (reservationBytes k) (s\<lparr>rs_reserved := map_set k at (rs_reserved s)\<rparr>)"
  by (auto simp: admit_reservation_def effect_simps reservationBytes_pos fits_def)

lemma admit_reservation_inv:
  "admit_reservation k at s = (Inr u, t) \<Longrightarrow> map_get (rs_reserved s) k = None \<Longrightarrow> state_inv s \<Longrightarrow> state_inv t"
  by (rule state_inv_charge [where s = s and d = "reservationBytes k"])
    (auto simp: effect_simps state_inv_def charged_def sized_def reserved_bytes_set_new distinct_update)

definition swept :: "int \<Rightarrow> RoomState \<Rightarrow> RoomState" where
  "swept now s = snd (sweepReservedOps now s)"

text \<open>A sweep never throws: it only refunds.\<close>

lemma sweep_returns: "sweepReservedOps now s = (Inr (), swept now s)"
  by (auto simp: sweepReservedOps_def swept_def Let_def addBytes_refund)

lemma swept_inv: "state_inv s \<Longrightarrow> state_inv (swept now s)"
proof (cases "now - rs_lastSweepAt s < OP_ID_SWEEP_INTERVAL_MS")
  case False
  assume inv: "state_inv s"
  let ?dead = "\<lambda>(opId, at). at < now - OP_ID_RETENTION_MS"
  let ?d = "- reserved_bytes (filter ?dead (rs_reserved s))"
  let ?s = "s\<lparr>rs_lastSweepAt := now, rs_reserved := filter (\<lambda>(opId, at). \<not> at < now - OP_ID_RETENTION_MS) (rs_reserved s)\<rparr>"
  have eq: "(\<lambda>(opId, at). \<not> at < now - OP_ID_RETENTION_MS) = (\<lambda>p. \<not> ?dead p)" by auto
  have freed: "sum_list (map (\<lambda>(opId, at). reservationBytes opId) (filter ?dead (rs_reserved s))) = - ?d"
    by (simp add: reserved_bytes_def) (intro arg_cong [where f = sum_list] map_cong, auto)
  have nonneg: "0 \<le> charged s" "0 \<le> rs_roomBytes s" "0 \<le> pb_usedBytes (rs_budget s)"
    using inv charged_nonneg [of s] by (auto simp: state_inv_def)
  have z: "rs_roomBytes (swept now s) = max 0 (rs_roomBytes s + ?d)"
    "pb_usedBytes (rs_budget (swept now s)) = max 0 (pb_usedBytes (rs_budget s) + ?d)"
    "rs_memory (swept now s) = rs_memory s" "rs_rows (swept now s) = rs_rows s"
    "rs_ops (swept now s) = rs_ops s"
    "rs_reserved (swept now s) = filter (\<lambda>p. \<not> ?dead p) (rs_reserved s)"
    using False nonneg reserved_bytes_nonneg [of "filter ?dead (rs_reserved s)"]
    by (simp_all add: swept_def sweepReservedOps_def Let_def freed addBytes_refund eq)
  show ?thesis
    using inv reserved_bytes_filter [of ?dead "rs_reserved s"] reserved_bytes_nonneg [of "filter ?dead (rs_reserved s)"]
    by (intro state_inv_charge [OF inv, where d = ?d])
      (auto simp: state_inv_def charged_def sized_def z intro!: distinct_fst_filter)
qed (simp add: swept_def sweepReservedOps_def)

lemma reserveOp_cases:
  "reserveOp now k s = (Inr b, t) \<Longrightarrow>
     (map_has (rs_reserved (swept now s)) k \<and> \<not> b \<and> t = swept now s)
     \<or> (map_get (rs_reserved (swept now s)) k = None \<and> b
        \<and> admit_reservation k now (swept now s) = (Inr (), t))"
  by (auto simp: reserveOp_def effect_simps sweep_returns split: if_splits simp del: map_of_eq_None_iff)

lemma reserveOp_inv: "reserveOp now k s = (Inr b, t) \<Longrightarrow> state_inv s \<Longrightarrow> state_inv t"
  by (drule reserveOp_cases) (auto intro: swept_inv admit_reservation_inv)

lemma reserve_loop_inv: "reserve_loop now ids s = (Inr fresh, t) \<Longrightarrow> state_inv s \<Longrightarrow> state_inv t"
proof (induction now ids s arbitrary: fresh rule: reserve_loop.induct)
  case (2 now k ids s)
  show ?case
  proof (cases "map_has (rs_reserved s) k")
    case False
    with "2.prems"(1) obtain u xs where u: "admit_reservation k now s = (Inr (), u)"
      "reserve_loop now ids u = (Inr xs, t)"
      by (auto simp: and_then_Inr simp del: map_of_eq_None_iff)
    have "state_inv u" using False "2.prems"(2) by (intro admit_reservation_inv [OF u(1)]) auto
    then show ?thesis using "2.IH"(2) [OF False u(2)] by blast
  qed (use 2 in simp)
qed simp

lemma reserveOps_inv: "reserveOps now ids s = (Inr fresh, t) \<Longrightarrow> state_inv s \<Longrightarrow> state_inv t"
  by (auto simp: reserveOps_def effect_simps sweep_returns intro: reserve_loop_inv swept_inv split: if_splits)

lemma restoreReservations_inv:
  assumes "restoreReservations now ids at s = (Inr u, t)" "state_inv s"
  shows "state_inv t"
proof (cases "at < now - OP_ID_RETENTION_MS")
  case False
  then have e: "each (restore_one at) ids s = (Inr (), t)" using assms(1) by (simp add: restoreReservations_def)
  show ?thesis
  proof (rule each_keeps [where P = state_inv, OF _ e assms(2)])
    fix k s' t' assume inv: "state_inv s'" and r: "restore_one at k s' = (Inr (), t')"
    show "state_inv t'"
    proof (cases "map_get (rs_reserved s') k")
      case None
      then show ?thesis using r inv by (auto simp: restore_one_def intro: admit_reservation_inv)
    next
      case (Some b)
      then have "reserved_bytes (map_set k at (rs_reserved s')) = reserved_bytes (rs_reserved s')"
        by (intro reserved_bytes_set_old) simp
      then show ?thesis using r inv Some
        by (auto simp: restore_one_def state_inv_def charged_def sized_def distinct_update split: if_splits)
    qed
  qed
qed (use assms in \<open>simp add: restoreReservations_def\<close>)

lemma applyRecord_inv: "applyRecord now rec s = (Inr u, t) \<Longrightarrow> state_inv s \<Longrightarrow> state_inv t"
  by (cases rec)
    (auto simp: applyRecord_def put_mutation_def effect_simps
      intro: state_putRow_inv appendOp_inv restoreReservations_inv)

lemma applyRecords_inv: "applyRecords now recs s = (Inr (), t) \<Longrightarrow> state_inv s \<Longrightarrow> state_inv t"
  unfolding applyRecords_def by (rule each_keeps) (auto intro: applyRecord_inv)

definition cleared :: "RoomState \<Rightarrow> RoomState" where
  "cleared s = (charge (- rs_roomBytes s) s)\<lparr>rs_rows := [], rs_ops := [], rs_reserved := [], rs_highestHlc := None\<rparr>"

lemma reset_returns: "0 \<le> rs_roomBytes s \<Longrightarrow> reset s = (Inr (), cleared s)"
  by (simp add: reset_def cleared_def addBytes_refund and_then_def modify_def)

lemma state_inv_bytes: "state_inv s \<Longrightarrow> 0 \<le> rs_roomBytes s"
  using charged_nonneg [of s] by (auto simp: state_inv_def)

lemma cleared_inv: "state_inv s \<Longrightarrow> state_inv (cleared s)"
  using exceeds_mono [of 0 "rs_roomBytes s"] state_inv_bytes [of s]
  by (auto simp: cleared_def state_inv_def charged_def sized_def hlcs_def rows_bytes_def
      reserved_bytes_def entry_of_def get_map_def)

lemma load_reservations_inv:
  assumes "each (load_reservation now) ps s = (Inr (), t)" "state_inv s" "distinct (map fst ps)"
    "\<forall>p \<in> set ps. map_get (rs_reserved s) (fst p) = None"
  shows "state_inv t"
  using assms
proof (induction ps arbitrary: s)
  case (Cons p ps)
  then obtain u where u: "load_reservation now p s = (Inr (), u)" "each (load_reservation now) ps u = (Inr (), t)"
    by (auto simp: effect_simps)
  have "state_inv u" using u(1) Cons.prems
    by (auto simp: load_reservation_def split: if_splits intro: admit_reservation_inv simp del: map_of_eq_None_iff)
  moreover have "\<forall>q \<in> set ps. map_get (rs_reserved u) (fst q) = None"
    using u(1) Cons.prems
    by (auto simp: load_reservation_def admit_reservation_Inr jsmap.get_put rev_image_eqI
        simp del: map_of_eq_None_iff split: if_splits)
  ultimately show ?case using Cons.IH [OF u(2)] Cons.prems(3) by simp
qed simp

lemma state_putRow_reserved: "state_putRow t r row cc h s = (Inr u, s') \<Longrightarrow> rs_reserved s' = rs_reserved s"
  by (auto simp: state_putRow_def Let_def effect_simps split: option.splits)

lemma load_rows_reserved:
  "each load_row rs s = (Inr (), t) \<Longrightarrow> rs_reserved t = rs_reserved s"
  by (rule each_keeps [where P = "\<lambda>x. rs_reserved x = rs_reserved s", rotated])
    (auto simp: load_row_def state_putRow_reserved)

lemma load_hlc_simps [simp]:
  "rs_rows (load_hlc h s) = rs_rows s" "rs_reserved (load_hlc h s) = rs_reserved s"
  "state_inv (load_hlc h s) = state_inv s"
  by (auto simp: load_hlc_def state_inv_def charged_def sized_def)

lemma loadSnapshot_returns:
  assumes "loadSnapshot now sn s = (Inr (), t)" "0 \<le> rs_roomBytes s"
  obtains u v where "each load_row (sn_rows sn) (cleared s) = (Inr (), u)"
    "each (load_reservation now) (sn_reservedOps sn) u = (Inr (), v)" "t = load_hlc (sn_hlc sn) v"
  using assms by (auto simp: loadSnapshot_def effect_simps reset_returns)

lemma loadSnapshot_inv:
  assumes "loadSnapshot now sn s = (Inr (), t)" "state_inv s" "distinct (map fst (sn_reservedOps sn))"
  shows "state_inv t"
proof -
  obtain u v where u: "each load_row (sn_rows sn) (cleared s) = (Inr (), u)"
    and v: "each (load_reservation now) (sn_reservedOps sn) u = (Inr (), v)" and t: "t = load_hlc (sn_hlc sn) v"
    by (rule loadSnapshot_returns [OF assms(1) state_inv_bytes [OF assms(2)]])
  have "state_inv u"
    by (rule each_keeps [where P = state_inv, OF _ u cleared_inv [OF assms(2)]])
      (metis load_row_def state_putRow_inv)
  moreover have "rs_reserved u = []" using load_rows_reserved [OF u] by (simp add: cleared_def)
  ultimately have "state_inv v" using load_reservations_inv [OF v _ assms(3)] by simp
  with t show ?thesis by simp
qed

section \<open>Throwing\<close>

lemma state_putRow_throws: "state_putRow t r row cc h s = (Inl e, s') \<Longrightarrow> s' = s"
  by (auto simp: state_putRow_def Let_def effect_simps dest: addBytes_Inl split: option.splits)

lemma appendOp_throws: "appendOp e s = (Inl err, s') \<Longrightarrow> s' = s"
  by (auto simp: appendOp_def Let_def effect_simps dest: addBytes_Inl)

lemma assertCanAdmit_keeps: "assertCanAdmitApply m op s = (x, t) \<Longrightarrow> t = s"
  by (cases x) (auto simp: assertCanAdmitApply_def Let_def effect_simps dest: checkBytes_Inl split: if_splits)

section \<open>Admission\<close>

definition row_delta :: "WalRowMutation \<Rightarrow> RoomState \<Rightarrow> int" where
  "row_delta m s = apply_delta m None s"

lemma put_mutation_returns:
  assumes "0 < row_delta m s \<longrightarrow> fits (row_delta m s) s" "state_inv s"
  obtains u where "put_mutation m s = (Inr (), u)" "rs_memory u = rs_memory s"
    "rs_roomBytes u = rs_roomBytes s + row_delta m s"
    "pb_usedBytes (rs_budget u) = pb_usedBytes (rs_budget s) + row_delta m s"
    "pb_limitBytes (rs_budget u) = pb_limitBytes (rs_budget s)" "rs_ops u = rs_ops s"
    "0 \<le> rs_roomBytes s + row_delta m s"
proof -
  let ?d = "row_delta m s"
  have inv: "state_inv s" by fact
  have used: "0 \<le> rs_roomBytes s" "rs_roomBytes s \<le> pb_usedBytes (rs_budget s)"
    using inv state_inv_bytes by (auto simp: state_inv_def)
  obtain u where u: "put_mutation m s = (Inr (), u)"
  proof (cases "wm_row m")
    case None
    then show ?thesis using that inv sizedD [of s "wm_table m" "wm_rowId m"]
      by (cases "entry_of (rs_rows s) (wm_table m) (wm_rowId m)")
        (auto simp: put_mutation_def state_putRow_def modify_def and_then_def addBytes_refund state_inv_def)
  next
    case (Some f)
    then show ?thesis using that assms(1)
      by (auto simp: put_mutation_def state_putRow_def effect_simps Let_def row_delta_def apply_delta_def)
  qed
  have b: "rs_roomBytes u = max 0 (rs_roomBytes s + ?d)"
    "pb_usedBytes (rs_budget u) = max 0 (pb_usedBytes (rs_budget s) + ?d)"
    "rs_memory u = rs_memory s" "pb_limitBytes (rs_budget u) = pb_limitBytes (rs_budget s)" "rs_ops u = rs_ops s"
    using u used by (auto simp: put_mutation_def state_putRow_def effect_simps Let_def row_delta_def apply_delta_def
        bytes_or_0_def split: option.splits)
  have "charged u = charged s + ?d"
    using u inv by (auto simp: put_mutation_def state_putRow_def effect_simps Let_def row_delta_def apply_delta_def
        bytes_or_0_def charged_def rows_bytes_set rows_bytes_delete state_inv_def split: option.splits)
  moreover have "state_inv u" using u inv by (auto simp: put_mutation_def intro: state_putRow_inv)
  ultimately have "0 \<le> rs_roomBytes s + ?d"
    using charged_nonneg [of u] inv by (auto simp: state_inv_def)
  with used b u show ?thesis by (intro that [of u]) auto
qed

lemma apply_delta_split: "apply_delta m (Some e) s = row_delta m s + approxBytes (op_value e)"
  by (simp add: apply_delta_def row_delta_def)

lemma fits_mono: "d \<le> d' \<Longrightarrow> fits d' s \<Longrightarrow> fits d s"
  using exceeds_mono [of "rs_roomBytes s + d" "rs_roomBytes s + d'" "mc_maxRoomBytes (rs_memory s)"]
    exceeds_mono [of "pb_usedBytes (rs_budget s) + d" "pb_usedBytes (rs_budget s) + d'" "pb_limitBytes (rs_budget s)"]
  by (auto simp: fits_def)

lemma admitted_apply_returns:
  assumes inv: "state_inv s" and room: "\<not> exceeds (pb_usedBytes (rs_budget s)) (pb_limitBytes (rs_budget s))"
    and ok: "assertCanAdmitApply m (Some e) s = (Inr (), t)"
  obtains u where "applyRecord now (ApplyRecord m e) s = (Inr (), u)"
proof -
  let ?d = "row_delta m s" and ?o = "approxBytes (op_value e)"
  have fit: "fits (?d + ?o) s"
  proof (cases "0 < ?d + ?o")
    case True
    with ok show ?thesis by (simp add: assertCanAdmitApply_def Let_def apply_delta_split effect_simps)
  next
    case False
    have "fits 0 s" using inv room by (auto simp: fits_def state_inv_def)
    with False show ?thesis by (intro fits_mono [of "?d + ?o" 0]) auto
  qed
  have "fits ?d s" using approxBytes_nonneg [of "op_value e"] by (intro fits_mono [OF _ fit]) simp
  then obtain u where u: "put_mutation m s = (Inr (), u)" "rs_memory u = rs_memory s"
    "rs_roomBytes u = rs_roomBytes s + ?d" "pb_usedBytes (rs_budget u) = pb_usedBytes (rs_budget s) + ?d"
    "pb_limitBytes (rs_budget u) = pb_limitBytes (rs_budget s)"
    using put_mutation_returns [OF _ inv] by metis
  have "fits ?o u" using fit u by (simp add: fits_def add.assoc)
  then have "\<exists>v. appendOp e u = (Inr (), v)" by (simp add: appendOp_def Let_def effect_simps)
  with u that show ?thesis by (auto simp: applyRecord_def effect_simps)
qed

section \<open>The states a room can reach\<close>

inductive room_step :: "RoomState \<Rightarrow> RoomState \<Rightarrow> bool" where
  put: "state_putRow t r row cc h s = (Inr (), s') \<Longrightarrow> room_step s s'"
| append_op: "appendOp e s = (Inr (), s') \<Longrightarrow> room_step s s'"
| trim: "deleteOpsBefore h s = (Inr n, s') \<Longrightarrow> room_step s s'"
| reserve_one: "reserveOp now k s = (Inr b, s') \<Longrightarrow> room_step s s'"
| reserve_many: "reserveOps now ks s = (Inr fresh, s') \<Longrightarrow> room_step s s'"
| replay_record: "applyRecord now rec s = (Inr (), s') \<Longrightarrow> room_step s s'"
| load: "loadSnapshot now sn s = (Inr (), s') \<Longrightarrow> distinct (map fst (sn_reservedOps sn)) \<Longrightarrow> room_step s s'"
| set_meta: "room_step s (setMeta k v s)"
| load_meta: "room_step s (loadMeta m s)"
| drop_all: "dispose s = (Inr (), s') \<Longrightarrow> room_step s s'"
| other_rooms: "rs_roomBytes s \<le> pb_usedBytes b \<Longrightarrow> room_step s (s\<lparr>rs_budget := b\<rparr>)"

definition reachable :: "MemoryConfig \<Rightarrow> RoomState \<Rightarrow> bool" where
  "reachable m s \<longleftrightarrow> \<not> exceeds 0 (mc_maxRoomBytes m)
     \<and> (\<exists>b. 0 \<le> pb_usedBytes b \<and> room_step\<^sup>*\<^sup>* (new_room_state m b) s)"

lemma constrain_used [simp]: "pb_usedBytes (constrain l b) = pb_usedBytes b"
  by (simp add: constrain_def split: option.split)

lemma state_inv_meta [simp]: "state_inv (s\<lparr>rs_meta := m\<rparr>) = state_inv s"
  by (simp add: state_inv_def charged_def sized_def)

lemma state_inv_budget:
  assumes "state_inv s" "rs_roomBytes s \<le> pb_usedBytes b"
  shows "state_inv (s\<lparr>rs_budget := b\<rparr>)"
proof -
  have "charged (s\<lparr>rs_budget := b\<rparr>) = charged s" "sized (s\<lparr>rs_budget := b\<rparr>) = sized s"
    by (simp_all add: charged_def sized_def)
  with assms show ?thesis by (auto simp: state_inv_def)
qed

lemma room_step_inv: "room_step s s' \<Longrightarrow> state_inv s \<Longrightarrow> state_inv s'"
proof (induction rule: room_step.induct)
  case (set_meta s k v)
  then show ?case by (simp add: setMeta_def)
next
  case (load_meta s m)
  then show ?case by (simp add: loadMeta_def)
next
  case (drop_all s s')
  then show ?case using cleared_inv [of s] by (auto simp: dispose_def reset_returns state_inv_bytes)
next
  case (other_rooms s b)
  then show ?case by (simp add: state_inv_budget)
qed (auto intro: state_putRow_inv appendOp_inv deleteOpsBefore_inv reserveOp_inv reserveOps_inv applyRecord_inv
      loadSnapshot_inv)

lemma new_state_inv:
  "0 \<le> pb_usedBytes b \<Longrightarrow> \<not> exceeds 0 (mc_maxRoomBytes m) \<Longrightarrow> state_inv (new_room_state m b)"
  by (simp add: new_room_state_def state_inv_def charged_def sized_def hlcs_def rows_bytes_def
      reserved_bytes_def entry_of_def get_map_def)

lemma reachable_inv:
  assumes "reachable m s"
  shows "state_inv s"
proof -
  obtain b where b: "0 \<le> pb_usedBytes b" "room_step\<^sup>*\<^sup>* (new_room_state m b) s"
    and m: "\<not> exceeds 0 (mc_maxRoomBytes m)"
    using assms(1) by (auto simp: reachable_def)
  from b(2) show ?thesis
    by (induction rule: rtranclp_induct) (auto intro: room_step_inv new_state_inv [OF b(1) m])
qed

end
