(* ===== verification/Room_State_Facts.thy ===== *)
theory Room_State_Facts
  imports Room_State_Inv
begin

text \<open>
  What a room's state promises: complete reads of the log, all-or-nothing applies, safe compaction
  and replay protection. \<open>view\<close> abstracts the state to what each row holds, and replaying records
  refines the pure \<open>overwrite\<close> on it.
\<close>

section \<open>What the log is read as\<close>

lemma set_changed_tables:
  assumes "distinct wanted" "distinct changed" "set changed \<subseteq> set wanted"
  shows "set (changed_tables wanted changed os) = set changed \<union> (op_table ` set os \<inter> set wanted)"
  using assms
proof (induction wanted changed os rule: changed_tables.induct)
  case (2 wanted changed o' os)
  let ?c = "if op_table o' \<in> set wanted then set_add (op_table o') changed else changed"
  have c: "distinct ?c" "set ?c \<subseteq> set wanted"
    "set ?c = set changed \<union> ({op_table o'} \<inter> set wanted)"
    using "2.prems" by (auto simp: set_add_def)
  show ?case
  proof (cases "length ?c = length wanted")
    case True
    then have "set ?c = set wanted"
      using c "2.prems"(1) by (metis card_subset_eq distinct_card finite_set)
    then show ?thesis using True c(3) "2.prems"(3) by (auto simp: Let_def)
  next
    case False
    with "2.IH" [OF refl refl False] c "2.prems" show ?thesis by (auto simp: Let_def)
  qed
qed simp

lemma last_filter_max:
  assumes "sorted (hlcs ops)"
  shows "map_option op_hlc (find P (rev ops)) = Some h \<longleftrightarrow>
    (\<exists>o' \<in> set ops. P o' \<and> op_hlc o' = h \<and> (\<forall>x \<in> set ops. P x \<longrightarrow> op_hlc x \<le> h))"
  using assms
proof (induction ops rule: rev_induct)
  case (snoc a ops)
  then have le: "\<forall>x \<in> set ops. op_hlc x \<le> op_hlc a" and s: "sorted (hlcs ops)"
    by (auto simp: hlcs_def sorted_append)
  show ?case
  proof (cases "P a")
    case True
    then show ?thesis using le by (auto intro: antisym)
  next
    case False
    with snoc.IH [OF s] show ?thesis by auto
  qed
qed simp

lemma getOpsSince_eq:
  "sorted (hlcs (rs_ops s)) \<Longrightarrow> getOpsSince s h ts =
     map oe_entry (filter (\<lambda>o'. op_table o' \<in> set ts \<and> h < op_hlc o') (rs_ops s))"
  by (simp add: getOpsSince_def drop_indexAfter conj_commute)

lemma getOpsSince_sorted:
  "sorted (hlcs (rs_ops s)) \<Longrightarrow> sorted (map ol_hlc (getOpsSince s h ts))"
  using sorted_filter [of op_hlc "rs_ops s" "\<lambda>o'. op_table o' \<in> set ts \<and> h < op_hlc o'"]
  by (simp add: getOpsSince_eq hlcs_def op_hlc_def [abs_def] comp_def)

lemma getChangedTablesSince_eq:
  "sorted (hlcs (rs_ops s)) \<Longrightarrow>
     set (getChangedTablesSince s h ts) = ol_table ` set (getOpsSince s h ts)"
  by (auto simp: getChangedTablesSince_def set_changed_tables getOpsSince_eq drop_indexAfter op_table_def)

section \<open>The rows and the clock as the records determine them\<close>

type_synonym row_key = "string \<times> string"
type_synonym row_view = "row_key \<Rightarrow> (row \<times> clocks \<times> string) option"

definition view :: "RoomState \<Rightarrow> row_view" where
  "view s k = map_option (\<lambda>e. (re_row e, re_colClocks e, re_hlc e)) (entry_of (rs_rows s) (fst k) (snd k))"

definition hlc_of :: "RoomState \<Rightarrow> string" where
  "hlc_of s = (case rs_highestHlc s of None \<Rightarrow> [] | Some h \<Rightarrow> h)"

definition mutation_update :: "WalRowMutation \<Rightarrow> row_key \<times> (row \<times> clocks \<times> string) option" where
  "mutation_update m = ((wm_table m, wm_rowId m), map_option (\<lambda>f. (f, wm_colClocks m, wm_hlc m)) (wm_row m))"

fun record_updates :: "WalRecord \<Rightarrow> (row_key \<times> (row \<times> clocks \<times> string) option) list" where
  "record_updates (RowRecord m) = [mutation_update m]"
| "record_updates (ApplyRecord m e) = [mutation_update m]"
| "record_updates _ = []"

fun record_hlcs :: "WalRecord \<Rightarrow> string list" where
  "record_hlcs (RowRecord m) = [wm_hlc m]"
| "record_hlcs (ApplyRecord m e) = [wm_hlc m, ol_hlc e]"
| "record_hlcs (OpRecord e) = [ol_hlc e]"
| "record_hlcs (ReserveRecord ids at) = []"

definition overwrite :: "('k \<times> 'v) list \<Rightarrow> ('k \<Rightarrow> 'v) \<Rightarrow> 'k \<Rightarrow> 'v" where
  "overwrite us v k = (case map_of (rev us) k of Some x \<Rightarrow> x | None \<Rightarrow> v k)"

lemma overwrite_Nil [simp]: "overwrite [] v = v"
  by (simp add: overwrite_def fun_eq_iff)

lemma overwrite_append: "overwrite (us @ ws) v = overwrite ws (overwrite us v)"
  by (auto simp: overwrite_def map_add_def split: option.splits)

lemma overwrite_one: "overwrite [(k, x)] v = v(k := x)"
  by (auto simp: overwrite_def)

lemma overwrite_again: "overwrite us (overwrite us v) = overwrite us v"
  by (auto simp: overwrite_def split: option.splits)

lemma hlc_of_noteHlc [simp]: "hlc_of (noteHlc h s) = max (hlc_of s) h"
  by (auto simp: hlc_of_def noteHlc_def falsy_str_def max_def split: option.splits)

lemma view_simps [simp]:
  "hlc_of (charge d s) = hlc_of s" "hlc_of (s\<lparr>rs_ops := x\<rparr>) = hlc_of s"
  "hlc_of (s\<lparr>rs_rows := y\<rparr>) = hlc_of s" "hlc_of (s\<lparr>rs_reserved := z\<rparr>) = hlc_of s"
  "view (charge d s) = view s" "view (noteHlc h s) = view s" "view (s\<lparr>rs_ops := x\<rparr>) = view s"
  "view (s\<lparr>rs_reserved := z\<rparr>) = view s"
  by (simp_all add: hlc_of_def view_def fun_eq_iff)

lemma view_set_rows [simp]:
  "view (s\<lparr>rs_rows := set_entry t r e (rs_rows s')\<rparr>) =
     (view s')((t, r) \<mapsto> (re_row e, re_colClocks e, re_hlc e))"
  "view (s\<lparr>rs_rows := delete_entry t r (rs_rows s')\<rparr>) = (view s')((t, r) := None)"
  by (auto simp: view_def fun_eq_iff keyed_simps)

lemma put_mutation_view:
  "put_mutation m s = (Inr (), t) \<Longrightarrow>
     view t = overwrite [mutation_update m] (view s) \<and> hlc_of t = max (hlc_of s) (wm_hlc m)"
proof (cases "wm_row m")
  case None
  assume p: "put_mutation m s = (Inr (), t)"
  show ?thesis
  proof (cases "entry_of (rs_rows s) (wm_table m) (wm_rowId m)")
    case e: None
    then have "view s (wm_table m, wm_rowId m) = None" by (simp add: view_def)
    then show ?thesis using p None e
      by (auto simp: put_mutation_def state_putRow_def effect_simps mutation_update_def overwrite_one)
  qed (use p None in \<open>auto simp: put_mutation_def state_putRow_def effect_simps mutation_update_def overwrite_one\<close>)
qed (auto simp: put_mutation_def state_putRow_def Let_def effect_simps mutation_update_def overwrite_one)

lemma appendOp_view: "appendOp e s = (Inr (), t) \<Longrightarrow> view t = view s \<and> hlc_of t = max (hlc_of s) (ol_hlc e)"
  by (auto simp: appendOp_def Let_def effect_simps)

lemma restore_one_view:
  "restore_one at k s = (Inr (), t) \<Longrightarrow> view t = view s \<and> hlc_of t = hlc_of s"
  by (auto simp: restore_one_def effect_simps split: option.splits if_splits)

lemma restore_view: "restoreReservations now ids at s = (Inr (), t) \<Longrightarrow> view t = view s \<and> hlc_of t = hlc_of s"
  unfolding restoreReservations_def
  by (auto split: if_splits dest: restore_one_view
      elim!: each_keeps [where P = "\<lambda>x. view x = view s \<and> hlc_of x = hlc_of s", rotated])

lemma applyRecord_view:
  "applyRecord now rec s = (Inr (), t) \<Longrightarrow>
     view t = overwrite (record_updates rec) (view s) \<and> hlc_of t = foldl max (hlc_of s) (record_hlcs rec)"
  by (cases rec) (auto simp: applyRecord_def effect_simps dest!: put_mutation_view appendOp_view restore_view)

text \<open>Applying records refines two pure functions of the records.\<close>

definition updates :: "WalRecord list \<Rightarrow> (row_key \<times> (row \<times> clocks \<times> string) option) list" where
  "updates recs = concat (map record_updates recs)"

definition clock_notes :: "WalRecord list \<Rightarrow> string list" where
  "clock_notes recs = concat (map record_hlcs recs)"

lemma applyRecords_view:
  "applyRecords now recs s = (Inr (), t) \<Longrightarrow>
     view t = overwrite (updates recs) (view s) \<and> hlc_of t = foldl max (hlc_of s) (clock_notes recs)"
proof (induction recs arbitrary: s)
  case (Cons rec recs)
  then obtain u where u: "applyRecord now rec s = (Inr (), u)" "applyRecords now recs u = (Inr (), t)"
    by (auto simp: applyRecords_def effect_simps)
  show ?case using applyRecord_view [OF u(1)] Cons.IH [OF u(2)]
    by (simp add: updates_def clock_notes_def overwrite_append)
qed (simp add: applyRecords_def updates_def clock_notes_def)

lemma max_Nil: "max [] (a :: string) = a"
  by (simp add: max_def)

lemma foldl_max: "foldl max (h :: string) hs = max h (foldl max [] hs)"
proof (induction hs arbitrary: h)
  case (Cons a hs)
  have "foldl max h (a # hs) = max (max h a) (foldl max [] hs)" by (simp add: Cons.IH [of "max h a"])
  also have "\<dots> = max h (foldl max a hs)" by (simp add: Cons.IH [of a] max.assoc)
  finally show ?case by (simp add: max_Nil)
qed (simp add: max_def)

lemma foldl_max_again: "foldl max (foldl max (h :: string) hs) hs = foldl max h hs"
  using foldl_max [of "foldl max h hs" hs] foldl_max [of h hs] by (simp add: max.assoc)

section \<open>A snapshot holds the rows and the clock\<close>

definition snapshot_updates :: "SnapshotRow list \<Rightarrow> (row_key \<times> (row \<times> clocks \<times> string) option) list" where
  "snapshot_updates rows =
     map (\<lambda>r. ((sr_table r, sr_rowId r), Some (sr_row r, sr_colClocks r, sr_hlc r))) rows"

lemma load_row_mutation:
  "load_row r = put_mutation \<lparr>wm_table = sr_table r, wm_rowId = sr_rowId r, wm_row = Some (sr_row r),
     wm_colClocks = sr_colClocks r, wm_hlc = sr_hlc r\<rparr>"
  by (simp add: load_row_def put_mutation_def fun_eq_iff)

lemma load_rows_view:
  "each load_row rows s = (Inr (), t) \<Longrightarrow>
     view t = overwrite (snapshot_updates rows) (view s) \<and> hlc_of t = foldl max (hlc_of s) (map sr_hlc rows)"
proof (induction rows arbitrary: s)
  case (Cons r rows)
  then obtain u where u: "load_row r s = (Inr (), u)" "each load_row rows u = (Inr (), t)"
    by (auto simp: effect_simps)
  show ?case using put_mutation_view [OF u(1) [unfolded load_row_mutation]] Cons.IH [OF u(2)]
    by (simp add: snapshot_updates_def mutation_update_def flip: overwrite_append)
qed (simp add: snapshot_updates_def)

lemma map_of_pairs:
  "map_of (concat (map (\<lambda>(t, m). map (\<lambda>p. ((t, fst p), g (snd p))) m) rows)) (t, r) =
     (case map_of rows t of None \<Rightarrow> None | Some m \<Rightarrow> map_option g (map_of m r))"
  if "map_wf rows" for rows :: "(string, (string, RowEntry) jsmap) jsmap"
  using that
proof (induction rows)
  case (Cons x rows)
  obtain t' m where x: "x = (t', m)" by (cases x)
  have one: "map_of (map (\<lambda>p. ((t', fst p), g (snd p))) m) (t, r) =
      (if t = t' then map_option g (map_of m r) else None)" for m :: "(string, RowEntry) jsmap"
    by (induction m) auto
  show ?case using Cons by (auto simp: x map_add_def one split: option.splits
      simp del: map_of_eq_None_iff map_of_eq_Some_iff) (simp_all add: map_of_eq_None_iff rev_image_eqI)
qed simp


lemma maps_wf_member: "maps_wf rows \<Longrightarrow> (t, m) \<in> set rows \<Longrightarrow> map_wf m"
  using maps_wf_inner [of rows t] by (auto simp: maps_wf_def get_map_def split: option.splits)

lemma distinct_pairs:
  "map_wf rows \<Longrightarrow> \<forall>x \<in> set rows. map_wf (snd x) \<Longrightarrow>
     distinct (map fst (concat (map (\<lambda>(t, m). map (\<lambda>p. ((t, fst p), g (snd p))) m) rows)))"
proof (induction rows)
  case (Cons x rows)
  let ?A = "map (\<lambda>p. ((fst x, fst p), g (snd p))) (snd x)"
  let ?B = "concat (map (\<lambda>(t, m). map (\<lambda>p. ((t, fst p), g (snd p))) m) rows)"
  have A: "distinct (map fst ?A)"
    using Cons.prems by (simp add: comp_def distinct_map inj_on_def)
  have B: "distinct (map fst ?B)" using Cons by simp
  have "set (map fst ?A) \<inter> set (map fst ?B) = {}"
  proof (rule equals0I)
    fix k assume k: "k \<in> set (map fst ?A) \<inter> set (map fst ?B)"
    then have "k \<in> set (map fst ?A)" by (rule IntD1)
    then have "fst k = fst x" by auto
    moreover from k have "k \<in> set (map fst ?B)" by (rule IntD2)
    then have "fst k \<in> fst ` set rows" by force
    ultimately show False using Cons.prems(1) by simp
  qed
  with A B have "distinct (map fst (?A @ ?B))" by (simp only: map_append distinct_append)
  then show ?case by (cases x) (simp only: list.map concat.simps prod.case fst_conv snd_conv)
qed simp

definition flat_rows :: "state_rows \<Rightarrow> (row_key \<times> (row \<times> clocks \<times> string) option) list" where
  "flat_rows rows = concat (map (\<lambda>(t, m). map (\<lambda>p. ((t, fst p),
     Some (re_row (snd p), re_colClocks (snd p), re_hlc (snd p)))) m) rows)"

lemma snapshot_flat: "snapshot_updates (sn_rows (toSnapshot now p)) = flat_rows (rs_rows p)"
  by (simp add: snapshot_updates_def toSnapshot_def flat_rows_def map_concat comp_def snapshot_row_def split_def)

lemma snapshot_view:
  assumes "maps_wf (rs_rows p)"
  shows "overwrite (snapshot_updates (sn_rows (toSnapshot now p))) (\<lambda>k. None) = view p"
proof
  fix k :: row_key
  obtain t r where k: "k = (t, r)" by (cases k)
  let ?g = "\<lambda>e. Some (re_row e, re_colClocks e, re_hlc e)"
  have "distinct (map fst (flat_rows (rs_rows p)))"
    unfolding flat_rows_def
    by (rule distinct_pairs) (use assms maps_wf_member [OF assms] in \<open>auto simp: maps_wf_def\<close>)
  then show "overwrite (snapshot_updates (sn_rows (toSnapshot now p))) (\<lambda>k. None) k = view p k"
    using map_of_pairs [of "rs_rows p" ?g t r] assms
    by (auto simp: overwrite_def snapshot_flat map_of_rev_distinct k maps_wf_def view_def entry_of_def
        get_map_def flat_rows_def simp del: map_of_eq_None_iff map_of_eq_Some_iff split: option.splits)
qed

text \<open>No row is newer than the highest clock of the room.\<close>

definition rows_noted :: "RoomState \<Rightarrow> bool" where
  "rows_noted s \<longleftrightarrow> (\<forall>t r e. entry_of (rs_rows s) t r = Some e \<longrightarrow> re_hlc e \<le> hlc_of s)"

lemma rows_noted_view: "rows_noted s \<longleftrightarrow> (\<forall>k f cc h. view s k = Some (f, cc, h) \<longrightarrow> h \<le> hlc_of s)"
  by (force simp: rows_noted_def view_def)

lemma put_mutation_noted: "put_mutation m s = (Inr (), t) \<Longrightarrow> rows_noted s \<Longrightarrow> rows_noted t"
  by (drule put_mutation_view)
    (auto simp: rows_noted_view mutation_update_def overwrite_one le_max_iff_disj split: if_splits)

lemma rows_noted_same: "view t = view s \<Longrightarrow> hlc_of s \<le> hlc_of t \<Longrightarrow> rows_noted s \<Longrightarrow> rows_noted t"
  unfolding rows_noted_view by (metis order_trans)

lemma state_putRow_noted: "state_putRow t r row cc h s = (Inr (), s') \<Longrightarrow> rows_noted s \<Longrightarrow> rows_noted s'"
  using put_mutation_noted [of "\<lparr>wm_table = t, wm_rowId = r, wm_row = row, wm_colClocks = cc, wm_hlc = h\<rparr>" s s']
  by (simp add: put_mutation_def)

lemma appendOp_noted: "appendOp e s = (Inr (), s') \<Longrightarrow> rows_noted s \<Longrightarrow> rows_noted s'"
  by (drule appendOp_view) (auto intro: rows_noted_same)

lemma deleteOpsBefore_view: "deleteOpsBefore h s = (Inr n, s') \<Longrightarrow> view s' = view s \<and> hlc_of s' = hlc_of s"
  by (auto simp: deleteOpsBefore_def Let_def effect_simps split: if_splits)

lemma swept_view [simp]: "view (swept now s) = view s" "hlc_of (swept now s) = hlc_of s"
  by (auto simp: swept_def sweepReservedOps_def Let_def addBytes_refund view_def hlc_of_def)

lemma admit_view: "admit_reservation k at s = (Inr u, t) \<Longrightarrow> view t = view s \<and> hlc_of t = hlc_of s"
  by (auto simp: effect_simps)

lemma reserveOp_view: "reserveOp now k s = (Inr b, t) \<Longrightarrow> view t = view s \<and> hlc_of t = hlc_of s"
  by (drule reserveOp_cases) (auto dest: admit_view)

lemma reserve_loop_view: "reserve_loop now ids s = (Inr fresh, t) \<Longrightarrow> view t = view s \<and> hlc_of t = hlc_of s"
proof (induction now ids s arbitrary: fresh rule: reserve_loop.induct)
  case (2 now k ids s)
  show ?case
  proof (cases "map_has (rs_reserved s) k")
    case False
    with "2.prems"(1) obtain u xs where u: "admit_reservation k now s = (Inr (), u)"
      "reserve_loop now ids u = (Inr xs, t)"
      by (auto simp: and_then_Inr simp del: map_of_eq_None_iff)
    show ?thesis using "2.IH"(2) [OF False u(2)] admit_view [OF u(1)] by simp
  qed (use 2 in simp)
qed simp

lemma reserveOps_view: "reserveOps now ids s = (Inr fresh, t) \<Longrightarrow> view t = view s \<and> hlc_of t = hlc_of s"
  by (auto simp: reserveOps_def effect_simps sweep_returns dest: reserve_loop_view split: if_splits)

lemma cleared_view [simp]: "view (cleared s) = (\<lambda>k. None)" "hlc_of (cleared s) = []"
  by (simp_all add: cleared_def view_def hlc_of_def entry_of_def get_map_def fun_eq_iff)

lemma load_hlc_view: "view (load_hlc h s) = view s"
    "hlc_of (load_hlc h s) = max (hlc_of s) (case h of None \<Rightarrow> [] | Some g \<Rightarrow> g)"
  by (auto simp: load_hlc_def view_def hlc_of_def falsy_str_def max_def split: option.splits)

lemma load_reservations_view:
  "each (load_reservation now) ps s = (Inr (), t) \<Longrightarrow> view t = view s \<and> hlc_of t = hlc_of s"
  by (rule each_keeps [where P = "\<lambda>x. view x = view s \<and> hlc_of x = hlc_of s", rotated])
    (auto simp: load_reservation_def dest!: admit_view split: if_splits)

lemma loadSnapshot_view:
  assumes "loadSnapshot now sn s = (Inr (), t)" "0 \<le> rs_roomBytes s"
  shows "view t = overwrite (snapshot_updates (sn_rows sn)) (\<lambda>k. None)"
    "hlc_of t = max (foldl max [] (map sr_hlc (sn_rows sn))) (case sn_hlc sn of None \<Rightarrow> [] | Some g \<Rightarrow> g)"
proof -
  obtain u v where u: "each load_row (sn_rows sn) (cleared s) = (Inr (), u)"
    and v: "each (load_reservation now) (sn_reservedOps sn) u = (Inr (), v)" and t: "t = load_hlc (sn_hlc sn) v"
    by (rule loadSnapshot_returns [OF assms])
  show "view t = overwrite (snapshot_updates (sn_rows sn)) (\<lambda>k. None)"
    "hlc_of t = max (foldl max [] (map sr_hlc (sn_rows sn))) (case sn_hlc sn of None \<Rightarrow> [] | Some g \<Rightarrow> g)"
    using load_rows_view [OF u] load_reservations_view [OF v] by (simp_all add: t load_hlc_view)
qed

lemma loadSnapshot_noted:
  assumes "loadSnapshot now sn s = (Inr (), t)" "0 \<le> rs_roomBytes s"
  shows "rows_noted t"
proof -
  obtain u v where u: "each load_row (sn_rows sn) (cleared s) = (Inr (), u)"
    and v: "each (load_reservation now) (sn_reservedOps sn) u = (Inr (), v)" and t: "t = load_hlc (sn_hlc sn) v"
    by (rule loadSnapshot_returns [OF assms])
  have "rows_noted u"
    by (rule each_keeps [where P = rows_noted, OF _ u])
      (auto simp: load_row_def intro: state_putRow_noted, simp add: rows_noted_view)
  with load_reservations_view [OF v] show ?thesis
    by (intro rows_noted_same [of t u]) (simp_all add: t load_hlc_view)
qed

lemma quiet_noted:
  "deleteOpsBefore h s = (Inr n, s') \<Longrightarrow> rows_noted s \<Longrightarrow> rows_noted s'"
  "reserveOp now k s = (Inr b, s') \<Longrightarrow> rows_noted s \<Longrightarrow> rows_noted s'"
  "reserveOps now ks s = (Inr fresh, s') \<Longrightarrow> rows_noted s \<Longrightarrow> rows_noted s'"
  by (auto dest!: deleteOpsBefore_view reserveOp_view reserveOps_view simp: rows_noted_view)

lemma room_step_noted:
  assumes "room_step s s'" "state_inv s" "rows_noted s"
  shows "rows_noted s'"
  using assms
proof (induction rule: room_step.induct)
  case (replay_record now rec s s')
  then show ?case
    by (cases rec) (auto simp: applyRecord_def effect_simps dest!: restore_view
        intro: put_mutation_noted appendOp_noted rows_noted_same)
next
  case (drop_all s s')
  then show ?case by (auto simp: dispose_def reset_returns state_inv_bytes rows_noted_view)
next
  case (set_meta s k v)
  then show ?case by (simp add: setMeta_def rows_noted_def hlc_of_def)
next
  case (load_meta s m)
  then show ?case by (simp add: loadMeta_def rows_noted_def hlc_of_def)
next
  case (other_rooms s b)
  then show ?case by (simp add: rows_noted_def hlc_of_def)
qed (auto dest: state_inv_bytes intro: state_putRow_noted appendOp_noted quiet_noted loadSnapshot_noted)

lemma reachable_noted:
  assumes "reachable m s"
  shows "rows_noted s"
proof -
  obtain b where b: "0 \<le> pb_usedBytes b" "room_step\<^sup>*\<^sup>* (new_room_state m b) s"
    and m: "\<not> exceeds 0 (mc_maxRoomBytes m)"
    using assms(1) by (auto simp: reachable_def)
  from b(2) have "state_inv s \<and> rows_noted s"
  proof (induction rule: rtranclp_induct)
    case base
    show ?case using new_state_inv [OF b(1) m]
      by (simp add: rows_noted_def new_room_state_def entry_of_def get_map_def)
  qed (auto intro: room_step_inv room_step_noted)
  then show ?thesis by blast
qed

lemma foldl_max_le: "\<forall>x \<in> set hs. x \<le> (h :: string) \<Longrightarrow> foldl max [] hs \<le> h"
proof -
  have "a \<le> h \<Longrightarrow> \<forall>x \<in> set hs. x \<le> h \<Longrightarrow> foldl max a hs \<le> h" for a
    by (induction hs arbitrary: a) auto
  then show "\<forall>x \<in> set hs. x \<le> h \<Longrightarrow> ?thesis" by simp
qed

lemma snapshot_hlc:
  assumes "reachable m p"
  shows "max (foldl max [] (map sr_hlc (sn_rows (toSnapshot now p))))
    (case sn_hlc (toSnapshot now p) of None \<Rightarrow> [] | Some g \<Rightarrow> g) = hlc_of p"
proof -
  have "\<forall>x \<in> set (map sr_hlc (sn_rows (toSnapshot now p))). x \<le> hlc_of p"
  proof safe
    fix x assume "x \<in> set (map sr_hlc (sn_rows (toSnapshot now p)))"
    then obtain t m' r e where e: "(t, m') \<in> set (rs_rows p)" "(r, e) \<in> set m'" "x = re_hlc e"
      by (auto simp: toSnapshot_def snapshot_row_def)
    have wf: "maps_wf (rs_rows p)" using reachable_inv [OF assms] by (simp add: state_inv_def)
    then have "entry_of (rs_rows p) t r = Some e"
      using e maps_wf_member [OF wf e(1)] by (simp add: maps_wf_def entry_of_def get_map_def)
    then show "x \<le> hlc_of p" using reachable_noted [OF assms] e(3) by (auto simp: rows_noted_def)
  qed
  then have "foldl max [] (map sr_hlc (sn_rows (toSnapshot now p))) \<le> hlc_of p" by (rule foldl_max_le)
  moreover have "(case sn_hlc (toSnapshot now p) of None \<Rightarrow> [] | Some g \<Rightarrow> g) = hlc_of p"
    by (simp add: toSnapshot_def hlc_of_def)
  ultimately show ?thesis by (simp add: max_def)
qed

lemma getRow_view: "view s = view t \<Longrightarrow> state_getRow s a b = state_getRow t a b"
  by (drule fun_cong [where x = "(a, b)"])
    (cases "entry_of (rs_rows s) a b"; cases "entry_of (rs_rows t) a b";
      simp add: view_def state_getRow_def existing_def)

lemma getRow_of_view: "ex_row (state_getRow s a b) = map_option fst (view s (a, b))"
  by (simp add: view_def state_getRow_def existing_def split: option.splits)

lemma applied_row:
  "applyRecord now (ApplyRecord w e) s = (Inr (), u) \<Longrightarrow> ex_row (state_getRow u (wm_table w) (wm_rowId w)) = wm_row w"
  using applyRecord_view [of now "ApplyRecord w e" s u]
  by (cases "wm_row w") (simp_all add: getRow_of_view overwrite_one mutation_update_def)

lemma applied_op: "applyRecord now (ApplyRecord w e) s = (Inr (), u) \<Longrightarrow> e \<in> oe_entry ` set (rs_ops u)"
  by (auto simp: applyRecord_def effect_simps appendOp_def Let_def set_insert_op)

section \<open>Reservations\<close>

text \<open>The id is reserved, at a time no later than \<open>at\<close> and within the window at \<open>now\<close>.\<close>

definition remembers :: "RoomState \<Rightarrow> string \<Rightarrow> int \<Rightarrow> bool" where
  "remembers s k since \<longleftrightarrow> (\<exists>at. map_get (rs_reserved s) k = Some at \<and> since \<le> at)"

lemma swept_holds:
  assumes "remembers s k since" "now - OP_ID_RETENTION_MS \<le> since" "map_wf (rs_reserved s)"
  shows "remembers (swept now s) k since"
  using assms
  by (auto simp: remembers_def swept_def sweepReservedOps_def Let_def addBytes_refund map_of_filter_pair)

lemma reserve_loop_holds:
  "reserve_loop now ids s = (Inr fresh, t) \<Longrightarrow> remembers s k since \<Longrightarrow> remembers t k since \<and> k \<notin> set fresh"
proof (induction now ids s arbitrary: fresh rule: reserve_loop.induct)
  case (2 now j ids s)
  show ?case
  proof (cases "map_has (rs_reserved s) j")
    case False
    with "2.prems"(1) obtain u xs where u: "admit_reservation j now s = (Inr (), u)"
      "reserve_loop now ids u = (Inr xs, t)" "fresh = j # xs"
      by (auto simp: and_then_Inr simp del: map_of_eq_None_iff)
    have jk: "j \<noteq> k" using False "2.prems"(2) by (auto simp: remembers_def)
    then have "remembers u k since" using "2.prems"(2) u(1) by (auto simp: remembers_def effect_simps jsmap.get_put)
    then show ?thesis using "2.IH"(2) [OF False u(2)] jk u(3) by simp
  qed (use 2 in simp)
qed simp

lemma reserveOps_holds:
  assumes "reserveOps now ids s = (Inr fresh, t)" "remembers s k since" "now - OP_ID_RETENTION_MS \<le> since"
    "map_wf (rs_reserved s)"
  shows "remembers t k since \<and> k \<notin> set fresh"
  using assms swept_holds [OF assms(2-4)]
  by (auto simp: reserveOps_def effect_simps sweep_returns dest: reserve_loop_holds split: if_splits)

text \<open>Later batches of reservations, each with its time.\<close>

inductive reserving :: "RoomState \<Rightarrow> (int \<times> string list) list \<Rightarrow> RoomState \<Rightarrow> bool" where
  reserving_none: "reserving s [] s"
| reserving_batch: "reserveOps now ids s = (Inr fresh, t) \<Longrightarrow> reserving t batches u
    \<Longrightarrow> reserving s ((now, ids) # batches) u"

inductive_simps reserving_simps [simp]: "reserving s [] t" "reserving s (b # bs) t"

lemma reserving_holds:
  assumes "reserving s batches t" "remembers s k since" "\<forall>b \<in> set batches. fst b - OP_ID_RETENTION_MS \<le> since" "state_inv s"
  shows "remembers t k since \<and> state_inv t"
  using assms
proof (induction rule: reserving.induct)
  case (reserving_batch now ids s fresh t batches u)
  have "map_wf (rs_reserved s)" using reserving_batch.prems(3) by (simp add: state_inv_def)
  then show ?case
    using reserving_batch reserveOps_holds [OF reserving_batch.hyps(1) reserving_batch.prems(1)]
      reserveOps_inv [OF reserving_batch.hyps(1)] by simp
qed simp

lemma load_reservations_hold:
  "each (load_reservation now) ps s = (Inr (), t) \<Longrightarrow> map_get ps k = Some at \<Longrightarrow> distinct (map fst ps) \<Longrightarrow>
     now - OP_ID_RETENTION_MS \<le> at \<Longrightarrow> map_get (rs_reserved t) k = Some at"
proof (induction ps arbitrary: s)
  case (Cons p ps)
  then obtain u where u: "load_reservation now p s = (Inr (), u)" "each (load_reservation now) ps u = (Inr (), t)"
    by (auto simp: effect_simps)
  show ?case
  proof (cases "fst p = k")
    case True
    have keep: "map_get (rs_reserved t) k = Some at" if "map_get (rs_reserved u) k = Some at"
    proof (rule each_keeps [where P = "\<lambda>s. map_get (rs_reserved s) k = Some at", OF _ u(2) that])
      fix q s t assume "q \<in> set ps" "map_get (rs_reserved s) k = Some at" "load_reservation now q s = (Inr (), t)"
      moreover from this(1) have "fst q \<noteq> k" using Cons.prems(3) True by (auto simp: rev_image_eqI)
      ultimately show "map_get (rs_reserved t) k = Some at"
        by (auto simp: load_reservation_def effect_simps jsmap.get_put split: if_splits simp del: map_of_eq_Some_iff)
    qed
    have "snd p = at" using Cons.prems(2) True by (cases p) simp
    then show ?thesis using u(1) True Cons.prems(4)
      by (intro keep) (auto simp: load_reservation_def effect_simps jsmap.get_put split: if_splits)
  next
    case False
    then show ?thesis using Cons.IH [OF u(2)] Cons.prems by (cases p) auto
  qed
qed simp

section \<open>Properties\<close>


text \<open>C21: Reading the log. In every reachable state the suffix found by binary search is exactly the
  ops after the watermark, in clock order; the changed tables are the tables of those ops; and the
  head is the highest clock of any op of the tables asked for.\<close>

theorem log_reads_are_complete:
  assumes "reachable m s"
  shows "getOpsSince s since tables =
      map oe_entry (filter (\<lambda>o'. op_table o' \<in> set tables \<and> since < op_hlc o') (rs_ops s))
    \<and> sorted (map ol_hlc (getOpsSince s since tables))
    \<and> set (getChangedTablesSince s since tables) = ol_table ` set (getOpsSince s since tables)
    \<and> (getOplogHead s tables = Some h \<longleftrightarrow>
        (\<exists>o' \<in> set (rs_ops s). op_table o' \<in> set tables \<and> op_hlc o' = h
          \<and> (\<forall>x \<in> set (rs_ops s). op_table x \<in> set tables \<longrightarrow> op_hlc x \<le> h)))"
proof -
  have s: "sorted (hlcs (rs_ops s))" using reachable_inv [OF assms] by (simp add: state_inv_def)
  show ?thesis
    using last_filter_max [OF s, of "\<lambda>o'. op_table o' \<in> set tables" h]
    by (intro conjI getOpsSince_eq [OF s] getOpsSince_sorted [OF s] getChangedTablesSince_eq [OF s])
      (simp add: getOplogHead_def)
qed

text \<open>C22: An apply is all or nothing. The admission check never changes the state; if it passes, and
  the process is within its budget, the row and the op are both written; if it throws, neither is,
  and the same holds of \<open>putRow\<close> and of \<open>appendOp\<close> on their own.\<close>

theorem admitted_apply_writes_both:
  assumes "reachable m s" "\<not> exceeds (pb_usedBytes (rs_budget s)) (pb_limitBytes (rs_budget s))"
  shows "snd (assertCanAdmitApply w (Some e) s) = s
    \<and> (fst (assertCanAdmitApply w (Some e) s) = Inr () \<longrightarrow>
         (\<exists>u. applyRecord now (ApplyRecord w e) s = (Inr (), u)
            \<and> ex_row (state_getRow u (wm_table w) (wm_rowId w)) = wm_row w
            \<and> e \<in> oe_entry ` set (rs_ops u)))
    \<and> (\<forall>err u. state_putRow t r row cc h s = (Inl err, u) \<longrightarrow> u = s)
    \<and> (\<forall>err u. appendOp e s = (Inl err, u) \<longrightarrow> u = s)"
proof (intro conjI allI impI)
  show "snd (assertCanAdmitApply w (Some e) s) = s"
    using assertCanAdmit_keeps by (metis surjective_pairing)
  assume "fst (assertCanAdmitApply w (Some e) s) = Inr ()"
  then have "assertCanAdmitApply w (Some e) s = (Inr (), s)"
    using assertCanAdmit_keeps by (metis surjective_pairing)
  then obtain u where u: "applyRecord now (ApplyRecord w e) s = (Inr (), u)"
    by (rule admitted_apply_returns [OF reachable_inv [OF assms(1)] assms(2)])
  then show "\<exists>u. applyRecord now (ApplyRecord w e) s = (Inr (), u)
      \<and> ex_row (state_getRow u (wm_table w) (wm_rowId w)) = wm_row w \<and> e \<in> oe_entry ` set (rs_ops u)"
    using applied_row [OF u] applied_op [OF u] by blast
qed (auto dest: state_putRow_throws appendOp_throws)

text \<open>C23: Compaction is safe. Take a snapshot of any reachable room \<open>p\<close>, which came about by records
  \<open>before\<close> and goes on by records \<open>after\<close> to \<open>q\<close>. Another process loads the snapshot and replays
  the log from the start of \<open>before\<close>, records the snapshot already holds included: it ends with
  the rows of \<open>q\<close>, and the same highest clock.\<close>

theorem snapshot_and_log_converge:
  assumes "reachable m p" "applyRecords t1 before s = (Inr (), p)" "applyRecords t2 after p = (Inr (), q)"
    and "reachable m' fresh" "loadSnapshot t3 (toSnapshot t4 p) fresh = (Inr (), l)"
    and "applyRecords t5 (before @ after) l = (Inr (), r)"
  shows "state_getRow r table rowId = state_getRow q table rowId \<and> hlc_of r = hlc_of q"
proof -
  have wf: "maps_wf (rs_rows p)" using reachable_inv [OF assms(1)] by (simp add: state_inv_def)
  have bytes: "0 \<le> rs_roomBytes fresh" using reachable_inv [OF assms(4)] by (rule state_inv_bytes)
  have l: "view l = view p" "hlc_of l = hlc_of p"
    using loadSnapshot_view [OF assms(5) bytes] snapshot_view [OF wf] snapshot_hlc [OF assms(1)] by simp_all
  have p: "view p = overwrite (updates before) (view s)" "hlc_of p = foldl max (hlc_of s) (clock_notes before)"
    using applyRecords_view [OF assms(2)] by simp_all
  have "view r = view q" "hlc_of r = hlc_of q"
    using applyRecords_view [OF assms(3)] applyRecords_view [OF assms(6)]
    by (simp_all add: l updates_def clock_notes_def overwrite_append
        p [unfolded updates_def clock_notes_def] overwrite_again foldl_max_again)
  then show ?thesis using getRow_view by blast
qed

text \<open>C24: Replay protection. Once \<open>reserveOp\<close> has granted an id at \<open>t0\<close>, it reports that id as a replay
  for 24 hours: after any batches of reservations in that window, with their sweeps, and also in a
  process that restarted from a snapshot taken in the window.\<close>

theorem reserved_id_is_a_replay_for_a_day:
  assumes "reachable m s" "reserveOp t0 k s = (Inr True, a)" "reserving a batches b"
    and "\<forall>x \<in> set batches. fst x \<le> t0 + OP_ID_RETENTION_MS" "now \<le> t0 + OP_ID_RETENTION_MS"
    and "t1 \<le> now" "t2 \<le> now" "reachable m' fresh" "loadSnapshot t2 (toSnapshot t1 b) fresh = (Inr (), l)"
  shows "fst (reserveOp now k b) = Inr False \<and> fst (reserveOp now k l) = Inr False"
proof -
  have inv: "state_inv a" using reachable_inv [OF assms(1)] reserveOp_inv [OF assms(2)] by blast
  have a: "remembers a k t0"
    using reserveOp_cases [OF assms(2)] by (auto simp: remembers_def effect_simps jsmap.get_put)
  have "\<forall>x \<in> set batches. fst x - OP_ID_RETENTION_MS \<le> t0" using assms(4) by (auto simp: algebra_simps)
  then have b: "remembers b k t0" "state_inv b" using reserving_holds [OF assms(3) a _ inv] by simp_all
  have replay: "fst (reserveOp now k s) = Inr False" if "remembers s k t0" "map_wf (rs_reserved s)" for s
    using swept_holds [OF that(1) _ that(2), of now] assms(5)
    by (auto simp: reserveOp_def and_then_def sweep_returns remembers_def)
  obtain at where at: "map_get (rs_reserved b) k = Some at" "t0 \<le> at" using b(1) by (auto simp: remembers_def)
  have wf: "map_wf (rs_reserved b)" using b(2) by (simp add: state_inv_def)
  have sn: "map_get (sn_reservedOps (toSnapshot t1 b)) k = Some at"
    using at assms(5,6) wf by (simp add: toSnapshot_def map_of_filter_pair)
  have d: "distinct (map fst (sn_reservedOps (toSnapshot t1 b)))"
    using wf by (simp add: toSnapshot_def distinct_fst_filter)
  obtain u v where v: "each (load_reservation t2) (sn_reservedOps (toSnapshot t1 b)) u = (Inr (), v)"
    and l: "l = load_hlc (sn_hlc (toSnapshot t1 b)) v"
    by (rule loadSnapshot_returns [OF assms(9) state_inv_bytes [OF reachable_inv [OF assms(8)]]])
  have "remembers l k t0"
    using load_reservations_hold [OF v sn d] at(2) assms(5,7) by (simp add: remembers_def l)
  moreover have "map_wf (rs_reserved l)"
    using loadSnapshot_inv [OF assms(9) reachable_inv [OF assms(8)] d] by (simp add: state_inv_def)
  ultimately show ?thesis using replay [OF b(1) wf] replay by blast
qed

section \<open>A concrete room\<close>

definition sample_config :: MemoryConfig where
  "sample_config = \<lparr>mc_maxTotalBytes = Some 4000, mc_maxRoomBytes = Some 2000,
     mc_onExceeded = RejectPolicy, mc_idleEvictMs = 0\<rparr>"

definition sample_room :: RoomState where
  "sample_room = new_room_state sample_config new_budget"

definition sample_write :: "string \<Rightarrow> string \<Rightarrow> row option \<Rightarrow> WalRowMutation" where
  "sample_write r h row = \<lparr>wm_table = ''t'', wm_rowId = r, wm_row = row, wm_colClocks = [(''n'', h)], wm_hlc = h\<rparr>"

definition sample_entry :: "string \<Rightarrow> string \<Rightarrow> OpLogEntry" where
  "sample_entry r h = \<lparr>ol_table = ''t'', ol_op = ''insert'', ol_rowId = r, ol_payload = Some [(''n'', Bool True)],
     ol_hlc = h, ol_colClocks = [(''n'', h)]\<rparr>"

definition sample_records :: "WalRecord list" where
  "sample_records =
     [ApplyRecord (sample_write ''a'' ''5'' (Some [(''n'', Bool True)])) (sample_entry ''a'' ''5''),
      OpRecord (sample_entry ''z'' ''3''), ReserveRecord [''op-1''] 100]"

definition sample_later :: "WalRecord list" where
  "sample_later =
     [RowRecord (sample_write ''b'' ''7'' (Some [(''n'', Bool False)])), RowRecord (sample_write ''a'' ''8'' None)]"

definition sample_state :: RoomState where
  "sample_state = snd (applyRecords 0 sample_records sample_room)"

definition sample_state' :: RoomState where
  "sample_state' = snd (applyRecords 0 sample_later sample_state)"

lemmas sample_defs = sample_config_def sample_room_def sample_write_def sample_entry_def sample_records_def
  sample_later_def sample_state_def sample_state'_def

lemma reachable_new: "\<not> exceeds 0 (mc_maxRoomBytes m) \<Longrightarrow> reachable m (new_room_state m new_budget)"
  unfolding reachable_def by (rule conjI, assumption) (rule exI [where x = new_budget], simp add: new_budget_def)

lemma reachable_step: "reachable m s \<Longrightarrow> room_step s t \<Longrightarrow> reachable m t"
  unfolding reachable_def by (meson rtranclp.rtrancl_into_rtrancl)

lemma reachable_records: "reachable m s \<Longrightarrow> applyRecords now recs s = (Inr (), t) \<Longrightarrow> reachable m t"
  unfolding applyRecords_def
  by (rule each_keeps [where P = "reachable m"]) (auto intro: reachable_step replay_record)

lemma sample_reachable0: "reachable sample_config sample_room"
  unfolding sample_room_def by (rule reachable_new) (simp add: sample_config_def exceeds_def)

lemma sample_runs: "applyRecords 0 sample_records sample_room = (Inr (), sample_state)"
  unfolding sample_state_def by (rule returns_pair) code_simp

lemma sample_runs': "applyRecords 0 sample_later sample_state = (Inr (), sample_state')"
  unfolding sample_state'_def by (rule returns_pair) code_simp

lemma sample_reachable: "reachable sample_config sample_state"
  by (rule reachable_records [OF sample_reachable0 sample_runs])

text \<open>A reservation refused for memory is kept all the same: the id is set before it is charged, so
  the retry of the refused write is answered as a replay.\<close>

lemma refused_reservation_is_kept:
  "let s = new_room_state (sample_config\<lparr>mc_maxRoomBytes := Some 30\<rparr>) new_budget;
       (first, s') = reserveOp 0 ''operation-1'' s
   in first = Inl (MemoryLimitExceeded 35 30) \<and> rs_roomBytes s' = 0
      \<and> fst (reserveOp 1 ''operation-1'' s') = Inr False"
  by code_simp

text \<open>Without the bound on the process budget the apply is not atomic. Another room with a smaller
  \<open>maxTotalBytes\<close> has lowered the limit below what is in use; an apply that shrinks its row passes
  the check, writes the row, and then its op is refused.\<close>

lemma apply_splits_over_budget:
  "let big = sample_write ''a'' ''1'' (Some [(''n'', Arr 0 (replicate 30 (Bool False)))]);
       s = snd (applyRecord 0 (RowRecord big) sample_room);
       s' = s\<lparr>rs_budget := constrain (Some 10) (rs_budget s)\<rparr>;
       w = sample_write ''a'' ''2'' (Some []); e = sample_entry ''a'' ''2'';
       (r, u) = applyRecord 0 (ApplyRecord w e) s'
   in fst (assertCanAdmitApply w (Some e) s') = Inr () \<and> isl r
      \<and> ex_row (state_getRow u ''t'' ''a'') = Some [] \<and> rs_ops u = []"
  by code_simp

section \<open>Witnesses\<close>


theorem log_reads_are_complete_witness:
  "getOpsSince sample_state ''4'' [''t''] = [sample_entry ''a'' ''5'']"
proof -
  have "map oe_entry (filter (\<lambda>o'. op_table o' \<in> set [''t''] \<and> ''4'' < op_hlc o') (rs_ops sample_state))
      = [sample_entry ''a'' ''5'']" by code_simp
  then show ?thesis using log_reads_are_complete [OF sample_reachable, of "''4''" "[''t'']"] by simp
qed

theorem admitted_apply_writes_both_witness:
  "\<exists>u. applyRecord 0 (ApplyRecord (sample_write ''c'' ''9'' (Some [])) (sample_entry ''c'' ''9'')) sample_state = (Inr (), u)
     \<and> ex_row (state_getRow u ''t'' ''c'') = Some [] \<and> sample_entry ''c'' ''9'' \<in> oe_entry ` set (rs_ops u)"
proof -
  have room: "\<not> exceeds (pb_usedBytes (rs_budget sample_state)) (pb_limitBytes (rs_budget sample_state))"
    by code_simp
  have "fst (assertCanAdmitApply (sample_write ''c'' ''9'' (Some [])) (Some (sample_entry ''c'' ''9'')) sample_state) = Inr ()"
    by code_simp
  with admitted_apply_writes_both [OF sample_reachable room, of "sample_write ''c'' ''9'' (Some [])" "sample_entry ''c'' ''9''" 0]
  show ?thesis by (simp add: sample_write_def)
qed

theorem snapshot_and_log_converge_witness:
  "state_getRow (snd (applyRecords 0 (sample_records @ sample_later)
       (snd (loadSnapshot 0 (toSnapshot 0 sample_state) sample_room)))) ''t'' ''b''
     = state_getRow sample_state' ''t'' ''b''"
proof -
  have l: "loadSnapshot 0 (toSnapshot 0 sample_state) sample_room
      = (Inr (), snd (loadSnapshot 0 (toSnapshot 0 sample_state) sample_room))"
    by (rule returns_pair) code_simp
  have r: "applyRecords 0 (sample_records @ sample_later)
        (snd (loadSnapshot 0 (toSnapshot 0 sample_state) sample_room))
      = (Inr (), snd (applyRecords 0 (sample_records @ sample_later)
           (snd (loadSnapshot 0 (toSnapshot 0 sample_state) sample_room))))"
    by (rule returns_pair) code_simp
  show ?thesis
    using snapshot_and_log_converge [OF sample_reachable sample_runs sample_runs' sample_reachable0 l r] by blast
qed

theorem reserved_id_is_a_replay_for_a_day_witness:
  "fst (reserveOp 80000000 ''op-2'' (snd (reserveOps 70000000 [''op-3''] (snd (reserveOp 0 ''op-2'' sample_state)))))
     = Inr False"
proof -
  have a: "reserveOp 0 ''op-2'' sample_state = (Inr True, snd (reserveOp 0 ''op-2'' sample_state))"
    by (rule returns_pair) code_simp
  have f: "reserveOps 70000000 [''op-3''] (snd (reserveOp 0 ''op-2'' sample_state))
      = (Inr [''op-3''], snd (reserveOps 70000000 [''op-3''] (snd (reserveOp 0 ''op-2'' sample_state))))"
    by (rule returns_pair) code_simp
  have b: "reserving (snd (reserveOp 0 ''op-2'' sample_state)) [(70000000, [''op-3''])]
      (snd (reserveOps 70000000 [''op-3''] (snd (reserveOp 0 ''op-2'' sample_state))))"
    by (rule reserving_batch [OF f reserving_none])
  have l: "loadSnapshot 75000000 (toSnapshot 75000000 (snd (reserveOps 70000000 [''op-3'']
        (snd (reserveOp 0 ''op-2'' sample_state))))) sample_room
      = (Inr (), snd (loadSnapshot 75000000 (toSnapshot 75000000 (snd (reserveOps 70000000 [''op-3'']
        (snd (reserveOp 0 ''op-2'' sample_state))))) sample_room))"
    by (rule returns_pair) code_simp
  show ?thesis
    using reserved_id_is_a_replay_for_a_day [OF sample_reachable a b _ _ _ _ sample_reachable0 l, of 80000000]
    by (simp add: OP_ID_RETENTION_MS_def)
qed

end
