(* ===== verification/Message_Validator.thy ===== *)
theory Message_Validator
  imports Conflict
begin

text \<open>
  \<open>src/server/message-validator.ts\<close>: the check of a parsed message before any of it is used. The
  message is untrusted JSON, a \<open>jsval\<close>. The error strings are the constructors of
  \<open>ValidationError\<close>; those the source writes with an index carry it. The message types of
  \<open>src/core/types.ts\<close> are stated a second time as data, \<open>client_schema\<close>, and acceptance is
  shown to be exactly conformance to that schema within the size caps.
\<close>

section \<open>Definitions\<close>

definition VALID_CLIENT_MESSAGE_TYPES :: "string list" where
  "VALID_CLIENT_MESSAGE_TYPES =
     [''hello'', ''bootstrap'', ''resume'', ''ops'', ''sync_declare'', ''load_more'', ''unsync'',
      ''auth'', ''ephemeral'', ''signal'', ''ice_request'']"

definition VALID_OP_TYPES :: "string list" where
  "VALID_OP_TYPES = [''insert'', ''update'', ''delete'']"

definition MAX_OPS_ARRAY :: nat where
  "MAX_OPS_ARRAY = 10000"

definition MAX_LOAD_MORE_COUNT :: int where
  "MAX_LOAD_MORE_COUNT = 100000"

datatype ValidationError =
    NotAnObject
  | InvalidType jsval
  | MessageError string
  | OpsTooLong nat
  | OpError nat string

text \<open>\<open>typeof v === "object"\<close> and not null.\<close>

definition is_object :: "jsval \<Rightarrow> bool" where
  "is_object v = (case v of Date _ _ \<Rightarrow> True | Arr _ _ \<Rightarrow> True | Obj _ _ \<Rightarrow> True | _ \<Rightarrow> False)"

definition is_array :: "jsval \<Rightarrow> bool" where
  "is_array v \<longleftrightarrow> arr_of v \<noteq> None"

definition elements :: "jsval \<Rightarrow> jsval list" where
  "elements v = (case arr_of v of Some xs \<Rightarrow> xs | None \<Rightarrow> [])"

definition text_of :: "jsval \<Rightarrow> string" where
  "text_of v = string_or_empty v"

definition validate_op :: "jsval \<Rightarrow> string option" where
  "validate_op op =
     (let p = prop_of op ''payload'' in
      if \<not> is_string (prop_of op ''id'') then Some ''missing id''
      else if \<not> is_string (prop_of op ''table'') then Some ''missing table''
      else if \<not> is_string (prop_of op ''op'') \<or> text_of (prop_of op ''op'') \<notin> set VALID_OP_TYPES
        then Some ''invalid op type''
      else if \<not> is_string (prop_of op ''rowId'') then Some ''missing rowId''
      else if \<not> is_string (prop_of op ''hlc'') then Some ''missing hlc''
      else if p \<noteq> Null \<and> p \<noteq> Undefined \<and> (\<not> is_object p \<or> is_array p)
        then Some ''payload must be object or null''
      else None)"

fun validate_ops :: "nat \<Rightarrow> jsval list \<Rightarrow> ValidationError option" where
  "validate_ops i [] = None"
| "validate_ops i (op # ops) =
     (case validate_op op of Some e \<Rightarrow> Some (OpError i e) | None \<Rightarrow> validate_ops (i + 1) ops)"

definition validate_hello :: "jsval \<Rightarrow> ValidationError option" where
  "validate_hello m =
     (if \<not> is_number (prop_of m ''protocolVersion'') then Some (MessageError ''hello: missing protocolVersion'')
      else if \<not> is_string (prop_of m ''clientId'') then Some (MessageError ''hello: missing clientId'')
      else if text_of (prop_of m ''clientId'') = [] \<or> 256 < length (text_of (prop_of m ''clientId''))
        then Some (MessageError ''hello: clientId length out of range'')
      else if \<not> is_string (prop_of m ''token'') then Some (MessageError ''hello: missing token'')
      else if 16384 < length (text_of (prop_of m ''token'')) then Some (MessageError ''hello: token too long'')
      else if prop_of m ''supportedVersions'' \<noteq> Undefined \<and> \<not> is_array (prop_of m ''supportedVersions'')
        then Some (MessageError ''hello: supportedVersions must be array'')
      else if prop_of m ''supportedVersions'' \<noteq> Undefined \<and> 32 < length (elements (prop_of m ''supportedVersions''))
        then Some (MessageError ''hello: supportedVersions too long'')
      else None)"

text \<open>\<open>v <= 0 || v > max\<close>; a comparison with NaN is false.\<close>

definition count_out_of_range :: "jsval \<Rightarrow> bool" where
  "count_out_of_range v = (case num_of v of Some n \<Rightarrow> n \<le> 0 \<or> MAX_LOAD_MORE_COUNT < n | None \<Rightarrow> False)"

text \<open>The switch on \<open>m.type\<close>; the types without a case have no required field.\<close>

definition validate_fields :: "string \<Rightarrow> jsval \<Rightarrow> ValidationError option" where
  "validate_fields t m =
     (if t = ''hello'' then validate_hello m
      else if t = ''resume'' then
        (if \<not> is_string (prop_of m ''since'') then Some (MessageError ''resume: missing since'') else None)
      else if t = ''ops'' then
        (if \<not> is_array (prop_of m ''ops'') then Some (MessageError ''ops: missing ops array'')
         else if \<not> is_string (prop_of m ''token'') then Some (MessageError ''ops: missing token'')
         else if MAX_OPS_ARRAY < length (elements (prop_of m ''ops''))
           then Some (OpsTooLong (length (elements (prop_of m ''ops''))))
         else validate_ops 0 (elements (prop_of m ''ops'')))
      else if t = ''sync_declare'' then
        (if \<not> is_string (prop_of m ''table'') then Some (MessageError ''sync_declare: missing table'') else None)
      else if t = ''load_more'' then
        (if \<not> is_string (prop_of m ''table'') then Some (MessageError ''load_more: missing table'')
         else if \<not> is_number (prop_of m ''count'') \<or> count_out_of_range (prop_of m ''count'')
           then Some (MessageError ''load_more: invalid count'')
         else None)
      else if t = ''unsync'' then
        (if \<not> is_string (prop_of m ''table'') then Some (MessageError ''unsync: missing table'') else None)
      else if t = ''auth'' then
        (if \<not> is_string (prop_of m ''token'') then Some (MessageError ''auth: missing token'') else None)
      else if t = ''ephemeral'' then
        (if \<not> is_string (prop_of m ''key'') then Some (MessageError ''ephemeral: missing key'')
         else if \<not> is_object (prop_of m ''data'') then Some (MessageError ''ephemeral: missing data'')
         else None)
      else if t = ''signal'' then
        (if \<not> is_string (prop_of m ''to'') \<or> text_of (prop_of m ''to'') = []
           then Some (MessageError ''signal: missing to'')
         else if \<not> is_object (prop_of m ''data'') then Some (MessageError ''signal: missing data'')
         else None)
      else None)"

definition validateClientMessage :: "jsval \<Rightarrow> ValidationError + jsval" where
  "validateClientMessage msg =
     (if \<not> is_object msg then Inl NotAnObject
      else if \<not> is_string (prop_of msg ''type'')
           \<or> text_of (prop_of msg ''type'') \<notin> set VALID_CLIENT_MESSAGE_TYPES
        then Inl (InvalidType (prop_of msg ''type''))
      else (case validate_fields (text_of (prop_of msg ''type'')) msg of
              Some e \<Rightarrow> Inl e | None \<Rightarrow> Inr msg))"

section \<open>The types the messages should have\<close>

text \<open>
  \<open>TPlain\<close> is a plain object, \<open>TObject\<close> any object, arrays included: the payload of an op is
  checked to be the first, the data of the ephemeral messages only to be the second.
\<close>

datatype ty =
    TString
  | TNumber
  | TObject
  | TPlain
  | TOneOf "string list"
  | TArray
  | TArrayOf "(string \<times> ty) list"
  | TMaybe ty
  | TMaybeNull ty

fun has_type :: "ty \<Rightarrow> jsval \<Rightarrow> bool" where
  "has_type TString v = is_string v"
| "has_type TNumber v = is_number v"
| "has_type TObject v = is_object v"
| "has_type TPlain v = (is_object v \<and> \<not> is_array v)"
| "has_type (TOneOf ss) v = (is_string v \<and> text_of v \<in> set ss)"
| "has_type TArray v = is_array v"
| "has_type (TArrayOf fs) v = (is_array v \<and> list_all (\<lambda>x. list_all (\<lambda>(k, t). has_type t (prop_of x k)) fs) (elements v))"
| "has_type (TMaybe t) v = (v = Undefined \<or> has_type t v)"
| "has_type (TMaybeNull t) v = (v = Undefined \<or> v = Null \<or> has_type t v)"

definition conforms :: "(string \<times> ty) list \<Rightarrow> jsval \<Rightarrow> bool" where
  "conforms fs v \<longleftrightarrow> list_all (\<lambda>(k, t). has_type t (prop_of v k)) fs"

definition client_op_schema :: "(string \<times> ty) list" where
  "client_op_schema =
     [(''id'', TString), (''table'', TString), (''op'', TOneOf VALID_OP_TYPES), (''rowId'', TString),
      (''hlc'', TString), (''payload'', TMaybeNull TPlain)]"

definition client_schema :: "(string \<times> (string \<times> ty) list) list" where
  "client_schema =
     [(''hello'', [(''protocolVersion'', TNumber), (''clientId'', TString), (''token'', TString),
                   (''supportedVersions'', TMaybe TArray)]),
      (''bootstrap'', []),
      (''resume'', [(''since'', TString)]),
      (''ops'', [(''ops'', TArrayOf client_op_schema), (''token'', TString)]),
      (''sync_declare'', [(''table'', TString)]),
      (''load_more'', [(''table'', TString), (''count'', TNumber)]),
      (''unsync'', [(''table'', TString)]),
      (''auth'', [(''token'', TString)]),
      (''ephemeral'', [(''key'', TString), (''data'', TObject)]),
      (''signal'', [(''to'', TString), (''data'', TObject)]),
      (''ice_request'', [])]"

text \<open>The caps on sizes, for the messages that have them.\<close>

definition within_caps :: "string \<Rightarrow> jsval \<Rightarrow> bool" where
  "within_caps t m \<longleftrightarrow>
     (t = ''hello'' \<longrightarrow> length (text_of (prop_of m ''clientId'')) \<in> {1..256}
        \<and> length (text_of (prop_of m ''token'')) \<le> 16384
        \<and> length (elements (prop_of m ''supportedVersions'')) \<le> 32)
     \<and> (t = ''ops'' \<longrightarrow> length (elements (prop_of m ''ops'')) \<le> MAX_OPS_ARRAY)
     \<and> (t = ''load_more'' \<longrightarrow> \<not> count_out_of_range (prop_of m ''count''))
     \<and> (t = ''signal'' \<longrightarrow> text_of (prop_of m ''to'') \<noteq> [])"

lemma validate_op_conforms: "validate_op op = None \<longleftrightarrow> conforms client_op_schema op"
  by (auto simp: validate_op_def conforms_def client_op_schema_def Let_def)

lemma validate_ops_conform: "validate_ops i ops = None \<longleftrightarrow> list_all (conforms client_op_schema) ops"
  by (induction i ops rule: validate_ops.induct) (auto simp flip: validate_op_conforms split: option.split)

lemma conforms_Nil [simp]: "conforms [] v"
  by (simp add: conforms_def)

lemma conforms_Cons [simp]: "conforms ((k, t) # fs) v \<longleftrightarrow> has_type t (prop_of v k) \<and> conforms fs v"
  by (simp add: conforms_def)

lemma ops_type: "has_type (TArrayOf fs) v \<longleftrightarrow> is_array v \<and> list_all (conforms fs) (elements v)"
  by (simp add: conforms_def [abs_def])

lemma not_array_elements: "\<not> is_array v \<Longrightarrow> elements v = []"
  by (auto simp: is_array_def elements_def)

lemma Undefined_not_array: "\<not> is_array Undefined"
  by (simp add: is_array_def arr_of_def)

lemma schema_lookup:
  "t \<in> set VALID_CLIENT_MESSAGE_TYPES \<Longrightarrow> \<exists>fs. map_of client_schema t = Some fs"
  by (auto simp: VALID_CLIENT_MESSAGE_TYPES_def client_schema_def)

lemma validate_hello_conforms:
  "validate_hello m = None \<longleftrightarrow>
     conforms (the (map_of client_schema ''hello'')) m \<and> within_caps ''hello'' m"
  by (auto simp: validate_hello_def client_schema_def within_caps_def not_array_elements
      Undefined_not_array Suc_le_eq)

lemma validate_fields_conform:
  assumes "t \<in> set VALID_CLIENT_MESSAGE_TYPES"
  shows "validate_fields t m = None \<longleftrightarrow> conforms (the (map_of client_schema t)) m \<and> within_caps t m"
proof -
  let ?ok = "\<lambda>t. validate_fields t m = None \<longleftrightarrow> conforms (the (map_of client_schema t)) m \<and> within_caps t m"
  have "?ok ''hello''" by (simp add: validate_fields_def validate_hello_conforms)
  moreover have "?ok ''ops''"
    by (auto simp: validate_fields_def client_schema_def within_caps_def ops_type validate_ops_conform
        simp del: has_type.simps(7))
  moreover have "?ok ''bootstrap''" "?ok ''resume''" "?ok ''sync_declare''" "?ok ''load_more''" "?ok ''unsync''"
    "?ok ''auth''" "?ok ''ephemeral''" "?ok ''signal''" "?ok ''ice_request''"
    by (auto simp: validate_fields_def client_schema_def within_caps_def)
  ultimately have "list_all ?ok VALID_CLIENT_MESSAGE_TYPES"
    unfolding VALID_CLIENT_MESSAGE_TYPES_def by (simp only: list.pred_inject simp_thms)
  with assms show ?thesis by (simp only: list_all_iff)
qed

section \<open>Properties\<close>


end
