(* ===== verification/Storage.thy ===== *)
theory Storage
  imports Room_State_Inv "HOL-Library.Multiset"
begin

text \<open>
  The \<open>StorageAdapter\<close> interface of \<open>src/server/handler.ts\<close>, as far as the components below it
  call it: a record of the operations over the store's state \<open>'s\<close>. A call that rejects is a
  value: \<open>Inl ()\<close>, \<open>None\<close> or \<open>False\<close>. What the callers rely on are the laws of the locale
  \<open>storage\<close>; the room state of the object store provides them (\<open>room\<close> below).
\<close>

record 's StorageAdapter =
  sa_getMeta :: "'s \<Rightarrow> string \<Rightarrow> unit + string option"
  sa_setMeta :: "string \<Rightarrow> string \<Rightarrow> 's \<Rightarrow> 's option"
  sa_applyOp :: "WalRowMutation \<Rightarrow> OpLogEntry \<Rightarrow> 's \<Rightarrow> bool \<times> 's"
  sa_deleteOpsBefore :: "string \<Rightarrow> 's \<Rightarrow> nat \<times> 's"
  sa_tryLock :: "(string \<Rightarrow> 's \<Rightarrow> bool \<times> 's) option"
  sa_unlock :: "(string \<Rightarrow> 's \<Rightarrow> 's) option"

text \<open>
  \<open>log\<close> is the op log the adapter keeps. Meta reads see the last write; an op that was applied is
  in the log, one that was not is not; deleting before a clock keeps exactly the rest; locks
  touch neither.
\<close>

locale storage =
  fixes sa :: "'s StorageAdapter"
    and log :: "'s \<Rightarrow> OpLogEntry list"
    and ok :: "'s \<Rightarrow> bool"
  assumes meta_set: "ok s \<Longrightarrow> sa_setMeta sa k v s = Some t \<Longrightarrow>
      ok t \<and> log t = log s \<and> sa_getMeta sa t j = (if j = k then Inr (Some v) else sa_getMeta sa s j)"
    and applied: "ok s \<Longrightarrow> sa_applyOp sa m e s = (b, t) \<Longrightarrow>
      ok t \<and> mset (log t) = mset (log s) + (if b then {#e#} else {#})"
    and deleted: "ok s \<Longrightarrow> sa_deleteOpsBefore sa h s = (n, t) \<Longrightarrow>
      ok t \<and> log t = filter (\<lambda>e. h \<le> ol_hlc e) (log s) \<and> n = length (log s) - length (log t)
      \<and> sa_getMeta sa t = sa_getMeta sa s"
    and locked: "ok s \<Longrightarrow> sa_tryLock sa = Some f \<Longrightarrow> f k s = (b, t) \<Longrightarrow>
      ok t \<and> log t = log s \<and> sa_getMeta sa t = sa_getMeta sa s"
    and unlocked: "ok s \<Longrightarrow> sa_unlock sa = Some g \<Longrightarrow>
      ok (g k s) \<and> log (g k s) = log s \<and> sa_getMeta sa (g k s) = sa_getMeta sa s"
begin

lemma meta_read_back: "ok s \<Longrightarrow> sa_setMeta sa k v s = Some t \<Longrightarrow> sa_getMeta sa t k = Inr (Some v)"
  by (simp add: meta_set)

lemma delete_keeps_recent:
  "ok s \<Longrightarrow> sa_deleteOpsBefore sa h s = (n, t) \<Longrightarrow> e \<in> set (log s) \<Longrightarrow> h \<le> ol_hlc e \<Longrightarrow> e \<in> set (log t)"
  using deleted [of s h n t] by simp

end

section \<open>The room state as a storage\<close>

text \<open>\<open>applyOp\<close> of \<open>createObjectStorage\<close>: admission first, then the row and the op. The write-ahead
  log it also feeds does not change what the state holds. There is one writer, so no lock.\<close>

definition room_applyOp :: "WalRowMutation \<Rightarrow> OpLogEntry \<Rightarrow> RoomState \<Rightarrow> bool \<times> RoomState" where
  "room_applyOp m e s =
     (case assertCanAdmitApply m (Some e) s of
        (Inl err, t) \<Rightarrow> (False, t)
      | (Inr u, t) \<Rightarrow>
          (case applyRecord 0 (ApplyRecord m e) t of
             (Inl err, v) \<Rightarrow> (False, v)
           | (Inr u, v) \<Rightarrow> (True, v)))"

definition room_deleteOpsBefore :: "string \<Rightarrow> RoomState \<Rightarrow> nat \<times> RoomState" where
  "room_deleteOpsBefore h s =
     (case deleteOpsBefore h s of (Inl err, t) \<Rightarrow> (0, t) | (Inr n, t) \<Rightarrow> (n, t))"

definition room_storage :: "RoomState StorageAdapter" where
  "room_storage =
     \<lparr>sa_getMeta = (\<lambda>s k. Inr (getMeta s k)), sa_setMeta = (\<lambda>k v s. Some (setMeta k v s)),
      sa_applyOp = room_applyOp, sa_deleteOpsBefore = room_deleteOpsBefore,
      sa_tryLock = None, sa_unlock = None\<rparr>"

definition room_log :: "RoomState \<Rightarrow> OpLogEntry list" where
  "room_log s = map oe_entry (rs_ops s)"

lemma mset_insert_op: "mset (insert_op x ops) = add_mset x (mset ops)"
proof -
  have "mset ops = mset (take i ops) + mset (drop i ops)" for i
    by (metis append_take_drop_id mset_append)
  then show ?thesis by (simp add: insert_op_def Let_def)
qed

lemma put_ops: "state_putRow t r row cc h s = (x, s') \<Longrightarrow> rs_ops s' = rs_ops s"
  by (cases x) (auto simp: state_putRow_def Let_def effect_simps dest: addBytes_Inl split: option.splits)

lemma append_ops_Inr:
  "appendOp e s = (Inr x, s') \<Longrightarrow> mset (room_log s') = add_mset e (mset (room_log s))"
  by (auto simp: appendOp_def Let_def effect_simps room_log_def mset_insert_op)

lemma room_applied:
  assumes "room_applyOp m e s = (b, t)"
  shows "mset (room_log t) = mset (room_log s) + (if b then {#e#} else {#})"
    "state_inv s \<Longrightarrow> state_inv t"
proof -
  obtain x u where x: "assertCanAdmitApply m (Some e) s = (x, u)" by (cases "assertCanAdmitApply m (Some e) s")
  have u: "u = s" by (rule assertCanAdmit_keeps [OF x])
  have "mset (room_log t) = mset (room_log s) + (if b then {#e#} else {#}) \<and> (state_inv s \<longrightarrow> state_inv t)"
  proof (cases x)
    case Inr
    obtain y v where y: "applyRecord 0 (ApplyRecord m e) s = (y, v)" by (cases "applyRecord 0 (ApplyRecord m e) s")
    with assms x u Inr have t: "t = v" "b \<longleftrightarrow> (\<exists>z. y = Inr z)"
      by (auto simp: room_applyOp_def split: sum.splits)
    have ops: "room_log w = room_log s" if "put_mutation m s = (z, w)" for z w
      using put_ops that by (auto simp: put_mutation_def room_log_def)
    show ?thesis
    proof (cases y)
      case (Inl err)
      with y consider "put_mutation m s = (Inl err, v)"
        | w where "put_mutation m s = (Inr (), w)" "appendOp e w = (Inl err, v)"
        by (auto simp: applyRecord_def effect_simps)
      then show ?thesis
      proof cases
        case 1
        then have "v = s" by (auto simp: put_mutation_def dest: state_putRow_throws)
        with t Inl show ?thesis by simp
      next
        case 2
        then have "v = w" "room_log w = room_log s" "state_inv s \<Longrightarrow> state_inv w"
          using appendOp_throws ops state_putRow_inv by (auto simp: put_mutation_def)
        with t Inl show ?thesis by simp
      qed
    next
      case (Inr z)
      with y t show ?thesis using applyRecord_inv [of 0 "ApplyRecord m e" s z t]
        by (auto simp: applyRecord_def effect_simps dest!: ops append_ops_Inr)
    qed
  qed (use assms x u in \<open>auto simp: room_applyOp_def\<close>)
  then show "mset (room_log t) = mset (room_log s) + (if b then {#e#} else {#})"
    "state_inv s \<Longrightarrow> state_inv t" by blast+
qed

lemma deleteOpsBefore_returns:
  assumes "state_inv s"
  obtains t where "deleteOpsBefore h s = (Inr (indexBefore (rs_ops s) h), t)"
    "rs_ops t = drop (indexBefore (rs_ops s) h) (rs_ops s)" "rs_meta t = rs_meta s"
proof -
  let ?c = "indexBefore (rs_ops s) h"
  have "?c \<le> length (rs_ops s)" using assms
    by (auto simp: indexBefore_def bisect_takeWhile state_inv_def length_takeWhile_le intro: order_trans)
  moreover have "0 \<le> sum_list (map oe_bytes (take ?c (rs_ops s)))"
    using assms by (simp add: state_inv_def sized_def) (rule sum_list_nonneg, auto dest: in_set_takeD)
  ultimately show ?thesis
    by (intro that [of "snd (deleteOpsBefore h s)"])
      (auto simp: deleteOpsBefore_def Let_def and_then_def addBytes_refund)
qed

lemma room_deleted:
  assumes "state_inv s" "room_deleteOpsBefore h s = (n, t)"
  shows "state_inv t \<and> room_log t = filter (\<lambda>e. h \<le> ol_hlc e) (room_log s)
    \<and> n = length (room_log s) - length (room_log t) \<and> rs_meta t = rs_meta s"
proof -
  have sorted: "sorted (hlcs (rs_ops s))" using assms(1) by (simp add: state_inv_def)
  obtain u where u: "deleteOpsBefore h s = (Inr (indexBefore (rs_ops s) h), u)"
    "rs_ops u = drop (indexBefore (rs_ops s) h) (rs_ops s)" "rs_meta u = rs_meta s"
    by (rule deleteOpsBefore_returns [OF assms(1)])
  then have t: "t = u" "n = indexBefore (rs_ops s) h" using assms(2) by (simp_all add: room_deleteOpsBefore_def)
  have "indexBefore (rs_ops s) h \<le> length (rs_ops s)"
    by (auto simp: indexBefore_def bisect_takeWhile [OF sorted] length_takeWhile_le intro: order_trans)
  moreover from this have "n = length (rs_ops s) - length (rs_ops t)" using t u(2) by simp
  ultimately show ?thesis
    using deleteOpsBefore_inv [OF u(1) assms(1)] u t drop_indexBefore [OF sorted, of h]
    by (simp add: room_log_def filter_map comp_def op_hlc_def)
qed

interpretation room: storage room_storage room_log state_inv
proof
  fix s t :: RoomState and k v j
  assume "state_inv s" "sa_setMeta room_storage k v s = Some t"
  then show "state_inv t \<and> room_log t = room_log s
      \<and> sa_getMeta room_storage t j = (if j = k then Inr (Some v) else sa_getMeta room_storage s j)"
    by (auto simp: room_storage_def setMeta_def getMeta_def room_log_def jsmap.get_put)
next
  fix s t h n
  assume "state_inv s" "sa_deleteOpsBefore room_storage h s = (n, t)"
  then show "state_inv t \<and> room_log t = filter (\<lambda>e. h \<le> ol_hlc e) (room_log s)
      \<and> n = length (room_log s) - length (room_log t) \<and> sa_getMeta room_storage t = sa_getMeta room_storage s"
    using room_deleted [of s h n t] by (auto simp: room_storage_def getMeta_def)
qed (auto simp: room_storage_def dest: room_applied)

end
