(* ===== verification/Server_Clock.thy ===== *)
theory Server_Clock
  imports Storage
begin

text \<open>
  \<open>src/server/server-clock.ts\<close>: the server's hybrid logical clock and the watermark it persists.
  \<open>Date.now()\<close> is the argument \<open>wall\<close>; the persist timer is a flag, and \<open>timer_fires\<close> is its
  callback. The asynchronous read of \<open>ensureLoaded\<close> is one step: the clock's callers await it
  before they serve a message. A stored value that does not parse is an exception the source
  catches, so the clock stays as it is.
\<close>

section \<open>Definitions\<close>

definition SERVER_HLC_META_KEY :: string where
  "SERVER_HLC_META_KEY = ''serverHlcWatermark''"

definition HLC_PERSIST_INTERVAL_MS :: int where
  "HLC_PERSIST_INTERVAL_MS = 1000"

definition HLC_PERSIST_LEASE_MS :: int where
  "HLC_PERSIST_LEASE_MS = 5000"

record ServerClock =
  sc_hlc :: HLC
  sc_storage :: bool
  sc_loaded :: bool
  sc_persistTimer :: bool
  sc_persistPending :: bool

definition new_clock :: "string \<Rightarrow> ServerClock" where
  "new_clock nodeId = \<lparr>sc_hlc = createHlc nodeId, sc_storage = False, sc_loaded = False,
     sc_persistTimer = False, sc_persistPending = False\<rparr>"

definition merge_stored :: "int \<Rightarrow> unit + string option \<Rightarrow> ServerClock \<Rightarrow> ServerClock" where
  "merge_stored wall stored c =
     (case stored of
        Inr (Some s) \<Rightarrow>
          if s = [] then c
          else (case unpackHlc s of
                  Some remote \<Rightarrow> c\<lparr>sc_hlc := receiveHlc wall (sc_hlc c) remote\<rparr>
                | None \<Rightarrow> c)
      | _ \<Rightarrow> c)"

definition ensureLoaded :: "'s StorageAdapter \<Rightarrow> int \<Rightarrow> 's \<Rightarrow> ServerClock \<Rightarrow> ServerClock" where
  "ensureLoaded sa wall st c =
     (if \<not> sc_storage c \<or> sc_loaded c then c
      else merge_stored wall (sa_getMeta sa st SERVER_HLC_META_KEY) (c\<lparr>sc_loaded := True\<rparr>))"

definition setStorage :: "'s StorageAdapter \<Rightarrow> int \<Rightarrow> 's \<Rightarrow> ServerClock \<Rightarrow> ServerClock" where
  "setStorage sa wall st c = ensureLoaded sa wall st (c\<lparr>sc_storage := True, sc_loaded := False\<rparr>)"

definition refresh :: "'s StorageAdapter \<Rightarrow> int \<Rightarrow> 's \<Rightarrow> ServerClock \<Rightarrow> ServerClock" where
  "refresh sa wall st c =
     (if \<not> sc_storage c then c else merge_stored wall (sa_getMeta sa st SERVER_HLC_META_KEY) c)"

definition schedulePersist :: "ServerClock \<Rightarrow> ServerClock" where
  "schedulePersist c =
     (if \<not> sc_storage c then c else c\<lparr>sc_persistPending := True, sc_persistTimer := True\<rparr>)"

definition clock_stamp :: "int \<Rightarrow> ServerClock \<Rightarrow> string \<times> ServerClock" where
  "clock_stamp wall c =
     (let c' = schedulePersist (c\<lparr>sc_hlc := sendHlc wall (sc_hlc c)\<rparr>) in (packHlc (sc_hlc c'), c'))"

definition peekNext :: "int \<Rightarrow> ServerClock \<Rightarrow> string" where
  "peekNext wall c = packHlc (sendHlc wall (sc_hlc c))"

definition packed :: "ServerClock \<Rightarrow> string" where
  "packed c = packHlc (sc_hlc c)"

definition receive :: "int \<Rightarrow> string \<Rightarrow> ServerClock \<Rightarrow> ServerClock" where
  "receive wall packedRemote c =
     (case unpackHlc packedRemote of
        None \<Rightarrow> c
      | Some remote \<Rightarrow> schedulePersist (c\<lparr>sc_hlc := receiveHlc wall (sc_hlc c) remote\<rparr>))"

definition lease_of :: "HLC \<Rightarrow> HLC" where
  "lease_of h = \<lparr>hlc_ms = hlc_ms h + HLC_PERSIST_LEASE_MS, hlc_counter = 0, hlc_node = hlc_node h\<rparr>"

definition clock_flush :: "'s StorageAdapter \<Rightarrow> int \<Rightarrow> ServerClock \<times> 's \<Rightarrow> ServerClock \<times> 's" where
  "clock_flush sa wall cs =
     (let (c, st) = cs in
      if \<not> sc_storage c \<or> \<not> sc_persistPending c then (c, st)
      else let c' = refresh sa wall st (c\<lparr>sc_persistPending := False\<rparr>)
           in (c', (case sa_setMeta sa SERVER_HLC_META_KEY (packHlc (lease_of (sc_hlc c'))) st of
                      Some t \<Rightarrow> t | None \<Rightarrow> st)))"

definition timer_fires :: "'s StorageAdapter \<Rightarrow> int \<Rightarrow> ServerClock \<times> 's \<Rightarrow> ServerClock \<times> 's" where
  "timer_fires sa wall cs = clock_flush sa wall ((fst cs)\<lparr>sc_persistTimer := False\<rparr>, snd cs)"

definition clock_close :: "'s StorageAdapter \<Rightarrow> int \<Rightarrow> ServerClock \<times> 's \<Rightarrow> ServerClock \<times> 's" where
  "clock_close sa wall cs = clock_flush sa wall ((fst cs)\<lparr>sc_persistTimer := False\<rparr>, snd cs)"

section \<open>The clock under its operations\<close>

text \<open>The wall clock and the local one stay far inside the 19 digits of the padding.\<close>

definition tame :: "int \<Rightarrow> HLC \<Rightarrow> bool" where
  "tame wall h \<longleftrightarrow> 0 \<le> wall \<and> wall < 10 ^ 18 \<and> hlc_ms h < 10 ^ 18"

lemma merge_stored_simps [simp]:
  "sc_storage (merge_stored w r c) = sc_storage c" "sc_persistPending (merge_stored w r c) = sc_persistPending c"
  by (auto simp: merge_stored_def split: sum.splits option.splits)

lemma receive_ok:
  "hlc_ok h \<Longrightarrow> 0 \<le> hlc_counter r \<Longrightarrow> tame wall h \<Longrightarrow> hlc_ok (receiveHlc wall h r)"
  by (rule receiveHlc_ok) (auto simp: tame_def hlc_consts)

lemma refresh_stored:
  assumes "sc_storage c" "sa_getMeta sa st SERVER_HLC_META_KEY = Inr (Some (packHlc w))"
    and "hlc_ok w" "hlc_node w \<noteq> []"
  shows "refresh sa wall st c = c\<lparr>sc_hlc := receiveHlc wall (sc_hlc c) w\<rparr>"
  using assms unpack_pack [OF assms(3,4)]
  by (auto simp: refresh_def merge_stored_def packHlc_def)

lemma lease_ok: "hlc_ok h \<Longrightarrow> hlc_ms h < 10 ^ 18 + 10 ^ 17 \<Longrightarrow> hlc_ok (lease_of h)"
  by (simp add: hlc_ok_def lease_of_def hlc_consts HLC_PERSIST_LEASE_MS_def)

lemma lease_above: "hlc_ms h < hlc_ms g + HLC_PERSIST_LEASE_MS \<Longrightarrow> hlc_less h (lease_of g)"
  by (simp add: hlc_less_def lease_of_def)

context storage
begin

text \<open>A flush that reaches the store leaves the lease of the merged clock there, above the local
  clock and above any watermark that was not too far ahead to be followed.\<close>

lemma flush_leaves_lease:
  assumes "ok st" "sc_storage c" "sc_persistPending c" "clock_flush sa wall (c, st) = (c', st')"
    and "sa_setMeta sa SERVER_HLC_META_KEY (packHlc (lease_of (sc_hlc c'))) st \<noteq> None"
  shows "sa_getMeta sa st' SERVER_HLC_META_KEY = Inr (Some (packHlc (lease_of (sc_hlc c'))))" "ok st'"
    "c' = refresh sa wall st (c\<lparr>sc_persistPending := False\<rparr>)"
  using assms meta_set [OF assms(1)] by (auto simp: clock_flush_def Let_def split: option.splits)

lemma flush_exceeds_watermark:
  assumes "ok st" "sc_storage c" "sc_persistPending c" "clock_flush sa wall (c, st) = (c', st')"
    and stored: "sa_getMeta sa st SERVER_HLC_META_KEY = Inr (Some (packHlc w))" "hlc_ok w" "hlc_node w \<noteq> []"
    and near: "hlc_ms w \<le> wall + MAX_CLOCK_DRIFT_MS"
    and c: "hlc_ok (sc_hlc c)" "tame wall (sc_hlc c)"
    and set: "sa_setMeta sa SERVER_HLC_META_KEY (packHlc (lease_of (sc_hlc c'))) st \<noteq> None"
  shows "sa_getMeta sa st' SERVER_HLC_META_KEY = Inr (Some (packHlc (lease_of (sc_hlc c'))))"
    "packHlc w < packHlc (lease_of (sc_hlc c'))" "packed c < packHlc (lease_of (sc_hlc c'))"
    "hlc_ok (sc_hlc c')" "hlc_ok (lease_of (sc_hlc c'))"
proof -
  note f = flush_leaves_lease [OF assms(1-4) set]
  have c': "sc_hlc c' = receiveHlc wall (sc_hlc c) w"
    using f(3) refresh_stored [of "c\<lparr>sc_persistPending := False\<rparr>" sa st w wall] assms(2) stored by simp
  show ok': "hlc_ok (sc_hlc c')"
    unfolding c' using receive_ok [OF c(1) _ c(2)] stored(2) by (simp add: hlc_ok_def)
  have "hlc_ms (sc_hlc c') \<le> max (hlc_ms (sc_hlc c)) (wall + MAX_CLOCK_DRIFT_MS) + 1"
    by (auto simp: c' receiveHlc_def Let_def normalize_def hlc_consts)
  then have "hlc_ms (sc_hlc c') < 10 ^ 18 + 10 ^ 17" using c(2) by (auto simp: tame_def hlc_consts)
  then show okl: "hlc_ok (lease_of (sc_hlc c'))" by (rule lease_ok [OF ok'])
  have up: "hlc_less (sc_hlc c') (lease_of (sc_hlc c'))"
    by (rule lease_above) (simp add: HLC_PERSIST_LEASE_MS_def)
  have "hlc_less w (sc_hlc c')" unfolding c' by (rule receiveHlc_less_remote [OF near])
  then show "packHlc w < packHlc (lease_of (sc_hlc c'))"
    using packHlc_less [OF stored(2) okl] hlc_less_trans [OF _ up] by blast
  have "hlc_less (sc_hlc c) (sc_hlc c')" unfolding c' by (rule receiveHlc_less_local)
  then show "packed c < packHlc (lease_of (sc_hlc c'))"
    unfolding packed_def using packHlc_less [OF c(1) okl] hlc_less_trans [OF _ up] by blast
  show "sa_getMeta sa st' SERVER_HLC_META_KEY = Inr (Some (packHlc (lease_of (sc_hlc c'))))" by (rule f(1))
qed

end

text \<open>A clock that starts on a store with a watermark stamps above everything below the watermark.\<close>

lemma restart_above:
  assumes "sa_getMeta sa st SERVER_HLC_META_KEY = Inr (Some (packHlc w))" "hlc_ok w" "hlc_node w \<noteq> []"
    and "0 \<le> wall" "wall < 10 ^ 18" "hlc_ms w \<le> wall + MAX_CLOCK_DRIFT_MS"
    and "0 \<le> wall'" "wall' < 10 ^ 18"
  shows "packHlc w < fst (clock_stamp wall' (setStorage sa wall st (new_clock node)))"
proof -
  let ?h = "createHlc node" and ?c = "setStorage sa wall st (new_clock node)"
  have h: "hlc_ok ?h" "tame wall ?h" using assms(4,5) by (simp_all add: createHlc_def hlc_ok_def hlc_consts tame_def)
  have c: "sc_hlc ?c = receiveHlc wall ?h w"
    using assms(1) unpack_pack [OF assms(2,3)]
    by (simp add: setStorage_def ensureLoaded_def merge_stored_def new_clock_def packHlc_def)
  have ok: "hlc_ok (sc_hlc ?c)"
    unfolding c using receive_ok [OF h(1) _ h(2)] assms(2) by (simp add: hlc_ok_def)
  have "hlc_ms (sc_hlc ?c) \<le> wall + MAX_CLOCK_DRIFT_MS + 1"
    using assms(4) by (auto simp: c receiveHlc_def Let_def normalize_def createHlc_def hlc_consts)
  then have "hlc_room wall' (sc_hlc ?c)" using assms(5,8) by (simp add: hlc_room_def hlc_consts)
  then have s: "packHlc (sc_hlc ?c) < packHlc (sendHlc wall' (sc_hlc ?c))" by (rule hlc.tick_less [OF ok])
  have "hlc_less w (sc_hlc ?c)" unfolding c by (rule receiveHlc_less_remote [OF assms(6)])
  then have "packHlc w < packHlc (sc_hlc ?c)" using packHlc_less [OF assms(2) ok] by simp
  also note s
  also have "packHlc (sendHlc wall' (sc_hlc ?c)) = fst (clock_stamp wall' ?c)"
    by (simp add: clock_stamp_def Let_def schedulePersist_def)
  finally show ?thesis .
qed

lemma receive_node: "hlc_node (receiveHlc wall h r) = hlc_node h"
  by (simp add: receiveHlc_def Let_def normalize_def)

section \<open>Properties\<close>

text \<open>C26: A crash never makes the server's stamps regress. The store is a room whose watermark is
  \<open>w\<close>. A flush replaces it by a greater one. After it the server stamps on and crashes; every
  stamp it handed out before the flush, and any later one less than five seconds ahead of the
  clock it flushed, is smaller than the first stamp of the process that restarts on that store,
  even if that wall clock went back, by up to the allowed drift.\<close>

theorem restart_stamps_above_the_lease:
  assumes "state_inv st" "sc_storage c" "sc_persistPending c" "clock_flush room_storage wall (c, st) = (c', st')"
    and "getMeta st SERVER_HLC_META_KEY = Some (packHlc w)" "hlc_ok w" "hlc_node w \<noteq> []"
    and "hlc_ms w \<le> wall + MAX_CLOCK_DRIFT_MS" "hlc_ok (sc_hlc c)" "tame wall (sc_hlc c)" "hlc_node (sc_hlc c) \<noteq> []"
    and later: "hlc_ok h" "hlc_ms h < hlc_ms (sc_hlc c') + HLC_PERSIST_LEASE_MS"
    and restart: "0 \<le> wall2" "wall2 < 10 ^ 18" "0 \<le> wall3" "wall3 < 10 ^ 18"
      "hlc_ms (sc_hlc c') + HLC_PERSIST_LEASE_MS \<le> wall2 + MAX_CLOCK_DRIFT_MS"
  shows "getMeta st' SERVER_HLC_META_KEY = Some (packHlc (lease_of (sc_hlc c')))
    \<and> packHlc w < packHlc (lease_of (sc_hlc c'))
    \<and> packed c < fst (clock_stamp wall3 (setStorage room_storage wall2 st' (new_clock node)))
    \<and> packHlc h < fst (clock_stamp wall3 (setStorage room_storage wall2 st' (new_clock node)))"
proof -
  have meta: "sa_getMeta room_storage s k = Inr (getMeta s k)" for s k by (simp add: room_storage_def)
  have set: "sa_setMeta room_storage SERVER_HLC_META_KEY (packHlc (lease_of (sc_hlc c'))) st \<noteq> None"
    by (simp add: room_storage_def)
  have w: "sa_getMeta room_storage st SERVER_HLC_META_KEY = Inr (Some (packHlc w))" using assms(5) by (simp add: meta)
  note f = room.flush_exceeds_watermark [OF assms(1-4) w assms(6-10) set]
  have "c' = refresh room_storage wall st (c\<lparr>sc_persistPending := False\<rparr>)"
    by (rule room.flush_leaves_lease(3) [OF assms(1-4) set])
  then have "hlc_node (sc_hlc c') = hlc_node (sc_hlc c)"
    using refresh_stored [OF _ w assms(6,7), of "c\<lparr>sc_persistPending := False\<rparr>" wall] assms(2)
    by (simp add: receive_node)
  then have node: "hlc_node (lease_of (sc_hlc c')) \<noteq> []" using assms(11) by (simp add: lease_of_def)
  have near: "hlc_ms (lease_of (sc_hlc c')) \<le> wall2 + MAX_CLOCK_DRIFT_MS"
    using assms(18) by (simp add: lease_of_def)
  note r = restart_above [OF f(1,5) node assms(14,15) near assms(16,17), of node]
  have "packHlc h < packHlc (lease_of (sc_hlc c'))"
    using packHlc_less [OF later(1) f(5)] lease_above [OF later(2)] by simp
  with f r show ?thesis by (auto simp: meta dest: less_trans)
qed

definition sample_clock :: ServerClock where
  "sample_clock = \<lparr>sc_hlc = \<lparr>hlc_ms = 100000, hlc_counter = 7, hlc_node = ''srv''\<rparr>, sc_storage = True,
     sc_loaded = True, sc_persistTimer = True, sc_persistPending = True\<rparr>"

definition sample_watermark :: HLC where
  "sample_watermark = \<lparr>hlc_ms = 99000, hlc_counter = 0, hlc_node = ''srv''\<rparr>"

definition clock_room :: RoomState where
  "clock_room = setMeta SERVER_HLC_META_KEY (packHlc sample_watermark)
     (new_room_state \<lparr>mc_maxTotalBytes = None, mc_maxRoomBytes = None, mc_onExceeded = RejectPolicy,
        mc_idleEvictMs = 0\<rparr> new_budget)"

lemma sample_store_inv: "state_inv clock_room"
  unfolding clock_room_def setMeta_def
  by (simp, rule new_state_inv) (simp_all add: new_budget_def exceeds_def)

lemma sample_flushed:
  "sc_hlc (fst (clock_flush room_storage 100500 (sample_clock, clock_room)))
     = \<lparr>hlc_ms = 100500, hlc_counter = 0, hlc_node = ''srv''\<rparr>"
proof -
  have "refresh room_storage 100500 clock_room (sample_clock\<lparr>sc_persistPending := False\<rparr>)
      = sample_clock\<lparr>sc_persistPending := False, sc_hlc := receiveHlc 100500 (sc_hlc sample_clock) sample_watermark\<rparr>"
    by (subst refresh_stored [where w = sample_watermark])
      (simp_all add: sample_clock_def clock_room_def room_storage_def getMeta_def setMeta_def
        new_room_state_def sample_watermark_def hlc_ok_def hlc_consts)
  then show ?thesis
    by (simp add: clock_flush_def Let_def sample_clock_def receiveHlc_def normalize_def sample_watermark_def hlc_consts)
qed

theorem restart_stamps_above_the_lease_witness:
  "packHlc \<lparr>hlc_ms = 105000, hlc_counter = 3, hlc_node = ''srv''\<rparr>
     < fst (clock_stamp 60000 (setStorage room_storage 50000 (snd (clock_flush room_storage 100500 (sample_clock, clock_room)))
         (new_clock ''srv'')))"
  using restart_stamps_above_the_lease [OF sample_store_inv, of sample_clock 100500
      "fst (clock_flush room_storage 100500 (sample_clock, clock_room))"
      "snd (clock_flush room_storage 100500 (sample_clock, clock_room))" sample_watermark
      "\<lparr>hlc_ms = 105000, hlc_counter = 3, hlc_node = ''srv''\<rparr>" 50000 60000 "''srv''"]
  by (simp add: sample_flushed)
    (simp add: sample_clock_def sample_watermark_def clock_room_def getMeta_def setMeta_def new_room_state_def
      hlc_ok_def hlc_consts tame_def HLC_PERSIST_LEASE_MS_def)

text \<open>The lease covers the stamps of the wall clock, not the jump of a received clock: an accepted
  remote clock may be five minutes ahead, and a stamp after it, in the second before the next
  flush, is above what a restarted process stamps.\<close>

lemma receive_packed:
  "hlc_ok r \<Longrightarrow> hlc_node r \<noteq> [] \<Longrightarrow>
     receive wall (packHlc r) c = schedulePersist (c\<lparr>sc_hlc := receiveHlc wall (sc_hlc c) r\<rparr>)"
  by (simp add: receive_def unpack_pack)

lemma setStorage_stored:
  assumes "sa_getMeta sa st SERVER_HLC_META_KEY = Inr (Some (packHlc w))" "hlc_ok w" "hlc_node w \<noteq> []"
  shows "sc_hlc (setStorage sa wall st (new_clock node)) = receiveHlc wall (createHlc node) w"
  using assms(1) unpack_pack [OF assms(2,3)]
  by (simp add: setStorage_def ensureLoaded_def merge_stored_def new_clock_def packHlc_def)

lemma received_jump_outruns_the_lease:
  defines "flushed \<equiv> clock_flush room_storage 100500 (sample_clock, clock_room)"
  defines "remote \<equiv> \<lparr>hlc_ms = 300000, hlc_counter = 0, hlc_node = ''x''\<rparr>"
  shows "fst (clock_stamp 101000 (setStorage room_storage 101000 (snd flushed) (new_clock ''srv'')))
    < fst (clock_stamp 100600 (receive 100600 (packHlc remote) (fst flushed)))"
proof -
  have c: "sc_hlc (fst flushed) = \<lparr>hlc_ms = 100500, hlc_counter = 0, hlc_node = ''srv''\<rparr>"
    unfolding flushed_def by (rule sample_flushed)
  have "snd flushed = setMeta SERVER_HLC_META_KEY (packHlc (lease_of (sc_hlc (fst flushed)))) clock_room"
    by (simp add: flushed_def clock_flush_def Let_def sample_clock_def room_storage_def)
  then have st: "sa_getMeta room_storage (snd flushed) SERVER_HLC_META_KEY
      = Inr (Some (packHlc \<lparr>hlc_ms = 105500, hlc_counter = 0, hlc_node = ''srv''\<rparr>))"
    by (simp add: room_storage_def getMeta_def setMeta_def c lease_of_def HLC_PERSIST_LEASE_MS_def jsmap.get_put)
  have r: "sc_hlc (setStorage room_storage 101000 (snd flushed) (new_clock ''srv''))
      = \<lparr>hlc_ms = 105500, hlc_counter = 1, hlc_node = ''srv''\<rparr>"
    by (subst setStorage_stored [OF st])
      (simp_all add: hlc_ok_def hlc_consts receiveHlc_def createHlc_def normalize_def)
  have "fst (clock_stamp 100600 (receive 100600 (packHlc remote) (fst flushed)))
      = packHlc \<lparr>hlc_ms = 300000, hlc_counter = 2, hlc_node = ''srv''\<rparr>"
    unfolding remote_def
    by (subst receive_packed)
      (simp_all add: clock_stamp_def Let_def schedulePersist_def c hlc_ok_def hlc_consts receiveHlc_def sendHlc_def normalize_def)
  moreover have "fst (clock_stamp 101000 (setStorage room_storage 101000 (snd flushed) (new_clock ''srv'')))
      = packHlc \<lparr>hlc_ms = 105500, hlc_counter = 2, hlc_node = ''srv''\<rparr>"
    by (simp add: clock_stamp_def Let_def schedulePersist_def r hlc_consts sendHlc_def normalize_def)
  ultimately show ?thesis by (simp add: packHlc_less hlc_ok_def hlc_consts hlc_less_def)
qed

end
