(* ===== verification/Compaction.thy ===== *)
theory Compaction
  imports Storage
begin

text \<open>
  \<open>src/server/compaction-manager.ts\<close>: trimming the op log behind a cutoff that only moves
  forward. \<open>Date.now()\<close> is the argument \<open>now\<close>; \<open>emit\<close> is a list of the numbers its events
  carry. A rejected storage call of the source ends the run; here the calls the compaction makes
  succeed, but for \<open>setMeta\<close>, whose failure stops the run before anything is deleted.
\<close>

section \<open>Definitions\<close>

definition MIN_COMPACTION_AGE_MS :: int where
  "MIN_COMPACTION_AGE_MS = 30000"

record CompactionManager =
  cm_cutoffHlc :: "string option"
  cm_cutoffLoaded :: bool
  cm_storage :: bool

definition new_compaction :: "bool \<Rightarrow> CompactionManager" where
  "new_compaction has_storage = \<lparr>cm_cutoffHlc = None, cm_cutoffLoaded = False, cm_storage = has_storage\<rparr>"

definition getCutoff :: "CompactionManager \<Rightarrow> string option" where
  "getCutoff cm = cm_cutoffHlc cm"

definition COMPACTION_CUTOFF :: string where
  "COMPACTION_CUTOFF = ''compactionCutoff''"

definition ensureCutoffLoaded :: "'s StorageAdapter \<Rightarrow> 's \<Rightarrow> CompactionManager \<Rightarrow> CompactionManager" where
  "ensureCutoffLoaded sa st cm =
     (if cm_cutoffLoaded cm \<or> \<not> cm_storage cm then cm
      else let cm' = cm\<lparr>cm_cutoffLoaded := True\<rparr>
           in case sa_getMeta sa st COMPACTION_CUTOFF of
                Inr (Some cutoff) \<Rightarrow> if cutoff = [] then cm' else cm'\<lparr>cm_cutoffHlc := Some cutoff\<rparr>
              | _ \<Rightarrow> cm')"

definition cutoff_at :: "int \<Rightarrow> string" where
  "cutoff_at m = pad_start 19 (int_str m) @ ''.9999.compaction''"

definition lock_for :: "'s StorageAdapter \<Rightarrow> string \<Rightarrow> 's \<Rightarrow> bool \<times> 's" where
  "lock_for sa k st = (case sa_tryLock sa of None \<Rightarrow> (True, st) | Some f \<Rightarrow> f k st)"

definition unlock_for :: "'s StorageAdapter \<Rightarrow> string \<Rightarrow> 's \<Rightarrow> 's" where
  "unlock_for sa k st = (case sa_unlock sa of None \<Rightarrow> st | Some g \<Rightarrow> g k st)"

text \<open>The body of the \<open>try\<close>: the number of ops deleted, what was emitted, and both states.\<close>

definition compact_locked ::
  "'s StorageAdapter \<Rightarrow> int \<Rightarrow> int \<Rightarrow> CompactionManager \<Rightarrow> 's \<Rightarrow> nat \<times> nat list \<times> CompactionManager \<times> 's" where
  "compact_locked sa now safeMinAge cm st =
     (let cm1 = ensureCutoffLoaded sa st cm;
          cutoffHlc = cutoff_at (now - safeMinAge)
      in if (case cm_cutoffHlc cm1 of None \<Rightarrow> False | Some c \<Rightarrow> c \<noteq> [] \<and> cutoffHlc \<le> c)
         then (0, [0], cm1, st)
         else let cm2 = cm1\<lparr>cm_cutoffHlc := Some cutoffHlc\<rparr>
              in case sa_setMeta sa COMPACTION_CUTOFF cutoffHlc st of
                   None \<Rightarrow> (0, [], cm2, st)
                 | Some st1 \<Rightarrow>
                     (let (deleted, st2) = sa_deleteOpsBefore sa cutoffHlc st1
                      in (deleted, if 0 < deleted then [deleted] else [], cm2, st2)))"

definition runCompaction ::
  "'s StorageAdapter \<Rightarrow> int \<Rightarrow> int \<Rightarrow> CompactionManager \<Rightarrow> 's \<Rightarrow> nat \<times> nat list \<times> CompactionManager \<times> 's" where
  "runCompaction sa now minOpAge cm st =
     (if \<not> cm_storage cm then (0, [], cm, st)
      else let safeMinAge = max minOpAge MIN_COMPACTION_AGE_MS;
               (acquired, st1) = lock_for sa ''compaction'' st
           in if \<not> acquired then (0, [0], cm, st1)
              else let (n, events, cm', st2) = compact_locked sa now safeMinAge cm st1
                   in (n, events, cm', unlock_for sa ''compaction'' st2))"

section \<open>The cutoff\<close>

definition cutoff_clock :: "int \<Rightarrow> HLC" where
  "cutoff_clock m = \<lparr>hlc_ms = m, hlc_counter = COUNTER_MAX, hlc_node = ''compaction''\<rparr>"

lemma cutoff_at_packed: "cutoff_at m = packHlc (cutoff_clock m)"
proof -
  have "pad_start COUNTER_PAD (int_str COUNTER_MAX) = ''9999''"
    by (simp add: pad_start_def COUNTER_PAD_def COUNTER_MAX_def int_str_def nat_str.simps digit_chars)
  then show ?thesis by (simp add: cutoff_at_def packHlc_def cutoff_clock_def MS_PAD_def)
qed

lemma cutoff_clock_ok: "0 \<le> m \<Longrightarrow> m < 10 ^ 18 \<Longrightarrow> hlc_ok (cutoff_clock m)"
  by (simp add: hlc_ok_def cutoff_clock_def hlc_consts)

text \<open>An op younger than the age the run honours is above its cutoff.\<close>

lemma recent_above_cutoff:
  assumes "hlc_ok h" "m < hlc_ms h" "0 \<le> m" "m < 10 ^ 18"
  shows "cutoff_at m < packHlc h"
  using packHlc_less [OF cutoff_clock_ok [OF assms(3,4)] assms(1)] assms(2)
  by (simp add: cutoff_at_packed hlc_less_def cutoff_clock_def)

text \<open>The cutoff the manager goes by, once it has read the store's.\<close>

definition cutoff_of :: "'s StorageAdapter \<Rightarrow> 's \<Rightarrow> CompactionManager \<Rightarrow> string" where
  "cutoff_of sa st cm = (case cm_cutoffHlc (ensureCutoffLoaded sa st cm) of None \<Rightarrow> [] | Some c \<Rightarrow> c)"

lemma cutoff_of_loaded:
  "cm_cutoffLoaded cm \<Longrightarrow> cutoff_of sa st cm = (case cm_cutoffHlc cm of None \<Rightarrow> [] | Some c \<Rightarrow> c)"
  by (simp add: cutoff_of_def ensureCutoffLoaded_def)

lemma loaded_after: "cm_storage cm \<Longrightarrow> cm_cutoffLoaded (ensureCutoffLoaded sa st cm)"
  by (auto simp: ensureCutoffLoaded_def Let_def split: sum.splits option.splits)

lemma cutoff_nonempty: "cutoff_at m \<noteq> []"
  by (simp add: cutoff_at_def)

context storage
begin

lemma lock_keeps:
  assumes "ok st" "lock_for sa k st = (b, st')"
  shows "ok st' \<and> log st' = log st \<and> sa_getMeta sa st' = sa_getMeta sa st"
proof (cases "sa_tryLock sa")
  case (Some f)
  then show ?thesis using assms locked [OF assms(1) Some, of k b st'] by (simp add: lock_for_def)
qed (use assms in \<open>simp add: lock_for_def\<close>)

lemma unlock_keeps: "ok st \<Longrightarrow> ok (unlock_for sa k st) \<and> log (unlock_for sa k st) = log st"
  by (cases "sa_unlock sa") (auto simp: unlock_for_def unlocked)

lemma compact_locked_result:
  assumes "ok st" "compact_locked sa now age cm st = (n, events, cm', st')" "cm_storage cm"
  shows "ok st' \<and> cm_cutoffLoaded cm' \<and> cutoff_of sa st cm \<le> cutoff_of sa st' cm'
    \<and> ((n = 0 \<and> log st' = log st)
       \<or> (cutoff_of sa st' cm' = cutoff_at (now - age)
          \<and> log st' = filter (\<lambda>e. cutoff_at (now - age) \<le> ol_hlc e) (log st)
          \<and> n = length (log st) - length (log st')))"
proof -
  let ?cm1 = "ensureCutoffLoaded sa st cm" and ?h = "cutoff_at (now - age)"
  have loaded: "cm_cutoffLoaded ?cm1" by (rule loaded_after [OF assms(3)])
  show ?thesis
  proof (cases "case cm_cutoffHlc ?cm1 of None \<Rightarrow> False | Some c \<Rightarrow> c \<noteq> [] \<and> ?h \<le> c")
    case True
    then have "n = 0" "cm' = ?cm1" "st' = st" using assms(2) by (auto simp: compact_locked_def Let_def)
    then show ?thesis using assms(1) loaded
      by (simp add: cutoff_of_loaded [OF loaded] cutoff_of_def [of _ _ cm])
  next
    case False
    then have up: "cutoff_of sa st cm \<le> ?h"
      by (auto simp: cutoff_of_def split: option.splits)
    let ?cm2 = "?cm1\<lparr>cm_cutoffHlc := Some ?h\<rparr>"
    have new: "cutoff_of sa s ?cm2 = ?h" for s
      using loaded by (simp add: cutoff_of_loaded)
    show ?thesis
    proof (cases "sa_setMeta sa COMPACTION_CUTOFF ?h st")
      case None
      then show ?thesis using False assms(1,2) up new loaded by (auto simp: compact_locked_def Let_def)
    next
      case (Some st1)
      obtain d st2 where d: "sa_deleteOpsBefore sa ?h st1 = (d, st2)" by (cases "sa_deleteOpsBefore sa ?h st1")
      have m: "ok st1 \<and> log st1 = log st" using meta_set [OF assms(1) Some] by blast
      then have "ok st2 \<and> log st2 = filter (\<lambda>e. ?h \<le> ol_hlc e) (log st) \<and> d = length (log st) - length (log st2)"
        using deleted [OF _ d] by simp
      then show ?thesis using False assms(2) Some d up new loaded by (auto simp: compact_locked_def Let_def)
    qed
  qed
qed

lemma runCompaction_result:
  assumes "ok st" "runCompaction sa now age cm st = (n, events, cm', st')"
  shows "ok st' \<and> cutoff_of sa st cm \<le> cutoff_of sa st' cm'
    \<and> set (log st') \<subseteq> set (log st) \<and> n = length (log st) - length (log st')
    \<and> (\<forall>e \<in> set (log st). cutoff_at (now - max age MIN_COMPACTION_AGE_MS) \<le> ol_hlc e \<longrightarrow> e \<in> set (log st'))
    \<and> (\<forall>e \<in> set (log st) - set (log st'). ol_hlc e < cutoff_of sa st' cm')"
proof (cases "cm_storage cm")
  case False
  then show ?thesis using assms by (simp add: runCompaction_def ensureCutoffLoaded_def)
next
  case True
  obtain b st1 where l: "lock_for sa ''compaction'' st = (b, st1)" by (cases "lock_for sa ''compaction'' st")
  have st1: "ok st1" "log st1 = log st" "sa_getMeta sa st1 = sa_getMeta sa st" using lock_keeps [OF assms(1) l] by simp_all
  have same: "cutoff_of sa st1 x = cutoff_of sa st x" for x
    by (simp add: cutoff_of_def ensureCutoffLoaded_def st1(3))
  show ?thesis
  proof (cases b)
    case False
    then show ?thesis using True l assms st1 same by (simp add: runCompaction_def Let_def)
  next
    case b: True
    obtain cmx st2 where c: "compact_locked sa now (max age MIN_COMPACTION_AGE_MS) cm st1 = (n, events, cmx, st2)"
      and e: "cm' = cmx" "st' = unlock_for sa ''compaction'' st2"
      using True l b assms(2) by (auto simp: runCompaction_def Let_def split: prod.splits)
    note r = compact_locked_result [OF st1(1) c True]
    have loaded: "cm_cutoffLoaded cmx" using r by blast
    have u: "ok st'" "log st' = log st2" "cutoff_of sa st' cmx = cutoff_of sa st2 cmx"
      using unlock_keeps [of st2] r e(2) by (simp_all add: cutoff_of_loaded [OF loaded])
    show ?thesis using r by (auto simp: u e(1) same st1(2) simp flip: not_le)
  qed
qed

end

section \<open>Properties\<close>

text \<open>C27: Compaction is monotone and never touches young ops. Whatever age is asked for, a run keeps every
  op stamped less than thirty seconds ago (and less than that age), deletes only ops below the
  cutoff it leaves, reports their number, and never moves the cutoff back.\<close>

theorem compaction_keeps_young_ops:
  assumes "state_inv st" "runCompaction room_storage now age cm st = (n, events, cm', st')"
    and "max age MIN_COMPACTION_AGE_MS \<le> now" "now - max age MIN_COMPACTION_AGE_MS < 10 ^ 18"
  shows "(\<forall>e \<in> set (room_log st). (\<exists>h. ol_hlc e = packHlc h \<and> hlc_ok h
             \<and> now - max age MIN_COMPACTION_AGE_MS < hlc_ms h) \<longrightarrow> e \<in> set (room_log st'))
    \<and> (\<forall>e \<in> set (room_log st) - set (room_log st'). ol_hlc e < cutoff_of room_storage st' cm')
    \<and> set (room_log st') \<subseteq> set (room_log st) \<and> n = length (room_log st) - length (room_log st')
    \<and> cutoff_of room_storage st cm \<le> cutoff_of room_storage st' cm'"
proof -
  note r = room.runCompaction_result [OF assms(1,2)]
  have "e \<in> set (room_log st')"
    if "e \<in> set (room_log st)" "ol_hlc e = packHlc h" "hlc_ok h" "now - max age MIN_COMPACTION_AGE_MS < hlc_ms h" for e h
    using r that recent_above_cutoff [OF that(3,4) _ assms(4)] assms(3) by (simp add: less_imp_le)
  with r show ?thesis by blast
qed

definition log_entry :: "string \<Rightarrow> OpLogEntry" where
  "log_entry h = \<lparr>ol_table = ''t'', ol_op = ''insert'', ol_rowId = ''a'', ol_payload = None, ol_hlc = h, ol_colClocks = []\<rparr>"

definition aged_log :: RoomState where
  "aged_log = snd (applyRecords 0 [OpRecord (log_entry ''0000000000000001000.0000.n''),
     OpRecord (log_entry ''0000000000000090000.0000.n'')]
     (new_room_state \<lparr>mc_maxTotalBytes = None, mc_maxRoomBytes = None, mc_onExceeded = RejectPolicy,
        mc_idleEvictMs = 0\<rparr> new_budget))"

lemma aged_log_inv: "state_inv aged_log"
  unfolding aged_log_def
  by (rule applyRecords_inv [OF returns_pair new_state_inv]) (code_simp, simp_all add: new_budget_def exceeds_def)

lemma aged_stamp: "''0000000000000090000.0000.n'' = packHlc \<lparr>hlc_ms = 90000, hlc_counter = 0, hlc_node = ''n''\<rparr>"
proof -
  have "pad_start 19 ''90000'' = ''0000000000000090000''" "pad_start 4 ''0'' = ''0000''" by code_simp+
  moreover have "int_str 90000 = ''90000''" "int_str 0 = ''0''"
    by (simp_all add: int_str_def nat_str.simps digit_chars)
  ultimately show ?thesis by (simp add: packHlc_def hlc_consts)
qed

theorem compaction_keeps_young_ops_witness:
  "log_entry ''0000000000000090000.0000.n''
     \<in> set (room_log (snd (snd (snd (runCompaction room_storage 100000 0 (new_compaction True) aged_log)))))"
proof -
  let ?r = "runCompaction room_storage 100000 0 (new_compaction True) aged_log"
  let ?e = "log_entry ''0000000000000090000.0000.n''"
  have r: "?r = (fst ?r, fst (snd ?r), fst (snd (snd ?r)), snd (snd (snd ?r)))" by simp
  have in_log: "?e \<in> set (room_log aged_log)" by code_simp
  have age: "max 0 MIN_COMPACTION_AGE_MS \<le> 100000" "100000 - max 0 MIN_COMPACTION_AGE_MS < 10 ^ 18"
    by (simp_all add: MIN_COMPACTION_AGE_MS_def)
  have "\<exists>h. ol_hlc ?e = packHlc h \<and> hlc_ok h \<and> 100000 - max 0 MIN_COMPACTION_AGE_MS < hlc_ms h"
    by (rule exI [where x = "\<lparr>hlc_ms = 90000, hlc_counter = 0, hlc_node = ''n''\<rparr>"])
      (simp add: log_entry_def aged_stamp MIN_COMPACTION_AGE_MS_def hlc_ok_def hlc_consts)
  then show ?thesis using compaction_keeps_young_ops [OF aged_log_inv r age] in_log by blast
qed

end
