(* ===== verification/Eager_Buffer.thy ===== *)
theory Eager_Buffer
  imports Storage
begin

text \<open>
  \<open>src/server/eager-buffer.ts\<close>: ops acknowledged before they are durable, kept per query until a
  periodic flush writes them. The timer is a flag with its interval. While a flush awaits the
  writes of one buffer, other ops may be pushed: they are an argument, one list of pushes for
  each buffer that is awaited. The writes of one buffer are started together; they are
  run here in the order they are started.
\<close>

section \<open>Definitions\<close>

text \<open>\<open>row\<close> is optional, and a row may be null.\<close>

record BufferedOp =
  bo_entry :: OpLogEntry
  bo_row :: "row option option"

definition DEFAULT_FLUSH_INTERVAL :: int where
  "DEFAULT_FLUSH_INTERVAL = 200"

definition DEFAULT_MAX_BUFFER_SIZE :: nat where
  "DEFAULT_MAX_BUFFER_SIZE = 1000"

record EagerBuffer =
  eb_buffers :: "(string, BufferedOp list) jsmap"
  eb_flushInterval :: int
  eb_maxBufferSize :: nat
  eb_timer :: bool
  eb_storage :: bool

definition new_buffer :: "int option \<Rightarrow> nat option \<Rightarrow> EagerBuffer" where
  "new_buffer interval maxSize =
     \<lparr>eb_buffers = [],
      eb_flushInterval = (case interval of Some i \<Rightarrow> i | None \<Rightarrow> DEFAULT_FLUSH_INTERVAL),
      eb_maxBufferSize = (case maxSize of Some n \<Rightarrow> n | None \<Rightarrow> DEFAULT_MAX_BUFFER_SIZE),
      eb_timer = False, eb_storage = False\<rparr>"

definition start :: "int option \<Rightarrow> EagerBuffer \<Rightarrow> EagerBuffer" where
  "start interval b =
     (let requested = (case interval of Some i \<Rightarrow> i | None \<Rightarrow> eb_flushInterval b);
          newInterval = max 1 (min (eb_flushInterval b) requested)
      in if eb_timer b
         then (if newInterval < eb_flushInterval b then b\<lparr>eb_flushInterval := newInterval\<rparr> else b)
         else b\<lparr>eb_flushInterval := newInterval, eb_timer := True\<rparr>)"

definition limit_of :: "EagerBuffer \<Rightarrow> nat option \<Rightarrow> nat" where
  "limit_of b maxSize = (case maxSize of Some n \<Rightarrow> n | None \<Rightarrow> eb_maxBufferSize b)"

definition hasCapacity :: "EagerBuffer \<Rightarrow> string \<Rightarrow> nat option \<Rightarrow> bool" where
  "hasCapacity b q maxSize =
     (case map_get (eb_buffers b) q of None \<Rightarrow> True | Some ops \<Rightarrow> length ops < limit_of b maxSize)"

definition queued :: "EagerBuffer \<Rightarrow> string \<Rightarrow> BufferedOp list" where
  "queued b q = (case map_get (eb_buffers b) q of None \<Rightarrow> [] | Some ops \<Rightarrow> ops)"

definition push :: "string \<Rightarrow> BufferedOp \<Rightarrow> nat option \<Rightarrow> EagerBuffer \<Rightarrow> bool \<times> EagerBuffer" where
  "push q op maxSize b =
     (let ops = queued b q;
          b' = b\<lparr>eb_buffers := map_set q ops (eb_buffers b)\<rparr>
      in if limit_of b maxSize \<le> length ops then (False, b')
         else (True, b\<lparr>eb_buffers := map_set q (ops @ [op]) (eb_buffers b)\<rparr>))"

text \<open>What \<open>applyOp\<close> is called with.\<close>

definition mutation_of :: "BufferedOp \<Rightarrow> WalRowMutation" where
  "mutation_of op =
     \<lparr>wm_table = ol_table (bo_entry op), wm_rowId = ol_rowId (bo_entry op),
      wm_row = (case bo_row op of Some r \<Rightarrow> r | None \<Rightarrow> ol_payload (bo_entry op)),
      wm_colClocks = ol_colClocks (bo_entry op), wm_hlc = ol_hlc (bo_entry op)\<rparr>"

fun persist :: "'s StorageAdapter \<Rightarrow> BufferedOp list \<Rightarrow> 's \<Rightarrow> bool list \<times> 's" where
  "persist sa [] st = ([], st)"
| "persist sa (op # ops) st =
     (let (fulfilled, st1) = sa_applyOp sa (mutation_of op) (bo_entry op) st;
          (results, st2) = persist sa ops st1
      in (fulfilled # results, st2))"

text \<open>A push that arrives: the query, the op and its limit. The accepted ones are returned too.\<close>

type_synonym arrival = "string \<times> BufferedOp \<times> nat option"

fun push_all :: "arrival list \<Rightarrow> EagerBuffer \<Rightarrow> BufferedOp list \<times> EagerBuffer" where
  "push_all [] b = ([], b)"
| "push_all ((q, op, maxSize) # as) b =
     (let (accepted, b1) = push q op maxSize b;
          (acc, b2) = push_all as b1
      in (if accepted then op # acc else acc, b2))"

definition drain :: "string \<Rightarrow> EagerBuffer \<Rightarrow> EagerBuffer" where
  "drain q b = b\<lparr>eb_buffers := map_set q [] (eb_buffers b)\<rparr>"

definition requeue :: "string \<Rightarrow> BufferedOp list \<Rightarrow> EagerBuffer \<Rightarrow> EagerBuffer" where
  "requeue q failed b = b\<lparr>eb_buffers := map_set q (failed @ queued b q) (eb_buffers b)\<rparr>"

text \<open>A push adds at most one buffer, so the loop below ends: each pass moves past one buffer, and
  the buffers still to come are bounded by those there and the pushes still to arrive.\<close>

lemma push_facts:
  "push q op maxSize b = (r, b') \<Longrightarrow>
     length (eb_buffers b') \<le> Suc (length (eb_buffers b)) \<and> eb_storage b' = eb_storage b
     \<and> (map_wf (eb_buffers b) \<longrightarrow> map_wf (eb_buffers b')) \<and> (map_has (eb_buffers b) k \<longrightarrow> map_has (eb_buffers b') k)"
  by (auto simp: push_def Let_def length_update distinct_update jsmap.get_put
      simp del: map_of_eq_None_iff split: if_splits)

lemma push_all_facts:
  "push_all as b = (acc, b') \<Longrightarrow>
     length (eb_buffers b') \<le> length as + length (eb_buffers b) \<and> eb_storage b' = eb_storage b
     \<and> (map_wf (eb_buffers b) \<longrightarrow> map_wf (eb_buffers b')) \<and> (map_has (eb_buffers b) k \<longrightarrow> map_has (eb_buffers b') k)"
proof (induction as b arbitrary: acc b' rule: push_all.induct)
  case (2 q op maxSize as b)
  obtain r b1 where p: "push q op maxSize b = (r, b1)" by (cases "push q op maxSize b")
  obtain acc2 b2 where a: "push_all as b1 = (acc2, b2)" by (cases "push_all as b1")
  show ?case using "2.prems" "2.IH" [OF refl p [symmetric] a] push_facts [OF p, of k] p a by auto
qed simp

lemma nth_has: "i < length m \<Longrightarrow> m ! i = (q, ops) \<Longrightarrow> map_has m q"
  by (metis nth_mem map_of_eq_None_iff fst_conv image_eqI)

lemma length_drain: "map_has (eb_buffers b) q \<Longrightarrow> length (eb_buffers (drain q b)) = length (eb_buffers b)"
  by (simp add: drain_def length_update)

lemma drain_has: "map_has (eb_buffers b) q \<Longrightarrow> map_has (eb_buffers (drain q b)) k = map_has (eb_buffers b) k"
  by (auto simp: drain_def jsmap.get_put simp del: map_of_eq_None_iff)

text \<open>
  The loop over the map: buffer \<open>i\<close> and those after it, buffers added meanwhile included. The
  result is the count, the arrivals that were accepted, the buffer and the store.
\<close>

function flush_from ::
  "'s StorageAdapter \<Rightarrow> arrival list list \<Rightarrow> nat \<Rightarrow> EagerBuffer \<Rightarrow> 's \<Rightarrow> nat \<times> BufferedOp list \<times> EagerBuffer \<times> 's" where
  "flush_from sa arr i b st =
     (if length (eb_buffers b) \<le> i then (0, [], b, st)
      else let (q, ops) = eb_buffers b ! i in
           if ops = [] then flush_from sa arr (i + 1) b st
           else if \<not> eb_storage b
           then (let (n, acc, b', st') = flush_from sa arr (i + 1) (drain q b) st
                 in (length ops + n, acc, b', st'))
           else (let (results, st1) = persist sa ops st;
                     (acc1, b1) = push_all (if arr = [] then [] else hd arr) (drain q b);
                     failed = map fst (filter (\<lambda>(op, r). \<not> r) (zip ops results));
                     b2 = (if failed = [] then b1 else requeue q failed b1);
                     (n, acc, b', st') = flush_from sa (tl arr) (i + 1) b2 st1
                 in (length ops - length failed + n, acc1 @ acc, b', st')))"
  by pat_completeness auto
termination
proof (relation "measure (\<lambda>(sa, arr, i, b, st). length (eb_buffers b) + sum_list (map length arr) - i)", goal_cases)
  case (4 sa arr i b st x q ops y results st1 z acc1 b1 failed b2)
  then have has: "map_has (eb_buffers b) q" using nth_has [of i "eb_buffers b" q ops] by simp
  have p: "push_all (if arr = [] then [] else hd arr) (drain q b) = (acc1, b1)" using 4 by simp
  have len: "length (eb_buffers b1) \<le> length (if arr = [] then [] else hd arr) + length (eb_buffers b)"
    and q: "map_has (eb_buffers b1) q"
    using push_all_facts [OF p, of q] has drain_has [OF has, of q] length_drain [OF has] by simp_all
  have "length (eb_buffers b2) = length (eb_buffers b1)"
    using q 4 by (simp add: requeue_def length_update del: map_of_eq_None_iff)
  moreover have "length (if arr = [] then [] else hd arr) + sum_list (map length (tl arr)) = sum_list (map length arr)"
    by (cases arr) simp_all
  ultimately show ?case using len 4 by simp
next
  case (3 sa arr i b st x q ops)
  then have "map_has (eb_buffers b) q" using nth_has [of i "eb_buffers b" q ops] by simp
  with 3 show ?case by (simp add: length_drain)
qed auto

declare flush_from.simps [simp del]

definition doFlush ::
  "'s StorageAdapter \<Rightarrow> arrival list list \<Rightarrow> EagerBuffer \<Rightarrow> 's \<Rightarrow> nat \<times> BufferedOp list \<times> EagerBuffer \<times> 's" where
  "doFlush sa arr b st = flush_from sa arr 0 b st"

definition pendingCount :: "EagerBuffer \<Rightarrow> nat" where
  "pendingCount b = sum_list (map (length \<circ> snd) (eb_buffers b))"

definition queryPendingCount :: "EagerBuffer \<Rightarrow> string \<Rightarrow> nat" where
  "queryPendingCount b q = length (queued b q)"

definition buffer_close ::
  "'s StorageAdapter \<Rightarrow> arrival list list \<Rightarrow> EagerBuffer \<Rightarrow> 's \<Rightarrow> nat \<times> BufferedOp list \<times> EagerBuffer \<times> 's" where
  "buffer_close sa arr b st = doFlush sa arr (b\<lparr>eb_timer := False\<rparr>) st"

section \<open>What is buffered\<close>

definition contents_of :: "(string, BufferedOp list) jsmap \<Rightarrow> OpLogEntry multiset" where
  "contents_of m = sum_list (map (\<lambda>p. mset (map bo_entry (snd p))) m)"

definition contents :: "EagerBuffer \<Rightarrow> OpLogEntry multiset" where
  "contents b = contents_of (eb_buffers b)"

lemma contents_of_set:
  "contents_of (map_set q new m) + mset (map bo_entry (case map_get m q of None \<Rightarrow> [] | Some ops \<Rightarrow> ops))
     = contents_of m + mset (map bo_entry new)"
  by (induction m) (auto simp: contents_of_def add_ac)

lemma contents_set:
  "contents (b\<lparr>eb_buffers := map_set q new (eb_buffers b)\<rparr>) + mset (map bo_entry (queued b q))
     = contents b + mset (map bo_entry new)"
  using contents_of_set [of q new "eb_buffers b"] by (simp add: contents_def queued_def)

lemma push_contents:
  assumes "push q op maxSize b = (r, b')"
  shows "contents b' = contents b + (if r then {#bo_entry op#} else {#})"
proof (cases r)
  case True
  then have "b' = b\<lparr>eb_buffers := map_set q (queued b q @ [op]) (eb_buffers b)\<rparr>"
    using assms by (auto simp: push_def Let_def split: if_splits)
  with contents_set [where b = b and q = q and new = "queued b q @ [op]"] True show ?thesis by simp
next
  case False
  then have "b' = b\<lparr>eb_buffers := map_set q (queued b q) (eb_buffers b)\<rparr>"
    using assms by (auto simp: push_def Let_def split: if_splits)
  with contents_set [where b = b and q = q and new = "queued b q"] False show ?thesis by simp
qed

lemma push_all_contents:
  "push_all as b = (acc, b') \<Longrightarrow> contents b' = contents b + mset (map bo_entry acc)"
proof (induction as b arbitrary: acc b' rule: push_all.induct)
  case (2 q op maxSize as b)
  obtain r b1 where p: "push q op maxSize b = (r, b1)" by (cases "push q op maxSize b")
  obtain acc2 b2 where a: "push_all as b1 = (acc2, b2)" by (cases "push_all as b1")
  show ?case using "2.prems" "2.IH" [OF refl p [symmetric] a] push_contents [OF p] p a by auto
qed simp

lemma drain_contents: "contents (drain q b) + mset (map bo_entry (queued b q)) = contents b"
  using contents_set [where b = b and q = q and new = "[]"] by (simp add: drain_def)

lemma requeue_contents: "contents (requeue q failed b) = contents b + mset (map bo_entry failed)"
  using contents_set [where b = b and q = q and new = "failed @ queued b q"] by (simp add: requeue_def)

definition failures :: "BufferedOp list \<Rightarrow> bool list \<Rightarrow> BufferedOp list" where
  "failures ops results = map fst (filter (\<lambda>(op, r). \<not> r) (zip ops results))"

context storage
begin

lemma persist_result:
  "ok st \<Longrightarrow> persist sa ops st = (results, st') \<Longrightarrow>
     ok st' \<and> length results = length ops
     \<and> mset (log st') + mset (map bo_entry (failures ops results)) = mset (log st) + mset (map bo_entry ops)"
proof (induction ops arbitrary: st results)
  case (Cons op ops)
  obtain r st1 where a: "sa_applyOp sa (mutation_of op) (bo_entry op) st = (r, st1)"
    by (cases "sa_applyOp sa (mutation_of op) (bo_entry op) st")
  obtain rs st2 where p: "persist sa ops st1 = (rs, st2)" by (cases "persist sa ops st1")
  have res: "results = r # rs" "st' = st2" using Cons.prems(2) a p by simp_all
  have o1: "ok st1" "mset (log st1) = mset (log st) + (if r then {#bo_entry op#} else {#})"
    using applied [OF Cons.prems(1) a] by simp_all
  have ih: "ok st2" "length rs = length ops"
    "mset (log st2) + mset (map bo_entry (failures ops rs)) = mset (log st1) + mset (map bo_entry ops)"
    using Cons.IH [OF o1(1) p [folded res(2)]] by (simp_all add: res(2))
  show ?case using ih o1(2) by (cases r) (simp_all add: res failures_def)
qed (simp add: failures_def)

end

text \<open>The passes of the loop.\<close>

definition arriving :: "arrival list list \<Rightarrow> arrival list" where
  "arriving arr = (if arr = [] then [] else hd arr)"

definition after_pass :: "string \<Rightarrow> BufferedOp list \<Rightarrow> EagerBuffer \<Rightarrow> EagerBuffer" where
  "after_pass q failed b = (if failed = [] then b else requeue q failed b)"

lemma flush_done: "\<not> i < length (eb_buffers b) \<Longrightarrow> flush_from sa arr i b st = (0, [], b, st)"
  by (subst flush_from.simps) simp

lemma flush_skip:
  "i < length (eb_buffers b) \<Longrightarrow> eb_buffers b ! i = (q, []) \<Longrightarrow>
     flush_from sa arr i b st = flush_from sa arr (Suc i) b st"
  by (subst flush_from.simps) simp

lemma flush_pass:
  assumes "i < length (eb_buffers b)" "eb_buffers b ! i = (q, ops)" "ops \<noteq> []" "eb_storage b"
    and "persist sa ops st = (rs, st1)" "push_all (arriving arr) (drain q b) = (acc1, b1)"
    and "flush_from sa (tl arr) (Suc i) (after_pass q (failures ops rs) b1) st1 = (n, acc, b', st')"
  shows "flush_from sa arr i b st = (length ops - length (failures ops rs) + n, acc1 @ acc, b', st')"
  using assms
  by (subst flush_from.simps) (simp add: Let_def arriving_def after_pass_def failures_def [symmetric])

lemma after_pass_facts:
  assumes "map_has (eb_buffers b) q \<or> failed = []"
  shows "contents (after_pass q failed b) = contents b + mset (map bo_entry failed)
    \<and> eb_storage (after_pass q failed b) = eb_storage b
    \<and> (map_wf (eb_buffers b) \<longrightarrow> map_wf (eb_buffers (after_pass q failed b)))"
  by (simp add: after_pass_def requeue_contents) (simp add: requeue_def distinct_update)

lemma queued_nth: "map_wf (eb_buffers b) \<Longrightarrow> i < length (eb_buffers b) \<Longrightarrow> eb_buffers b ! i = (q, ops) \<Longrightarrow> queued b q = ops"
  by (metis queued_def map_of_is_SomeI nth_mem option.simps(5))

text \<open>Nothing is lost: what was buffered or arrived is in the log or still buffered.\<close>

lemma flush_from_accounts:
  assumes "storage sa log ok"
  shows "ok st \<Longrightarrow> eb_storage b \<Longrightarrow> map_wf (eb_buffers b) \<Longrightarrow> flush_from sa arr i b st = (n, acc, b', st') \<Longrightarrow>
     ok st' \<and> eb_storage b' \<and> map_wf (eb_buffers b')
     \<and> mset (log st') + contents b' = mset (log st) + contents b + mset (map bo_entry acc)
     \<and> length (log st') = length (log st) + n"
  using assms
proof (induction sa arr i b st arbitrary: n acc b' st' rule: flush_from.induct)
  case (1 sa arr i b st)
  show ?case
  proof (cases "i < length (eb_buffers b)")
    case False
    then show ?thesis using "1.prems" by (simp add: flush_done)
  next
    case True
    obtain q ops where qo: "eb_buffers b ! i = (q, ops)" by fastforce
    show ?thesis
    proof (cases "ops = []")
      case e: True
      then show ?thesis
        using "1.IH"(1) [OF _ qo [symmetric]] "1.prems" True qo by (simp add: flush_skip)
    next
      case ne: False
      obtain rs st1 where p: "persist sa ops st = (rs, st1)" by fastforce
      obtain acc1 b1 where a: "push_all (arriving arr) (drain q b) = (acc1, b1)" by fastforce
      let ?b2 = "after_pass q (failures ops rs) b1"
      obtain n' acc' b'' st'' where f: "flush_from sa (tl arr) (Suc i) ?b2 st1 = (n', acc', b'', st'')"
        by (metis surj_pair)
      have res: "n = length ops - length (failures ops rs) + n'" "acc = acc1 @ acc'" "b' = b''" "st' = st''"
        using flush_pass [OF True qo ne "1.prems"(2) p a f] "1.prems"(4) by simp_all
      note ps = storage.persist_result [OF "1.prems"(5,1) p]
      have has: "map_has (eb_buffers b) q" using nth_has [OF True qo] .
      have d: "eb_storage (drain q b)" "map_wf (eb_buffers (drain q b))"
        using "1.prems"(2,3) by (simp_all add: drain_def distinct_update)
      have b1: "eb_storage b1" "map_wf (eb_buffers b1)" "map_has (eb_buffers b1) q"
        using push_all_facts [OF a, of q] d has drain_has [OF has, of q] by auto
      have b2: "eb_storage ?b2" "map_wf (eb_buffers ?b2)"
        "contents ?b2 = contents b1 + mset (map bo_entry (failures ops rs))"
        using after_pass_facts [of b1 q "failures ops rs"] b1 by auto
      have c: "contents b1 + mset (map bo_entry ops) = contents b + mset (map bo_entry acc1)"
        using push_all_contents [OF a] drain_contents [of q b] queued_nth [OF "1.prems"(3) True qo]
        by (simp add: add_ac flip: push_all_contents [OF a])
      have nl: "\<not> length (eb_buffers b) \<le> i" and nn: "\<not> \<not> eb_storage b" using True "1.prems"(2) by simp_all
      have ih: "ok st'' \<and> eb_storage b'' \<and> map_wf (eb_buffers b'')
         \<and> mset (log st'') + contents b'' = mset (log st1) + contents ?b2 + mset (map bo_entry acc')
         \<and> length (log st'') = length (log st1) + n'"
        by (rule "1.IH"(3) [OF nl refl qo [symmetric] ne nn refl p [symmetric] refl
              a [unfolded arriving_def, symmetric] refl refl, folded failures_def, folded after_pass_def])
          (use ps b2(1,2) f "1.prems"(5) in simp_all)
      have m: "mset (log st1) + mset (map bo_entry (failures ops rs)) = mset (log st) + mset (map bo_entry ops)"
        and len: "length rs = length ops" using ps by blast+
      have "size (mset (log st1)) + length (failures ops rs) = size (mset (log st)) + length ops"
        using arg_cong [OF m, where f = size] by simp
      moreover have "length (failures ops rs) \<le> length ops"
        using length_filter_le [of "\<lambda>(op, r). \<not> r" "zip ops rs"] len by (simp add: failures_def)
      moreover have "mset (log st') + contents b' + mset (map bo_entry ops)
          = mset (log st) + contents b + mset (map bo_entry acc) + mset (map bo_entry ops)"
      proof -
        have "mset (log st') + contents b' + mset (map bo_entry ops)
            = (mset (log st1) + mset (map bo_entry (failures ops rs)))
              + (contents b1 + mset (map bo_entry ops)) + mset (map bo_entry acc')"
          using ih b2(3) by (simp add: res add_ac)
        also have "\<dots> = mset (log st) + contents b + mset (map bo_entry acc) + mset (map bo_entry ops)"
          by (simp only: m c) (simp add: res add_ac)
        finally show ?thesis .
      qed
      ultimately show ?thesis using ih by (simp add: res)
    qed
  qed
qed

lemma persist_keeps:
  assumes "\<And>m e s. P s \<Longrightarrow> P (snd (sa_applyOp sa m e s))"
  shows "P st \<Longrightarrow> P (snd (persist sa ops st))"
proof (induction ops arbitrary: st)
  case (Cons op ops)
  show ?case using Cons.IH [OF assms [OF Cons.prems]] by (simp add: split_def Let_def)
qed simp

lemma flush_keeps:
  assumes "\<And>m e s. P s \<Longrightarrow> P (snd (sa_applyOp sa m e s))"
  shows "P st \<Longrightarrow> P (snd (snd (snd (flush_from sa arr i b st))))"
  using assms
proof (induction sa arr i b st rule: flush_from.induct)
  case (1 sa arr i b st)
  show ?case
  proof (cases "i < length (eb_buffers b)")
    case False
    then show ?thesis using "1.prems"(1) by (simp add: flush_done)
  next
    case True
    obtain q ops where qo: "eb_buffers b ! i = (q, ops)" by fastforce
    obtain rs st1 where p: "persist sa ops st = (rs, st1)" by fastforce
    obtain acc1 b1 where a: "push_all (arriving arr) (drain q b) = (acc1, b1)" by fastforce
    have st1: "P st1" using persist_keeps [of P sa st ops] "1.prems" p by simp
    consider "ops = []" | "ops \<noteq> []" "\<not> eb_storage b" | "ops \<noteq> []" "eb_storage b" by blast
    then show ?thesis
    proof cases
      case 1
      then show ?thesis using "1.IH"(1) [OF _ qo [symmetric]] "1.prems" True qo by (simp add: flush_skip)
    next
      case 2
      then show ?thesis using "1.IH"(2) [OF _ refl qo [symmetric]] "1.prems" True qo
        by (subst flush_from.simps) (simp add: split_def Let_def)
    next
      case 3
      have nl: "\<not> length (eb_buffers b) \<le> i" and nn: "\<not> \<not> eb_storage b" using True 3(2) by simp_all
      obtain n acc b' st' where f: "flush_from sa (tl arr) (Suc i) (after_pass q (failures ops rs) b1) st1 = (n, acc, b', st')"
        by (metis surj_pair)
      have "P (snd (snd (snd (flush_from sa (tl arr) (i + 1) (after_pass q (failures ops rs) b1) st1))))"
        using "1.IH"(3) [OF nl refl qo [symmetric] 3(1) nn refl p [symmetric] refl a [unfolded arriving_def, symmetric]
            refl refl st1 "1.prems"(2)] by (simp only: failures_def after_pass_def)
      then show ?thesis using flush_pass [OF True qo 3 p a f] f by simp
    qed
  qed
qed

text \<open>With a store that takes every write and nothing arriving, a flush empties every buffer.\<close>

lemma set_at: "map_wf m \<Longrightarrow> i < length m \<Longrightarrow> m ! i = (q, v) \<Longrightarrow> map_set q w m = m[i := (q, w)]"
proof (induction m arbitrary: i)
  case (Cons x m)
  show ?case
  proof (cases i)
    case (Suc j)
    then have "q \<in> fst ` set m" using Cons.prems by (metis fst_conv image_eqI length_Cons nth_Cons_Suc nth_mem Suc_less_eq)
    then have "fst x \<noteq> q" using Cons.prems(1) by auto
    then show ?thesis using Cons Suc by (cases x) simp
  qed (use Cons in simp)
qed simp

lemma persist_all_accepted:
  assumes "\<And>m e s. P s \<Longrightarrow> \<exists>t. sa_applyOp sa m e s = (True, t) \<and> P t" "P st"
  shows "\<exists>st'. persist sa ops st = (map (\<lambda>x. True) ops, st') \<and> P st'"
  using assms(2)
proof (induction ops arbitrary: st)
  case (Cons op ops)
  obtain t where t: "sa_applyOp sa (mutation_of op) (bo_entry op) st = (True, t)" "P t"
    using assms(1) [OF Cons.prems] by blast
  obtain st' where "persist sa ops t = (map (\<lambda>x. True) ops, st')" "P st'" using Cons.IH [OF t(2)] by blast
  with t show ?case by simp
qed simp

lemma no_failures: "failures ops (map (\<lambda>x. True) ops) = []"
  by (induction ops) (simp_all add: failures_def)

lemma flush_from_drains:
  assumes accepts: "\<And>m e s. P s \<Longrightarrow> \<exists>t. sa_applyOp sa m e s = (True, t) \<and> P t"
  shows "P st \<Longrightarrow> eb_storage b \<Longrightarrow> map_wf (eb_buffers b) \<Longrightarrow> \<forall>j < i. j < length (eb_buffers b) \<longrightarrow> snd (eb_buffers b ! j) = []
    \<Longrightarrow> flush_from sa [] i b st = (n, acc, b', st') \<Longrightarrow> acc = [] \<and> (\<forall>x \<in> set (eb_buffers b'). snd x = [])"
proof (induction "length (eb_buffers b) - i" arbitrary: i b st n acc b' st')
  case 0
  then have "\<forall>j < length (eb_buffers b). snd (eb_buffers b ! j) = []" by auto
  then have "\<forall>x \<in> set (eb_buffers b). snd x = []" by (metis in_set_conv_nth)
  with 0 show ?case by (simp add: flush_done)
next
  case (Suc k)
  then have i: "i < length (eb_buffers b)" by simp
  obtain q ops where qo: "eb_buffers b ! i = (q, ops)" by fastforce
  show ?case
  proof (cases "ops = []")
    case True
    then have f: "flush_from sa [] (Suc i) b st = (n, acc, b', st')" using Suc.prems(5) flush_skip [OF i, of q sa "[]" st] qo by simp
    have "\<forall>j < Suc i. j < length (eb_buffers b) \<longrightarrow> snd (eb_buffers b ! j) = []"
      using Suc.prems(4) True qo by (auto simp: less_Suc_eq)
    moreover have "k = length (eb_buffers b) - Suc i" using Suc.hyps(2) by simp
    ultimately show ?thesis using Suc.hyps(1) [OF _ Suc.prems(1-3) _ f] by blast
  next
    case False
    obtain st1 where p: "persist sa ops st = (map (\<lambda>x. True) ops, st1)" "P st1"
      using persist_all_accepted [OF accepts Suc.prems(1), of ops] by blast
    have b1: "eb_buffers (drain q b) = (eb_buffers b)[i := (q, [])]"
      using set_at [OF Suc.prems(3) i qo] by (simp add: drain_def)
    obtain n' acc' b'' st'' where f: "flush_from sa [] (Suc i) (drain q b) st1 = (n', acc', b'', st'')"
      by (metis surj_pair)
    have res: "acc = acc'" "b' = b''"
      using flush_pass [OF i qo False Suc.prems(2) p(1), of "[]" "[]" "drain q b" n' acc' b'' st''] f Suc.prems(5)
      by (simp_all add: arriving_def no_failures after_pass_def)
    have wf: "map_wf (eb_buffers (drain q b))" and stor: "eb_storage (drain q b)"
      using Suc.prems(2,3) by (simp_all add: drain_def distinct_update)
    have empty: "\<forall>j < Suc i. j < length (eb_buffers (drain q b)) \<longrightarrow> snd (eb_buffers (drain q b) ! j) = []"
      using Suc.prems(4) i by (auto simp: b1 nth_list_update less_Suc_eq)
    have k: "k = length (eb_buffers (drain q b)) - Suc i" using Suc.hyps(2) by (simp add: b1)
    show ?thesis unfolding res by (rule Suc.hyps(1) [OF k p(2) stor wf empty f])
  qed
qed

lemma contents_empty: "\<forall>x \<in> set (eb_buffers b). snd x = [] \<Longrightarrow> contents b = {#}"
proof -
  have "\<forall>x \<in> set m. snd x = [] \<Longrightarrow> contents_of m = {#}" for m
    by (induction m) (simp_all add: contents_of_def)
  then show "\<forall>x \<in> set (eb_buffers b). snd x = [] \<Longrightarrow> ?thesis" by (simp add: contents_def)
qed

section \<open>A store with outages\<close>

text \<open>The room store behind a network that fails the writes chosen by \<open>down\<close>.\<close>

definition flaky_storage :: "(WalRowMutation \<Rightarrow> OpLogEntry \<Rightarrow> bool) \<Rightarrow> RoomState StorageAdapter" where
  "flaky_storage down = room_storage\<lparr>sa_applyOp := \<lambda>m e s. if down m e then (False, s) else room_applyOp m e s\<rparr>"

interpretation flaky: storage "flaky_storage down" room_log state_inv for down
proof
  fix s t :: RoomState and k v j
  assume "state_inv s" "sa_setMeta (flaky_storage down) k v s = Some t"
  then show "state_inv t \<and> room_log t = room_log s \<and>
      sa_getMeta (flaky_storage down) t j = (if j = k then Inr (Some v) else sa_getMeta (flaky_storage down) s j)"
    using room.meta_set [of s k v t j] by (simp add: flaky_storage_def)
next
  fix s t :: RoomState and m e b
  assume "state_inv s" "sa_applyOp (flaky_storage down) m e s = (b, t)"
  then show "state_inv t \<and> mset (room_log t) = mset (room_log s) + (if b then {#e#} else {#})"
    using room_applied [of m e s b t] by (auto simp: flaky_storage_def split: if_splits)
qed (auto simp: flaky_storage_def dest: room.deleted room.locked room.unlocked)

definition unlimited :: "RoomState \<Rightarrow> bool" where
  "unlimited s \<longleftrightarrow> state_inv s \<and> mc_maxRoomBytes (rs_memory s) = None \<and> pb_limitBytes (rs_budget s) = None"

lemma unlimited_accepts: "unlimited s \<Longrightarrow> \<exists>t. room_applyOp m e s = (True, t) \<and> unlimited t"
proof -
  assume u: "unlimited s"
  then have inv: "state_inv s" and fit: "\<And>d. fits d s" by (simp_all add: unlimited_def fits_def exceeds_def)
  have "assertCanAdmitApply m (Some e) s = (Inr (), s)"
    using fit by (simp add: assertCanAdmitApply_def Let_def effect_simps)
  obtain w where w: "put_mutation m s = (Inr (), w)" "rs_memory w = rs_memory s"
    "pb_limitBytes (rs_budget w) = pb_limitBytes (rs_budget s)"
    using put_mutation_returns [OF _ inv, of m] fit by blast
  then have "\<And>d. fits d w" using u by (simp add: unlimited_def fits_def exceeds_def)
  then obtain t where t: "appendOp e w = (Inr (), t)" by (simp add: appendOp_def Let_def effect_simps)
  then have "rs_memory t = rs_memory w" "pb_limitBytes (rs_budget t) = pb_limitBytes (rs_budget w)"
    by (auto simp: appendOp_def Let_def effect_simps)
  moreover have "room_applyOp m e s = (True, t)"
    using \<open>assertCanAdmitApply m (Some e) s = (Inr (), s)\<close> w(1) t
    by (simp add: room_applyOp_def applyRecord_def and_then_def)
  ultimately show ?thesis using room_applied(2) [of m e s True t] u w by (auto simp: unlimited_def)
qed

section \<open>Properties\<close>

text \<open>C28: An op acknowledged eagerly reaches the log. A flush during an outage, which fails any choice of
  writes while other ops are pushed, loses and duplicates nothing: the log and the buffer hold
  what they held and the pushes accepted. The next flush with the store back empties the buffer,
  and the log then has all of them.\<close>

theorem eager_ops_survive_an_outage:
  assumes "unlimited st" "eb_storage b" "map_wf (eb_buffers b)"
    and "doFlush (flaky_storage down) arr b st = (n1, acc, b1, st1)"
    and "doFlush room_storage [] b1 st1 = (n2, acc2, b2, st2)"
  shows "mset (room_log st1) + contents b1 = mset (room_log st) + contents b + mset (map bo_entry acc)
    \<and> length (room_log st1) = length (room_log st) + n1
    \<and> contents b2 = {#}
    \<and> mset (room_log st2) = mset (room_log st) + contents b + mset (map bo_entry acc)"
proof -
  have "unlimited (snd (sa_applyOp (flaky_storage down) m e s))" if "unlimited s" for m e s
    using unlimited_accepts [OF that, of m e] that by (auto simp: flaky_storage_def)
  then have st1: "unlimited st1"
    using flush_keeps [of unlimited "flaky_storage down" st arr 0 b] assms(1,4) by (simp add: doFlush_def)
  then have inv: "state_inv st" "state_inv st1" using assms(1) by (simp_all add: unlimited_def)
  note f1 = flush_from_accounts [OF flaky.storage_axioms inv(1) assms(2,3) assms(4) [unfolded doFlush_def]]
  then have b1: "eb_storage b1" "map_wf (eb_buffers b1)" by simp_all
  note f2 = flush_from_accounts [OF room.storage_axioms inv(2) b1 assms(5) [unfolded doFlush_def]]
  have "acc2 = [] \<and> (\<forall>x \<in> set (eb_buffers b2). snd x = [])"
    by (rule flush_from_drains [where P = unlimited and i = 0, OF _ st1 b1 _ assms(5) [unfolded doFlush_def]])
      (use unlimited_accepts in \<open>auto simp: room_storage_def\<close>)
  then have "acc2 = []" "contents b2 = {#}" using contents_empty by blast+
  with f1 f2 show ?thesis by simp
qed

definition sample_buffered :: "string \<Rightarrow> BufferedOp" where
  "sample_buffered h = \<lparr>bo_entry = \<lparr>ol_table = ''t'', ol_op = ''insert'', ol_rowId = h, ol_payload = Some [],
     ol_hlc = h, ol_colClocks = []\<rparr>, bo_row = None\<rparr>"

definition sample_buffer :: EagerBuffer where
  "sample_buffer = (new_buffer None None)\<lparr>eb_storage := True,
     eb_buffers := [(''q1'', [sample_buffered ''1'', sample_buffered ''2'']), (''q2'', [sample_buffered ''3''])]\<rparr>"

definition unlimited_room :: RoomState where
  "unlimited_room = new_room_state \<lparr>mc_maxTotalBytes = None, mc_maxRoomBytes = None, mc_onExceeded = RejectPolicy,
     mc_idleEvictMs = 0\<rparr> new_budget"

definition outage :: "WalRowMutation \<Rightarrow> OpLogEntry \<Rightarrow> bool" where
  "outage m e \<longleftrightarrow> ol_hlc e = ''2''"

lemma unlimited_unlimited_room: "unlimited unlimited_room"
proof -
  have "state_inv unlimited_room"
    unfolding unlimited_room_def by (rule new_state_inv) (simp_all add: new_budget_def exceeds_def)
  then show ?thesis by (simp add: unlimited_def unlimited_room_def new_room_state_def new_budget_def constrain_def)
qed

theorem eager_ops_survive_an_outage_witness:
  "\<exists>n1 acc b1 st1 n2 acc2 b2 st2.
     doFlush (flaky_storage outage) [[(''q1'', sample_buffered ''4'', None)]] sample_buffer unlimited_room = (n1, acc, b1, st1)
     \<and> doFlush room_storage [] b1 st1 = (n2, acc2, b2, st2) \<and> contents b2 = {#}
     \<and> mset (room_log st2) = mset (room_log unlimited_room) + contents sample_buffer + mset (map bo_entry acc)"
proof -
  have b: "eb_storage sample_buffer" "map_wf (eb_buffers sample_buffer)" by (simp_all add: sample_buffer_def)
  obtain n1 acc b1 st1 where f1:
    "doFlush (flaky_storage outage) [[(''q1'', sample_buffered ''4'', None)]] sample_buffer unlimited_room = (n1, acc, b1, st1)"
    by (metis surj_pair)
  obtain n2 acc2 b2 st2 where f2: "doFlush room_storage [] b1 st1 = (n2, acc2, b2, st2)" by (metis surj_pair)
  show ?thesis
    using eager_ops_survive_an_outage [OF unlimited_unlimited_room b f1 f2] f1 f2 by blast
qed

end
