(* ===== verification/Rooms.thy ===== *)
theory Rooms
  imports Result_Cache Enforcement
begin

text \<open>
  \<open>src/server/rooms.ts\<close> and \<open>buildRoomRegex\<close> of \<open>src/server/server.ts\<close>: room patterns such as
  \<open>org/:orgId/team/:teamId\<close>, and how the params of a subscription pick a room. A compiled pattern
  is its list of pieces, literals and params in order; the regular expression built from it
  matches a literal as itself and a param as one or more characters other than the slash.
\<close>

section \<open>Patterns\<close>

datatype piece = Lit string | Param string

text \<open>\<open>\w\<close>\<close>

definition is_word :: "char \<Rightarrow> bool" where
  "is_word c = (let n = of_char c :: nat in
     (48 \<le> n \<and> n \<le> 57) \<or> (65 \<le> n \<and> n \<le> 90) \<or> n = 95 \<or> (97 \<le> n \<and> n \<le> 122))"

text \<open>The matches of \<open>/:(\w+)/g\<close> and the literals between them; \<open>lit\<close> is the literal so far.\<close>

function pieces :: "string \<Rightarrow> string \<Rightarrow> piece list" where
  "pieces lit [] = [Lit lit]"
| "pieces lit (c # r) =
     (let name = takeWhile is_word r in
      if c = CHR '':'' \<and> name \<noteq> [] then Lit lit # Param name # pieces [] (dropWhile is_word r)
      else pieces (lit @ [c]) r)"
  by pat_completeness auto
termination
  by (relation "measure (\<lambda>(lit, s). length s)") (auto simp: less_Suc_eq_le length_dropWhile_le)

fun param_name :: "piece \<Rightarrow> string option" where
  "param_name (Lit s) = None"
| "param_name (Param n) = Some n"

record RoomRegistration =
  rr_pattern :: string
  rr_regex :: "piece list"
  rr_paramNames :: "string list"

definition buildRoomRegex :: "string \<Rightarrow> piece list \<times> string list" where
  "buildRoomRegex pattern =
     (let ps = pieces [] pattern in (ps, List.map_filter param_name ps))"

definition room_registration :: "string \<Rightarrow> RoomRegistration" where
  "room_registration pattern =
     (let (regex, names) = buildRoomRegex pattern
      in \<lparr>rr_pattern = pattern, rr_regex = regex, rr_paramNames = names\<rparr>)"

definition starts_with :: "string \<Rightarrow> string \<Rightarrow> bool" where
  "starts_with p s \<longleftrightarrow> take (length p) s = p"

text \<open>\<open>regex.test(s)\<close>, anchored at both ends; a param tries every length it may have.\<close>

fun regex_test :: "piece list \<Rightarrow> string \<Rightarrow> bool" where
  "regex_test [] s = (s = [])"
| "regex_test (Lit p # ps) s = (starts_with p s \<and> regex_test ps (drop (length p) s))"
| "regex_test (Param n # ps) s =
     list_ex (\<lambda>i. regex_test ps (drop i s)) [1..<length (takeWhile (\<lambda>c. c \<noteq> CHR ''/'') s) + 1]"

section \<open>Resolution\<close>

datatype RoomResolution = RoomKey "string option" | RoomRefused string

definition provided_params :: "row \<Rightarrow> string list \<Rightarrow> string list" where
  "provided_params params names = filter (\<lambda>n. \<not> nullish (get_prop params n)) names"

text \<open>The single pass of \<open>pattern.replace(/:(\w+)/g, ...)\<close>.\<close>

definition substitute :: "(int \<Rightarrow> string) \<Rightarrow> row \<Rightarrow> piece list \<Rightarrow> string" where
  "substitute ds params ps =
     concat (map (\<lambda>p. case p of Lit s \<Rightarrow> s | Param n \<Rightarrow> js_string ds (get_prop params n)) ps)"

fun join :: "string \<Rightarrow> string list \<Rightarrow> string" where
  "join sep [] = []"
| "join sep [x] = x"
| "join sep (x # y # xs) = x @ sep @ join sep (y # xs)"

text \<open>What one room makes of the params; \<open>None\<close> goes on to the next room.\<close>

definition try_room :: "(int \<Rightarrow> string) \<Rightarrow> row \<Rightarrow> string option \<Rightarrow> RoomRegistration \<Rightarrow> RoomResolution option" where
  "try_room ds params required room =
     (if \<not> falsy_str required \<and> rr_pattern room \<noteq> the required then None
      else if rr_paramNames room = [] then Some (RoomKey (Some (rr_pattern room)))
      else let provided = provided_params params (rr_paramNames room) in
        if provided = [] then None
        else if length provided < length (rr_paramNames room) then
          Some (RoomRefused (''Room \"'' @ rr_pattern room @ ''\" is missing param(s): ''
            @ join '', '' (filter (\<lambda>n. n \<notin> set provided) (rr_paramNames room))))
        else let key = substitute ds params (rr_regex room) in
          if \<not> regex_test (rr_regex room) key
          then Some (RoomRefused (''Room \"'' @ rr_pattern room @ ''\" params do not form a valid room key''))
          else Some (RoomKey (Some key)))"

fun resolve_rooms :: "(int \<Rightarrow> string) \<Rightarrow> row \<Rightarrow> string option \<Rightarrow> RoomRegistration list \<Rightarrow> RoomResolution" where
  "resolve_rooms ds params required [] =
     (if \<not> falsy_str required
      then RoomRefused (''Query requires room \"'' @ the required @ ''\" but params do not resolve it'')
      else RoomKey None)"
| "resolve_rooms ds params required (room # rooms) =
     (case try_room ds params required room of
        Some r \<Rightarrow> r | None \<Rightarrow> resolve_rooms ds params required rooms)"

definition resolveRoomKey :: "(int \<Rightarrow> string) \<Rightarrow> RoomRegistration list \<Rightarrow> row \<Rightarrow> string option \<Rightarrow> RoomResolution" where
  "resolveRoomKey ds rooms params required =
     (if rooms = [] then
        (if \<not> falsy_str required
         then RoomRefused (''Query requires room \"'' @ the required @ ''\" but no rooms are registered'')
         else RoomKey None)
      else resolve_rooms ds params required rooms)"

section \<open>Slashes\<close>

definition slashes :: "string \<Rightarrow> nat" where
  "slashes s = length (filter (\<lambda>c. c = CHR ''/'') s)"

fun lit_slashes :: "piece list \<Rightarrow> nat" where
  "lit_slashes [] = 0"
| "lit_slashes (Lit s # ps) = slashes s + lit_slashes ps"
| "lit_slashes (Param n # ps) = lit_slashes ps"

lemma slashes_append [simp]: "slashes (s @ t) = slashes s + slashes t"
  by (simp add: slashes_def)

lemma slashes_Nil [simp]: "slashes [] = 0"
  by (simp add: slashes_def)

lemma slashes_take_prefix:
  assumes "i \<le> length (takeWhile (\<lambda>c. c \<noteq> CHR ''/'') s)"
  shows "slashes (take i s) = 0"
proof -
  have "take i s = take i (takeWhile (\<lambda>c. c \<noteq> CHR ''/'') s)"
    using assms by (metis min.absorb1 take_take takeWhile_eq_take)
  then have "\<forall>c \<in> set (take i s). c \<noteq> CHR ''/''"
    by (metis in_set_takeD set_takeWhileD)
  then show ?thesis by (simp add: slashes_def filter_empty_conv)
qed

text \<open>A key that matches has the slashes of the literals and no other.\<close>

lemma regex_slashes: "regex_test ps s \<Longrightarrow> slashes s = lit_slashes ps"
proof (induction ps s rule: regex_test.induct)
  case (2 p ps s)
  then have "s = p @ drop (length p) s" by (metis append_take_drop_id regex_test.simps(2) starts_with_def)
  then have "slashes s = slashes p + slashes (drop (length p) s)" by (metis slashes_append)
  with 2 show ?case by simp
next
  case (3 n ps s)
  then obtain i where i: "i \<in> set [1..<length (takeWhile (\<lambda>c. c \<noteq> CHR ''/'') s) + 1]" "regex_test ps (drop i s)"
    by (auto simp: list_ex_iff)
  then have "slashes (take i s) = 0" by (intro slashes_take_prefix) auto
  then have "slashes s = slashes (drop i s)" by (metis add_0 append_take_drop_id slashes_append)
  with 3 i show ?case by simp
qed simp

lemma substitute_slashes:
  "slashes (substitute ds params ps) = lit_slashes ps
     + sum_list (map (\<lambda>n. slashes (js_string ds (get_prop params n))) (List.map_filter param_name ps))"
  by (induction ps rule: lit_slashes.induct) (simp_all add: substitute_def map_filter_simps)

lemma substituted_param_slashes:
  assumes "regex_test ps (substitute ds params ps)" "n \<in> set (List.map_filter param_name ps)"
  shows "CHR ''/'' \<notin> set (js_string ds (get_prop params n))"
proof -
  have "sum_list (map (\<lambda>n. slashes (js_string ds (get_prop params n))) (List.map_filter param_name ps)) = 0"
    using regex_slashes [OF assms(1)] substitute_slashes [of ds params ps] by simp
  then have "slashes (js_string ds (get_prop params n)) = 0" using assms(2) by auto
  then show ?thesis by (auto simp: slashes_def filter_empty_conv)
qed

text \<open>A pattern is its pieces put together.\<close>

fun piece_text :: "piece \<Rightarrow> string" where
  "piece_text (Lit s) = s"
| "piece_text (Param n) = CHR '':'' # n"

lemma pieces_text: "concat (map piece_text (pieces lit s)) = lit @ s"
proof (induction lit s rule: pieces.induct)
  case (2 lit c r)
  then show ?case by (cases "c = CHR '':'' \<and> takeWhile is_word r \<noteq> []") (auto simp: Let_def)
qed simp

lemma only_literals: "List.map_filter param_name ps = [] \<Longrightarrow> \<forall>p \<in> set ps. \<exists>s. p = Lit s"
proof (induction ps)
  case (Cons p ps)
  then show ?case by (cases p) (auto simp: map_filter_simps)
qed simp

lemma try_room_key:
  assumes "try_room ds params required (room_registration pattern) = Some (RoomKey key)"
  shows "(falsy_str required \<or> required = Some pattern)
    \<and> key = Some (substitute ds params (pieces [] pattern))
    \<and> (\<forall>n \<in> set (List.map_filter param_name (pieces [] pattern)).
         \<not> nullish (get_prop params n) \<and> CHR ''/'' \<notin> set (js_string ds (get_prop params n)))
    \<and> slashes (substitute ds params (pieces [] pattern)) = lit_slashes (pieces [] pattern)"
proof (cases "List.map_filter param_name (pieces [] pattern) = []")
  case True
  then have lits: "\<forall>p \<in> set (pieces [] pattern). \<exists>s. p = Lit s"
    by (rule only_literals)
  then have "substitute ds params (pieces [] pattern) = concat (map piece_text (pieces [] pattern))"
    unfolding substitute_def by (intro arg_cong [where f = concat] map_cong) auto
  then have "substitute ds params (pieces [] pattern) = pattern" by (simp add: pieces_text)
  then show ?thesis using assms True substitute_slashes [of ds params "pieces [] pattern"]
    by (auto simp: try_room_def room_registration_def buildRoomRegex_def Let_def falsy_str_def split: if_splits)
next
  case False
  let ?ns = "List.map_filter param_name (pieces [] pattern)"
  have "length (provided_params params ?ns) = length ?ns" "required = None \<or> required = Some [] \<or> required = Some pattern"
    and key: "key = Some (substitute ds params (pieces [] pattern))"
    and rx: "regex_test (pieces [] pattern) (substitute ds params (pieces [] pattern))"
    using assms False
    by (auto simp: try_room_def room_registration_def buildRoomRegex_def Let_def falsy_str_def provided_params_def
        not_less intro: antisym length_filter_le split: if_splits)
  then have "\<forall>n \<in> set ?ns. \<not> nullish (get_prop params n)"
    by (metis filter_id_conv length_filter_less nat_less_le provided_params_def)
  then show ?thesis
    using key rx substituted_param_slashes [OF rx] regex_slashes [OF rx]
      \<open>required = None \<or> required = Some [] \<or> required = Some pattern\<close>
    by (auto simp: falsy_str_def)
qed

lemma try_room_skips:
  "try_room ds params required (room_registration pattern) = None \<longleftrightarrow>
     (\<not> falsy_str required \<and> required \<noteq> Some pattern)
     \<or> (List.map_filter param_name (pieces [] pattern) \<noteq> []
        \<and> (\<forall>n \<in> set (List.map_filter param_name (pieces [] pattern)). nullish (get_prop params n)))"
  by (cases required)
    (auto simp: try_room_def room_registration_def buildRoomRegex_def Let_def falsy_str_def provided_params_def
      filter_empty_conv)

lemma resolve_rooms_key:
  "resolve_rooms ds params required (map room_registration patterns) = RoomKey key \<Longrightarrow>
     (key = None \<and> falsy_str required \<and> (\<forall>p \<in> set patterns. try_room ds params required (room_registration p) = None))
     \<or> (\<exists>p \<in> set patterns. try_room ds params required (room_registration p) = Some (RoomKey key))"
  by (induction patterns) (auto split: option.splits if_splits)

section \<open>Properties\<close>

text \<open>C29: Room resolution fails closed. If params resolve to a room key, they come from one registered
  pattern, the required one if the query requires one, with every param of that pattern given and
  no value containing a slash, so the key has the pattern's own segments. If they resolve to no
  room at all, the query requires none and no param of any pattern was given.\<close>

theorem room_keys_fail_closed:
  assumes "resolveRoomKey ds (map room_registration patterns) params required = RoomKey key"
  shows "(case key of
      None \<Rightarrow> falsy_str required
        \<and> (\<forall>p \<in> set patterns. \<forall>n \<in> set (snd (buildRoomRegex p)). nullish (get_prop params n))
    | Some k \<Rightarrow> \<exists>p \<in> set patterns. (falsy_str required \<or> required = Some p)
        \<and> k = substitute ds params (fst (buildRoomRegex p))
        \<and> (\<forall>n \<in> set (snd (buildRoomRegex p)).
             \<not> nullish (get_prop params n) \<and> CHR ''/'' \<notin> set (js_string ds (get_prop params n)))
        \<and> slashes k = lit_slashes (fst (buildRoomRegex p)))"
proof (cases "patterns = []")
  case True
  with assms show ?thesis by (auto simp: resolveRoomKey_def split: if_splits)
next
  case False
  then have "resolve_rooms ds params required (map room_registration patterns) = RoomKey key"
    using assms by (simp add: resolveRoomKey_def)
  from resolve_rooms_key [OF this] show ?thesis
  proof
    assume n: "key = None \<and> falsy_str required \<and> (\<forall>p \<in> set patterns. try_room ds params required (room_registration p) = None)"
    then show ?thesis by (auto simp: try_room_skips buildRoomRegex_def Let_def)
  next
    assume "\<exists>p \<in> set patterns. try_room ds params required (room_registration p) = Some (RoomKey key)"
    then obtain p where p: "p \<in> set patterns" "try_room ds params required (room_registration p) = Some (RoomKey key)" by blast
    from try_room_key [OF p(2)] p(1) show ?thesis by (auto simp: buildRoomRegex_def Let_def)
  qed
qed

theorem room_keys_fail_closed_witness:
  "resolveRoomKey (\<lambda>d. []) (map room_registration [''org/:o/team/:t'']) [(''o'', Str ''a''), (''t'', Str ''b'')] None
      = RoomKey (Some ''org/a/team/b'')
   \<and> slashes ''org/a/team/b'' = lit_slashes (fst (buildRoomRegex ''org/:o/team/:t''))
   \<and> (\<exists>why. resolveRoomKey (\<lambda>d. []) (map room_registration [''org/:o/team/:t'']) [(''o'', Str ''a/team/x''), (''t'', Str ''b'')] None
        = RoomRefused why)"
proof (intro conjI)
  show r: "resolveRoomKey (\<lambda>d. []) (map room_registration [''org/:o/team/:t'']) [(''o'', Str ''a''), (''t'', Str ''b'')] None
      = RoomKey (Some ''org/a/team/b'')" by code_simp
  show "slashes ''org/a/team/b'' = lit_slashes (fst (buildRoomRegex ''org/:o/team/:t''))"
    using room_keys_fail_closed [OF r] by auto
  show "\<exists>why. resolveRoomKey (\<lambda>d. []) (map room_registration [''org/:o/team/:t'']) [(''o'', Str ''a/team/x''), (''t'', Str ''b'')] None
        = RoomRefused why"
    by (rule exI [where x = "''Room \"org/:o/team/:t\" params do not form a valid room key''"]) code_simp
qed

end
