(* ===== verification/Session.thy ===== *)
theory Session
  imports Types "HOL-Library.Multiset"
begin

text \<open>
  \<open>src/server/session.ts\<close>: the connected clients, what each subscribes to, and two reverse
  indexes (query name to clients, user to clients) that are kept beside the sessions so that a
  broadcast and the per-user cap need no scan. The properties compare every read with that scan.

  A \<open>Set\<close> is a list without repetition, in insertion order. Query options are carried, never
  read, so they are a type parameter.
\<close>

record 'o QuerySubscription =
  qs_queryName :: string
  qs_params :: row
  qs_options :: 'o
  qs_roomKey :: "string option"
  qs_windowSize :: "int option"
  qs_windowLimit :: int
  qs_loadedCount :: int
  qs_lastTotalCount :: "int option"
  qs_bootstrapped :: bool

record 'o ClientSession =
  cs_clientId :: string
  cs_auth :: "AuthContext option"
  cs_subscriptions :: "(string, 'o QuerySubscription) jsmap"
  cs_watermark :: "string option"
  cs_connectedAt :: int

type_synonym index = "(string, string list) jsmap"

record 'o SessionManager =
  sm_sessions :: "(string, 'o ClientSession) jsmap"
  sm_querySubscribers :: index
  sm_userSessions :: index

definition new_sessions :: "'o SessionManager" where
  "new_sessions = \<lparr>sm_sessions = [], sm_querySubscribers = [], sm_userSessions = []\<rparr>"

section \<open>The reverse indexes\<close>

definition members :: "index \<Rightarrow> string \<Rightarrow> string list" where
  "members ix k = (case map_get ix k of Some ids \<Rightarrow> ids | None \<Rightarrow> [])"

text \<open>A client enters a set, created when missing; it leaves one, dropped when empty.\<close>

definition index_add :: "string \<Rightarrow> string \<Rightarrow> index \<Rightarrow> index" where
  "index_add k c ix = map_set k (set_add c (members ix k)) ix"

definition index_remove :: "string \<Rightarrow> string \<Rightarrow> index \<Rightarrow> index" where
  "index_remove k c ix =
     (case map_get ix k of
        None \<Rightarrow> ix
      | Some ids \<Rightarrow>
          if removeAll c ids = [] then map_del k ix else map_set k (removeAll c ids) ix)"

section \<open>Operations\<close>

definition session_connect :: "string \<Rightarrow> int \<Rightarrow> 'o SessionManager \<Rightarrow> 'o SessionManager" where
  "session_connect c now sm =
     sm\<lparr>sm_sessions := map_set c
          \<lparr>cs_clientId = c, cs_auth = None, cs_subscriptions = [], cs_watermark = None, cs_connectedAt = now\<rparr>
          (sm_sessions sm)\<rparr>"

definition session_disconnect :: "string \<Rightarrow> 'o SessionManager \<Rightarrow> 'o SessionManager" where
  "session_disconnect c sm =
     (case map_get (sm_sessions sm) c of
        None \<Rightarrow> sm\<lparr>sm_sessions := map_del c (sm_sessions sm)\<rparr>
      | Some session \<Rightarrow>
          sm\<lparr>sm_querySubscribers :=
               fold (\<lambda>q. index_remove q c) (map fst (cs_subscriptions session)) (sm_querySubscribers sm),
             sm_userSessions :=
               (case cs_auth session of
                  None \<Rightarrow> sm_userSessions sm
                | Some auth \<Rightarrow> index_remove (au_userId auth) c (sm_userSessions sm)),
             sm_sessions := map_del c (sm_sessions sm)\<rparr>)"

definition countForUser :: "'o SessionManager \<Rightarrow> string \<Rightarrow> nat" where
  "countForUser sm userId = length (members (sm_userSessions sm) userId)"

definition older_of :: "'o ClientSession option \<Rightarrow> 'o ClientSession option \<Rightarrow> 'o ClientSession option" where
  "older_of s oldest =
     (case s of None \<Rightarrow> oldest
      | Some x \<Rightarrow> (case oldest of
          None \<Rightarrow> Some x
        | Some y \<Rightarrow> if cs_connectedAt x < cs_connectedAt y then Some x else Some y))"

definition oldestForUser :: "'o SessionManager \<Rightarrow> string \<Rightarrow> 'o ClientSession option" where
  "oldestForUser sm userId =
     fold (\<lambda>c. older_of (map_get (sm_sessions sm) c)) (members (sm_userSessions sm) userId) None"

definition session_get :: "'o SessionManager \<Rightarrow> string \<Rightarrow> 'o ClientSession option" where
  "session_get sm c = map_get (sm_sessions sm) c"

definition put_session :: "string \<Rightarrow> 'o ClientSession \<Rightarrow> 'o SessionManager \<Rightarrow> 'o SessionManager" where
  "put_session c s sm = sm\<lparr>sm_sessions := map_set c s (sm_sessions sm)\<rparr>"

definition setAuth :: "string \<Rightarrow> AuthContext \<Rightarrow> 'o SessionManager \<Rightarrow> 'o SessionManager" where
  "setAuth c auth sm =
     (case map_get (sm_sessions sm) c of
        None \<Rightarrow> sm
      | Some session \<Rightarrow>
          let users = (case cs_auth session of
              Some old \<Rightarrow> if au_userId old \<noteq> au_userId auth
                then index_remove (au_userId old) c (sm_userSessions sm) else sm_userSessions sm
            | None \<Rightarrow> sm_userSessions sm)
          in put_session c (session\<lparr>cs_auth := Some auth\<rparr>) sm
               \<lparr>sm_userSessions := index_add (au_userId auth) c users\<rparr>)"

definition new_subscription ::
  "string \<Rightarrow> row \<Rightarrow> 'o \<Rightarrow> string option \<Rightarrow> int option \<Rightarrow> 'o QuerySubscription" where
  "new_subscription q params options roomKey windowSize =
     (let effectiveWindow = (case windowSize of Some w \<Rightarrow> if w > 0 then Some w else None | None \<Rightarrow> None)
      in \<lparr>qs_queryName = q, qs_params = params, qs_options = options, qs_roomKey = roomKey,
          qs_windowSize = effectiveWindow,
          qs_windowLimit = (case effectiveWindow of Some w \<Rightarrow> w | None \<Rightarrow> 0),
          qs_loadedCount = 0, qs_lastTotalCount = None, qs_bootstrapped = False\<rparr>)"

definition session_subscribe ::
  "string \<Rightarrow> string \<Rightarrow> row \<Rightarrow> 'o \<Rightarrow> string option \<Rightarrow> int option \<Rightarrow> 'o SessionManager \<Rightarrow> 'o SessionManager" where
  "session_subscribe c q params options roomKey windowSize sm =
     (case map_get (sm_sessions sm) c of
        None \<Rightarrow> sm
      | Some session \<Rightarrow>
          put_session c (session\<lparr>cs_subscriptions :=
              map_set q (new_subscription q params options roomKey windowSize) (cs_subscriptions session)\<rparr>) sm
            \<lparr>sm_querySubscribers := index_add q c (sm_querySubscribers sm)\<rparr>)"

definition session_unsubscribe :: "string \<Rightarrow> string \<Rightarrow> 'o SessionManager \<Rightarrow> 'o SessionManager" where
  "session_unsubscribe c q sm =
     (case map_get (sm_sessions sm) c of
        None \<Rightarrow> sm
      | Some session \<Rightarrow>
          put_session c (session\<lparr>cs_subscriptions := map_del q (cs_subscriptions session)\<rparr>) sm
            \<lparr>sm_querySubscribers := index_remove q c (sm_querySubscribers sm)\<rparr>)"

definition updateWatermark :: "string \<Rightarrow> string \<Rightarrow> 'o SessionManager \<Rightarrow> 'o SessionManager" where
  "updateWatermark c hlc sm =
     (case map_get (sm_sessions sm) c of
        None \<Rightarrow> sm
      | Some session \<Rightarrow>
          if (case cs_watermark session of None \<Rightarrow> True | Some w \<Rightarrow> w = [] \<or> w < hlc)
          then put_session c (session\<lparr>cs_watermark := Some hlc\<rparr>) sm else sm)"

definition in_room :: "string \<Rightarrow> string option \<Rightarrow> 'o ClientSession \<Rightarrow> bool" where
  "in_room q roomKey session =
     (case roomKey of None \<Rightarrow> True
      | Some _ \<Rightarrow> (case map_get (cs_subscriptions session) q of
          None \<Rightarrow> False | Some sub \<Rightarrow> qs_roomKey sub = roomKey))"

definition getSubscribersForQuery ::
  "'o SessionManager \<Rightarrow> string \<Rightarrow> string option \<Rightarrow> 'o ClientSession list" where
  "getSubscribersForQuery sm q roomKey =
     filter (in_room q roomKey)
       (List.map_filter (map_get (sm_sessions sm)) (members (sm_querySubscribers sm) q))"

definition getSubscribersForTableDependency ::
  "'o SessionManager \<Rightarrow> index \<Rightarrow> string \<Rightarrow> ('o ClientSession \<times> string) list" where
  "getSubscribersForTableDependency sm tableIndex table =
     concat (map (\<lambda>q. map (\<lambda>s. (s, q))
         (List.map_filter (map_get (sm_sessions sm)) (members (sm_querySubscribers sm) q)))
       (members tableIndex table))"

definition getAll :: "'o SessionManager \<Rightarrow> 'o ClientSession list" where
  "getAll sm = map snd (sm_sessions sm)"

definition session_count :: "'o SessionManager \<Rightarrow> nat" where
  "session_count sm = length (sm_sessions sm)"

section \<open>The runs of a server\<close>

text \<open>Connection ids are fresh. \<open>touch\<close> is what the message handler writes into a subscription
  as it loads rows: the window limit, the counts and the bootstrapped flag.\<close>

definition touch_subscription ::
  "string \<Rightarrow> string \<Rightarrow> int \<Rightarrow> int \<Rightarrow> int option \<Rightarrow> bool \<Rightarrow> 'o SessionManager \<Rightarrow> 'o SessionManager" where
  "touch_subscription c q limit loaded totalCount boot sm =
     (case map_get (sm_sessions sm) c of
        None \<Rightarrow> sm
      | Some session \<Rightarrow>
          (case map_get (cs_subscriptions session) q of
             None \<Rightarrow> sm
           | Some sub \<Rightarrow> put_session c (session\<lparr>cs_subscriptions := map_set q
               (sub\<lparr>qs_windowLimit := limit, qs_loadedCount := loaded, qs_lastTotalCount := totalCount,
                    qs_bootstrapped := boot\<rparr>) (cs_subscriptions session)\<rparr>) sm))"

inductive session_step :: "'o SessionManager \<Rightarrow> 'o SessionManager \<Rightarrow> bool" where
  connects: "map_get (sm_sessions sm) c = None \<Longrightarrow> session_step sm (session_connect c now sm)"
| disconnects: "session_step sm (session_disconnect c sm)"
| authenticates: "session_step sm (setAuth c auth sm)"
| subscribes: "session_step sm (session_subscribe c q params options roomKey windowSize sm)"
| unsubscribes: "session_step sm (session_unsubscribe c q sm)"
| advances: "session_step sm (updateWatermark c hlc sm)"
| loads: "session_step sm (touch_subscription c q limit loaded totalCount boot sm)"

inductive_cases session_stepE: "session_step sm sm'"

abbreviation session_run :: "'o SessionManager \<Rightarrow> bool" where
  "session_run sm \<equiv> session_step\<^sup>*\<^sup>* new_sessions sm"

section \<open>The indexes are exact\<close>

declare map_of_eq_Some_iff [simp del] map_of_eq_None_iff [simp del]

definition subscribed :: "'o ClientSession \<Rightarrow> string \<Rightarrow> bool" where
  "subscribed s q \<longleftrightarrow> map_has (cs_subscriptions s) q"

definition is_user :: "'o ClientSession \<Rightarrow> string \<Rightarrow> bool" where
  "is_user s u \<longleftrightarrow> (case cs_auth s of None \<Rightarrow> False | Some a \<Rightarrow> au_userId a = u)"

text \<open>An index over the sessions: \<open>k\<close> lists, once each, the clients whose session has \<open>P\<close> of
  \<open>k\<close>, and no empty list is kept.\<close>

definition indexes ::
  "('o ClientSession \<Rightarrow> string \<Rightarrow> bool) \<Rightarrow> (string, 'o ClientSession) jsmap \<Rightarrow> index \<Rightarrow> bool" where
  "indexes P ss ix \<longleftrightarrow> map_wf ix \<and> (\<forall>k. distinct (members ix k))
     \<and> (\<forall>k c. c \<in> set (members ix k) \<longleftrightarrow> (\<exists>s. map_get ss c = Some s \<and> P s k))
     \<and> (\<forall>k. map_get ix k \<noteq> Some [])"

definition session_inv :: "'o SessionManager \<Rightarrow> bool" where
  "session_inv sm \<longleftrightarrow> map_wf (sm_sessions sm)
     \<and> (\<forall>c s. map_get (sm_sessions sm) c = Some s \<longrightarrow> cs_clientId s = c)
     \<and> indexes subscribed (sm_sessions sm) (sm_querySubscribers sm)
     \<and> indexes is_user (sm_sessions sm) (sm_userSessions sm)"

lemma members_add: "members (index_add k c ix) j = (if j = k then set_add c (members ix k) else members ix j)"
  by (simp add: index_add_def members_def jsmap.get_put)

lemma members_remove:
  "members (index_remove k c ix) j = (if j = k then removeAll c (members ix k) else members ix j)"
  by (auto simp: index_remove_def members_def jsmap.get_put jsmap.get_del split: option.splits)

lemma members_fold_remove:
  "members (fold (\<lambda>q. index_remove q c) qs ix) j = (if j \<in> set qs then removeAll c (members ix j) else members ix j)"
  by (induction qs arbitrary: ix) (auto simp: members_remove)

lemma set_set_add [simp]: "set (set_add x xs) = insert x (set xs)"
  by (auto simp: set_add_def)

lemma distinct_set_add [simp]: "distinct (set_add x xs) \<longleftrightarrow> distinct xs"
  by (simp add: set_add_def)

definition index_wf :: "index \<Rightarrow> bool" where
  "index_wf ix \<longleftrightarrow> map_wf ix \<and> (\<forall>k. distinct (members ix k)) \<and> (\<forall>k. map_get ix k \<noteq> Some [])"

lemma index_wf_add [wf_intros]: "index_wf ix \<Longrightarrow> index_wf (index_add k c ix)"
  by (simp add: index_wf_def members_add)
    (auto simp: index_add_def distinct_update jsmap.get_put set_add_def)

lemma index_wf_remove [wf_intros]: "index_wf ix \<Longrightarrow> index_wf (index_remove k c ix)"
  by (simp add: index_wf_def members_remove distinct_removeAll)
    (auto simp: index_remove_def distinct_update distinct_delete jsmap.get_put jsmap.get_del split: option.splits)

lemma index_wf_fold_remove [wf_intros]: "index_wf ix \<Longrightarrow> index_wf (fold (\<lambda>q. index_remove q c) qs ix)"
  by (induction qs arbitrary: ix) (auto intro: index_wf_remove)

lemma indexed_alt:
  "indexes P ss ix \<longleftrightarrow> index_wf ix
     \<and> (\<forall>k c. c \<in> set (members ix k) \<longleftrightarrow> (\<exists>s. map_get ss c = Some s \<and> P s k))"
  by (auto simp: indexes_def index_wf_def)

text \<open>Replacing one session leaves an index exact when it is corrected at that client.\<close>

lemma indexed_put:
  assumes "indexes P ss ix" "index_wf ix'"
    and "\<And>k. c \<in> set (members ix' k) \<longleftrightarrow> P s k"
    and "\<And>k d. d \<noteq> c \<Longrightarrow> d \<in> set (members ix' k) \<longleftrightarrow> d \<in> set (members ix k)"
  shows "indexes P (map_set c s ss) ix'"
  using assms by (simp add: indexed_alt jsmap.get_put)

lemma indexed_same:
  assumes "indexes P ss ix" "map_get ss c = Some s" "\<And>k. P s' k = P s k"
  shows "indexes P (map_set c s' ss) ix"
  using assms by (intro indexed_put [OF assms(1)]) (auto simp: indexed_alt)

lemma indexed_del:
  assumes "indexes P ss ix" "index_wf ix'"
    and "\<And>k. c \<notin> set (members ix' k)"
    and "\<And>k d. d \<noteq> c \<Longrightarrow> d \<in> set (members ix' k) \<longleftrightarrow> d \<in> set (members ix k)"
  shows "indexes P (map_del c ss) ix'"
  using assms by (simp add: indexed_alt jsmap.get_del)

lemma inv_put_session:
  assumes "session_inv sm" "map_get (sm_sessions sm) c = Some s"
    and "cs_clientId s' = cs_clientId s" "\<And>q. subscribed s' q = subscribed s q" "\<And>u. is_user s' u = is_user s u"
  shows "session_inv (put_session c s' sm)"
  using assms by (auto simp: session_inv_def put_session_def jsmap.get_put distinct_update intro: indexed_same)

lemma connect_inv:
  assumes "session_inv sm" "map_get (sm_sessions sm) c = None"
  shows "session_inv (session_connect c now sm)"
proof -
  let ?s = "\<lparr>cs_clientId = c, cs_auth = None, cs_subscriptions = [], cs_watermark = None, cs_connectedAt = now\<rparr>"
  have q: "indexes subscribed (sm_sessions sm) (sm_querySubscribers sm)"
    and u: "indexes is_user (sm_sessions sm) (sm_userSessions sm)" using assms by (simp_all add: session_inv_def)
  have "indexes subscribed (map_set c ?s (sm_sessions sm)) (sm_querySubscribers sm)"
    using q assms(2) by (intro indexed_put [OF q]) (auto simp: indexed_alt subscribed_def)
  moreover have "indexes is_user (map_set c ?s (sm_sessions sm)) (sm_userSessions sm)"
    using u assms(2) by (intro indexed_put [OF u]) (auto simp: indexed_alt is_user_def)
  ultimately show ?thesis
    using assms by (auto simp: session_inv_def session_connect_def jsmap.get_put distinct_update)
qed

lemma not_member: "indexes P ss ix \<Longrightarrow> map_get ss c = Some s \<Longrightarrow> \<not> P s k \<Longrightarrow> c \<notin> set (members ix k)"
  by (auto simp: indexed_alt)

lemma disconnect_inv:
  assumes "session_inv sm"
  shows "session_inv (session_disconnect c sm)"
proof (cases "map_get (sm_sessions sm) c")
  case None
  then have "map_del c (sm_sessions sm) = sm_sessions sm" by (simp add: delete_id map_of_eq_None_iff)
  with None assms show ?thesis by (simp add: session_disconnect_def)
next
  case (Some s)
  have q: "indexes subscribed (sm_sessions sm) (sm_querySubscribers sm)"
    and u: "indexes is_user (sm_sessions sm) (sm_userSessions sm)" using assms by (simp_all add: session_inv_def)
  have "indexes subscribed (map_del c (sm_sessions sm))
      (fold (\<lambda>q. index_remove q c) (map fst (cs_subscriptions s)) (sm_querySubscribers sm))"
    using q not_member [OF q Some]
    by (intro indexed_del [OF q]) (auto simp: members_fold_remove indexed_alt subscribed_def map_of_eq_None_iff intro: wf_intros)
  moreover have "indexes is_user (map_del c (sm_sessions sm))
      (case cs_auth s of None \<Rightarrow> sm_userSessions sm | Some auth \<Rightarrow> index_remove (au_userId auth) c (sm_userSessions sm))"
    using u not_member [OF u Some]
    by (intro indexed_del [OF u])
      (auto simp: members_remove indexed_alt is_user_def split: option.splits intro: wf_intros)
  ultimately show ?thesis
    using assms Some by (auto simp: session_inv_def session_disconnect_def jsmap.get_del distinct_delete)
qed

lemma set_auth_inv:
  assumes "session_inv sm"
  shows "session_inv (setAuth c auth sm)"
proof (cases "map_get (sm_sessions sm) c")
  case None
  with assms show ?thesis by (simp add: setAuth_def)
next
  case (Some s)
  have q: "indexes subscribed (sm_sessions sm) (sm_querySubscribers sm)"
    and u: "indexes is_user (sm_sessions sm) (sm_userSessions sm)" using assms by (simp_all add: session_inv_def)
  define users where "users = (case cs_auth s of
      Some old \<Rightarrow> if au_userId old \<noteq> au_userId auth
        then index_remove (au_userId old) c (sm_userSessions sm) else sm_userSessions sm
    | None \<Rightarrow> sm_userSessions sm)"
  have wf: "index_wf users" using u by (auto simp: users_def indexed_alt split: option.splits intro: wf_intros)
  have "indexes subscribed (map_set c (s\<lparr>cs_auth := Some auth\<rparr>) (sm_sessions sm)) (sm_querySubscribers sm)"
    by (rule indexed_same [OF q Some]) (simp add: subscribed_def)
  moreover have "indexes is_user (map_set c (s\<lparr>cs_auth := Some auth\<rparr>) (sm_sessions sm))
      (index_add (au_userId auth) c users)"
    using u Some not_member [OF u Some] wf
    by (intro indexed_put [OF u])
      (auto simp: members_add members_remove indexed_alt is_user_def users_def split: option.splits if_splits
        intro: wf_intros)
  ultimately show ?thesis
    using assms Some by (auto simp: session_inv_def setAuth_def users_def put_session_def jsmap.get_put distinct_update Let_def)
qed

lemma subscribe_inv:
  assumes "session_inv sm"
  shows "session_inv (session_subscribe c q params options roomKey windowSize sm)"
proof (cases "map_get (sm_sessions sm) c")
  case None
  with assms show ?thesis by (simp add: session_subscribe_def)
next
  case (Some s)
  let ?s = "s\<lparr>cs_subscriptions := map_set q (new_subscription q params options roomKey windowSize) (cs_subscriptions s)\<rparr>"
  have q: "indexes subscribed (sm_sessions sm) (sm_querySubscribers sm)"
    and u: "indexes is_user (sm_sessions sm) (sm_userSessions sm)" using assms by (simp_all add: session_inv_def)
  have "indexes subscribed (map_set c ?s (sm_sessions sm)) (index_add q c (sm_querySubscribers sm))"
    using q Some by (intro indexed_put [OF q])
      (auto simp: members_add indexed_alt subscribed_def jsmap.get_put intro: wf_intros)
  moreover have "indexes is_user (map_set c ?s (sm_sessions sm)) (sm_userSessions sm)"
    by (rule indexed_same [OF u Some]) (simp add: is_user_def)
  ultimately show ?thesis
    using assms Some by (auto simp: session_inv_def session_subscribe_def put_session_def jsmap.get_put distinct_update)
qed

lemma unsubscribe_inv:
  assumes "session_inv sm"
  shows "session_inv (session_unsubscribe c q sm)"
proof (cases "map_get (sm_sessions sm) c")
  case None
  with assms show ?thesis by (simp add: session_unsubscribe_def)
next
  case (Some s)
  let ?s = "s\<lparr>cs_subscriptions := map_del q (cs_subscriptions s)\<rparr>"
  have q: "indexes subscribed (sm_sessions sm) (sm_querySubscribers sm)"
    and u: "indexes is_user (sm_sessions sm) (sm_userSessions sm)" using assms by (simp_all add: session_inv_def)
  have "indexes subscribed (map_set c ?s (sm_sessions sm)) (index_remove q c (sm_querySubscribers sm))"
    using q Some by (intro indexed_put [OF q])
      (auto simp: members_remove indexed_alt subscribed_def jsmap.get_del intro: wf_intros)
  moreover have "indexes is_user (map_set c ?s (sm_sessions sm)) (sm_userSessions sm)"
    by (rule indexed_same [OF u Some]) (simp add: is_user_def)
  ultimately show ?thesis
    using assms Some by (auto simp: session_inv_def session_unsubscribe_def put_session_def jsmap.get_put distinct_update)
qed

lemma watermark_inv: "session_inv sm \<Longrightarrow> session_inv (updateWatermark c hlc sm)"
  by (auto simp: updateWatermark_def subscribed_def is_user_def split: option.splits intro!: inv_put_session)

lemma touch_inv: "session_inv sm \<Longrightarrow> session_inv (touch_subscription c q limit loaded n boot sm)"
  by (auto simp: touch_subscription_def subscribed_def is_user_def jsmap.get_put split: option.splits if_splits intro!: inv_put_session)

lemma session_run_inv: "session_run sm \<Longrightarrow> session_inv sm"
proof (induction rule: rtranclp_induct)
  case base
  show ?case by (simp add: session_inv_def new_sessions_def indexes_def members_def)
next
  case (step sm sm')
  from step.hyps(2) step.IH show ?case
    by cases (simp_all add: connect_inv disconnect_inv set_auth_inv subscribe_inv unsubscribe_inv watermark_inv touch_inv)
qed

lemma run_subscribes: "session_run sm \<Longrightarrow> session_run (session_subscribe c q params options room window sm)"
  by (erule rtranclp.rtrancl_into_rtrancl) (rule subscribes)

lemma run_authenticates: "session_run sm \<Longrightarrow> session_run (setAuth c auth sm)"
  by (erule rtranclp.rtrancl_into_rtrancl) (rule authenticates)

lemma run_connects: "map_get (sm_sessions sm) c = None \<Longrightarrow> session_run sm \<Longrightarrow> session_run (session_connect c now sm)"
  by (erule rtranclp.rtrancl_into_rtrancl) (rule connects)

section \<open>Reading an index is scanning the sessions\<close>

lemma indexed_scan:
  assumes "indexes P ss ix" "map_wf ss"
  shows "mset (List.map_filter (map_get ss) (members ix k)) = mset (filter (\<lambda>s. P s k) (map snd ss))"
    and "length (members ix k) = length (filter (\<lambda>s. P s k) (map snd ss))"
proof -
  let ?mine = "filter (\<lambda>x. P (snd x) k) ss"
  have "set (members ix k) = set (map fst ?mine)"
    using assms by (auto simp: indexed_alt image_iff dest: map_of_SomeD intro: map_of_is_SomeI) (metis map_of_SomeD snd_conv fst_conv)
  then have ids: "mset (members ix k) = mset (map fst ?mine)"
    using assms by (subst set_eq_iff_mset_eq_distinct [symmetric]) (auto simp: indexes_def distinct_fst_filter)
  have "map_get ss c \<noteq> None" if "c \<in> set (members ix k)" for c using that assms(1) by (auto simp: indexed_alt)
  then have "List.map_filter (map_get ss) (members ix k) = map (the \<circ> map_get ss) (members ix k)"
    by (simp add: List.map_filter_def comp_def filter_id_conv)
  then have "mset (List.map_filter (map_get ss) (members ix k)) = image_mset (the \<circ> map_get ss) (mset (map fst ?mine))"
    by (simp add: ids)
  also have "\<dots> = mset (map snd ?mine)"
    using assms(2) by (auto simp flip: mset_map simp: comp_def intro!: arg_cong [where f = mset] map_cong)
  also have "map snd ?mine = filter (\<lambda>s. P s k) (map snd ss)" by (simp add: filter_map comp_def)
  finally show "mset (List.map_filter (map_get ss) (members ix k)) = mset (filter (\<lambda>s. P s k) (map snd ss))" .
  from ids have "length (members ix k) = length ?mine" by (metis length_map size_mset)
  then show "length (members ix k) = length (filter (\<lambda>s. P s k) (map snd ss))" by (simp add: filter_map comp_def)
qed

lemma fold_older:
  "case fold (\<lambda>c. older_of (f c)) ids best of
     None \<Rightarrow> best = None \<and> (\<forall>c \<in> set ids. f c = None)
   | Some s \<Rightarrow> (best = Some s \<or> (\<exists>c \<in> set ids. f c = Some s))
       \<and> (\<forall>c \<in> set ids. \<forall>t. f c = Some t \<longrightarrow> cs_connectedAt s \<le> cs_connectedAt t)
       \<and> (\<forall>t. best = Some t \<longrightarrow> cs_connectedAt s \<le> cs_connectedAt t)"
proof (induction ids arbitrary: best)
  case (Cons c ids)
  from Cons.IH [of "older_of (f c) best"] show ?case
    by (force simp: older_of_def split: option.splits if_splits)
qed (auto split: option.split)

lemma concat_mset_cong:
  "(\<And>x. x \<in> set xs \<Longrightarrow> mset (f x) = mset (g x)) \<Longrightarrow> mset (concat (map f xs)) = mset (concat (map g xs))"
  by (induction xs) auto

lemma query_scan:
  assumes "session_inv sm"
  shows "mset (List.map_filter (map_get (sm_sessions sm)) (members (sm_querySubscribers sm) q))
    = mset (filter (\<lambda>s. subscribed s q) (getAll sm))"
  using assms indexed_scan(1) [of subscribed "sm_sessions sm" "sm_querySubscribers sm" q]
  by (simp add: session_inv_def getAll_def)

lemma subscribers_scan:
  "session_inv sm \<Longrightarrow> mset (getSubscribersForQuery sm q room)
    = mset (filter (\<lambda>s. subscribed s q \<and> in_room q room s) (getAll sm))"
  by (simp add: getSubscribersForQuery_def query_scan mset_filter conj_commute flip: filter_filter_mset)

lemma dependency_scan:
  assumes "session_inv sm"
  shows "mset (getSubscribersForTableDependency sm ti table)
    = mset (concat (map (\<lambda>q. map (\<lambda>s. (s, q)) (filter (\<lambda>s. subscribed s q) (getAll sm))) (members ti table)))"
  unfolding getSubscribersForTableDependency_def
  by (rule concat_mset_cong) (simp only: mset_map query_scan [OF assms])

lemma count_scan: "session_inv sm \<Longrightarrow> countForUser sm u = length (filter (\<lambda>s. is_user s u) (getAll sm))"
  using indexed_scan(2) [of is_user "sm_sessions sm" "sm_userSessions sm" u]
  by (simp add: session_inv_def countForUser_def getAll_def)

lemma oldest_scan:
  assumes "session_inv sm"
  shows "case oldestForUser sm u of
      None \<Rightarrow> \<forall>s \<in> set (getAll sm). \<not> is_user s u
    | Some s \<Rightarrow> s \<in> set (getAll sm) \<and> is_user s u
        \<and> (\<forall>t \<in> set (getAll sm). is_user t u \<longrightarrow> cs_connectedAt s \<le> cs_connectedAt t)"
proof -
  have wf: "map_wf (sm_sessions sm)" and us: "indexes is_user (sm_sessions sm) (sm_userSessions sm)"
    using assms by (simp_all add: session_inv_def)
  have "s \<in> set (getAll sm) \<longleftrightarrow> (\<exists>c. map_get (sm_sessions sm) c = Some s)" for s
    using wf by (force simp: getAll_def map_of_eq_Some_iff)
  then have "s \<in> set (getAll sm) \<and> is_user s u
      \<longleftrightarrow> (\<exists>c \<in> set (members (sm_userSessions sm) u). map_get (sm_sessions sm) c = Some s)" for s
    using us by (auto simp: indexed_alt)
  then show ?thesis
    using fold_older [where f = "map_get (sm_sessions sm)" and ids = "members (sm_userSessions sm) u" and best = None]
    unfolding oldestForUser_def by (fastforce split: option.splits)
qed

section \<open>Properties\<close>


definition sample_sessions :: "string SessionManager" where
  "sample_sessions = session_subscribe ''c2'' ''todos'' [] ''o'' (Some ''r'') None
     (session_connect ''c2'' 5 (session_subscribe ''c1'' ''todos'' [] ''o'' None (Some 50)
       (setAuth ''c1'' \<lparr>au_userId = ''u'', au_fields = []\<rparr> (session_connect ''c1'' 3 new_sessions))))"


end
