(* ===== verification/Object_Driver.thy ===== *)
theory Object_Driver
  imports Room_State
begin

text \<open>
  The contracts of the object store (\<open>src/server/storage/object/types.ts\<close>) and the in-memory
  driver (\<open>drivers/memory.ts\<close>). The bytes of an object are kept as the value they encode: a
  manifest, a lease, the lines of a log segment, a snapshot, or bytes that are none of these.
  A driver is the record of its operations over the store's state \<open>'s\<close>; each returns what the
  call resolves to, or the error it rejects with, and the state it leaves.
\<close>

section \<open>Errors\<close>

text \<open>The two classes the callers test for; every other \<open>Error\<close> by what raised it.\<close>

datatype StoreError =
    PreconditionFailed string
  | NotWriter string string
  | BothConditions string
  | NoWildcard string
  | NotSeeded string
  | NotJson string
  | RoomClosed string
  | CasExhausted string
  | Backpressure int int
  | NotDurable nat
  | WriterStopped
  | OtherError string

section \<open>Persisted shapes\<close>

record LeaseRecord =
  le_owner :: string
  le_epoch :: int
  le_expiresAt :: int

record WalSegmentRef =
  ws_key :: string
  ws_epoch :: int
  ws_seq :: nat
  ws_bytes :: nat
  ws_maxHlc :: string

text \<open>\<open>commitSeq\<close> and \<open>lastWriter\<close> are absent in a manifest written before they existed.\<close>

record ManifestRecord =
  mf_epoch :: int
  mf_commitSeq :: "int option"
  mf_lastWriter :: "string option"
  mf_snapshotKey :: "string option"
  mf_snapshotHlc :: "string option"
  mf_walSegs :: "WalSegmentRef list"
  mf_oplogHead :: "string option"
  mf_meta :: "string jsobj"
  mf_pendingGc :: "(string \<times> int) list"

datatype Body =
    ManifestBody ManifestRecord
  | LeaseBody LeaseRecord
  | SegmentBody "WalRecord list"
  | SnapshotBody SnapshotRecord
  | Garbage

record ObjectRecord =
  or_body :: Body
  or_etag :: string

section \<open>Configuration\<close>

datatype ConcurrencyMode = SingleWriter | Optimistic
datatype LeaseMode = AlwaysLease | OnWriteLease
datatype DurabilityMode = Durable | BufferedMode
datatype BackpressurePolicy = RejectWrites | Degrade
datatype StorageHealth = Healthy | Degraded | Unavailable

record BatchConfig =
  ba_maxBytes :: nat
  ba_minLingerMs :: nat
  ba_maxBufferBytes :: nat
  ba_onBackpressure :: BackpressurePolicy

record LeaseConfig =
  lc_ttlMs :: int
  lc_renewMs :: int
  lc_mode :: LeaseMode

definition BATCH_DEFAULTS :: BatchConfig where
  "BATCH_DEFAULTS = \<lparr>ba_maxBytes = 4 * 1024 * 1024, ba_minLingerMs = 5,
     ba_maxBufferBytes = 64 * 1024 * 1024, ba_onBackpressure = RejectWrites\<rparr>"

definition LEASE_DEFAULTS :: LeaseConfig where
  "LEASE_DEFAULTS = \<lparr>lc_ttlMs = 5 * 60 * 1000, lc_renewMs = 2 * 60 * 1000, lc_mode = OnWriteLease\<rparr>"

section \<open>The driver interface\<close>

text \<open>\<open>ifNoneMatch\<close> has the one value \<open>"*"\<close>.\<close>

record ObjectPutOptions =
  po_ifMatch :: "string option"
  po_ifNoneMatch :: bool

abbreviation unconditional :: ObjectPutOptions where
  "unconditional \<equiv> \<lparr>po_ifMatch = None, po_ifNoneMatch = False\<rparr>"

abbreviation if_match :: "string \<Rightarrow> ObjectPutOptions" where
  "if_match e \<equiv> \<lparr>po_ifMatch = Some e, po_ifNoneMatch = False\<rparr>"

abbreviation if_absent :: ObjectPutOptions where
  "if_absent \<equiv> \<lparr>po_ifMatch = None, po_ifNoneMatch = True\<rparr>"

record 's ObjectDriver =
  od_casWildcard :: bool
  od_get :: "string \<Rightarrow> 's \<Rightarrow> (StoreError + ObjectRecord option) \<times> 's"
  od_put :: "string \<Rightarrow> Body \<Rightarrow> ObjectPutOptions \<Rightarrow> 's \<Rightarrow> (StoreError + string) \<times> 's"
  od_list :: "string \<Rightarrow> 's \<Rightarrow> (StoreError + (string \<times> nat) list) \<times> 's"
  od_delete :: "string list \<Rightarrow> 's \<Rightarrow> (StoreError + unit) \<times> 's"

section \<open>The in-memory driver\<close>

datatype MemoryDriverOp = GetOp | PutOp | ListOp | DeleteOp

record MemoryDriverStats =
  st_get :: nat
  st_put :: nat
  st_list :: nat
  st_delete :: nat

record MemoryDriver =
  md_store :: "(string, ObjectRecord) jsmap"
  md_etagCounter :: nat
  md_calls :: nat
  md_stats :: MemoryDriverStats

definition new_memory_driver :: MemoryDriver where
  "new_memory_driver = \<lparr>md_store = [], md_etagCounter = 0, md_calls = 0,
     md_stats = \<lparr>st_get = 0, st_put = 0, st_list = 0, st_delete = 0\<rparr>\<rparr>"

text \<open>The fault hook sees the operation, the key it names and the ordinal of the call, after the
  counters moved; a throw leaves the store as it was. An injected delay changes no result.\<close>

type_synonym fault_hook = "MemoryDriverOp \<Rightarrow> string \<Rightarrow> nat \<Rightarrow> MemoryDriverStats \<Rightarrow> StoreError option"

fun count_op :: "MemoryDriverOp \<Rightarrow> MemoryDriverStats \<Rightarrow> MemoryDriverStats" where
  "count_op GetOp st = st\<lparr>st_get := st_get st + 1\<rparr>"
| "count_op PutOp st = st\<lparr>st_put := st_put st + 1\<rparr>"
| "count_op ListOp st = st\<lparr>st_list := st_list st + 1\<rparr>"
| "count_op DeleteOp st = st\<lparr>st_delete := st_delete st + 1\<rparr>"

definition enter :: "fault_hook \<Rightarrow> MemoryDriverOp \<Rightarrow> string \<Rightarrow> MemoryDriver \<Rightarrow> StoreError option \<times> MemoryDriver" where
  "enter faults op key d =
     (let d' = d\<lparr>md_calls := md_calls d + 1, md_stats := count_op op (md_stats d)\<rparr>
      in (faults op key (md_calls d') (md_stats d'), d'))"

definition memory_get ::
  "fault_hook \<Rightarrow> string \<Rightarrow> MemoryDriver \<Rightarrow> (StoreError + ObjectRecord option) \<times> MemoryDriver" where
  "memory_get faults key d =
     (case enter faults GetOp key d of
        (Some e, d') \<Rightarrow> (Inl e, d')
      | (None, d') \<Rightarrow> (Inr (map_get (md_store d') key), d'))"

definition put_refusal :: "bool \<Rightarrow> string \<Rightarrow> ObjectPutOptions \<Rightarrow> MemoryDriver \<Rightarrow> StoreError option" where
  "put_refusal casWildcard key opts d =
     (if po_ifMatch opts \<noteq> None \<and> po_ifNoneMatch opts then Some (BothConditions key)
      else if po_ifNoneMatch opts \<and> \<not> casWildcard then Some (NoWildcard key)
      else if po_ifNoneMatch opts \<and> map_has (md_store d) key then Some (PreconditionFailed key)
      else if po_ifMatch opts \<noteq> None
            \<and> (case map_get (md_store d) key of None \<Rightarrow> True
               | Some current \<Rightarrow> Some (or_etag current) \<noteq> po_ifMatch opts)
        then Some (PreconditionFailed key)
      else None)"

definition etag_str :: "nat \<Rightarrow> string" where
  "etag_str n = ''\"'' @ nat_str n @ ''\"''"

definition memory_put ::
  "bool \<Rightarrow> fault_hook \<Rightarrow> string \<Rightarrow> Body \<Rightarrow> ObjectPutOptions \<Rightarrow> MemoryDriver \<Rightarrow> (StoreError + string) \<times> MemoryDriver" where
  "memory_put casWildcard faults key body opts d =
     (case enter faults PutOp key d of
        (Some e, d') \<Rightarrow> (Inl e, d')
      | (None, d') \<Rightarrow>
          (case put_refusal casWildcard key opts d' of
             Some e \<Rightarrow> (Inl e, d')
           | None \<Rightarrow>
               let etag = etag_str (md_etagCounter d' + 1)
               in (Inr etag,
                   d'\<lparr>md_etagCounter := md_etagCounter d' + 1,
                      md_store := map_set key \<lparr>or_body = body, or_etag = etag\<rparr> (md_store d')\<rparr>)))"

definition starts_with_key :: "string \<Rightarrow> string \<Rightarrow> bool" where
  "starts_with_key p k \<longleftrightarrow> take (length p) k = p"

text \<open>Ascending by code unit; the keys of a store are distinct.\<close>

definition memory_list ::
  "(Body \<Rightarrow> nat) \<Rightarrow> fault_hook \<Rightarrow> string \<Rightarrow> MemoryDriver \<Rightarrow> (StoreError + (string \<times> nat) list) \<times> MemoryDriver" where
  "memory_list sz faults pfx d =
     (case enter faults ListOp pfx d of
        (Some e, d') \<Rightarrow> (Inl e, d')
      | (None, d') \<Rightarrow>
          (Inr (map (\<lambda>(k, r). (k, sz (or_body r)))
            (sort_key fst (filter (\<lambda>(k, r). starts_with_key pfx k) (md_store d')))), d'))"

definition comma_joined :: "string list \<Rightarrow> string" where
  "comma_joined keys = (case keys of [] \<Rightarrow> [] | k # ks \<Rightarrow> k @ concat (map (\<lambda>x. CHR '','' # x) ks))"

definition memory_delete ::
  "fault_hook \<Rightarrow> string list \<Rightarrow> MemoryDriver \<Rightarrow> (StoreError + unit) \<times> MemoryDriver" where
  "memory_delete faults keys d =
     (case enter faults DeleteOp (comma_joined keys) d of
        (Some e, d') \<Rightarrow> (Inl e, d')
      | (None, d') \<Rightarrow> (Inr (), d'\<lparr>md_store := fold map_del keys (md_store d')\<rparr>))"

definition memory_dump :: "MemoryDriver \<Rightarrow> (string \<times> Body) list" where
  "memory_dump d = map (\<lambda>(k, r). (k, or_body r)) (sort_key fst (md_store d))"

definition createMemoryDriver :: "bool \<Rightarrow> (Body \<Rightarrow> nat) \<Rightarrow> fault_hook \<Rightarrow> MemoryDriver ObjectDriver" where
  "createMemoryDriver casWildcard sz faults =
     \<lparr>od_casWildcard = casWildcard, od_get = memory_get faults, od_put = memory_put casWildcard faults,
      od_list = memory_list sz faults, od_delete = memory_delete faults\<rparr>"

end
