(* ===== verification/Manifest.thy ===== *)
theory Manifest
  imports Object_Driver
begin

text \<open>
  \<open>src/server/storage/object/manifest.ts\<close>: the manifest of a room, committed by compare-and-swap,
  and the election of its writer. Methods take the driver and the driver's state, and return
  what they resolve to or reject with, the driver's state and the store. \<open>now\<close> is what
  \<open>clock.now()\<close> reads. Commits are serialized by the store's promise chain, so a method here runs
  to its end before the next; other processes act between its driver calls, inside the driver.
\<close>

section \<open>The empty manifest and its encoding\<close>

definition MANIFEST_KEY :: string where "MANIFEST_KEY = ''_manifest''"

definition LEASE_KEY :: string where "LEASE_KEY = ''_lease''"

text \<open>\<open>encodeURIComponent\<close>: all but letters, digits and \<open>- _ . ! ~ * ' ( )\<close> as UTF-8 in percent escapes.\<close>

definition uri_unreserved :: "char \<Rightarrow> bool" where
  "uri_unreserved c = (let n = of_char c :: nat in
     (48 \<le> n \<and> n \<le> 57) \<or> (65 \<le> n \<and> n \<le> 90) \<or> (97 \<le> n \<and> n \<le> 122)
     \<or> n \<in> {33, 39, 40, 41, 42, 45, 46, 95, 126})"

definition hex_digit :: "nat \<Rightarrow> char" where
  "hex_digit n = char_of (if n < 10 then 48 + n else 55 + n)"

definition percent :: "nat \<Rightarrow> string" where
  "percent n = [CHR ''%'', hex_digit (n div 16), hex_digit (n mod 16)]"

definition uri_char :: "char \<Rightarrow> string" where
  "uri_char c = (let n = of_char c :: nat in
     if uri_unreserved c then [c]
     else if n < 128 then percent n
     else percent (192 + n div 64) @ percent (128 + n mod 64))"

definition encodeURIComponent :: "string \<Rightarrow> string" where
  "encodeURIComponent s = concat (map uri_char s)"

definition roomPrefix :: "string \<Rightarrow> string" where
  "roomPrefix roomId = ''rooms/'' @ encodeURIComponent roomId @ ''/''"

definition emptyManifest :: ManifestRecord where
  "emptyManifest = \<lparr>mf_epoch = 0, mf_commitSeq = Some 0, mf_lastWriter = Some [], mf_snapshotKey = None,
     mf_snapshotHlc = None, mf_walSegs = [], mf_oplogHead = None, mf_meta = [], mf_pendingGc = []\<rparr>"

definition decodeManifest :: "Body \<Rightarrow> string \<Rightarrow> StoreError + ManifestRecord" where
  "decodeManifest body key = (case body of ManifestBody m \<Rightarrow> Inr m | _ \<Rightarrow> Inl (NotJson key))"

definition decodeLease :: "Body \<Rightarrow> string \<Rightarrow> StoreError + LeaseRecord" where
  "decodeLease body key = (case body of LeaseBody l \<Rightarrow> Inr l | _ \<Rightarrow> Inl (NotJson key))"

definition normalize_manifest :: "ManifestRecord \<Rightarrow> ManifestRecord" where
  "normalize_manifest m =
     m\<lparr>mf_commitSeq := Some (case mf_commitSeq m of None \<Rightarrow> 0 | Some n \<Rightarrow> n),
       mf_lastWriter := Some (case mf_lastWriter m of None \<Rightarrow> [] | Some w \<Rightarrow> w)\<rparr>"

section \<open>The store\<close>

definition OPTIMISTIC_MAX_ATTEMPTS :: nat where
  "OPTIMISTIC_MAX_ATTEMPTS = 6"

text \<open>\<open>ms_renewTimer\<close> is the delay of the armed renew timer.\<close>

record ManifestStore =
  ms_roomId :: string
  ms_writerId :: string
  ms_leaseConfig :: LeaseConfig
  ms_concurrency :: ConcurrencyMode
  ms_manifestKey :: string
  ms_leaseKey :: string
  ms_cached :: ManifestRecord
  ms_cachedEtag :: "string option"
  ms_loaded :: bool
  ms_leaseEtag :: "string option"
  ms_leaseEpoch :: int
  ms_leaseExpiresAt :: int
  ms_held :: bool
  ms_renewTimer :: "int option"
  ms_wroteSinceRenew :: bool
  ms_fenceReason :: "string option"
  ms_stopped :: bool

definition new_manifest_store :: "string \<Rightarrow> string \<Rightarrow> LeaseConfig \<Rightarrow> ConcurrencyMode \<Rightarrow> ManifestStore" where
  "new_manifest_store roomId writerId lease concurrency =
     \<lparr>ms_roomId = roomId, ms_writerId = writerId, ms_leaseConfig = lease, ms_concurrency = concurrency,
      ms_manifestKey = roomPrefix roomId @ MANIFEST_KEY, ms_leaseKey = roomPrefix roomId @ LEASE_KEY,
      ms_cached = emptyManifest, ms_cachedEtag = None, ms_loaded = False,
      ms_leaseEtag = None, ms_leaseEpoch = 0, ms_leaseExpiresAt = 0, ms_held = False,
      ms_renewTimer = None, ms_wroteSinceRenew = False, ms_fenceReason = None, ms_stopped = False\<rparr>"

definition isWriter :: "ManifestStore \<Rightarrow> bool" where
  "isWriter ms \<longleftrightarrow> ms_held ms \<and> falsy_str (ms_fenceReason ms)"

definition fenced :: "ManifestStore \<Rightarrow> bool" where
  "fenced ms \<longleftrightarrow> ms_fenceReason ms \<noteq> None"

section \<open>Internals\<close>

definition createOptions :: "'s ObjectDriver \<Rightarrow> ManifestStore \<Rightarrow> StoreError + ObjectPutOptions" where
  "createOptions d ms = (if od_casWildcard d then Inr if_absent else Inl (NotSeeded (ms_roomId ms)))"

text \<open>\<open>etag ? { ifMatch: etag } : this.createOptions()\<close>\<close>

definition cas_options :: "'s ObjectDriver \<Rightarrow> ManifestStore \<Rightarrow> string option \<Rightarrow> StoreError + ObjectPutOptions" where
  "cas_options d ms etag = (if falsy_str etag then createOptions d ms else Inr (if_match (the etag)))"

definition put_with ::
  "'s ObjectDriver \<Rightarrow> string \<Rightarrow> Body \<Rightarrow> StoreError + ObjectPutOptions \<Rightarrow> 's \<Rightarrow> (StoreError + string) \<times> 's" where
  "put_with d key body opts s = (case opts of Inl e \<Rightarrow> (Inl e, s) | Inr opt \<Rightarrow> od_put d key body opt s)"

definition is_precondition :: "StoreError \<Rightarrow> bool" where
  "is_precondition e = (case e of PreconditionFailed k \<Rightarrow> True | _ \<Rightarrow> False)"

definition is_not_writer :: "StoreError \<Rightarrow> bool" where
  "is_not_writer e = (case e of NotWriter r w \<Rightarrow> True | _ \<Rightarrow> False)"

definition assertNotFenced :: "ManifestStore \<Rightarrow> StoreError option" where
  "assertNotFenced ms =
     (if falsy_str (ms_fenceReason ms) then None
      else Some (NotWriter (ms_roomId ms) (the (ms_fenceReason ms))))"

definition disarmRenew :: "ManifestStore \<Rightarrow> ManifestStore" where
  "disarmRenew ms = ms\<lparr>ms_renewTimer := None\<rparr>"

definition fence :: "string \<Rightarrow> ManifestStore \<Rightarrow> ManifestStore" where
  "fence reason ms =
     (if \<not> falsy_str (ms_fenceReason ms) then ms
      else disarmRenew (ms\<lparr>ms_fenceReason := Some reason, ms_held := False\<rparr>))"

definition armRenew :: "ManifestStore \<Rightarrow> ManifestStore" where
  "armRenew ms =
     (if ms_stopped ms then disarmRenew ms
      else ms\<lparr>ms_wroteSinceRenew := False, ms_renewTimer := Some (lc_renewMs (ms_leaseConfig ms))\<rparr>)"

section \<open>Boot\<close>

definition seed_if_absent :: "'s ObjectDriver \<Rightarrow> string \<Rightarrow> Body \<Rightarrow> 's \<Rightarrow> (StoreError + unit) \<times> 's" where
  "seed_if_absent d key body s =
     (case od_get d key s of
        (Inl e, s') \<Rightarrow> (Inl e, s')
      | (Inr (Some r), s') \<Rightarrow> (Inr (), s')
      | (Inr None, s') \<Rightarrow>
          (case od_put d key body unconditional s' of
             (Inl e, t) \<Rightarrow> (Inl e, t) | (Inr _, t) \<Rightarrow> (Inr (), t)))"

definition manifest_init :: "'s ObjectDriver \<Rightarrow> 's \<Rightarrow> ManifestStore \<Rightarrow> (StoreError + unit) \<times> 's" where
  "manifest_init d s ms =
     (if od_casWildcard d then (Inr (), s)
      else case seed_if_absent d (ms_manifestKey ms) (ManifestBody emptyManifest) s of
        (Inl e, s') \<Rightarrow> (Inl e, s')
      | (Inr _, s') \<Rightarrow>
          seed_if_absent d (ms_leaseKey ms) (LeaseBody \<lparr>le_owner = [], le_epoch = 0, le_expiresAt = 0\<rparr>) s')"

definition manifest_load ::
  "'s ObjectDriver \<Rightarrow> 's \<Rightarrow> ManifestStore \<Rightarrow> (StoreError + ManifestRecord) \<times> 's \<times> ManifestStore" where
  "manifest_load d s ms =
     (case od_get d (ms_manifestKey ms) s of
        (Inl e, s') \<Rightarrow> (Inl e, s', ms)
      | (Inr None, s') \<Rightarrow>
          (Inr emptyManifest, s', ms\<lparr>ms_cached := emptyManifest, ms_cachedEtag := None, ms_loaded := True\<rparr>)
      | (Inr (Some r), s') \<Rightarrow>
          (case decodeManifest (or_body r) (ms_manifestKey ms) of
             Inl e \<Rightarrow> (Inl e, s', ms)
           | Inr m \<Rightarrow>
               (Inr (normalize_manifest m), s',
                ms\<lparr>ms_cached := normalize_manifest m, ms_cachedEtag := Some (or_etag r),
                   ms_leaseEpoch := (if mf_epoch m > ms_leaseEpoch ms then mf_epoch m else ms_leaseEpoch ms),
                   ms_loaded := True\<rparr>)))"

definition ensure_manifest_loaded ::
  "'s ObjectDriver \<Rightarrow> 's \<Rightarrow> ManifestStore \<Rightarrow> (StoreError + unit) \<times> 's \<times> ManifestStore" where
  "ensure_manifest_loaded d s ms =
     (if ms_loaded ms then (Inr (), s, ms)
      else case manifest_load d s ms of
        (Inl e, s', ms') \<Rightarrow> (Inl e, s', ms') | (Inr _, s', ms') \<Rightarrow> (Inr (), s', ms'))"

section \<open>The lease\<close>

definition read_lease ::
  "'s ObjectDriver \<Rightarrow> 's \<Rightarrow> ManifestStore \<Rightarrow> (StoreError + (LeaseRecord \<times> string) option) \<times> 's" where
  "read_lease d s ms =
     (case od_get d (ms_leaseKey ms) s of
        (Inl e, s') \<Rightarrow> (Inl e, s')
      | (Inr None, s') \<Rightarrow> (Inr None, s')
      | (Inr (Some r), s') \<Rightarrow>
          (case decodeLease (or_body r) (ms_leaseKey ms) of
             Inl e \<Rightarrow> (Inl e, s') | Inr l \<Rightarrow> (Inr (Some (l, or_etag r)), s')))"

definition lease_held_by_other :: "ManifestStore \<Rightarrow> int \<Rightarrow> LeaseRecord \<Rightarrow> bool" where
  "lease_held_by_other ms now l \<longleftrightarrow> le_owner l \<noteq> ms_writerId ms \<and> le_expiresAt l > now"

definition next_epoch :: "ManifestStore \<Rightarrow> int \<Rightarrow> (LeaseRecord \<times> string) option \<Rightarrow> int" where
  "next_epoch ms now current =
     (case current of
        None \<Rightarrow> max 0 (ms_leaseEpoch ms) + 1
      | Some (l, _) \<Rightarrow>
          if le_owner l = ms_writerId ms \<and> le_expiresAt l > now \<and> ms_leaseEtag ms \<noteq> None
          then le_epoch l else max (le_epoch l) (ms_leaseEpoch ms) + 1)"

definition acquire_refusal :: "ManifestStore \<Rightarrow> int \<Rightarrow> (LeaseRecord \<times> string) option \<Rightarrow> StoreError option" where
  "acquire_refusal ms now current =
     (case current of
        Some (l, _) \<Rightarrow>
          if lease_held_by_other ms now l
          then Some (NotWriter (ms_roomId ms) (''lease held by \"'' @ le_owner l @ ''\" for another ''
            @ int_str (le_expiresAt l - now) @ ''ms''))
          else None
      | None \<Rightarrow> None)"

definition take_lease ::
  "'s ObjectDriver \<Rightarrow> int \<Rightarrow> (LeaseRecord \<times> string) option \<Rightarrow> 's \<Rightarrow> ManifestStore
     \<Rightarrow> (StoreError + unit) \<times> 's \<times> ManifestStore" where
  "take_lease d now current s ms =
     (let epoch = next_epoch ms now current;
          expires = now + lc_ttlMs (ms_leaseConfig ms);
          body = LeaseBody \<lparr>le_owner = ms_writerId ms, le_epoch = epoch, le_expiresAt = expires\<rparr>;
          opts = (case current of Some (_, etag) \<Rightarrow> Inr (if_match etag) | None \<Rightarrow> createOptions d ms)
      in case put_with d (ms_leaseKey ms) body opts s of
           (Inl e, t) \<Rightarrow>
             (Inl (if is_precondition e
                then NotWriter (ms_roomId ms) ''lost the lease CAS to a concurrent writer'' else e), t, ms)
         | (Inr etag, t) \<Rightarrow>
             (Inr (), t, armRenew (ms\<lparr>ms_leaseEtag := Some etag, ms_leaseEpoch := epoch,
                ms_leaseExpiresAt := expires, ms_held := True\<rparr>)))"

definition acquire ::
  "'s ObjectDriver \<Rightarrow> int \<Rightarrow> 's \<Rightarrow> ManifestStore \<Rightarrow> (StoreError + unit) \<times> 's \<times> ManifestStore" where
  "acquire d now s ms =
     (case assertNotFenced ms of
        Some e \<Rightarrow> (Inl e, s, ms)
      | None \<Rightarrow>
          (case read_lease d s ms of
             (Inl e, s') \<Rightarrow> (Inl e, s', ms)
           | (Inr current, s') \<Rightarrow>
               (case acquire_refusal ms now current of
                  Some e \<Rightarrow> (Inl e, s', ms)
                | None \<Rightarrow> take_lease d now current s' ms)))"

definition manifest_start ::
  "'s ObjectDriver \<Rightarrow> int \<Rightarrow> 's \<Rightarrow> ManifestStore \<Rightarrow> (StoreError + unit) \<times> 's \<times> ManifestStore" where
  "manifest_start d now s ms =
     (if ms_concurrency ms = Optimistic then (Inr (), s, ms)
      else if lc_mode (ms_leaseConfig ms) = AlwaysLease then acquire d now s ms
      else (Inr (), s, ms))"

definition ensureWriter ::
  "'s ObjectDriver \<Rightarrow> int \<Rightarrow> 's \<Rightarrow> ManifestStore \<Rightarrow> (StoreError + unit) \<times> 's \<times> ManifestStore" where
  "ensureWriter d now s ms =
     (if ms_concurrency ms = Optimistic then (Inr (), s, ms)
      else case assertNotFenced ms of
        Some e \<Rightarrow> (Inl e, s, ms)
      | None \<Rightarrow> if ms_held ms then (Inr (), s, ms) else acquire d now s ms)"

definition release ::
  "'s ObjectDriver \<Rightarrow> 's \<Rightarrow> ManifestStore \<Rightarrow> (StoreError + unit) \<times> 's \<times> ManifestStore" where
  "release d s ms =
     (let ms = disarmRenew ms
      in if \<not> ms_held ms \<or> falsy_str (ms_leaseEtag ms) then (Inr (), s, ms)
         else let ms = ms\<lparr>ms_held := False\<rparr>
           in case od_put d (ms_leaseKey ms)
                  (LeaseBody \<lparr>le_owner = [], le_epoch = ms_leaseEpoch ms, le_expiresAt = 0\<rparr>)
                  (if_match (the (ms_leaseEtag ms))) s of
                (Inl e, t) \<Rightarrow>
                  if is_precondition e then (Inr (), t, ms\<lparr>ms_leaseEtag := None\<rparr>) else (Inl e, t, ms)
              | (Inr _, t) \<Rightarrow> (Inr (), t, ms\<lparr>ms_leaseEtag := None\<rparr>))"

definition manifest_stop :: "ManifestStore \<Rightarrow> ManifestStore" where
  "manifest_stop ms = disarmRenew (ms\<lparr>ms_stopped := True\<rparr>)"

definition renew ::
  "'s ObjectDriver \<Rightarrow> int \<Rightarrow> 's \<Rightarrow> ManifestStore \<Rightarrow> (StoreError + unit) \<times> 's \<times> ManifestStore" where
  "renew d now s ms =
     (let expires = now + lc_ttlMs (ms_leaseConfig ms)
      in case put_with d (ms_leaseKey ms)
             (LeaseBody \<lparr>le_owner = ms_writerId ms, le_epoch = ms_leaseEpoch ms, le_expiresAt = expires\<rparr>)
             (cas_options d ms (ms_leaseEtag ms)) s of
           (Inl e, t) \<Rightarrow> (Inl e, t, ms)
         | (Inr etag, t) \<Rightarrow>
             (Inr (), t, ms\<lparr>ms_leaseEtag := Some etag, ms_leaseExpiresAt := expires,
                ms_wroteSinceRenew := False\<rparr>))"

text \<open>The renew timer fires: \<open>now\<close> is the clock at the renewal, \<open>later\<close> when a failure is handled.\<close>

definition onRenewTick ::
  "'s ObjectDriver \<Rightarrow> int \<Rightarrow> int \<Rightarrow> 's \<Rightarrow> ManifestStore \<Rightarrow> 's \<times> ManifestStore" where
  "onRenewTick d now later s ms =
     (let ms = ms\<lparr>ms_renewTimer := None\<rparr>
      in if ms_stopped ms \<or> \<not> ms_held ms \<or> \<not> falsy_str (ms_fenceReason ms) then (s, ms)
         else if lc_mode (ms_leaseConfig ms) = OnWriteLease \<and> \<not> ms_wroteSinceRenew ms
           then (s, ms\<lparr>ms_held := False\<rparr>)
         else case renew d now s ms of
           (Inr _, t, ms') \<Rightarrow> (t, armRenew ms')
         | (Inl e, t, ms') \<Rightarrow>
             (t, if is_precondition e \<or> is_not_writer e
                 then fence ''lease renewal lost the CAS - another writer took this room'' ms'
                 else if later \<ge> ms_leaseExpiresAt ms'
                 then fence ''lease expired while renewals were failing'' ms'
                 else ms'\<lparr>ms_renewTimer := Some (max 1 (lc_renewMs (ms_leaseConfig ms') div 4))\<rparr>))"

section \<open>Commits\<close>

definition buildNext :: "ManifestStore \<Rightarrow> ManifestRecord" where
  "buildNext ms =
     (ms_cached ms)
       \<lparr>mf_epoch := (if ms_concurrency ms = Optimistic then mf_epoch (ms_cached ms) else ms_leaseEpoch ms),
        mf_commitSeq := map_option (\<lambda>n. n + 1) (mf_commitSeq (ms_cached ms)),
        mf_lastWriter := Some (ms_writerId ms)\<rparr>"

definition same_commit :: "ManifestRecord \<Rightarrow> ManifestRecord \<Rightarrow> bool" where
  "same_commit stored attempted \<longleftrightarrow> mf_commitSeq stored = mf_commitSeq attempted \<and> mf_epoch stored = mf_epoch attempted"

definition adoptOwnCommit ::
  "'s ObjectDriver \<Rightarrow> ManifestRecord \<Rightarrow> 's \<Rightarrow> ManifestStore \<Rightarrow> bool \<times> 's \<times> ManifestStore" where
  "adoptOwnCommit d attempted s ms =
     (case od_get d (ms_manifestKey ms) s of
        (Inl e, s') \<Rightarrow> (False, s', ms)
      | (Inr None, s') \<Rightarrow> (False, s', ms)
      | (Inr (Some r), s') \<Rightarrow>
          (case decodeManifest (or_body r) (ms_manifestKey ms) of
             Inl e \<Rightarrow> (False, s', ms)
           | Inr stored \<Rightarrow>
               if mf_lastWriter stored \<noteq> Some (ms_writerId ms) \<or> \<not> same_commit stored attempted
               then (False, s', ms)
               else (True, s', ms\<lparr>ms_cached := stored, ms_cachedEtag := Some (or_etag r),
                                 ms_wroteSinceRenew := True\<rparr>)))"

definition put_manifest ::
  "'s ObjectDriver \<Rightarrow> ManifestRecord \<Rightarrow> 's \<Rightarrow> ManifestStore \<Rightarrow> (StoreError + string) \<times> 's" where
  "put_manifest d next s ms =
     put_with d (ms_manifestKey ms) (ManifestBody next) (cas_options d ms (ms_cachedEtag ms)) s"

text \<open>One attempt, the same in both modes: the next version is written over the cached one, or its
  write was refused with 412 and turns out to be the own one (\<open>Some\<close>), or is lost (\<open>None\<close>).\<close>

definition cas_attempt ::
  "'s ObjectDriver \<Rightarrow> (ManifestRecord \<Rightarrow> ManifestRecord) \<Rightarrow> 's \<Rightarrow> ManifestStore
     \<Rightarrow> (StoreError + ManifestRecord option) \<times> 's \<times> ManifestStore" where
  "cas_attempt d mutate s ms =
     (let next = mutate (buildNext ms)
      in case put_manifest d next s ms of
           (Inr etag, t) \<Rightarrow> (Inr (Some next), t, ms\<lparr>ms_cached := next, ms_cachedEtag := Some etag\<rparr>)
         | (Inl e, t) \<Rightarrow>
             if \<not> is_precondition e then (Inl e, t, ms)
             else case adoptOwnCommit d next t ms of
               (adopted, u, ms') \<Rightarrow> (Inr (if adopted then Some next else None), u, ms'))"

definition doCommit ::
  "'s ObjectDriver \<Rightarrow> int \<Rightarrow> (ManifestRecord \<Rightarrow> ManifestRecord) \<Rightarrow> 's \<Rightarrow> ManifestStore
     \<Rightarrow> (StoreError + ManifestRecord) \<times> 's \<times> ManifestStore" where
  "doCommit d now mutate s ms =
     (case assertNotFenced ms of
        Some e \<Rightarrow> (Inl e, s, ms)
      | None \<Rightarrow>
          if ms_stopped ms then (Inl (RoomClosed (ms_roomId ms)), s, ms)
          else case ensure_manifest_loaded d s ms of
            (Inl e, s1, ms1) \<Rightarrow> (Inl e, s1, ms1)
          | (Inr _, s1, ms1) \<Rightarrow>
              (case (if ms_held ms1 then (Inr (), s1, ms1) else acquire d now s1 ms1) of
                 (Inl e, s2, ms2) \<Rightarrow> (Inl e, s2, ms2)
               | (Inr _, s2, ms2) \<Rightarrow>
                   (case cas_attempt d mutate s2 ms2 of
                      (Inl e, s3, ms3) \<Rightarrow> (Inl e, s3, ms3)
                    | (Inr (Some next), s3, ms3) \<Rightarrow> (Inr next, s3, ms3\<lparr>ms_wroteSinceRenew := True\<rparr>)
                    | (Inr None, s3, ms3) \<Rightarrow>
                        (Inl (NotWriter (ms_roomId ms3)
                           ''manifest CAS failed; another writer committed against this etag''),
                         s3, fence ''the manifest CAS was lost - another writer owns this room'' ms3))))"

text \<open>The retry loop, with the attempts left.\<close>

fun commit_attempts ::
  "nat \<Rightarrow> 's ObjectDriver \<Rightarrow> (ManifestRecord \<Rightarrow> ManifestRecord) \<Rightarrow> 's \<Rightarrow> ManifestStore
     \<Rightarrow> (StoreError + ManifestRecord) \<times> 's \<times> ManifestStore" where
  "commit_attempts 0 d mutate s ms = (Inl (CasExhausted (ms_roomId ms)), s, ms)"
| "commit_attempts (Suc n) d mutate s ms =
     (case ensure_manifest_loaded d s ms of
        (Inl e, s1, ms1) \<Rightarrow> (Inl e, s1, ms1)
      | (Inr _, s1, ms1) \<Rightarrow>
          (case cas_attempt d mutate s1 ms1 of
             (Inl e, s2, ms2) \<Rightarrow> (Inl e, s2, ms2)
           | (Inr (Some next), s2, ms2) \<Rightarrow> (Inr next, s2, ms2)
           | (Inr None, s2, ms2) \<Rightarrow>
               if n = 0 then (Inl (CasExhausted (ms_roomId ms2)), s2, ms2)
               else case manifest_load d s2 ms2 of
                 (Inl e, s3, ms3) \<Rightarrow> (Inl e, s3, ms3)
               | (Inr _, s3, ms3) \<Rightarrow> commit_attempts n d mutate s3 ms3))"

definition doCommitOptimistic ::
  "'s ObjectDriver \<Rightarrow> (ManifestRecord \<Rightarrow> ManifestRecord) \<Rightarrow> 's \<Rightarrow> ManifestStore
     \<Rightarrow> (StoreError + ManifestRecord) \<times> 's \<times> ManifestStore" where
  "doCommitOptimistic = commit_attempts OPTIMISTIC_MAX_ATTEMPTS"

definition commit ::
  "'s ObjectDriver \<Rightarrow> int \<Rightarrow> (ManifestRecord \<Rightarrow> ManifestRecord) \<Rightarrow> 's \<Rightarrow> ManifestStore
     \<Rightarrow> (StoreError + ManifestRecord) \<times> 's \<times> ManifestStore" where
  "commit d now mutate s ms =
     (if ms_concurrency ms = Optimistic then doCommitOptimistic d mutate s ms else doCommit d now mutate s ms)"

definition manifest_refresh ::
  "'s ObjectDriver \<Rightarrow> 's \<Rightarrow> ManifestStore \<Rightarrow> (StoreError + ManifestRecord) \<times> 's \<times> ManifestStore" where
  "manifest_refresh d s ms =
     (case od_get d (ms_manifestKey ms) s of
        (Inl e, s') \<Rightarrow> (Inl e, s', ms)
      | (Inr None, s') \<Rightarrow> (Inr (ms_cached ms), s', ms)
      | (Inr (Some r), s') \<Rightarrow>
          (case decodeManifest (or_body r) (ms_manifestKey ms) of
             Inl e \<Rightarrow> (Inl e, s', ms)
           | Inr m \<Rightarrow>
               (Inr (normalize_manifest m), s',
                ms\<lparr>ms_cached := normalize_manifest m, ms_cachedEtag := Some (or_etag r), ms_loaded := True\<rparr>)))"

end
