(* ===== verification/Object_Store.thy ===== *)
theory Object_Store
  imports Manifest
begin

text \<open>
  What the object layer relies on: a store whose writes form a trace, newest first, with the
  writes of other processes between one's own. The locale \<open>object_store\<close> is the contract of a
  driver shared with rivals. A put that rejects was not applied, but for one case a \<open>lossy\<close> driver
  has: the write was applied, its reply lost, and a resend was refused with 412. A network in
  front of the in-memory driver provides the contract, lossy or not: a script says, for each
  call, what rivals do before it and how its reply fares.
\<close>

section \<open>Traces\<close>

datatype Event = Wrote string Body string | Erased "string list"

fun current :: "Event list \<Rightarrow> string \<Rightarrow> ObjectRecord option" where
  "current [] k = None"
| "current (Wrote j b e # tr) k = (if j = k then Some \<lparr>or_body = b, or_etag = e\<rparr> else current tr k)"
| "current (Erased ks # tr) k = (if k \<in> set ks then None else current tr k)"

fun etags :: "Event list \<Rightarrow> string list" where
  "etags [] = []"
| "etags (Wrote j b e # tr) = e # etags tr"
| "etags (Erased ks # tr) = etags tr"

text \<open>What a conditional put asks of the object it replaces.\<close>

definition meets :: "ObjectPutOptions \<Rightarrow> ObjectRecord option \<Rightarrow> bool" where
  "meets o' r \<longleftrightarrow> (po_ifNoneMatch o' \<longrightarrow> r = None)
     \<and> (\<forall>e. po_ifMatch o' = Some e \<longrightarrow> (\<exists>x. r = Some x \<and> or_etag x = e))"

text \<open>Events of rivals, each allowed by the trace before it.\<close>

fun rivals :: "(Event list \<Rightarrow> Event \<Rightarrow> bool) \<Rightarrow> Event list \<Rightarrow> Event list \<Rightarrow> bool" where
  "rivals allowed [] tr = True"
| "rivals allowed (ev # rv) tr = (allowed (rv @ tr) ev \<and> rivals allowed rv tr)"

lemma etags_append [simp]: "etags (tr @ tr') = etags tr @ etags tr'"
  by (induction tr rule: etags.induct) auto

lemma current_etag: "current tr k = Some r \<Longrightarrow> Wrote k (or_body r) (or_etag r) \<in> set tr"
  by (induction tr k rule: current.induct) (auto split: if_splits)

lemma in_etags: "Wrote k b e \<in> set tr \<Longrightarrow> e \<in> set (etags tr)"
  by (induction tr rule: etags.induct) auto

lemma etag_unique:
  "distinct (etags tr) \<Longrightarrow> Wrote k b e \<in> set tr \<Longrightarrow> Wrote k' b' e \<in> set tr \<Longrightarrow> k' = k \<and> b' = b"
  by (induction tr rule: etags.induct) (auto dest: in_etags)

lemma rivals_append: "rivals P (rv @ rv') tr \<longleftrightarrow> rivals P rv (rv' @ tr) \<and> rivals P rv' tr"
  by (induction rv) auto

section \<open>The contract\<close>

locale object_store =
  fixes d :: "'s ObjectDriver"
    and trace :: "'s \<Rightarrow> Event list"
    and ok :: "'s \<Rightarrow> bool"
    and rival :: "Event list \<Rightarrow> Event \<Rightarrow> bool"
    and lossy :: bool
  assumes etags_distinct: "ok s \<Longrightarrow> distinct (etags (trace s)) \<and> [] \<notin> set (etags (trace s))"
    and got: "ok s \<Longrightarrow> od_get d k s = (r, t) \<Longrightarrow>
      ok t \<and> (\<exists>rv. trace t = rv @ trace s \<and> rivals rival rv (trace s))
      \<and> (\<forall>x. r = Inr x \<longrightarrow> x = current (trace t) k)"
    and put_applied: "ok s \<Longrightarrow> od_put d k b opts s = (Inr e, t) \<Longrightarrow>
      ok t \<and> (\<exists>rv. rivals rival rv (trace s) \<and> trace t = Wrote k b e # rv @ trace s
        \<and> meets opts (current (rv @ trace s) k))"
    and put_rejected: "ok s \<Longrightarrow> od_put d k b opts s = (Inl err, t) \<Longrightarrow>
      ok t \<and> (\<exists>rv. rivals rival rv (trace s) \<and> (trace t = rv @ trace s
        \<or> (lossy \<and> err = PreconditionFailed k
            \<and> (\<exists>e. trace t = Wrote k b e # rv @ trace s \<and> meets opts (current (rv @ trace s) k)))))"
    and deleted: "ok s \<Longrightarrow> od_delete d ks s = (q, t) \<Longrightarrow>
      ok t \<and> (\<exists>rv. rivals rival rv (trace s)
        \<and> trace t = (if q = Inr () then Erased ks # rv @ trace s else rv @ trace s))"
begin

lemma fresh_etag:
  assumes "ok s" "od_put d k b opts s = (Inr e, t)"
  shows "e \<notin> set (etags (trace s))"
  using put_applied [OF assms] etags_distinct [of t] by auto

end

section \<open>The network\<close>

text \<open>
  Rivals commit to the manifest as this code does, whatever their change; they write and erase
  other objects. A reply is delivered; or the request was applied, its reply lost, and a resend
  by the client library is refused with 412; or the reply is lost and the call fails.
\<close>

datatype Rival =
    RivalCommit string "ManifestRecord \<Rightarrow> ManifestRecord"
  | RivalPut string Body
  | RivalErase "string list"

datatype Fate = Delivered | Resent | ReplyLost

record Network =
  nw_disk :: MemoryDriver
  nw_script :: "(Rival list \<times> Fate) list"
  nw_trace :: "Event list"

definition manifest_of :: "ObjectRecord option \<Rightarrow> ManifestRecord" where
  "manifest_of r =
     (case r of None \<Rightarrow> emptyManifest
      | Some x \<Rightarrow> (case or_body x of ManifestBody m \<Rightarrow> normalize_manifest m | _ \<Rightarrow> emptyManifest))"

definition commit_seq :: "ManifestRecord \<Rightarrow> int" where
  "commit_seq m = (case mf_commitSeq m of None \<Rightarrow> 0 | Some n \<Rightarrow> n)"

definition no_faults :: fault_hook where
  "no_faults op key call st = None"

definition disk_put :: "bool \<Rightarrow> fault_hook \<Rightarrow> string \<Rightarrow> Body \<Rightarrow> ObjectPutOptions \<Rightarrow> Network \<Rightarrow> (StoreError + string) \<times> Network" where
  "disk_put casWildcard faults k b opts n =
     (case memory_put casWildcard faults k b opts (nw_disk n) of
        (Inl e, disk) \<Rightarrow> (Inl e, n\<lparr>nw_disk := disk\<rparr>)
      | (Inr etag, disk) \<Rightarrow> (Inr etag, n\<lparr>nw_disk := disk, nw_trace := Wrote k b etag # nw_trace n\<rparr>))"

definition disk_delete :: "fault_hook \<Rightarrow> string list \<Rightarrow> Network \<Rightarrow> (StoreError + unit) \<times> Network" where
  "disk_delete faults ks n =
     (case memory_delete faults ks (nw_disk n) of
        (Inl e, disk) \<Rightarrow> (Inl e, n\<lparr>nw_disk := disk\<rparr>)
      | (Inr _, disk) \<Rightarrow> (Inr (), n\<lparr>nw_disk := disk, nw_trace := Erased ks # nw_trace n\<rparr>))"

fun rival_acts :: "string \<Rightarrow> Rival \<Rightarrow> Network \<Rightarrow> Network" where
  "rival_acts mk (RivalCommit w f) n =
     (let m = manifest_of (map_get (md_store (nw_disk n)) mk)
      in snd (disk_put True no_faults mk
           (ManifestBody ((f m)\<lparr>mf_commitSeq := Some (commit_seq m + 1), mf_lastWriter := Some w\<rparr>))
           unconditional n))"
| "rival_acts mk (RivalPut k b) n = snd (disk_put True no_faults k b unconditional n)"
| "rival_acts mk (RivalErase ks) n = snd (disk_delete no_faults ks n)"

text \<open>The rivals' part of the next call, and its fate.\<close>

definition next_call :: "string \<Rightarrow> Network \<Rightarrow> Fate \<times> Network" where
  "next_call mk n =
     (case nw_script n of
        [] \<Rightarrow> (Delivered, n)
      | (rs, fate) # script \<Rightarrow> (fate, fold (rival_acts mk) rs (n\<lparr>nw_script := script\<rparr>)))"

definition network_get :: "string \<Rightarrow> fault_hook \<Rightarrow> string \<Rightarrow> Network \<Rightarrow> (StoreError + ObjectRecord option) \<times> Network" where
  "network_get mk faults k n =
     (let (fate, n) = next_call mk n; (r, disk) = memory_get faults k (nw_disk n)
      in (r, n\<lparr>nw_disk := disk\<rparr>))"

definition network_put ::
  "string \<Rightarrow> bool \<Rightarrow> fault_hook \<Rightarrow> string \<Rightarrow> Body \<Rightarrow> ObjectPutOptions \<Rightarrow> Network \<Rightarrow> (StoreError + string) \<times> Network" where
  "network_put mk casWildcard faults k b opts n =
     (let (fate, n) = next_call mk n
      in case disk_put casWildcard faults k b opts n of
           (Inl e, n) \<Rightarrow> (Inl e, n)
         | (Inr etag, n) \<Rightarrow>
             ((case fate of
                 Delivered \<Rightarrow> Inr etag
               | Resent \<Rightarrow> if opts = unconditional then Inr etag else Inl (PreconditionFailed k)
               | ReplyLost \<Rightarrow> Inl (OtherError ''connection reset'')), n))"

definition network_delete :: "string \<Rightarrow> fault_hook \<Rightarrow> string list \<Rightarrow> Network \<Rightarrow> (StoreError + unit) \<times> Network" where
  "network_delete mk faults ks n = (let (fate, n) = next_call mk n in disk_delete faults ks n)"

definition network_list ::
  "string \<Rightarrow> (Body \<Rightarrow> nat) \<Rightarrow> fault_hook \<Rightarrow> string \<Rightarrow> Network \<Rightarrow> (StoreError + (string \<times> nat) list) \<times> Network" where
  "network_list mk sz faults p n =
     (let (fate, n) = next_call mk n; (r, disk) = memory_list sz faults p (nw_disk n)
      in (r, n\<lparr>nw_disk := disk\<rparr>))"

definition network_driver :: "string \<Rightarrow> bool \<Rightarrow> (Body \<Rightarrow> nat) \<Rightarrow> fault_hook \<Rightarrow> Network ObjectDriver" where
  "network_driver mk casWildcard sz faults =
     \<lparr>od_casWildcard = casWildcard, od_get = network_get mk faults,
      od_put = network_put mk casWildcard faults, od_list = network_list mk sz faults,
      od_delete = network_delete mk faults\<rparr>"

definition new_network :: "(Rival list \<times> Fate) list \<Rightarrow> Network" where
  "new_network script = \<lparr>nw_disk = new_memory_driver, nw_script = script, nw_trace = []\<rparr>"

section \<open>What rivals may do\<close>

text \<open>Rivals commit with other writer ids, leave the objects \<open>mine\<close> alone, and keep the segments
  of the manifest that are \<open>mine\<close> as they are.\<close>

definition own_refs :: "(string \<Rightarrow> bool) \<Rightarrow> ManifestRecord \<Rightarrow> WalSegmentRef list" where
  "own_refs mine m = filter (mine \<circ> ws_key) (mf_walSegs m)"

definition rival_event :: "string \<Rightarrow> string \<Rightarrow> (string \<Rightarrow> bool) \<Rightarrow> Event list \<Rightarrow> Event \<Rightarrow> bool" where
  "rival_event mk me mine tr ev =
     (case ev of
        Wrote k b e \<Rightarrow> \<not> mine k \<and> (k = mk \<longrightarrow> (\<exists>m. b = ManifestBody m
            \<and> mf_commitSeq m = Some (commit_seq (manifest_of (current tr mk)) + 1)
            \<and> (\<exists>w. mf_lastWriter m = Some w \<and> w \<noteq> me)
            \<and> own_refs mine m = own_refs mine (manifest_of (current tr mk))))
      | Erased ks \<Rightarrow> mk \<notin> set ks \<and> list_all (\<lambda>k. \<not> mine k) ks)"

fun fair_rival :: "string \<Rightarrow> string \<Rightarrow> (string \<Rightarrow> bool) \<Rightarrow> Rival \<Rightarrow> bool" where
  "fair_rival mk me mine (RivalCommit w f) = (w \<noteq> me \<and> \<not> mine mk \<and> (\<forall>m. own_refs mine (f m) = own_refs mine m))"
| "fair_rival mk me mine (RivalPut k b) = (k \<noteq> mk \<and> \<not> mine k)"
| "fair_rival mk me mine (RivalErase ks) = (mk \<notin> set ks \<and> list_all (\<lambda>k. \<not> mine k) ks)"

definition coherent :: "Network \<Rightarrow> bool" where
  "coherent n \<longleftrightarrow> (\<forall>k. map_get (md_store (nw_disk n)) k = current (nw_trace n) k)
     \<and> distinct (etags (nw_trace n))
     \<and> (\<forall>e \<in> set (etags (nw_trace n)). \<exists>i \<le> md_etagCounter (nw_disk n). e = etag_str i)"

definition network_ok :: "Fate set \<Rightarrow> string \<Rightarrow> string \<Rightarrow> (string \<Rightarrow> bool) \<Rightarrow> Network \<Rightarrow> bool" where
  "network_ok F mk me mine n \<longleftrightarrow> coherent n
     \<and> (\<forall>(rs, fate) \<in> set (nw_script n). fate \<in> F \<and> list_all (fair_rival mk me mine) rs)"

lemma etag_str_inj: "etag_str i = etag_str j \<longleftrightarrow> i = j"
  by (simp add: etag_str_def) (metis digits_val_nat_str)

lemma no_refusal_meets:
  "put_refusal wc k opts d = None \<Longrightarrow> meets opts (map_get (md_store d) k)"
  by (cases "map_get (md_store d) k")
    (auto simp: put_refusal_def meets_def simp del: map_of_eq_Some_iff map_of_eq_None_iff split: if_splits)

lemma memory_put_Inl:
  "memory_put wc faults k b opts d = (Inl e, d') \<Longrightarrow> md_store d' = md_store d \<and> md_etagCounter d' = md_etagCounter d"
  by (auto simp: memory_put_def enter_def Let_def split: option.splits)

lemma memory_put_Inr:
  assumes "memory_put wc faults k b opts d = (Inr e, d')"
  shows "e = etag_str (md_etagCounter d + 1)" and "md_etagCounter d' = md_etagCounter d + 1"
    and "md_store d' = map_set k \<lparr>or_body = b, or_etag = e\<rparr> (md_store d)"
    and "meets opts (map_get (md_store d) k)"
  using assms no_refusal_meets [of wc k opts "snd (enter faults PutOp k d)"]
  by (auto simp: memory_put_def enter_def Let_def simp del: map_of_eq_Some_iff split: option.splits)

lemma disk_put_step:
  assumes "coherent n" "disk_put wc faults k b opts n = (r, t)"
  shows "coherent t \<and> nw_script t = nw_script n
    \<and> (case r of Inl e \<Rightarrow> nw_trace t = nw_trace n
       | Inr e \<Rightarrow> nw_trace t = Wrote k b e # nw_trace n \<and> meets opts (current (nw_trace n) k))"
proof (cases "memory_put wc faults k b opts (nw_disk n)")
  case (Pair q disk)
  show ?thesis
  proof (cases q)
    case (Inl e)
    with Pair assms memory_put_Inl [of wc faults k b opts "nw_disk n" e disk] show ?thesis
      by (auto simp: disk_put_def coherent_def)
  next
    case (Inr e)
    note m = memory_put_Inr [OF Pair [unfolded Inr]]
    have t: "t = n\<lparr>nw_disk := disk, nw_trace := Wrote k b e # nw_trace n\<rparr>" "r = Inr e"
      using assms(2) Pair Inr by (auto simp: disk_put_def)
    have "e \<notin> set (etags (nw_trace n))" using assms(1) m(1) by (auto simp: coherent_def etag_str_inj)
    moreover have "map_get (md_store disk) j = current (nw_trace t) j" for j
      using assms(1) m(3) t(1) by (simp add: coherent_def jsmap.get_put)
    moreover have "\<exists>i \<le> md_etagCounter disk. x = etag_str i" if "x \<in> set (etags (nw_trace t))" for x
      using that assms(1) m(1,2) t(1) by (auto simp: coherent_def) (metis le_SucI)
    ultimately show ?thesis using assms(1) m(4) t by (simp add: coherent_def)
  qed
qed

lemma disk_delete_step:
  assumes "coherent n" "disk_delete faults ks n = (r, t)"
  shows "coherent t \<and> nw_script t = nw_script n
    \<and> nw_trace t = (if r = Inr () then Erased ks # nw_trace n else nw_trace n)"
  using assms
  by (auto simp: disk_delete_def memory_delete_def enter_def Let_def coherent_def jsmap.get_fold_del
      simp del: map_of_eq_Some_iff map_of_eq_None_iff split: option.splits if_splits)

lemma normalize_ManifestBody:
  "mf_commitSeq m = Some n \<Longrightarrow> mf_lastWriter m = Some w \<Longrightarrow> normalize_manifest m = m"
  by (simp add: normalize_manifest_def)

text \<open>A rival's act is coherent, and allowed.\<close>

lemma rival_acts_step:
  assumes "coherent n" "fair_rival mk me mine r"
  shows "coherent (rival_acts mk r n) \<and> nw_script (rival_acts mk r n) = nw_script n
    \<and> (\<exists>rv. nw_trace (rival_acts mk r n) = rv @ nw_trace n
         \<and> rivals (rival_event mk me mine) rv (nw_trace n))"
proof (cases r)
  case (RivalCommit w f)
  let ?m = "manifest_of (map_get (md_store (nw_disk n)) mk)"
  let ?b = "ManifestBody ((f ?m)\<lparr>mf_commitSeq := Some (commit_seq ?m + 1), mf_lastWriter := Some w\<rparr>)"
  obtain q t where qt: "disk_put True no_faults mk ?b unconditional n = (q, t)" by fastforce
  have cur: "map_get (md_store (nw_disk n)) mk = current (nw_trace n) mk" using assms(1) by (simp add: coherent_def)
  have "rival_event mk me mine (nw_trace n) (Wrote mk ?b e)" for e
    using assms(2) RivalCommit by (simp add: rival_event_def cur own_refs_def)
  with disk_put_step [OF assms(1) qt] qt RivalCommit show ?thesis
    by (cases q) (auto intro: exI [where x = "[]"] exI [where x = "[Wrote mk ?b e]" for e])
next
  case (RivalPut k b)
  obtain q t where qt: "disk_put True no_faults k b unconditional n = (q, t)" by fastforce
  have "rival_event mk me mine (nw_trace n) (Wrote k b e)" for e
    using assms(2) RivalPut by (simp add: rival_event_def)
  with disk_put_step [OF assms(1) qt] qt RivalPut show ?thesis
    by (cases q) (auto intro: exI [where x = "[]"] exI [where x = "[Wrote k b e]" for e])
next
  case (RivalErase ks)
  obtain q t where qt: "disk_delete no_faults ks n = (q, t)" by fastforce
  have "rival_event mk me mine (nw_trace n) (Erased ks)"
    using assms(2) RivalErase by (simp add: rival_event_def)
  with disk_delete_step [OF assms(1) qt] qt RivalErase show ?thesis
    by (cases "q = Inr ()") (auto intro: exI [where x = "[]"] exI [where x = "[Erased ks]"])
qed

lemma rivals_act:
  assumes "coherent n" "list_all (fair_rival mk me mine) rs"
  shows "coherent (fold (rival_acts mk) rs n) \<and> nw_script (fold (rival_acts mk) rs n) = nw_script n
    \<and> (\<exists>rv. nw_trace (fold (rival_acts mk) rs n) = rv @ nw_trace n
         \<and> rivals (rival_event mk me mine) rv (nw_trace n))"
  using assms
proof (induction rs arbitrary: n)
  case (Cons r rs)
  obtain rv where rv: "coherent (rival_acts mk r n)" "nw_script (rival_acts mk r n) = nw_script n"
      "nw_trace (rival_acts mk r n) = rv @ nw_trace n" "rivals (rival_event mk me mine) rv (nw_trace n)"
    using rival_acts_step [OF Cons.prems(1), of mk me mine r] Cons.prems(2) by auto
  obtain rv2 where rv2: "coherent (fold (rival_acts mk) (r # rs) n)"
      "nw_script (fold (rival_acts mk) (r # rs) n) = nw_script n"
      "nw_trace (fold (rival_acts mk) (r # rs) n) = rv2 @ rv @ nw_trace n"
      "rivals (rival_event mk me mine) rv2 (rv @ nw_trace n)"
    using Cons.IH [OF rv(1)] Cons.prems(2) rv(2,3) by auto
  have "rivals (rival_event mk me mine) (rv2 @ rv) (nw_trace n)" using rv(4) rv2(4) by (simp add: rivals_append)
  with rv2 show ?case by (metis append.assoc)
qed (auto intro: exI [where x = "[]"])

lemma next_call_step:
  assumes "network_ok F mk me mine n" "next_call mk n = (fate, t)"
  shows "network_ok F mk me mine t \<and> (fate \<in> F \<or> fate = Delivered)
    \<and> (\<exists>rv. nw_trace t = rv @ nw_trace n \<and> rivals (rival_event mk me mine) rv (nw_trace n))"
proof (cases "nw_script n")
  case Nil
  with assms show ?thesis by (auto simp: next_call_def intro: exI [where x = "[]"])
next
  case (Cons x script)
  obtain rs f where x: "x = (rs, f)" by fastforce
  have "coherent (n\<lparr>nw_script := script\<rparr>)" "list_all (fair_rival mk me mine) rs" "f \<in> F"
    using assms(1) Cons x by (auto simp: network_ok_def coherent_def)
  with rivals_act [OF this(1,2)] assms Cons x show ?thesis
    by (auto simp: next_call_def network_ok_def)
qed

lemma ok_coherent: "network_ok F mk me mine n \<Longrightarrow> coherent n"
  by (simp add: network_ok_def)

lemma ok_cong: "network_ok F mk me mine n \<Longrightarrow> coherent t \<Longrightarrow> nw_script t = nw_script n \<Longrightarrow> network_ok F mk me mine t"
  by (simp add: network_ok_def)

lemma network_got:
  assumes "network_ok F mk me mine n" "network_get mk faults k n = (r, t)"
  shows "network_ok F mk me mine t
    \<and> (\<exists>rv. nw_trace t = rv @ nw_trace n \<and> rivals (rival_event mk me mine) rv (nw_trace n))
    \<and> (\<forall>x. r = Inr x \<longrightarrow> x = current (nw_trace t) k)"
proof -
  obtain fate u where u: "next_call mk n = (fate, u)" by fastforce
  note st = next_call_step [OF assms(1) u]
  have t: "nw_trace t = nw_trace u" "nw_script t = nw_script u" "coherent t"
    using assms(2) u st ok_coherent [of F mk me mine u]
    by (auto simp: network_get_def memory_get_def enter_def Let_def coherent_def split: prod.splits option.splits)
  have "r = Inr x \<Longrightarrow> x = current (nw_trace t) k" for x
    using assms(2) u st ok_coherent [of F mk me mine u]
    by (auto simp: network_get_def memory_get_def enter_def Let_def coherent_def
        simp del: map_of_eq_Some_iff split: prod.splits option.splits)
  with st t show ?thesis using ok_cong [of F mk me mine u t] by auto
qed

lemma network_put_step:
  assumes "network_ok F mk me mine n" "network_put mk wc faults k b opts n = (r, t)"
  obtains rv where "network_ok F mk me mine t" "rivals (rival_event mk me mine) rv (nw_trace n)"
    and "nw_trace t = rv @ nw_trace n \<and> (\<exists>e. r = Inl e)
      \<or> (\<exists>e fate. nw_trace t = Wrote k b e # rv @ nw_trace n \<and> meets opts (current (rv @ nw_trace n) k)
          \<and> (fate \<in> F \<or> fate = Delivered)
          \<and> r = (case fate of Delivered \<Rightarrow> Inr e
              | Resent \<Rightarrow> if opts = unconditional then Inr e else Inl (PreconditionFailed k)
              | ReplyLost \<Rightarrow> Inl (OtherError ''connection reset'')))"
proof -
  obtain fate u where u: "next_call mk n = (fate, u)" by fastforce
  obtain q v where v: "disk_put wc faults k b opts u = (q, v)" by fastforce
  note st = next_call_step [OF assms(1) u]
  then obtain rv where rv: "nw_trace u = rv @ nw_trace n" "rivals (rival_event mk me mine) rv (nw_trace n)" by blast
  note dp = disk_put_step [OF ok_coherent v]
  have ok: "network_ok F mk me mine v" using st dp [of F mk me mine] ok_cong by blast
  show ?thesis
  proof (cases q)
    case (Inl e)
    with assms(2) u v have "r = Inl e" "t = v" by (auto simp: network_put_def)
    with that [OF _ rv(2)] ok dp [of F mk me mine] st Inl rv(1) show ?thesis by auto
  next
    case (Inr e)
    with assms(2) u v have t: "t = v" and r: "r = (case fate of Delivered \<Rightarrow> Inr e
        | Resent \<Rightarrow> if opts = unconditional then Inr e else Inl (PreconditionFailed k)
        | ReplyLost \<Rightarrow> Inl (OtherError ''connection reset''))"
      by (auto simp: network_put_def)
    have "nw_trace t = Wrote k b e # rv @ nw_trace n \<and> meets opts (current (rv @ nw_trace n) k)"
      using dp [of F mk me mine] st Inr t rv(1) by auto
    with r st show ?thesis by (intro that [OF _ rv(2)]) (use ok t in blast)+
  qed
qed

lemma network_deleted:
  assumes "network_ok F mk me mine n" "network_delete mk faults ks n = (q, t)"
  shows "network_ok F mk me mine t
    \<and> (\<exists>rv. rivals (rival_event mk me mine) rv (nw_trace n)
         \<and> nw_trace t = (if q = Inr () then Erased ks # rv @ nw_trace n else rv @ nw_trace n))"
proof -
  obtain fate u where u: "next_call mk n = (fate, u)" by fastforce
  note st = next_call_step [OF assms(1) u]
  have "disk_delete faults ks u = (q, t)" using assms(2) u by (simp add: network_delete_def)
  note dd = disk_delete_step [OF _ this]
  show ?thesis using st dd ok_coherent [of F mk me mine u] ok_cong [of F mk me mine u t] by auto
qed

lemma etag_str_nonempty [simp]: "etag_str n \<noteq> []"
  by (simp add: etag_str_def)

lemma network_etags:
  assumes "network_ok F mk me mine n"
  shows "distinct (etags (nw_trace n)) \<and> [] \<notin> set (etags (nw_trace n))"
proof -
  have "x \<noteq> []" if "x \<in> set (etags (nw_trace n))" for x
    using assms that unfolding network_ok_def coherent_def by (metis etag_str_nonempty)
  with assms show ?thesis by (auto simp: network_ok_def coherent_def)
qed

lemma network_applied:
  assumes "network_ok F mk me mine s" "network_put mk wc faults k b opts s = (Inr e, t)"
  shows "network_ok F mk me mine t
    \<and> (\<exists>rv. rivals (rival_event mk me mine) rv (nw_trace s) \<and> nw_trace t = Wrote k b e # rv @ nw_trace s
         \<and> meets opts (current (rv @ nw_trace s) k))"
proof (rule network_put_step [OF assms])
  fix rv
  assume ok: "network_ok F mk me mine t" "rivals (rival_event mk me mine) rv (nw_trace s)"
    and "nw_trace t = rv @ nw_trace s \<and> (\<exists>x. (Inr e :: StoreError + string) = Inl x)
      \<or> (\<exists>e' fate. nw_trace t = Wrote k b e' # rv @ nw_trace s \<and> meets opts (current (rv @ nw_trace s) k)
          \<and> (fate \<in> F \<or> fate = Delivered)
          \<and> Inr e = (case fate of Delivered \<Rightarrow> Inr e'
              | Resent \<Rightarrow> if opts = unconditional then Inr e' else Inl (PreconditionFailed k)
              | ReplyLost \<Rightarrow> Inl (OtherError ''connection reset'')))"
  then obtain e' fate where w: "nw_trace t = Wrote k b e' # rv @ nw_trace s" "meets opts (current (rv @ nw_trace s) k)"
      "Inr e = (case fate of Delivered \<Rightarrow> Inr e'
              | Resent \<Rightarrow> if opts = unconditional then Inr e' else Inl (PreconditionFailed k)
              | ReplyLost \<Rightarrow> Inl (OtherError ''connection reset''))" by blast
  from w(3) have "e' = e" by (cases fate) (simp_all split: if_splits)
  with ok w show ?thesis by blast
qed

lemma network_rejected:
  assumes "network_ok F mk me mine s" "network_put mk wc faults k b opts s = (Inl err, t)" "ReplyLost \<notin> F"
  shows "network_ok F mk me mine t
    \<and> (\<exists>rv. rivals (rival_event mk me mine) rv (nw_trace s) \<and> (nw_trace t = rv @ nw_trace s
         \<or> (Resent \<in> F \<and> err = PreconditionFailed k
            \<and> (\<exists>e. nw_trace t = Wrote k b e # rv @ nw_trace s \<and> meets opts (current (rv @ nw_trace s) k)))))"
proof (rule network_put_step [OF assms(1,2)])
  fix rv
  assume ok: "network_ok F mk me mine t" "rivals (rival_event mk me mine) rv (nw_trace s)"
    and c: "nw_trace t = rv @ nw_trace s \<and> (\<exists>x. (Inl err :: StoreError + string) = Inl x)
      \<or> (\<exists>e' fate. nw_trace t = Wrote k b e' # rv @ nw_trace s \<and> meets opts (current (rv @ nw_trace s) k)
          \<and> (fate \<in> F \<or> fate = Delivered)
          \<and> Inl err = (case fate of Delivered \<Rightarrow> Inr e'
              | Resent \<Rightarrow> if opts = unconditional then Inr e' else Inl (PreconditionFailed k)
              | ReplyLost \<Rightarrow> Inl (OtherError ''connection reset'')))"
  have "Resent \<in> F \<and> err = PreconditionFailed k" if "fate \<in> F \<or> fate = Delivered"
      "Inl err = (case fate of Delivered \<Rightarrow> Inr e'
              | Resent \<Rightarrow> if opts = unconditional then Inr e' else Inl (PreconditionFailed k)
              | ReplyLost \<Rightarrow> Inl (OtherError ''connection reset''))" for fate and e' :: string
    using that assms(3) by (cases fate) (simp_all split: if_splits)
  with c ok show ?thesis by blast
qed

lemma network_selectors:
  "od_casWildcard (network_driver mk wc sz faults) = wc"
  "od_get (network_driver mk wc sz faults) = network_get mk faults"
  "od_put (network_driver mk wc sz faults) = network_put mk wc faults"
  "od_delete (network_driver mk wc sz faults) = network_delete mk faults"
  by (simp_all add: network_driver_def)

interpretation net: object_store "network_driver mk wc sz faults" nw_trace
  "network_ok (if lossy then {Delivered, Resent} else {Delivered}) mk me mine" "rival_event mk me mine" lossy
  for mk wc sz faults me mine lossy
proof
  let ?F = "if lossy then {Delivered, Resent} else {Delivered}"
  fix s k b opts e t
  assume "network_ok ?F mk me mine s" "od_put (network_driver mk wc sz faults) k b opts s = (Inr e, t)"
  then show "network_ok ?F mk me mine t
    \<and> (\<exists>rv. rivals (rival_event mk me mine) rv (nw_trace s) \<and> nw_trace t = Wrote k b e # rv @ nw_trace s
         \<and> meets opts (current (rv @ nw_trace s) k))"
    by (intro network_applied) (simp_all add: network_driver_def)
next
  let ?F = "if lossy then {Delivered, Resent} else {Delivered}"
  fix s k b opts err t
  assume "network_ok ?F mk me mine s" "od_put (network_driver mk wc sz faults) k b opts s = (Inl err, t)"
  then have "network_ok ?F mk me mine t
    \<and> (\<exists>rv. rivals (rival_event mk me mine) rv (nw_trace s) \<and> (nw_trace t = rv @ nw_trace s
         \<or> (Resent \<in> ?F \<and> err = PreconditionFailed k
            \<and> (\<exists>e. nw_trace t = Wrote k b e # rv @ nw_trace s \<and> meets opts (current (rv @ nw_trace s) k)))))"
    by (intro network_rejected) (simp_all add: network_selectors)
  then show "network_ok ?F mk me mine t
    \<and> (\<exists>rv. rivals (rival_event mk me mine) rv (nw_trace s) \<and> (nw_trace t = rv @ nw_trace s
         \<or> (lossy \<and> err = PreconditionFailed k
            \<and> (\<exists>e. nw_trace t = Wrote k b e # rv @ nw_trace s \<and> meets opts (current (rv @ nw_trace s) k)))))"
    by (cases lossy) auto
qed (unfold network_selectors, (rule network_etags network_got network_deleted; assumption)+)

end
