(* ===== verification/Manifest_Facts.thy ===== *)
theory Manifest_Facts
  imports Object_Store
begin

text \<open>
  The manifest is a linearization point: a commit that returns has replaced exactly the version
  it was built on, whatever other processes did between its calls, in both modes. The lemmas
  follow the trace of the store: the versions of a manifest form a lineage, a cached version is
  one of it, and an instance never lags behind its own writes.
\<close>

section \<open>Lineage\<close>

text \<open>Every version counts one more than the one it replaced, and is never erased.\<close>

fun lineage :: "string \<Rightarrow> Event list \<Rightarrow> bool" where
  "lineage mk [] = True"
| "lineage mk (Wrote k b e # tr) =
     (lineage mk tr \<and> (k = mk \<longrightarrow> (\<exists>m w. b = ManifestBody m
        \<and> mf_commitSeq m = Some (commit_seq (manifest_of (current tr mk)) + 1) \<and> mf_lastWriter m = Some w)))"
| "lineage mk (Erased ks # tr) = (lineage mk tr \<and> mk \<notin> set ks)"

definition calm :: "string \<Rightarrow> string \<Rightarrow> (string \<Rightarrow> bool) \<Rightarrow> Event list \<Rightarrow> Event \<Rightarrow> bool" where
  "calm mk me mine tr ev \<longleftrightarrow> rival_event mk me mine tr ev \<or> (\<exists>k b e. ev = Wrote k b e \<and> k \<noteq> mk \<and> \<not> mine k)"

lemma rivals_calm: "rivals (rival_event mk me mine) rv tr \<Longrightarrow> rivals (calm mk me mine) rv tr"
  by (induction rv) (auto simp: calm_def)

lemma manifest_of_wrote [simp]: "manifest_of (Some \<lparr>or_body = ManifestBody m, or_etag = e\<rparr>) = normalize_manifest m"
  by (simp add: manifest_of_def)

lemma commit_seq_normalize [simp]: "commit_seq (normalize_manifest m) = commit_seq m"
  by (simp add: commit_seq_def normalize_manifest_def)

lemma commit_seq_Some: "mf_commitSeq m = Some n \<Longrightarrow> commit_seq m = n"
  by (simp add: commit_seq_def)

lemma calm_lineage: "rivals (calm mk me mine) rv tr \<Longrightarrow> lineage mk tr \<Longrightarrow> lineage mk (rv @ tr)"
proof (induction rv)
  case (Cons ev rv)
  then show ?case by (cases ev) (auto simp: calm_def rival_event_def)
qed simp

lemma lineage_wrote:
  "lineage mk tr \<Longrightarrow> Wrote mk b e \<in> set tr \<Longrightarrow> \<exists>m n w. b = ManifestBody m
     \<and> mf_commitSeq m = Some n \<and> mf_lastWriter m = Some w \<and> n \<le> commit_seq (manifest_of (current tr mk))"
proof (induction mk tr rule: lineage.induct)
  case (2 mk k b' e' tr)
  show ?case
  proof (cases "k = mk \<and> b' = b \<and> e' = e")
    case True
    with 2 show ?thesis by (auto simp: commit_seq_Some)
  next
    case False
    with "2.prems"(2) have "Wrote mk b e \<in> set tr" by auto
    with "2.IH" "2.prems"(1) obtain m n w where "b = ManifestBody m" "mf_commitSeq m = Some n" "mf_lastWriter m = Some w"
        "n \<le> commit_seq (manifest_of (current tr mk))" by auto
    moreover have "commit_seq (manifest_of (current tr mk)) \<le> commit_seq (manifest_of (current (Wrote k b' e' # tr) mk))"
      using "2.prems"(1) by (auto simp: commit_seq_Some)
    ultimately show ?thesis by auto
  qed
qed auto

lemma lineage_seq:
  assumes "lineage mk tr" "Wrote mk (ManifestBody m) e \<in> set tr"
  shows "mf_commitSeq m = Some (commit_seq m) \<and> commit_seq m \<le> commit_seq (manifest_of (current tr mk))"
  using lineage_wrote [OF assms] commit_seq_Some [of m] by auto

lemma lineage_current:
  assumes "lineage mk tr" "current tr mk = Some r"
  shows "\<exists>m. or_body r = ManifestBody m \<and> normalize_manifest m = m \<and> manifest_of (current tr mk) = m"
  using lineage_wrote [OF assms(1) current_etag [OF assms(2)]] assms(2)
  by (auto simp: manifest_of_def normalize_ManifestBody)

text \<open>No event of others is an own version.\<close>

lemma calm_own:
  "rivals (calm mk me mine) rv tr \<Longrightarrow> Wrote mk (ManifestBody m) e \<in> set (rv @ tr) \<Longrightarrow> mf_lastWriter m = Some me
     \<Longrightarrow> Wrote mk (ManifestBody m) e \<in> set tr"
  by (induction rv) (auto simp: calm_def rival_event_def)

lemma calm_refs:
  "rivals (calm mk me mine) rv tr \<Longrightarrow>
     own_refs mine (manifest_of (current (rv @ tr) mk)) = own_refs mine (manifest_of (current tr mk))"
proof (induction rv)
  case (Cons ev rv)
  then show ?case by (cases ev) (auto simp: calm_def rival_event_def own_refs_def normalize_manifest_def)
qed simp

section \<open>What an instance knows\<close>

definition own_versions_until :: "string \<Rightarrow> string \<Rightarrow> Event list \<Rightarrow> int \<Rightarrow> bool" where
  "own_versions_until mk me tr n \<longleftrightarrow>
     (\<forall>m e. Wrote mk (ManifestBody m) e \<in> set tr \<longrightarrow> mf_lastWriter m = Some me \<longrightarrow> commit_seq m \<le> n)"

definition cache_ok :: "string \<Rightarrow> Event list \<Rightarrow> ManifestStore \<Rightarrow> bool" where
  "cache_ok mk tr ms \<longleftrightarrow>
     (ms_cachedEtag ms = None \<and> ms_cached ms = emptyManifest)
     \<or> (\<exists>e m. ms_cachedEtag ms = Some e \<and> Wrote mk (ManifestBody m) e \<in> set tr \<and> ms_cached ms = m)"

definition store_of :: "string \<Rightarrow> string \<Rightarrow> (string \<Rightarrow> bool) \<Rightarrow> ManifestStore \<Rightarrow> bool" where
  "store_of mk me mine ms \<longleftrightarrow> ms_manifestKey ms = mk \<and> ms_writerId ms = me \<and> ms_leaseKey ms \<noteq> mk
     \<and> \<not> mine (ms_leaseKey ms)"

definition store_inv :: "string \<Rightarrow> string \<Rightarrow> (string \<Rightarrow> bool) \<Rightarrow> Event list \<Rightarrow> ManifestStore \<Rightarrow> bool" where
  "store_inv mk me mine tr ms \<longleftrightarrow> store_of mk me mine ms
     \<and> (ms_loaded ms \<longrightarrow> cache_ok mk tr ms \<and> own_versions_until mk me tr (commit_seq (ms_cached ms)))"

text \<open>A change of the manifest leaves alone what identifies the commit.\<close>

definition tame_change :: "(ManifestRecord \<Rightarrow> ManifestRecord) \<Rightarrow> bool" where
  "tame_change f \<longleftrightarrow> (\<forall>m. mf_commitSeq (f m) = mf_commitSeq m \<and> mf_lastWriter (f m) = mf_lastWriter m)"

lemma calm_versions:
  "rivals (calm mk me mine) rv tr \<Longrightarrow> own_versions_until mk me tr n \<Longrightarrow> own_versions_until mk me (rv @ tr) n"
  unfolding own_versions_until_def using calm_own by blast

lemma calm_inv: "rivals (calm mk me mine) rv tr \<Longrightarrow> store_inv mk me mine tr ms \<Longrightarrow> store_inv mk me mine (rv @ tr) ms"
  by (auto simp: store_inv_def cache_ok_def calm_versions)

lemma cached_seq:
  assumes "lineage mk tr" "cache_ok mk tr ms"
  shows "mf_commitSeq (ms_cached ms) = Some (commit_seq (ms_cached ms))"
  using assms(2) unfolding cache_ok_def
proof
  assume "ms_cachedEtag ms = None \<and> ms_cached ms = emptyManifest"
  then show ?thesis by (simp add: emptyManifest_def commit_seq_def)
next
  assume "\<exists>e m. ms_cachedEtag ms = Some e \<and> Wrote mk (ManifestBody m) e \<in> set tr \<and> ms_cached ms = m"
  then obtain e m where "Wrote mk (ManifestBody m) e \<in> set tr" "ms_cached ms = m" by blast
  with lineage_seq [OF assms(1) this(1)] show ?thesis by simp
qed

lemma next_identity:
  assumes "tame_change f" "lineage mk tr" "cache_ok mk tr ms"
  shows "mf_commitSeq (f (buildNext ms)) = Some (commit_seq (ms_cached ms) + 1)"
    and "mf_lastWriter (f (buildNext ms)) = Some (ms_writerId ms)"
  using assms(1) cached_seq [OF assms(2,3)] by (simp_all add: tame_change_def buildNext_def)

lemma versions_at_current:
  assumes "lineage mk tr"
  shows "own_versions_until mk me tr (commit_seq (manifest_of (current tr mk)))"
  unfolding own_versions_until_def using lineage_seq [OF assms] by blast

text \<open>The compare-and-swap: what it replaces is what the instance had cached.\<close>

lemma cas_absent: "cas_options d ms None = Inr opts \<Longrightarrow> po_ifNoneMatch opts"
  by (auto simp: cas_options_def createOptions_def falsy_str_def split: if_splits)

lemma cas_match: "e \<noteq> [] \<Longrightarrow> cas_options d ms (Some e) = Inr opts \<Longrightarrow> po_ifMatch opts = Some e"
  by (auto simp: cas_options_def falsy_str_def)

lemma cas_replaces_cached:
  assumes "distinct (etags (rv @ tr))" "[] \<notin> set (etags (rv @ tr))" "lineage mk (rv @ tr)"
    and "cache_ok mk tr ms" "cas_options d ms (ms_cachedEtag ms) = Inr opts" "meets opts (current (rv @ tr) mk)"
  shows "manifest_of (current (rv @ tr) mk) = ms_cached ms"
proof (cases "ms_cachedEtag ms")
  case None
  then have "ms_cached ms = emptyManifest" using assms(4) by (auto simp: cache_ok_def)
  moreover have "current (rv @ tr) mk = None"
    using cas_absent [of d ms opts] assms(5,6) None by (simp add: meets_def)
  ultimately show ?thesis by (simp add: manifest_of_def)
next
  case (Some e)
  then obtain m where m: "Wrote mk (ManifestBody m) e \<in> set tr" "ms_cached ms = m"
    using assms(4) by (auto simp: cache_ok_def)
  have "e \<noteq> []" using m(1) assms(2) by (auto dest: in_etags)
  then have "po_ifMatch opts = Some e" using cas_match assms(5) Some by simp
  then obtain x where x: "current (rv @ tr) mk = Some x" "or_etag x = e"
    using assms(6) by (auto simp: meets_def)
  have "Wrote mk (or_body x) e \<in> set (rv @ tr)" using current_etag [OF x(1)] x(2) by simp
  moreover have "Wrote mk (ManifestBody m) e \<in> set (rv @ tr)" using m(1) by simp
  ultimately have "or_body x = ManifestBody m" using etag_unique [OF assms(1)] by blast
  moreover obtain m' where "or_body x = ManifestBody m'" "manifest_of (current (rv @ tr) mk) = m'"
    using lineage_current [OF assms(3) x(1)] by blast
  ultimately show ?thesis using m(2) by simp
qed

section \<open>Steps of an instance\<close>

text \<open>The version \<open>next\<close> is the change \<open>f\<close> of the version \<open>base\<close>, stamped by \<open>me\<close>.\<close>

definition succeeds_by :: "(ManifestRecord \<Rightarrow> ManifestRecord) \<Rightarrow> string \<Rightarrow> ManifestRecord \<Rightarrow> ManifestRecord \<Rightarrow> bool" where
  "succeeds_by f me base next \<longleftrightarrow>
     (\<exists>ep. next = f (base\<lparr>mf_epoch := ep, mf_commitSeq := Some (commit_seq base + 1), mf_lastWriter := Some me\<rparr>))"

text \<open>Since \<open>tr\<close> the version \<open>next\<close> was written, once, over the version it was built on.\<close>

definition linearized ::
  "string \<Rightarrow> string \<Rightarrow> (ManifestRecord \<Rightarrow> ManifestRecord) \<Rightarrow> Event list \<Rightarrow> Event list \<Rightarrow> ManifestRecord \<Rightarrow> bool" where
  "linearized mk me f tr tr' next \<longleftrightarrow>
     (\<exists>newer e older. tr' = newer @ Wrote mk (ManifestBody next) e # older @ tr
        \<and> succeeds_by f me (manifest_of (current (older @ tr) mk)) next)"

definition knows :: "string \<Rightarrow> string \<Rightarrow> (string \<Rightarrow> bool) \<Rightarrow> Event list \<Rightarrow> ManifestStore \<Rightarrow> bool" where
  "knows mk me mine tr ms \<longleftrightarrow> store_inv mk me mine tr ms \<and> ms_loaded ms"

lemma knows_succeeds:
  assumes "lineage mk tr" "knows mk me mine tr ms"
  shows "succeeds_by f me (ms_cached ms) (f (buildNext ms))"
  using cached_seq [of mk tr ms] assms
  by (auto simp: succeeds_by_def buildNext_def knows_def store_inv_def store_of_def
      intro!: exI [where x = "mf_epoch (buildNext ms)"])

lemma knows_own: "knows mk me mine tr ms \<Longrightarrow> own_versions_until mk me tr (commit_seq (ms_cached ms))"
  by (simp add: knows_def store_inv_def)

lemma own_version_added:
  assumes "own_versions_until mk me tr n" "n \<le> commit_seq m"
  shows "own_versions_until mk me (Wrote mk (ManifestBody m) e # tr) (commit_seq m)"
  using assms by (fastforce simp: own_versions_until_def)

lemma armRenew_fields [simp]:
  "ms_cached (armRenew ms) = ms_cached ms" "ms_cachedEtag (armRenew ms) = ms_cachedEtag ms"
  "ms_loaded (armRenew ms) = ms_loaded ms" "ms_manifestKey (armRenew ms) = ms_manifestKey ms"
  "ms_writerId (armRenew ms) = ms_writerId ms" "ms_leaseKey (armRenew ms) = ms_leaseKey ms"
  "ms_concurrency (armRenew ms) = ms_concurrency ms" "ms_leaseEpoch (armRenew ms) = ms_leaseEpoch ms"
  by (simp_all add: armRenew_def disarmRenew_def)

locale manifest_users = object_store d trace ok "rival_event mk me mine" lossy
  for d :: "'s ObjectDriver" and trace and ok and mk and me and mine and lossy
begin

definition grew :: "'s \<Rightarrow> 's \<Rightarrow> bool" where
  "grew s t \<longleftrightarrow> ok t \<and> (\<exists>rv. rivals (calm mk me mine) rv (trace s) \<and> trace t = rv @ trace s)"

lemma grew_refl: "ok s \<Longrightarrow> grew s s"
  by (auto simp: grew_def intro: exI [where x = "[]"])

lemma grew_trans: "grew s t \<Longrightarrow> grew t u \<Longrightarrow> grew s u"
  unfolding grew_def by (metis append.assoc rivals_append)

lemma grew_ok: "grew s t \<Longrightarrow> ok t"
  by (simp add: grew_def)

lemma grew_lineage: "grew s t \<Longrightarrow> lineage mk (trace s) \<Longrightarrow> lineage mk (trace t)"
  by (auto simp: grew_def calm_lineage)

lemma grew_inv: "grew s t \<Longrightarrow> store_inv mk me mine (trace s) ms \<Longrightarrow> store_inv mk me mine (trace t) ms"
  by (auto simp: grew_def calm_inv)

lemma grew_knows: "grew s t \<Longrightarrow> knows mk me mine (trace s) ms \<Longrightarrow> knows mk me mine (trace t) ms"
  by (simp add: knows_def grew_inv)

lemma got_grew:
  assumes "ok s" "od_get d k s = (r, t)"
  shows "grew s t" and "r = Inr x \<Longrightarrow> x = current (trace t) k"
  using got [OF assms] by (auto simp: grew_def dest: rivals_calm)

lemma put_other_grew:
  assumes "ok s" "od_put d k b opts s = (r, t)" "k \<noteq> mk" "\<not> mine k"
  shows "grew s t"
proof -
  have wrote: "grew s t" if "ok t" "rivals (rival_event mk me mine) rv (trace s)" "trace t = Wrote k b e # rv @ trace s" for rv e
    using that assms(3,4) rivals_calm [OF that(2)]
    by (auto simp: grew_def calm_def intro!: exI [where x = "Wrote k b e # rv"])
  show ?thesis
  proof (cases r)
    case (Inr e)
    with put_applied [of s k b opts e t] assms wrote show ?thesis by auto
  next
    case (Inl e)
    with put_rejected [of s k b opts e t] assms obtain rv where "ok t" "rivals (rival_event mk me mine) rv (trace s)"
      "trace t = rv @ trace s \<or> (\<exists>e. trace t = Wrote k b e # rv @ trace s)" by blast
    with wrote rivals_calm show ?thesis by (auto simp: grew_def)
  qed
qed

lemma load_step:
  assumes "ok s" "lineage mk (trace s)" "store_of mk me mine ms" "manifest_load d s ms = (r, t, ms')"
  shows "grew s t \<and> (case r of Inl e \<Rightarrow> ms' = ms | Inr m \<Rightarrow> knows mk me mine (trace t) ms')"
proof -
  obtain q u where q: "od_get d mk s = (q, u)" by fastforce
  note g = got_grew [OF assms(1) q]
  have lin: "lineage mk (trace u)" using grew_lineage g(1) assms(2) by blast
  note st = assms(3,4) q lin
  show ?thesis
  proof (cases q)
    case (Inl e)
    with st g show ?thesis by (auto simp: manifest_load_def store_of_def)
  next
    case (Inr x)
    then have x: "x = current (trace u) mk" using g(2) by blast
    show ?thesis
    proof (cases x)
      case None
      with st Inr have "t = u" "r = Inr emptyManifest"
          "ms' = ms\<lparr>ms_cached := emptyManifest, ms_cachedEtag := None, ms_loaded := True\<rparr>"
        by (auto simp: manifest_load_def store_of_def)
      moreover have "own_versions_until mk me (trace u) (commit_seq emptyManifest)"
        using versions_at_current [OF lin, of me] x None by (simp add: manifest_of_def)
      ultimately show ?thesis using g(1) assms(3)
        by (simp add: knows_def store_inv_def cache_ok_def store_of_def)
    next
      case (Some y)
      then have "current (trace u) mk = Some y" using x by simp
      then obtain m where m: "or_body y = ManifestBody m" "normalize_manifest m = m" "manifest_of (current (trace u) mk) = m"
        using lineage_current [OF lin] by blast
      have w: "Wrote mk (ManifestBody m) (or_etag y) \<in> set (trace u)" using current_etag [of "trace u" mk y] x Some m(1) by simp
      from st Inr Some m have "t = u" "r = Inr m" "ms_cached ms' = m" "ms_cachedEtag ms' = Some (or_etag y)"
          "ms_loaded ms'" "store_of mk me mine ms'"
        by (auto simp: manifest_load_def store_of_def decodeManifest_def)
      moreover have "own_versions_until mk me (trace u) (commit_seq m)"
        using versions_at_current [OF lin, of me] m(3) by simp
      ultimately show ?thesis using g(1) w by (simp add: knows_def store_inv_def cache_ok_def)
    qed
  qed
qed

lemma ensure_loaded_step:
  assumes "ok s" "lineage mk (trace s)" "store_inv mk me mine (trace s) ms" "ensure_manifest_loaded d s ms = (r, t, ms')"
  shows "grew s t \<and> store_inv mk me mine (trace t) ms' \<and> (r = Inr () \<longrightarrow> knows mk me mine (trace t) ms')"
proof (cases "ms_loaded ms")
  case True
  with assms grew_refl show ?thesis by (auto simp: ensure_manifest_loaded_def knows_def)
next
  case False
  obtain q u ms'' where q: "manifest_load d s ms = (q, u, ms'')" by (metis prod_cases3)
  have "store_of mk me mine ms" using assms(3) by (simp add: store_inv_def)
  from load_step [OF assms(1,2) this q] assms(3,4) q False grew_inv show ?thesis
    by (cases q) (auto simp: ensure_manifest_loaded_def knows_def)
qed

lemma adopt_step:
  assumes "ok t" "own_versions_until mk me tr n" "n < commit_seq next" "mf_commitSeq next = Some (commit_seq next)"
    and "store_of mk me mine ms" "lineage mk (trace t)" "adoptOwnCommit d next t ms = (b, u, ms')"
    and landing: "(\<exists>rv. rivals (calm mk me mine) rv tr \<and> trace t = rv @ tr)
      \<or> (\<exists>e rv. rivals (calm mk me mine) rv tr \<and> trace t = Wrote mk (ManifestBody next) e # rv @ tr)"
  shows "grew t u \<and> (if b then (\<exists>e. Wrote mk (ManifestBody next) e \<in> set (trace u) \<and> ms_cached ms' = next
             \<and> ms_cachedEtag ms' = Some e \<and> ms_loaded ms' = ms_loaded ms \<and> store_of mk me mine ms'
             \<and> (\<exists>rv. trace t = Wrote mk (ManifestBody next) e # rv @ tr))
         else ms' = ms)"
proof -
  obtain q v where q: "od_get d mk t = (q, v)" by fastforce
  note g = got_grew [OF assms(1) q]
  have keys: "ms_manifestKey ms = mk" "ms_writerId ms = me" using assms(5) by (simp_all add: store_of_def)
  show ?thesis
  proof (cases b)
    case False
    with assms(7) q g(1) keys show ?thesis
      by (auto simp: adoptOwnCommit_def split: sum.splits option.splits if_splits)
  next
    case True
    with assms(7) q keys obtain y stored where y: "q = Inr (Some y)" "decodeManifest (or_body y) mk = Inr stored"
        "mf_lastWriter stored = Some me" "same_commit stored next" and u: "u = v"
        "ms' = ms\<lparr>ms_cached := stored, ms_cachedEtag := Some (or_etag y), ms_wroteSinceRenew := True\<rparr>"
      by (auto simp: adoptOwnCommit_def split: sum.splits option.splits if_splits)
    have body: "or_body y = ManifestBody stored" using y(2) by (auto simp: decodeManifest_def split: Body.splits)
    have "current (trace v) mk = Some y" using g(2) y(1) by simp
    then have in_v: "Wrote mk (ManifestBody stored) (or_etag y) \<in> set (trace v)" using current_etag body by metis
    then have in_t: "Wrote mk (ManifestBody stored) (or_etag y) \<in> set (trace t)"
      using g(1) y(3) unfolding grew_def by (metis calm_own)
    have "commit_seq stored = commit_seq next" using y(4) by (simp add: same_commit_def commit_seq_def)
    then have old: "Wrote mk (ManifestBody stored) (or_etag y) \<notin> set tr"
      using assms(2,3) y(3) by (fastforce simp: own_versions_until_def)
    then have "Wrote mk (ManifestBody stored) (or_etag y) \<notin> set (rv @ tr)" if "rivals (calm mk me mine) rv tr" for rv
      using calm_own [OF that] y(3) by blast
    with landing in_t obtain e rv where "trace t = Wrote mk (ManifestBody next) e # rv @ tr" "stored = next" "e = or_etag y"
      by auto
    with u in_v g(1) assms(5) True show ?thesis by (auto simp: store_of_def)
  qed
qed

text \<open>One attempt: the version was written, or it was not and nothing but rivals moved.\<close>

lemma put_manifest_step:
  assumes "ok s" "lineage mk (trace s)" "knows mk me mine (trace s) ms" "tame_change f"
    and "put_manifest d (f (buildNext ms)) s ms = (r, t)"
  shows "ok t \<and> lineage mk (trace t) \<and>
    (\<exists>rv. rivals (calm mk me mine) rv (trace s) \<and>
      ((isl r \<and> trace t = rv @ trace s)
       \<or> (\<exists>e. (r = Inr e \<or> (lossy \<and> r = Inl (PreconditionFailed mk)))
           \<and> trace t = Wrote mk (ManifestBody (f (buildNext ms))) e # rv @ trace s
           \<and> succeeds_by f me (manifest_of (current (rv @ trace s) mk)) (f (buildNext ms)))))"
proof -
  let ?next = "f (buildNext ms)"
  have keys: "ms_manifestKey ms = mk" "ms_writerId ms = me" and cache: "cache_ok mk (trace s) ms"
    using assms(3) by (simp_all add: knows_def store_inv_def store_of_def)
  note id = next_identity [OF assms(4,2) cache]
  show ?thesis
  proof (cases "cas_options d ms (ms_cachedEtag ms)")
    case (Inl e)
    with assms(1,2,5) show ?thesis by (auto simp: put_manifest_def put_with_def intro: exI [where x = "[]"])
  next
    case (Inr opts)
    with assms(5) keys have put: "od_put d mk (ManifestBody ?next) opts s = (r, t)"
      by (simp add: put_manifest_def put_with_def)
    have landed: "lineage mk (trace t) \<and> succeeds_by f me (manifest_of (current (rv @ trace s) mk)) ?next"
      if t: "ok t" "rivals (rival_event mk me mine) rv (trace s)" "trace t = Wrote mk (ManifestBody ?next) e # rv @ trace s"
        "meets opts (current (rv @ trace s) mk)" for rv e
    proof -
      have "lineage mk (rv @ trace s)" by (rule calm_lineage [OF rivals_calm [OF t(2)] assms(2)])
      moreover have "distinct (etags (rv @ trace s))" "[] \<notin> set (etags (rv @ trace s))"
        using etags_distinct [OF t(1)] t(3) by simp_all
      ultimately have base: "manifest_of (current (rv @ trace s) mk) = ms_cached ms"
        using cas_replaces_cached cache Inr t(4) by blast
      then show ?thesis
        using \<open>lineage mk (rv @ trace s)\<close> t(3) id keys knows_succeeds [OF assms(2,3)] by simp
    qed
    show ?thesis
    proof (cases r)
      case (Inr e)
      with put_applied [OF assms(1)] put obtain rv where "ok t" "rivals (rival_event mk me mine) rv (trace s)"
          "trace t = Wrote mk (ManifestBody ?next) e # rv @ trace s" "meets opts (current (rv @ trace s) mk)" by blast
      with landed rivals_calm Inr show ?thesis by blast
    next
      case (Inl err)
      with put_rejected [OF assms(1)] put obtain rv where t: "ok t" "rivals (rival_event mk me mine) rv (trace s)"
          "trace t = rv @ trace s \<or> (lossy \<and> err = PreconditionFailed mk
             \<and> (\<exists>e. trace t = Wrote mk (ManifestBody ?next) e # rv @ trace s \<and> meets opts (current (rv @ trace s) mk)))"
        by blast
      note rv = rivals_calm [OF t(2)]
      from t(3) show ?thesis
      proof
        assume "trace t = rv @ trace s"
        with t(1) rv calm_lineage [OF rv assms(2)] Inl show ?thesis by (auto intro!: exI [where x = rv])
      next
        assume "lossy \<and> err = PreconditionFailed mk
             \<and> (\<exists>e. trace t = Wrote mk (ManifestBody ?next) e # rv @ trace s \<and> meets opts (current (rv @ trace s) mk))"
        then obtain e where e: "lossy \<and> err = PreconditionFailed mk" "trace t = Wrote mk (ManifestBody ?next) e # rv @ trace s"
            "meets opts (current (rv @ trace s) mk)" by blast
        from landed [OF t(1,2) e(2,3)] t(1) e rv Inl show ?thesis by (intro conjI exI [where x = rv]) auto
      qed
    qed
  qed
qed

lemma knows_written:
  assumes "knows mk me mine tr0 ms" "mf_commitSeq next = Some (commit_seq (ms_cached ms) + 1)"
    and "rivals (calm mk me mine) rv tr0" "rivals (calm mk me mine) rv' (Wrote mk (ManifestBody next) e # rv @ tr0)"
    and "ms_cached ms' = next" "ms_cachedEtag ms' = Some e" "ms_loaded ms'" "store_of mk me mine ms'"
  shows "knows mk me mine (rv' @ Wrote mk (ManifestBody next) e # rv @ tr0) ms'"
proof -
  have "commit_seq (ms_cached ms) \<le> commit_seq next" using commit_seq_Some [OF assms(2)] by simp
  then have "own_versions_until mk me (Wrote mk (ManifestBody next) e # rv @ tr0) (commit_seq next)"
    by (rule own_version_added [OF calm_versions [OF assms(3) knows_own [OF assms(1)]]])
  from calm_versions [OF assms(4) this] assms(5-8) show ?thesis
    by (auto simp: knows_def store_inv_def cache_ok_def)
qed

lemma linearized_earlier:
  assumes "linearized mk me f (evs @ tr) tr' next" shows "linearized mk me f tr tr' next"
proof -
  from assms obtain newer e older where "tr' = newer @ Wrote mk (ManifestBody next) e # older @ evs @ tr"
      "succeeds_by f me (manifest_of (current (older @ evs @ tr) mk)) next" by (auto simp: linearized_def)
  then show ?thesis unfolding linearized_def by (intro exI [where x = newer] exI [where x = e] exI [where x = "older @ evs"]) simp
qed

section \<open>Commits\<close>

text \<open>Without loss, an own version is written once, and the rest of the trace is of others.\<close>

definition once :: "(ManifestRecord \<Rightarrow> ManifestRecord) \<Rightarrow> Event list \<Rightarrow> Event list \<Rightarrow> ManifestRecord \<Rightarrow> bool" where
  "once f tr tr' next \<longleftrightarrow>
     (\<exists>newer e older. tr' = newer @ Wrote mk (ManifestBody next) e # older @ tr
        \<and> rivals (calm mk me mine) older tr
        \<and> rivals (calm mk me mine) newer (Wrote mk (ManifestBody next) e # older @ tr)
        \<and> succeeds_by f me (manifest_of (current (older @ tr) mk)) next)"

definition moved :: "'s \<Rightarrow> 's \<Rightarrow> bool" where
  "moved s t \<longleftrightarrow> ok t \<and> lineage mk (trace t) \<and> (\<exists>evs. trace t = evs @ trace s) \<and> (lossy \<or> grew s t)"

text \<open>What a commit leaves: a sound trace and instance, and, if it returned, the written version.\<close>

definition committed ::
  "(ManifestRecord \<Rightarrow> ManifestRecord) \<Rightarrow> 's \<Rightarrow> StoreError + ManifestRecord \<Rightarrow> 's \<Rightarrow> ManifestStore \<Rightarrow> bool" where
  "committed f s r t ms' \<longleftrightarrow> ok t \<and> lineage mk (trace t) \<and> (\<exists>evs. trace t = evs @ trace s) \<and> store_of mk me mine ms'
     \<and> (case r of
          Inl e \<Rightarrow> lossy \<or> (grew s t \<and> store_inv mk me mine (trace t) ms')
        | Inr next \<Rightarrow> linearized mk me f (trace s) (trace t) next \<and> knows mk me mine (trace t) ms'
            \<and> (lossy \<or> once f (trace s) (trace t) next))"

lemma grew_moved: "grew s t \<Longrightarrow> lineage mk (trace s) \<Longrightarrow> moved s t"
  using grew_lineage by (auto simp: moved_def grew_def)

lemma once_linearized: "once f tr tr' next \<Longrightarrow> linearized mk me f tr tr' next"
  unfolding once_def linearized_def by blast

lemma once_earlier:
  assumes "rivals (calm mk me mine) rv tr" "once f (rv @ tr) tr' next" shows "once f tr tr' next"
proof -
  from assms(2) obtain newer e older where "tr' = newer @ Wrote mk (ManifestBody next) e # older @ rv @ tr"
      "rivals (calm mk me mine) older (rv @ tr)" "rivals (calm mk me mine) newer (Wrote mk (ManifestBody next) e # older @ rv @ tr)"
      "succeeds_by f me (manifest_of (current (older @ rv @ tr) mk)) next" by (auto simp: once_def)
  with assms(1) show ?thesis unfolding once_def
    by (intro exI [where x = newer] exI [where x = e] exI [where x = "older @ rv"]) (simp add: rivals_append)
qed

lemma committed_from:
  assumes "moved s u" "committed f u r t ms'" shows "committed f s r t ms'"
proof -
  have "once f (trace u) (trace t) m \<Longrightarrow> grew s u \<Longrightarrow> once f (trace s) (trace t) m" for m
    using once_earlier by (auto simp: grew_def)
  with assms linearized_earlier grew_trans show ?thesis
    unfolding committed_def moved_def by (cases r) auto
qed

lemma failed:
  "moved s t \<Longrightarrow> store_of mk me mine ms' \<Longrightarrow> lossy \<or> store_inv mk me mine (trace t) ms' \<Longrightarrow> committed f s (Inl e) t ms'"
  by (auto simp: committed_def moved_def)

text \<open>The write was confirmed; or refused, and nothing but rivals moved; or refused with 412 and
  read back: then it is the own one if and only if it landed.\<close>

lemma put_confirmed:
  assumes "ok s" "lineage mk (trace s)" "knows mk me mine (trace s) ms" "tame_change f"
    and "put_manifest d (f (buildNext ms)) s ms = (Inr e, t)"
  shows "committed f s (Inr (f (buildNext ms))) t (ms\<lparr>ms_cached := f (buildNext ms), ms_cachedEtag := Some e\<rparr>)"
proof -
  let ?next = "f (buildNext ms)" and ?ms = "ms\<lparr>ms_cached := f (buildNext ms), ms_cachedEtag := Some e\<rparr>"
  have st: "store_of mk me mine ms" and cache: "cache_ok mk (trace s) ms" and ld: "ms_loaded ms"
    using assms(3) by (simp_all add: knows_def store_inv_def)
  from put_manifest_step [OF assms] obtain rv where t: "ok t" "lineage mk (trace t)" "rivals (calm mk me mine) rv (trace s)"
    and w: "trace t = Wrote mk (ManifestBody ?next) e # rv @ trace s"
       "succeeds_by f me (manifest_of (current (rv @ trace s) mk)) ?next" by auto
  have "once f (trace s) (trace t) ?next"
    unfolding once_def using w t(3) by (intro exI [where x = "[]"] exI [where x = e] exI [where x = rv]) simp
  moreover have "store_of mk me mine ?ms" using st by (simp add: store_of_def)
  moreover have "knows mk me mine (trace t) ?ms"
    using knows_written [OF assms(3) next_identity(1) [OF assms(4,2) cache] t(3), where rv' = "[]" and e = e and ms' = ?ms]
      w(1) ld \<open>store_of mk me mine ?ms\<close> by simp
  ultimately show ?thesis using t w(1) once_linearized by (auto simp: committed_def)
qed

lemma put_refused:
  assumes "ok s" "lineage mk (trace s)" "knows mk me mine (trace s) ms" "tame_change f"
    and "put_manifest d (f (buildNext ms)) s ms = (Inl err, t)" "\<not> is_precondition err"
  shows "grew s t"
  using put_manifest_step [OF assms(1-5)] assms(6) by (auto simp: grew_def is_precondition_def)

lemma not_own_yet:
  assumes "lineage mk (trace s)" "knows mk me mine (trace s) ms" "tame_change f" "rivals (calm mk me mine) rv (trace s)"
  shows "Wrote mk (ManifestBody (f (buildNext ms))) e \<notin> set (rv @ trace s)"
proof
  let ?next = "f (buildNext ms)"
  assume "Wrote mk (ManifestBody ?next) e \<in> set (rv @ trace s)"
  have cache: "cache_ok mk (trace s) ms" and st: "store_of mk me mine ms" using assms(2) by (simp_all add: knows_def store_inv_def)
  have last: "mf_lastWriter ?next = Some me" using next_identity(2) [OF assms(3,1) cache] st by (simp add: store_of_def)
  with \<open>Wrote mk (ManifestBody ?next) e \<in> set (rv @ trace s)\<close> have "Wrote mk (ManifestBody ?next) e \<in> set (trace s)"
    using calm_own [OF assms(4)] by blast
  with knows_own [OF assms(2)] last have "commit_seq ?next \<le> commit_seq (ms_cached ms)"
    by (auto simp: own_versions_until_def)
  with commit_seq_Some [OF next_identity(1) [OF assms(3,1) cache]] show False by simp
qed

lemma put_read_back:
  assumes "ok s" "lineage mk (trace s)" "knows mk me mine (trace s) ms" "tame_change f"
    and "put_manifest d (f (buildNext ms)) s ms = (Inl err, t)"
    and "adoptOwnCommit d (f (buildNext ms)) t ms = (b, u, ms')"
  shows "if b then committed f s (Inr (f (buildNext ms))) u ms' else moved s u \<and> ms' = ms"
proof -
  let ?next = "f (buildNext ms)"
  have st: "store_of mk me mine ms" and cache: "cache_ok mk (trace s) ms" and ld: "ms_loaded ms"
    using assms(3) by (simp_all add: knows_def store_inv_def)
  note id = next_identity(1) [OF assms(4,2) cache]
  have seqs: "commit_seq (ms_cached ms) < commit_seq ?next" "mf_commitSeq ?next = Some (commit_seq ?next)"
    using id commit_seq_Some [OF id] by simp_all
  from put_manifest_step [OF assms(1-5)] obtain rv where t: "ok t" "lineage mk (trace t)" "rivals (calm mk me mine) rv (trace s)"
    and alt: "trace t = rv @ trace s
       \<or> (\<exists>e. lossy \<and> trace t = Wrote mk (ManifestBody ?next) e # rv @ trace s
           \<and> succeeds_by f me (manifest_of (current (rv @ trace s) mk)) ?next)" by blast
  have landing: "(\<exists>rv. rivals (calm mk me mine) rv (trace s) \<and> trace t = rv @ trace s)
      \<or> (\<exists>e rv. rivals (calm mk me mine) rv (trace s) \<and> trace t = Wrote mk (ManifestBody ?next) e # rv @ trace s)"
    using alt t(3) by blast
  note a = adopt_step [OF t(1) knows_own [OF assms(3)] seqs st t(2) assms(6) landing]
  obtain rv' where rv': "ok u" "rivals (calm mk me mine) rv' (trace t)" "trace u = rv' @ trace t" using a by (auto simp: grew_def)
  have u: "lineage mk (trace u)" using a grew_lineage t(2) by blast
  show ?thesis
  proof (cases b)
    case False
    have "grew s u" if "trace t = rv @ trace s"
      using grew_trans [of s t u] a t that by (auto simp: grew_def)
    with False a alt u rv' show ?thesis by (auto simp: moved_def)
  next
    case True
    with a ld obtain e rv0 where e: "ms_cached ms' = ?next" "ms_cachedEtag ms' = Some e" "ms_loaded ms'"
        "store_of mk me mine ms'" "trace t = Wrote mk (ManifestBody ?next) e # rv0 @ trace s" by auto
    then have "Wrote mk (ManifestBody ?next) e \<in> set (trace t)" by simp
    with alt not_own_yet [OF assms(2,3,4) t(3), of e] e(5)
    have w: "lossy" "rv0 = rv" "succeeds_by f me (manifest_of (current (rv @ trace s) mk)) ?next" by auto
    have "linearized mk me f (trace s) (trace u) ?next"
      unfolding linearized_def using rv'(3) e(5) w
      by (intro exI [where x = rv'] exI [where x = e] exI [where x = rv]) simp
    moreover have "knows mk me mine (rv' @ Wrote mk (ManifestBody ?next) e # rv @ trace s) ms'"
      by (rule knows_written [OF assms(3) id t(3) _ e(1-4)]) (use rv'(2) e(5) w in simp)
    ultimately have "committed f s (Inr ?next) u ms'"
      unfolding committed_def using rv' u e(4,5) w by simp
    then show ?thesis using True by simp
  qed
qed

lemma cas_attempt_step:
  assumes "ok s" "lineage mk (trace s)" "knows mk me mine (trace s) ms" "tame_change f" "cas_attempt d f s ms = (r, t, ms')"
  shows "case r of
      Inl e \<Rightarrow> grew s t \<and> ms' = ms
    | Inr (Some next) \<Rightarrow> committed f s (Inr next) t ms'
    | Inr None \<Rightarrow> moved s t \<and> ms' = ms"
proof -
  obtain q u where p: "put_manifest d (f (buildNext ms)) s ms = (q, u)" by fastforce
  obtain b v ms3 where ad: "adoptOwnCommit d (f (buildNext ms)) u ms = (b, v, ms3)" by (metis prod_cases3)
  consider e where "q = Inr e" | err where "q = Inl err" "\<not> is_precondition err" | err where "q = Inl err" "is_precondition err"
    by (cases q) auto
  then show ?thesis
  proof cases
    case 1
    with assms(5) p put_confirmed [OF assms(1-4), of _ u] show ?thesis by (auto simp: cas_attempt_def Let_def)
  next
    case 2
    with assms(5) p put_refused [OF assms(1-4), of _ u] show ?thesis by (auto simp: cas_attempt_def Let_def)
  next
    case 3
    with put_read_back [OF assms(1-4) p [unfolded 3(1)] ad] assms(5) p ad show ?thesis
      by (auto simp: cas_attempt_def Let_def split: if_splits)
  qed
qed

lemma commit_attempts_committed:
  assumes "ok s" "lineage mk (trace s)" "store_inv mk me mine (trace s) ms" "tame_change f"
    and "commit_attempts n d f s ms = (r, t, ms')"
  shows "committed f s r t ms'"
  using assms
proof (induction n arbitrary: s ms)
  case 0
  then show ?case by (auto intro!: failed grew_moved grew_refl simp: store_inv_def)
next
  case (Suc n)
  obtain q1 s1 ms1 where l: "ensure_manifest_loaded d s ms = (q1, s1, ms1)" by (metis prod_cases3)
  note l1 = ensure_loaded_step [OF Suc.prems(1-3) l]
  then have s1: "ok s1" "lineage mk (trace s1)" "moved s s1" "store_inv mk me mine (trace s1) ms1"
    using grew_ok grew_lineage grew_moved Suc.prems(2) by blast+
  have from1: "committed f s1 r t ms' \<Longrightarrow> ?case" using committed_from [OF s1(3)] by blast
  obtain q2 s2 ms2 where c: "cas_attempt d f s1 ms1 = (q2, s2, ms2)" by (metis prod_cases3)
  show ?case
  proof (cases q1)
    case (Inl e)
    with Suc.prems l l1 s1 show ?thesis by (auto intro!: failed simp: store_inv_def)
  next
    case (Inr x)
    then have kn: "knows mk me mine (trace s1) ms1" using l1 by simp
    then have st: "store_of mk me mine ms1" by (simp add: knows_def store_inv_def)
    note a = cas_attempt_step [OF s1(1,2) kn Suc.prems(4) c]
    consider e where "q2 = Inl e" | m where "q2 = Inr (Some m)" | "q2 = Inr None" by (metis option.exhaust sum.exhaust)
    then show ?thesis
    proof cases
      case 1
      with Suc.prems(5) l Inr c a s1 st grew_inv grew_moved show ?thesis by (intro from1) (auto intro!: failed)
    next
      case 2
      with Suc.prems(5) l Inr c a show ?thesis by (intro from1) auto
    next
      case 3
      then have s2: "moved s1 s2" "ms2 = ms1" using a by simp_all
      then have s3: "ok s2" "lineage mk (trace s2)" "moved s2 s2" "lossy \<or> store_inv mk me mine (trace s2) ms2"
        using s1(4) grew_inv grew_refl by (auto simp: moved_def)
      have from2: "committed f s2 r t ms' \<Longrightarrow> ?thesis" using committed_from [OF s2(1)] from1 by blast
      obtain q3 s3 ms3 where l3: "manifest_load d s2 ms2 = (q3, s3, ms3)" by (metis prod_cases3)
      have st2: "store_of mk me mine ms2" using st s2(2) by simp
      note l4 = load_step [OF s3(1,2) st2 l3]
      show ?thesis
      proof (cases "n = 0 \<or> isl q3")
        case True
        have "lossy \<or> store_inv mk me mine (trace s3) ms2" using s3(4) l4 grew_inv by blast
        with True Suc.prems(5) l Inr c 3 l3 l4 s3 st2 grew_moved show ?thesis
          by (intro from2) (auto intro!: failed split: sum.splits if_splits)
      next
        case False
        then obtain m where m: "q3 = Inr m" by (cases q3) auto
        then have "commit_attempts n d f s3 ms3 = (r, t, ms')" using Suc.prems(5) l Inr c 3 l3 False by simp
        with Suc.IH [of s3 ms3] m l4 s3 Suc.prems(4) have "committed f s3 r t ms'"
          using grew_ok grew_lineage by (auto simp: knows_def)
        with l4 s3(2) grew_moved show ?thesis by (intro from2) (blast intro: committed_from)
      qed
    qed
  qed
qed

text \<open>Taking the lease touches neither the manifest nor what is known of it.\<close>

definition same_cache :: "ManifestStore \<Rightarrow> ManifestStore \<Rightarrow> bool" where
  "same_cache ms ms' \<longleftrightarrow> ms_cached ms' = ms_cached ms \<and> ms_cachedEtag ms' = ms_cachedEtag ms
     \<and> ms_loaded ms' = ms_loaded ms \<and> ms_manifestKey ms' = ms_manifestKey ms
     \<and> ms_writerId ms' = ms_writerId ms \<and> ms_leaseKey ms' = ms_leaseKey ms"

lemma same_cache_inv: "same_cache ms ms' \<Longrightarrow> store_inv mk me mine tr ms' = store_inv mk me mine tr ms"
  by (simp add: same_cache_def store_inv_def store_of_def cache_ok_def)

lemma same_cache_knows: "same_cache ms ms' \<Longrightarrow> knows mk me mine tr ms' = knows mk me mine tr ms"
  by (simp add: knows_def same_cache_inv) (simp add: same_cache_def)

lemma put_with_other:
  assumes "ok s" "put_with d k b opts s = (r, t)" "k \<noteq> mk" "\<not> mine k"
  shows "grew s t"
  using assms put_other_grew [OF assms(1) _ assms(3,4)] grew_refl by (auto simp: put_with_def split: sum.splits)

lemma take_lease_step:
  assumes "ok s" "store_of mk me mine ms" "take_lease d now l s ms = (r, t, ms')"
  shows "grew s t \<and> same_cache ms ms'"
proof -
  have other: "grew s u" if "put_with d (ms_leaseKey ms) b opts s = (q, u)" for b opts q u
    using put_with_other [OF assms(1) that] assms(2) by (simp add: store_of_def)
  let ?body = "LeaseBody \<lparr>le_owner = ms_writerId ms, le_epoch = next_epoch ms now l,
      le_expiresAt = now + lc_ttlMs (ms_leaseConfig ms)\<rparr>"
  let ?opts = "case l of Some (_, etag) \<Rightarrow> Inr (if_match etag) | None \<Rightarrow> createOptions d ms"
  obtain q u where q: "put_with d (ms_leaseKey ms) ?body ?opts s = (q, u)" by fastforce
  have "t = u" using q assms(3) by (auto simp: take_lease_def split: sum.splits)
  moreover have "same_cache ms ms'"
    using q assms(3) by (auto simp: take_lease_def same_cache_def split: sum.splits)
  ultimately show ?thesis using other [OF q] by simp
qed

lemma acquire_step:
  assumes "ok s" "store_of mk me mine ms" "acquire d now s ms = (r, t, ms')"
  shows "grew s t \<and> same_cache ms ms'"
proof -
  obtain q u where q: "read_lease d s ms = (q, u)" by fastforce
  have g: "grew s u"
    using q assms(1) got_grew(1) by (auto simp: read_lease_def split: prod.splits sum.splits option.splits)
  have same: "same_cache ms ms" by (simp add: same_cache_def)
  show ?thesis
  proof (cases "assertNotFenced ms")
    case (Some e)
    with assms(3) same grew_refl [OF assms(1)] show ?thesis by (auto simp: acquire_def)
  next
    case None
    show ?thesis
    proof (cases q)
      case (Inl e)
      with None assms(3) q g same show ?thesis by (auto simp: acquire_def)
    next
      case (Inr l)
      with None assms(3) q g same take_lease_step [OF grew_ok [OF g] assms(2), of now l r t ms'] show ?thesis
        by (auto simp: acquire_def split: option.splits intro: grew_trans)
    qed
  qed
qed

text \<open>What \<open>doCommit\<close> makes of an attempt: a lost one fences the instance.\<close>

lemma fence_same: "same_cache ms (fence reason ms)"
  by (simp add: same_cache_def fence_def disarmRenew_def)

lemma fenced_attempt:
  assumes "ok s" "lineage mk (trace s)" "knows mk me mine (trace s) ms" "tame_change f" "cas_attempt d f s ms = (q, s3, ms3)"
    and "(r, t, ms') = (case q of
        Inl e \<Rightarrow> (Inl e, s3, ms3)
      | Inr (Some m) \<Rightarrow> (Inr m, s3, ms3\<lparr>ms_wroteSinceRenew := True\<rparr>)
      | Inr None \<Rightarrow> (Inl (NotWriter (ms_roomId ms3) why), s3, fence reason ms3))"
  shows "committed f s r t ms'"
proof -
  have inv: "store_of mk me mine ms" "store_inv mk me mine (trace s) ms" using assms(3) by (simp_all add: knows_def store_inv_def)
  note c = cas_attempt_step [OF assms(1-5)]
  consider e where "q = Inl e" | m where "q = Inr (Some m)" | "q = Inr None" by (metis option.exhaust sum.exhaust)
  then show ?thesis
  proof cases
    case 1
    with c inv assms(2,6) grew_inv show ?thesis by (auto intro!: failed grew_moved)
  next
    case 2
    have "same_cache ms3 (ms3\<lparr>ms_wroteSinceRenew := True\<rparr>)" by (simp add: same_cache_def)
    with 2 c assms(6) same_cache_knows [OF this] show ?thesis by (auto simp: committed_def store_of_def)
  next
    case 3
    then have m: "moved s s3" "ms3 = ms" using c by simp_all
    have "store_of mk me mine (fence reason ms)" using inv(1) by (simp add: fence_def disarmRenew_def store_of_def)
    moreover have "lossy \<or> store_inv mk me mine (trace s3) (fence reason ms)"
      using m(1) grew_inv inv(2) same_cache_inv [OF fence_same] by (auto simp: moved_def)
    ultimately show ?thesis using 3 assms(6) m by (auto intro: failed)
  qed
qed

lemma doCommit_committed:
  assumes "ok s" "lineage mk (trace s)" "store_inv mk me mine (trace s) ms" "tame_change f"
    and "doCommit d now f s ms = (r, t, ms')"
  shows "committed f s r t ms'"
proof -
  obtain q1 s1 ms1 where l: "ensure_manifest_loaded d s ms = (q1, s1, ms1)" by (metis prod_cases3)
  note l1 = ensure_loaded_step [OF assms(1-3) l]
  then have s1: "ok s1" "lineage mk (trace s1)" "store_of mk me mine ms1" "moved s s1"
    using grew_ok grew_lineage grew_moved assms(2) by (auto simp: store_inv_def)
  obtain q2 s2 ms2 where h: "(if ms_held ms1 then (Inr (), s1, ms1) else acquire d now s1 ms1) = (q2, s2, ms2)"
    by (metis prod_cases3)
  have l2: "grew s1 s2" "same_cache ms1 ms2"
    using h acquire_step [OF s1(1,3)] grew_refl [OF s1(1)] by (auto simp: same_cache_def split: if_splits)
  then have s2: "ok s2" "lineage mk (trace s2)" "store_inv mk me mine (trace s2) ms2" "moved s s2"
    using l1 grew_ok grew_lineage grew_inv grew_trans grew_moved same_cache_inv assms(2) s1 by blast+
  obtain q3 s3 ms3 where c: "cas_attempt d f s2 ms2 = (q3, s3, ms3)" by (metis prod_cases3)
  have st: "store_of mk me mine ms" "store_of mk me mine ms2" using assms(3) s2(3) by (simp_all add: store_inv_def)
  consider "assertNotFenced ms \<noteq> None \<or> ms_stopped ms" | "assertNotFenced ms = None" "\<not> ms_stopped ms" "isl q1"
    | "assertNotFenced ms = None" "\<not> ms_stopped ms" "q1 = Inr ()" "isl q2"
    | "assertNotFenced ms = None" "\<not> ms_stopped ms" "q1 = Inr ()" "q2 = Inr ()"
    by (metis old.unit.exhaust sum.collapse(2))
  then show ?thesis
  proof cases
    case 1
    then have "\<exists>e. (r, t, ms') = (Inl e, s, ms)"
      using assms(5) by (cases "assertNotFenced ms") (auto simp: doCommit_def)
    with assms(3) st grew_moved [OF grew_refl [OF assms(1)] assms(2)] show ?thesis by (auto intro: failed)
  next
    case 2
    with assms(5) l l1 s1 show ?thesis by (auto simp: doCommit_def intro!: failed split: sum.splits)
  next
    case 3
    with assms(5) l h s2 st show ?thesis by (auto simp: doCommit_def intro!: failed split: sum.splits)
  next
    case 4
    then have "knows mk me mine (trace s1) ms1" using l1 by simp
    then have kn: "knows mk me mine (trace s2) ms2" using l2 grew_knows same_cache_knows by blast
    have "committed f s2 r t ms'"
      by (rule fenced_attempt [OF s2(1,2) kn assms(4) c, where why = "''manifest CAS failed; another writer committed against this etag''"
            and reason = "''the manifest CAS was lost - another writer owns this room''"])
        (use assms(5) 4 l h c in \<open>simp add: doCommit_def split: sum.splits option.splits\<close>)
    then show ?thesis by (rule committed_from [OF s2(4)])
  qed
qed

lemma commit_committed:
  assumes "ok s" "lineage mk (trace s)" "store_inv mk me mine (trace s) ms" "tame_change f"
    and "commit d now f s ms = (r, t, ms')"
  shows "committed f s r t ms'"
  using assms commit_attempts_committed [of s ms f] doCommit_committed [of s ms f now]
  by (auto simp: commit_def doCommitOptimistic_def split: if_splits)

end

section \<open>On the network\<close>

interpretation users: manifest_users "network_driver mk wc sz faults" nw_trace
  "network_ok (if lossy then {Delivered, Resent} else {Delivered}) mk me mine" mk me mine lossy
  for mk wc sz faults me mine lossy
  by unfold_locales

interpretation sure: manifest_users "network_driver mk wc sz faults" nw_trace "network_ok {Delivered} mk me mine" mk me mine False
  for mk wc sz faults me mine
  using users.manifest_users_axioms [where lossy = False] by simp

lemma coherent_new [simp]: "coherent (new_network script)"
  by (simp add: coherent_def new_network_def new_memory_driver_def)

lemma store_inv_new: "store_inv mk me mine tr (new_manifest_store room me lc c)
    \<longleftrightarrow> mk = roomPrefix room @ MANIFEST_KEY \<and> \<not> mine (roomPrefix room @ LEASE_KEY)"
  by (auto simp: store_inv_def store_of_def new_manifest_store_def MANIFEST_KEY_def LEASE_KEY_def)

section \<open>Properties\<close>


definition sample_commit :: "(StoreError + ManifestRecord) \<times> Network \<times> ManifestStore" where
  "sample_commit = commit (network_driver ''rooms/r/_manifest'' True (\<lambda>b. 0) no_faults) 0
     (\<lambda>m. m\<lparr>mf_oplogHead := Some ''h''\<rparr>)
     (new_network [([], Delivered), ([RivalCommit ''b'' (\<lambda>m. m)], Delivered), ([], Delivered), ([], Delivered), ([], Resent)])
     (new_manifest_store ''r'' ''a'' LEASE_DEFAULTS Optimistic)"


end
