(* ===== verification/Wal.thy ===== *)
theory Wal
  imports Manifest_Facts
begin

text \<open>
  \<open>src/server/storage/object/wal.ts\<close>: the group-commit writer of a room's log. The writer is a
  record; \<open>ww_at\<close> is the \<open>await\<close> its flush loop is suspended at, and \<open>resume\<close> performs the call
  awaited there and runs on to the next. Everything else the writer offers is synchronous and can
  run whenever the loop is suspended. A promise is known by the ordinal of the call that returned
  it; what it is settled with is in \<open>ww_acks\<close> and \<open>ww_flushAcks\<close>. Listeners are the log of what they
  were told, in order; they are taken not to throw.
\<close>

section \<open>Segments\<close>

definition mutation_value :: "WalRowMutation \<Rightarrow> jsval" where
  "mutation_value m = Obj 0
     [(''table'', Str (wm_table m)), (''rowId'', Str (wm_rowId m)), (''row'', row_value (wm_row m)),
      (''colClocks'', clocks_value (wm_colClocks m)), (''hlc'', Str (wm_hlc m))]"

definition record_value :: "WalRecord \<Rightarrow> jsval" where
  "record_value r = Obj 0
     (case r of
        RowRecord m \<Rightarrow> [(''k'', Str ''row''), (''row'', mutation_value m)]
      | OpRecord e \<Rightarrow> [(''k'', Str ''op''), (''op'', op_value e)]
      | ApplyRecord m e \<Rightarrow> [(''k'', Str ''apply''), (''row'', mutation_value m), (''op'', op_value e)]
      | ReserveRecord ids at \<Rightarrow>
          [(''k'', Str ''reserve''), (''opIds'', Arr 0 (map Str ids)), (''at'', Num at)])"

definition line_length :: "WalRecord \<Rightarrow> nat" where
  "line_length r = (case json_len (record_value r) of None \<Rightarrow> 0 | Some n \<Rightarrow> n)"

text \<open>Code units from 128 on are stored by \<open>JSON.stringify\<close> as they are, and take a second byte.\<close>

definition wide :: "string \<Rightarrow> nat" where
  "wide s = length (filter (\<lambda>c. 128 \<le> (of_char c :: nat)) s)"

fun wide_units :: "jsval \<Rightarrow> nat" where
  "wide_units (Str s) = wide s"
| "wide_units (Arr r xs) = sum_list (map wide_units xs)"
| "wide_units (Obj r f) = sum_list (map (\<lambda>(k, v). case v of Undefined \<Rightarrow> 0 | _ \<Rightarrow> wide k + wide_units v) f)"
| "wide_units v = 0"

text \<open>The body of a segment and its length in bytes: the lines, and a newline between two.\<close>

definition encodeSegment :: "WalRecord list \<Rightarrow> Body" where
  "encodeSegment rs = SegmentBody rs"

definition segment_bytes :: "WalRecord list \<Rightarrow> nat" where
  "segment_bytes rs = sum_list (map (\<lambda>r. line_length r + wide_units (record_value r)) rs) + (length rs - 1)"

definition decodeSegment :: "Body \<Rightarrow> string \<Rightarrow> StoreError + WalRecord list" where
  "decodeSegment body key = (case body of SegmentBody rs \<Rightarrow> Inr rs | _ \<Rightarrow> Inl (NotJson key))"

section \<open>The writer\<close>

definition UNAVAILABLE_AFTER_FAILURES :: nat where "UNAVAILABLE_AFTER_FAILURES = 3"
definition RETRY_BASE_MS :: int where "RETRY_BASE_MS = 100"
definition RETRY_MAX_MS :: int where "RETRY_MAX_MS = 10000"

record PreparedRecord =
  pr_record :: WalRecord
  pr_bytes :: nat
  pr_hlc :: string
  pr_durable :: bool

record Buffered = PreparedRecord +
  bf_ticket :: nat
  bf_settled :: bool

text \<open>The batch of a flush, kept by the loop across its awaits.\<close>

record Batch =
  bt_count :: nat
  bt_bytes :: nat
  bt_records :: "WalRecord list"
  bt_ref :: WalSegmentRef

datatype LoopPoint =
    NotStarted
  | Parked
  | Woken
  | Lingering
  | Fencing
  | Putting Batch
  | Committing Batch
  | BackingOff int
  | Maintaining
  | Exited

datatype Promise = Resolved | Rejected StoreError | Pending nat

record WalWriter =
  ww_batch :: BatchConfig
  ww_durability :: DurabilityMode
  ww_concurrency :: ConcurrencyMode
  ww_writerId :: string
  ww_prefix :: string
  ww_hasOnCommitted :: bool
  ww_buffer :: "Buffered list"
  ww_bufferedBytes :: int
  ww_seq :: nat
  ww_seqEpoch :: int
  ww_running :: bool
  ww_stopped :: bool
  ww_at :: LoopPoint
  ww_forced :: bool
  ww_flushWaiters :: "nat list"
  ww_failures :: nat
  ww_backpressured :: bool
  ww_currentHealth :: StorageHealth
  ww_terminal :: "StoreError option"
  ww_durableHead :: "string option"
  ww_appends :: nat
  ww_acks :: "(nat \<times> StoreError option) list"
  ww_flushes :: nat
  ww_flushAcks :: "(nat \<times> StoreError option) list"
  ww_durableCalls :: "string list"
  ww_healthCalls :: "StorageHealth list"

definition new_wal_writer ::
  "BatchConfig \<Rightarrow> DurabilityMode \<Rightarrow> ConcurrencyMode \<Rightarrow> string \<Rightarrow> string \<Rightarrow> bool \<Rightarrow> WalWriter" where
  "new_wal_writer batch durability concurrency writerId roomId hasOnCommitted =
     \<lparr>ww_batch = batch, ww_durability = durability, ww_concurrency = concurrency, ww_writerId = writerId,
      ww_prefix = roomPrefix roomId, ww_hasOnCommitted = hasOnCommitted, ww_buffer = [],
      ww_bufferedBytes = 0, ww_seq = 0, ww_seqEpoch = -1, ww_running = False, ww_stopped = False,
      ww_at = NotStarted, ww_forced = False, ww_flushWaiters = [], ww_failures = 0,
      ww_backpressured = False, ww_currentHealth = Healthy, ww_terminal = None, ww_durableHead = None,
      ww_appends = 0, ww_acks = [], ww_flushes = 0, ww_flushAcks = [], ww_durableCalls = [], ww_healthCalls = []\<rparr>"

section \<open>Internals\<close>

definition assertWritable :: "WalWriter \<Rightarrow> StoreError option" where
  "assertWritable w =
     (case ww_terminal w of Some e \<Rightarrow> Some e | None \<Rightarrow> if ww_stopped w then Some WriterStopped else None)"

definition setHealth :: "StorageHealth \<Rightarrow> WalWriter \<Rightarrow> WalWriter" where
  "setHealth h w =
     (if ww_currentHealth w = h then w
      else w\<lparr>ww_currentHealth := h, ww_healthCalls := ww_healthCalls w @ [h]\<rparr>)"

definition setBackpressured :: "bool \<Rightarrow> WalWriter \<Rightarrow> WalWriter" where
  "setBackpressured v w =
     (if ww_backpressured w = v then w
      else let w = w\<lparr>ww_backpressured := v\<rparr>
        in if ww_failures w = 0 then setHealth (if v then Degraded else Healthy) w else w)"

definition wake :: "WalWriter \<Rightarrow> WalWriter" where
  "wake w = (if ww_at w = Parked then w\<lparr>ww_at := Woken\<rparr> else w)"

definition settle_waiters :: "StoreError option \<Rightarrow> WalWriter \<Rightarrow> WalWriter" where
  "settle_waiters r w =
     w\<lparr>ww_flushAcks := ww_flushAcks w @ map (\<lambda>i. (i, r)) (ww_flushWaiters w), ww_flushWaiters := []\<rparr>"

definition settleFlushWaiters :: "WalWriter \<Rightarrow> WalWriter" where
  "settleFlushWaiters w =
     (if ww_buffer w \<noteq> [] then w else settle_waiters None (w\<lparr>ww_forced := False\<rparr>))"

definition settle_records :: "StoreError option \<Rightarrow> Buffered list \<Rightarrow> WalWriter \<Rightarrow> WalWriter" where
  "settle_records r items w =
     w\<lparr>ww_acks := ww_acks w @ map (\<lambda>b. (bf_ticket b, r)) (filter (\<lambda>b. \<not> bf_settled b) items)\<rparr>"

section \<open>The flush loop, from one await to the next\<close>

text \<open>The top of the loop with nothing to flush, or told to end.\<close>

definition loop_idle :: "WalWriter \<Rightarrow> WalWriter" where
  "loop_idle w = (settleFlushWaiters w)\<lparr>ww_at := if ww_running w then Parked else Exited\<rparr>"

definition enter_flush :: "WalWriter \<Rightarrow> WalWriter" where
  "enter_flush w =
     (if ww_buffer w = [] then loop_idle w
      else w\<lparr>ww_at := Fencing\<rparr>)"

definition loop_top :: "WalWriter \<Rightarrow> WalWriter" where
  "loop_top w =
     (if \<not> ww_running w \<or> ww_buffer w = [] then loop_idle w
      else if 0 < ba_minLingerMs (ww_batch w) \<and> \<not> ww_forced w then w\<lparr>ww_at := Lingering\<rparr>
      else enter_flush w)"

definition wal_start :: "WalWriter \<Rightarrow> WalWriter" where
  "wal_start w = (if ww_running w \<or> ww_stopped w then w else loop_top (w\<lparr>ww_running := True\<rparr>))"

definition fail :: "StoreError \<Rightarrow> WalWriter \<Rightarrow> WalWriter" where
  "fail e w =
     (let w = setHealth Unavailable (w\<lparr>ww_terminal := Some e, ww_running := False\<rparr>);
          pending = ww_buffer w;
          w = settle_records (Some e) pending (w\<lparr>ww_buffer := [], ww_bufferedBytes := 0\<rparr>)
      in wake (settle_waiters (Some e) w))"

definition backoff_ms :: "nat \<Rightarrow> int" where
  "backoff_ms failures = min RETRY_MAX_MS (RETRY_BASE_MS * 2 ^ (failures - 1))"

text \<open>After a terminal failure the loop finds itself stopped; after another it waits.\<close>

definition onFlushError :: "StoreError \<Rightarrow> WalWriter \<Rightarrow> WalWriter" where
  "onFlushError e w =
     (if is_not_writer e then loop_top (fail e w)
      else let w = w\<lparr>ww_failures := ww_failures w + 1\<rparr>;
               w = setHealth (if UNAVAILABLE_AFTER_FAILURES \<le> ww_failures w then Unavailable else Degraded) w
        in w\<lparr>ww_at := BackingOff (backoff_ms (ww_failures w))\<rparr>)"

text \<open>The records of the next segment: a prefix of the buffer that fits, at least one.\<close>

fun batch_more :: "nat \<Rightarrow> nat \<Rightarrow> Buffered list \<Rightarrow> Buffered list" where
  "batch_more maxBytes bytes [] = []"
| "batch_more maxBytes bytes (b # bs) =
     (if maxBytes < bytes + pr_bytes b then [] else b # batch_more maxBytes (bytes + pr_bytes b) bs)"

fun batch_of :: "nat \<Rightarrow> Buffered list \<Rightarrow> Buffered list" where
  "batch_of maxBytes [] = []"
| "batch_of maxBytes (b # bs) = b # batch_more maxBytes (pr_bytes b) bs"

definition max_hlc :: "Buffered list \<Rightarrow> string" where
  "max_hlc bs = foldl (\<lambda>m b. if m < pr_hlc b then pr_hlc b else m) [] bs"

definition segment_key :: "string \<Rightarrow> string \<Rightarrow> nat \<Rightarrow> string" where
  "segment_key pfx token seq = pfx @ ''wal/'' @ token @ ''-'' @ nat_str seq @ ''.jsonl''"

definition segment_token :: "WalWriter \<Rightarrow> int \<Rightarrow> string" where
  "segment_token w epoch = (if ww_concurrency w = Optimistic then ww_writerId w else int_str epoch)"

text \<open>The epoch is settled: take the batch, name its segment and burn the sequence number.\<close>

definition take_batch :: "int \<Rightarrow> WalWriter \<Rightarrow> WalWriter" where
  "take_batch epoch w =
     (let w = (if epoch \<noteq> ww_seqEpoch w then w\<lparr>ww_seqEpoch := epoch, ww_seq := 0\<rparr> else w);
          items = batch_of (ba_maxBytes (ww_batch w)) (ww_buffer w);
          records = map pr_record items;
          ref = \<lparr>ws_key = segment_key (ww_prefix w) (segment_token w epoch) (ww_seq w), ws_epoch = epoch,
                 ws_seq = ww_seq w, ws_bytes = segment_bytes records, ws_maxHlc = max_hlc items\<rparr>
      in w\<lparr>ww_seq := ww_seq w + 1,
           ww_at := Putting \<lparr>bt_count = length items, bt_bytes = sum_list (map pr_bytes items),
                             bt_records = records, bt_ref = ref\<rparr>\<rparr>)"

definition push_segment :: "WalSegmentRef \<Rightarrow> ManifestRecord \<Rightarrow> ManifestRecord" where
  "push_segment ref m =
     (let m = m\<lparr>mf_walSegs := mf_walSegs m @ [ref]\<rparr>
      in if ws_maxHlc ref \<noteq> [] \<and> (falsy_str (mf_oplogHead m) \<or> the (mf_oplogHead m) < ws_maxHlc ref)
         then m\<lparr>mf_oplogHead := Some (ws_maxHlc ref)\<rparr> else m)"

definition note_durable :: "string \<Rightarrow> WalWriter \<Rightarrow> WalWriter" where
  "note_durable h w =
     (if h \<noteq> [] \<and> (falsy_str (ww_durableHead w) \<or> the (ww_durableHead w) < h)
      then w\<lparr>ww_durableHead := Some h, ww_durableCalls := ww_durableCalls w @ [h]\<rparr> else w)"

text \<open>The commit landed: the batch leaves the buffer and its writers are told.\<close>

definition batch_landed :: "Batch \<Rightarrow> WalWriter \<Rightarrow> WalWriter" where
  "batch_landed b w =
     (let committed = take (bt_count b) (ww_buffer w);
          w = w\<lparr>ww_buffer := drop (bt_count b) (ww_buffer w),
                ww_bufferedBytes := ww_bufferedBytes w - int (bt_bytes b)\<rparr>;
          w = (if ww_bufferedBytes w \<le> int (ba_maxBufferBytes (ww_batch w)) then setBackpressured False w else w);
          w = settle_records None committed w;
          w = setHealth (if ww_backpressured w then Degraded else Healthy) (w\<lparr>ww_failures := 0\<rparr>);
          w = note_durable (ws_maxHlc (bt_ref b)) w
      in if ww_buffer w = [] then settleFlushWaiters (w\<lparr>ww_forced := False\<rparr>) else w)"

definition flush_landed :: "Batch \<Rightarrow> WalWriter \<Rightarrow> WalWriter" where
  "flush_landed b w =
     (let w = batch_landed b w
      in if ww_hasOnCommitted w then w\<lparr>ww_at := Maintaining\<rparr> else loop_top w)"

text \<open>The loop is resumed: the call it is about to make is made, and it runs to its next await. What
  \<open>onCommitted\<close> does is its owner's, and comes before the loop is resumed from \<open>Maintaining\<close>.\<close>

definition resume ::
  "'s ObjectDriver \<Rightarrow> int \<Rightarrow> 's \<times> ManifestStore \<times> WalWriter \<Rightarrow> 's \<times> ManifestStore \<times> WalWriter" where
  "resume d now x =
     (case x of (s, ms, w) \<Rightarrow>
       (case ww_at w of
          NotStarted \<Rightarrow> (s, ms, w)
        | Parked \<Rightarrow> (s, ms, w)
        | Woken \<Rightarrow> (s, ms, loop_top w)
        | Lingering \<Rightarrow> (s, ms, enter_flush w)
        | Fencing \<Rightarrow>
            (case ensureWriter d now s ms of
               (Inl e, s', ms') \<Rightarrow> (s', ms', onFlushError e w)
             | (Inr _, s', ms') \<Rightarrow> (s', ms', take_batch (ms_leaseEpoch ms') w))
        | Putting b \<Rightarrow>
            (case od_put d (ws_key (bt_ref b)) (encodeSegment (bt_records b)) unconditional s of
               (Inl e, s') \<Rightarrow> (s', ms, onFlushError e w)
             | (Inr _, s') \<Rightarrow> (s', ms, w\<lparr>ww_at := Committing b\<rparr>))
        | Committing b \<Rightarrow>
            (case commit d now (push_segment (bt_ref b)) s ms of
               (Inl e, s', ms') \<Rightarrow> (s', ms', onFlushError e w)
             | (Inr _, s', ms') \<Rightarrow> (s', ms', flush_landed b w))
        | BackingOff t \<Rightarrow> (s, ms, loop_top w)
        | Maintaining \<Rightarrow> (s, ms, loop_top w)
        | Exited \<Rightarrow> (s, ms, w)))"

section \<open>Operations\<close>

definition wal_prepare :: "WalRecord \<Rightarrow> WalWriter \<Rightarrow> (StoreError + PreparedRecord) \<times> WalWriter" where
  "wal_prepare r w =
     (case assertWritable w of
        Some e \<Rightarrow> (Inl e, w)
      | None \<Rightarrow>
          let bytes = line_length r + 1;
              used = ww_bufferedBytes w + int bytes;
              limit = int (ba_maxBufferBytes (ww_batch w));
              prepared = (\<lambda>durable. \<lparr>pr_record = r, pr_bytes = bytes, pr_hlc = recordHlc r, pr_durable = durable\<rparr>)
          in if limit < used
             then (if ba_onBackpressure (ww_batch w) = RejectWrites then (Inl (Backpressure used limit), w)
                   else (Inr (prepared False), setBackpressured True w))
             else (Inr (prepared (ww_durability w = Durable)), w))"

definition wal_append :: "PreparedRecord \<Rightarrow> WalWriter \<Rightarrow> (StoreError + Promise) \<times> WalWriter" where
  "wal_append p w =
     (case assertWritable w of
        Some e \<Rightarrow> (Inl e, w)
      | None \<Rightarrow>
          let settled = \<not> pr_durable p;
              ticket = ww_appends w;
              item = \<lparr>pr_record = pr_record p, pr_bytes = pr_bytes p, pr_hlc = pr_hlc p, pr_durable = pr_durable p,
                      bf_ticket = ticket, bf_settled = settled\<rparr>;
              w = w\<lparr>ww_bufferedBytes := ww_bufferedBytes w + int (pr_bytes p),
                    ww_buffer := ww_buffer w @ [item], ww_appends := ticket + 1\<rparr>
          in (Inr (if settled then Resolved else Pending ticket), wake (wal_start w)))"

definition wal_enqueue :: "WalRecord \<Rightarrow> WalWriter \<Rightarrow> (StoreError + Promise) \<times> WalWriter" where
  "wal_enqueue r w =
     (case wal_prepare r w of (Inl e, w) \<Rightarrow> (Inl e, w) | (Inr p, w) \<Rightarrow> wal_append p w)"

definition wal_flush :: "WalWriter \<Rightarrow> Promise \<times> WalWriter" where
  "wal_flush w =
     (case ww_terminal w of
        Some e \<Rightarrow> (Rejected e, w)
      | None \<Rightarrow>
          if ww_buffer w = [] then (Resolved, w)
          else if ww_stopped w then (Rejected (NotDurable (length (ww_buffer w))), w)
          else let w = wake (wal_start (w\<lparr>ww_forced := True\<rparr>)); ticket = ww_flushes w
            in (Pending ticket, w\<lparr>ww_flushes := ticket + 1, ww_flushWaiters := ww_flushWaiters w @ [ticket]\<rparr>))"

text \<open>\<open>stop\<close> up to its wait for the loop, and from the end of that wait, which a timeout may cut.\<close>

definition wal_stop :: "WalWriter \<Rightarrow> WalWriter" where
  "wal_stop w =
     (let w = w\<lparr>ww_stopped := True\<rparr>
      in if \<not> ww_running w \<and> ww_at w = NotStarted then w
         else wake (w\<lparr>ww_running := False\<rparr>))"

definition wal_stop_end :: "WalWriter \<Rightarrow> WalWriter" where
  "wal_stop_end w =
     (if ww_buffer w \<noteq> [] \<and> ww_flushWaiters w \<noteq> []
      then settle_waiters
        (Some (case ww_terminal w of Some e \<Rightarrow> e | None \<Rightarrow> NotDurable (length (ww_buffer w)))) w
      else w)"

end
