(* ===== verification/Wal_Inv.thy ===== *)
theory Wal_Inv
  imports Wal
begin

text \<open>
  The log writer alone: what its control flow leaves untouched, and its invariant. The bytes it
  counts are those of its buffer, a batch in flight is a prefix of the buffer, and a loop that
  sleeps or has ended leaves nobody waiting, unless the writer was stopped.
\<close>

section \<open>The writer alone\<close>

text \<open>What the flush loop and the waiters do not touch.\<close>

definition core :: "WalWriter \<Rightarrow> Buffered list \<times> int \<times> nat \<times> (nat \<times> StoreError option) list \<times> StoreError option
    \<times> nat \<times> int \<times> ConcurrencyMode \<times> string \<times> string \<times> BatchConfig \<times> bool" where
  "core w = (ww_buffer w, ww_bufferedBytes w, ww_appends w, ww_acks w, ww_terminal w,
     ww_seq w, ww_seqEpoch w, ww_concurrency w, ww_writerId w, ww_prefix w, ww_batch w, ww_stopped w)"

lemma coreD:
  assumes "core w' = core w"
  shows "ww_buffer w' = ww_buffer w" "ww_bufferedBytes w' = ww_bufferedBytes w" "ww_appends w' = ww_appends w"
    "ww_acks w' = ww_acks w" "ww_terminal w' = ww_terminal w" "ww_seq w' = ww_seq w"
    "ww_seqEpoch w' = ww_seqEpoch w" "ww_concurrency w' = ww_concurrency w" "ww_writerId w' = ww_writerId w"
    "ww_prefix w' = ww_prefix w" "ww_batch w' = ww_batch w" "ww_stopped w' = ww_stopped w"
  using assms by (simp_all add: core_def)

lemma core_control [simp]:
  "core (setHealth h w) = core w" "core (setBackpressured v w) = core w" "core (wake w) = core w"
  "core (settle_waiters r w) = core w" "core (settleFlushWaiters w) = core w" "core (loop_idle w) = core w"
  "core (enter_flush w) = core w" "core (loop_top w) = core w" "core (wal_start w) = core w"
  "core (note_durable hlc w) = core w" "core (wal_stop_end w) = core w" "core (snd (wal_flush w)) = core w"
  by (auto simp: core_def setHealth_def setBackpressured_def wake_def settle_waiters_def settleFlushWaiters_def
      loop_idle_def enter_flush_def loop_top_def wal_start_def note_durable_def wal_stop_end_def wal_flush_def Let_def
      split: option.splits)

lemmas core_of_control = core_control [THEN coreD(1)] core_control [THEN coreD(2)] core_control [THEN coreD(3)]
  core_control [THEN coreD(4)] core_control [THEN coreD(5)] core_control [THEN coreD(6)] core_control [THEN coreD(7)]
  core_control [THEN coreD(8)] core_control [THEN coreD(9)] core_control [THEN coreD(10)]
  core_control [THEN coreD(11)] core_control [THEN coreD(12)]

lemma control_fields [simp]:
  "ww_running (setHealth h w) = ww_running w" "ww_running (setBackpressured v w) = ww_running w"
  "ww_running (wake w) = ww_running w" "ww_running (settle_waiters r w) = ww_running w"
  "ww_running (settleFlushWaiters w) = ww_running w" "ww_running (note_durable hlc w) = ww_running w"
  "ww_running (loop_idle w) = ww_running w" "ww_running (enter_flush w) = ww_running w"
  "ww_running (loop_top w) = ww_running w"
  "ww_at (setHealth h w) = ww_at w" "ww_at (setBackpressured v w) = ww_at w"
  "ww_at (settle_waiters r w) = ww_at w" "ww_at (settleFlushWaiters w) = ww_at w" "ww_at (note_durable hlc w) = ww_at w"
  "ww_flushWaiters (setHealth h w) = ww_flushWaiters w" "ww_flushWaiters (setBackpressured v w) = ww_flushWaiters w"
  "ww_flushWaiters (wake w) = ww_flushWaiters w" "ww_flushWaiters (note_durable hlc w) = ww_flushWaiters w"
  "ww_flushWaiters (settle_waiters r w) = []"
  "ww_flushWaiters (settleFlushWaiters w) = (if ww_buffer w = [] then [] else ww_flushWaiters w)"
  by (auto simp: setHealth_def setBackpressured_def wake_def settle_waiters_def settleFlushWaiters_def
      loop_idle_def enter_flush_def loop_top_def note_durable_def Let_def)

text \<open>A batch in flight is a prefix of the buffer.\<close>

definition batch_in :: "Batch \<Rightarrow> WalWriter \<Rightarrow> bool" where
  "batch_in b w \<longleftrightarrow> 0 < bt_count b \<and> bt_count b \<le> length (ww_buffer w)
     \<and> bt_bytes b = sum_list (map pr_bytes (take (bt_count b) (ww_buffer w)))
     \<and> bt_records b = map pr_record (take (bt_count b) (ww_buffer w))"

text \<open>A loop that could sleep has nothing to write and nobody to tell.\<close>

definition wal_wf :: "WalWriter \<Rightarrow> bool" where
  "wal_wf w \<longleftrightarrow> ww_bufferedBytes w = int (sum_list (map pr_bytes (ww_buffer w)))
     \<and> (ww_buffer w = [] \<longrightarrow> ww_flushWaiters w = [])
     \<and> (ww_at w = Parked \<longrightarrow> ww_running w \<and> ww_buffer w = [])
     \<and> (ww_at w = NotStarted \<longrightarrow> \<not> ww_running w \<and> ww_buffer w = [])
     \<and> (ww_at w = Exited \<longrightarrow> \<not> ww_running w)
     \<and> (\<not> ww_running w \<longrightarrow> ww_at w = NotStarted \<or> ww_stopped w \<or> ww_terminal w \<noteq> None)
     \<and> (ww_at w = Fencing \<longrightarrow> ww_buffer w \<noteq> [])
     \<and> (\<forall>b. ww_at w = Putting b \<or> ww_at w = Committing b \<longrightarrow> batch_in b w)
     \<and> (ww_terminal w \<noteq> None \<longrightarrow> ww_buffer w = [] \<and> ww_at w = Exited)"

lemma batch_more_prefix: "\<exists>rest. bs = batch_more m n bs @ rest"
  by (induction bs arbitrary: n) auto

lemma batch_of_take: "batch_of m bs = take (length (batch_of m bs)) bs"
proof (cases bs)
  case (Cons b cs)
  obtain rest where "cs = batch_more m (pr_bytes b) cs @ rest" using batch_more_prefix by blast
  then have "take (length (batch_more m (pr_bytes b) cs)) cs = batch_more m (pr_bytes b) cs" by (metis append_eq_conv_conj)
  with Cons show ?thesis by simp
qed simp

lemma batch_of_nonempty: "bs \<noteq> [] \<Longrightarrow> batch_of m bs \<noteq> []"
  by (cases bs) simp_all

lemma batch_of_length: "length (batch_of m bs) \<le> length bs"
  by (metis batch_of_take length_take min.cobounded1)

lemma loop_top_at: "ww_at (loop_top w) \<in> {Parked, Exited, Lingering, Fencing}"
  by (simp add: loop_top_def loop_idle_def enter_flush_def)

lemma loop_top_wf:
  assumes "ww_bufferedBytes w = int (sum_list (map pr_bytes (ww_buffer w)))" "ww_buffer w = [] \<longrightarrow> ww_flushWaiters w = []"
    and "ww_running w \<or> ww_stopped w \<or> ww_terminal w \<noteq> None" "ww_terminal w \<noteq> None \<longrightarrow> ww_buffer w = [] \<and> \<not> ww_running w"
  shows "wal_wf (loop_top w)"
  using assms by (auto simp: wal_wf_def loop_top_def loop_idle_def enter_flush_def settleFlushWaiters_def settle_waiters_def)

lemma wake_wf: "wal_wf w \<Longrightarrow> wal_wf (wake w)"
  by (auto simp: wal_wf_def wake_def batch_in_def)

lemma setHealth_wf: "wal_wf w \<Longrightarrow> wal_wf (setHealth h w)"
  by (auto simp: wal_wf_def setHealth_def batch_in_def)

lemma setBackpressured_wf: "wal_wf w \<Longrightarrow> wal_wf (setBackpressured v w)"
  by (auto simp: wal_wf_def setBackpressured_def setHealth_def batch_in_def Let_def)

lemma stop_wf: "wal_wf w \<Longrightarrow> wal_wf (wal_stop w)"
  by (auto simp: wal_wf_def wal_stop_def wake_def batch_in_def Let_def)

lemma stop_end_wf: "wal_wf w \<Longrightarrow> wal_wf (wal_stop_end w)"
  by (auto simp: wal_wf_def wal_stop_end_def settle_waiters_def batch_in_def)

lemma prepare_wf: "wal_wf w \<Longrightarrow> wal_wf (snd (wal_prepare r w))"
  by (auto simp: wal_prepare_def setBackpressured_wf Let_def split: option.splits)

lemma wal_start_wf:
  assumes "ww_bufferedBytes w = int (sum_list (map pr_bytes (ww_buffer w)))" "ww_at w = NotStarted" "\<not> ww_running w"
    and "\<not> ww_stopped w" "ww_terminal w = None" "ww_flushWaiters w = []"
  shows "wal_wf (wal_start w)"
  using assms unfolding wal_start_def by (simp add: loop_top_wf)

lemma append_wf:
  assumes "wal_wf w" "wal_append p w = (r, w')" shows "wal_wf w'"
proof (cases "assertWritable w")
  case (Some e)
  with assms show ?thesis by (simp add: wal_append_def)
next
  case None
  then have open_: "ww_terminal w = None" "\<not> ww_stopped w" by (auto simp: assertWritable_def split: option.splits if_splits)
  let ?item = "\<lparr>pr_record = pr_record p, pr_bytes = pr_bytes p, pr_hlc = pr_hlc p, pr_durable = pr_durable p,
    bf_ticket = ww_appends w, bf_settled = \<not> pr_durable p\<rparr>"
  let ?w = "w\<lparr>ww_bufferedBytes := ww_bufferedBytes w + int (pr_bytes p),
    ww_buffer := ww_buffer w @ [?item], ww_appends := ww_appends w + 1\<rparr>"
  have w': "w' = wake (wal_start ?w)" using assms(2) None by (auto simp: wal_append_def Let_def)
  show ?thesis
  proof (cases "ww_running w")
    case True
    then have "wal_start ?w = ?w" by (simp add: wal_start_def)
    moreover have "wal_wf (wake ?w)" using assms(1) open_ True by (auto simp: wal_wf_def wake_def batch_in_def)
    ultimately show ?thesis using w' by simp
  next
    case False
    then have "ww_at w = NotStarted" "ww_flushWaiters w = []" using assms(1) open_ by (auto simp: wal_wf_def)
    then have "wal_wf (wal_start ?w)" using assms(1) open_ False by (intro wal_start_wf) (auto simp: wal_wf_def)
    with w' wake_wf show ?thesis by simp
  qed
qed

lemma enqueue_wf: "wal_wf w \<Longrightarrow> wal_enqueue rec w = (r, w') \<Longrightarrow> wal_wf w'"
  using prepare_wf [of w rec] append_wf by (auto simp: wal_enqueue_def split: prod.splits sum.splits)

lemma flush_wf:
  assumes "wal_wf w" shows "wal_wf (snd (wal_flush w))"
proof (cases "ww_terminal w \<noteq> None \<or> ww_buffer w = [] \<or> ww_stopped w")
  case True
  with assms show ?thesis by (auto simp: wal_flush_def split: option.splits)
next
  case False
  then have "ww_running w" using assms by (auto simp: wal_wf_def)
  with False assms show ?thesis by (auto simp: wal_flush_def wal_start_def wake_def wal_wf_def batch_in_def Let_def)
qed

lemma fail_wf: "wal_wf (loop_top (fail e w))"
  by (rule loop_top_wf)
    (auto simp: fail_def settle_records_def wake_def settle_waiters_def setHealth_def Let_def)

lemma onFlushError_wf:
  assumes "wal_wf w" "ww_at w \<noteq> Exited" "ww_at w \<noteq> NotStarted" shows "wal_wf (onFlushError e w)"
  using assms fail_wf by (auto simp: onFlushError_def wal_wf_def setHealth_def Let_def)

lemma take_batch_wf:
  assumes "wal_wf w" "ww_at w = Fencing" shows "wal_wf (take_batch ep w)"
proof -
  let ?items = "batch_of (ba_maxBytes (ww_batch w)) (ww_buffer w)"
  have "batch_in \<lparr>bt_count = length ?items, bt_bytes = sum_list (map pr_bytes ?items),
      bt_records = map pr_record ?items, bt_ref = ref\<rparr> (w\<lparr>ww_seqEpoch := x, ww_seq := y, ww_at := z\<rparr>)" for ref x y z
    using batch_of_nonempty [of "ww_buffer w"] assms(1,2) unfolding wal_wf_def
    using batch_of_length batch_of_take
    by (simp add: batch_in_def flip: batch_of_take)
  with assms(1,2) show ?thesis by (auto simp: wal_wf_def take_batch_def batch_in_def Let_def)
qed

lemma batch_landed_core:
  "core (batch_landed b w) = (drop (bt_count b) (ww_buffer w), ww_bufferedBytes w - int (bt_bytes b), ww_appends w,
     ww_acks w @ map (\<lambda>x. (bf_ticket x, None)) (filter (\<lambda>x. \<not> bf_settled x) (take (bt_count b) (ww_buffer w))),
     ww_terminal w, ww_seq w, ww_seqEpoch w, ww_concurrency w, ww_writerId w, ww_prefix w, ww_batch w, ww_stopped w)"
  by (simp add: batch_landed_def settle_records_def core_def core_of_control Let_def)

lemma batch_landed_fields:
  "ww_running (batch_landed b w) = ww_running w"
  "ww_buffer (batch_landed b w) = [] \<Longrightarrow> ww_flushWaiters (batch_landed b w) = []"
  by (auto simp: batch_landed_def settle_records_def core_of_control Let_def split: if_splits)

lemma flush_landed_wf:
  assumes "wal_wf w" "ww_at w = Committing b" shows "wal_wf (flush_landed b w)"
proof -
  have b: "batch_in b w" using assms by (auto simp: wal_wf_def)
  have "sum_list (map pr_bytes (ww_buffer w))
      = sum_list (map pr_bytes (take (bt_count b) (ww_buffer w))) + sum_list (map pr_bytes (drop (bt_count b) (ww_buffer w)))"
    by (metis append_take_drop_id map_append sum_list_append)
  with b assms(1) have bytes: "ww_bufferedBytes w - int (bt_bytes b) = int (sum_list (map pr_bytes (drop (bt_count b) (ww_buffer w))))"
    by (simp add: wal_wf_def batch_in_def)
  have fields: "ww_buffer (batch_landed b w) = drop (bt_count b) (ww_buffer w)"
      "ww_bufferedBytes (batch_landed b w) = ww_bufferedBytes w - int (bt_bytes b)"
      "ww_terminal (batch_landed b w) = ww_terminal w" "ww_stopped (batch_landed b w) = ww_stopped w"
    using batch_landed_core [of b w] by (simp_all add: core_def)
  have "ww_terminal w = None" using assms by (cases "ww_terminal w") (auto simp: wal_wf_def)
  moreover have "ww_running w \<or> ww_stopped w" using calculation assms by (auto simp: wal_wf_def)
  ultimately have "wal_wf ((batch_landed b w)\<lparr>ww_at := Maintaining\<rparr>)"
    using fields bytes batch_landed_fields [of b w] by (auto simp: wal_wf_def)
  moreover from this have "wal_wf (loop_top (batch_landed b w))"
    using \<open>ww_terminal w = None\<close> fields by (intro loop_top_wf) (auto simp: wal_wf_def)
  ultimately show ?thesis by (simp add: flush_landed_def Let_def)
qed

lemma resume_wf:
  assumes "wal_wf w" "resume d now (s, ms, w) = (s', ms', w')" shows "wal_wf w'"
proof -
  have top: "wal_wf (loop_top w)" if "ww_at w \<notin> {NotStarted, Parked, Exited}"
    using that assms(1) by (intro loop_top_wf) (auto simp: wal_wf_def)
  have lingered: "wal_wf (enter_flush w)" if "ww_at w = Lingering"
    using that assms(1) by (auto simp: enter_flush_def loop_idle_def wal_wf_def settleFlushWaiters_def settle_waiters_def)
  show ?thesis
  proof (cases "ww_at w")
    case Fencing
    with assms onFlushError_wf [of w] take_batch_wf [of w] show ?thesis
      by (auto simp: resume_def split: prod.splits sum.splits)
  next
    case (Putting b)
    then have "wal_wf (w\<lparr>ww_at := Committing b\<rparr>)" using assms(1) by (auto simp: wal_wf_def batch_in_def)
    with Putting assms onFlushError_wf [of w] show ?thesis
      by (auto simp: resume_def split: prod.splits sum.splits)
  next
    case (Committing b)
    with assms onFlushError_wf [of w] flush_landed_wf [of w b] show ?thesis
      by (auto simp: resume_def split: prod.splits sum.splits)
  qed (use assms top lingered in \<open>auto simp: resume_def\<close>)
qed

end
