(* ===== verification/Wal_Facts.thy ===== *)
theory Wal_Facts
  imports Wal_Inv
begin

text \<open>
  What the write-ahead log promises: whatever fails, and whatever other instances do meanwhile,
  the segments of an instance that the manifest lists hold the records submitted to it, each once
  and in order, and no write is acknowledged before it is among them. This is an invariant of runs
  in optimistic mode over a store on which a rejected write was not applied.
\<close>

section \<open>The log of an instance\<close>

text \<open>The segments an instance may write in optimistic mode, and what the manifest lists of them.\<close>

definition own_segment :: "string \<Rightarrow> string \<Rightarrow> string \<Rightarrow> bool" where
  "own_segment pfx me k \<longleftrightarrow> (\<exists>n. k = segment_key pfx me n)"

definition segment_records :: "Event list \<Rightarrow> WalSegmentRef \<Rightarrow> WalRecord list" where
  "segment_records tr ref =
     (case current tr (ws_key ref) of
        None \<Rightarrow> []
      | Some r \<Rightarrow> (case decodeSegment (or_body r) (ws_key ref) of Inl e \<Rightarrow> [] | Inr rs \<Rightarrow> rs))"

definition listed :: "string \<Rightarrow> (string \<Rightarrow> bool) \<Rightarrow> Event list \<Rightarrow> WalSegmentRef list" where
  "listed mk mine tr = own_refs mine (manifest_of (current tr mk))"

definition stored_records :: "string \<Rightarrow> (string \<Rightarrow> bool) \<Rightarrow> Event list \<Rightarrow> WalRecord list" where
  "stored_records mk mine tr = concat (map (segment_records tr) (listed mk mine tr))"

lemma calm_current: "rivals (calm mk me mine) rv tr \<Longrightarrow> mine k \<Longrightarrow> current (rv @ tr) k = current tr k"
proof (induction rv)
  case (Cons ev rv)
  then show ?case by (cases ev) (auto simp: calm_def rival_event_def list_all_iff)
qed simp

lemma listed_mine: "ref \<in> set (listed mk mine tr) \<Longrightarrow> mine (ws_key ref)"
  by (simp add: listed_def own_refs_def)

lemma stored_cong:
  "listed mk mine tr' = listed mk mine tr \<Longrightarrow> (\<And>ref. ref \<in> set (listed mk mine tr) \<Longrightarrow> current tr' (ws_key ref) = current tr (ws_key ref))
     \<Longrightarrow> stored_records mk mine tr' = stored_records mk mine tr"
  unfolding stored_records_def by (rule arg_cong [where f = concat]) (simp add: segment_records_def)

lemma calm_listed: "rivals (calm mk me mine) rv tr \<Longrightarrow> listed mk mine (rv @ tr) = listed mk mine tr"
  by (simp add: listed_def calm_refs)

lemma calm_stored: "rivals (calm mk me mine) rv tr \<Longrightarrow> stored_records mk mine (rv @ tr) = stored_records mk mine tr"
  by (rule stored_cong) (auto simp: calm_listed calm_current listed_mine)

lemma listed_other: "k \<noteq> mk \<Longrightarrow> listed mk mine (Wrote k b e # tr) = listed mk mine tr"
  by (simp add: listed_def)

lemma segment_key_inj [simp]: "segment_key pfx t m = segment_key pfx t n \<longleftrightarrow> m = n"
  by (auto simp: segment_key_def) (metis digits_val_nat_str)

lemma segment_not_manifest [simp]: "segment_key pfx t n \<noteq> pfx @ MANIFEST_KEY"
  by (simp add: segment_key_def MANIFEST_KEY_def)

lemma push_segment_tame: "tame_change (push_segment ref)"
  by (simp add: tame_change_def push_segment_def Let_def)

lemma push_segment_refs: "mine (ws_key ref) \<Longrightarrow> own_refs mine (push_segment ref m) = own_refs mine m @ [ref]"
  by (simp add: own_refs_def push_segment_def Let_def)

text \<open>A change of the manifest that keeps own segments.\<close>

definition keeps_refs :: "(string \<Rightarrow> bool) \<Rightarrow> (ManifestRecord \<Rightarrow> ManifestRecord) \<Rightarrow> bool" where
  "keeps_refs mine f \<longleftrightarrow> tame_change f \<and> (\<forall>m. own_refs mine (f m) = own_refs mine m)"

section \<open>What is kept of the log\<close>

text \<open>\<open>h\<close> is every record appended so far, \<open>st\<close> the stored ones.\<close>

definition kept :: "WalRecord list \<Rightarrow> WalWriter \<Rightarrow> WalRecord list \<Rightarrow> bool" where
  "kept st w h \<longleftrightarrow> length h = ww_appends w \<and> (\<exists>rest. h = st @ rest)
     \<and> (\<forall>i. (i, None) \<in> set (ww_acks w) \<longrightarrow> i < length st)
     \<and> (ww_terminal w = None \<longrightarrow> h = st @ map pr_record (ww_buffer w)
          \<and> map bf_ticket (ww_buffer w) = [length st ..< length h])"

lemma core_updates: "core (w\<lparr>ww_at := p\<rparr>) = core w" "core (w\<lparr>ww_failures := n\<rparr>) = core w"
  by (simp_all add: core_def)

lemma kept_core:
  assumes "core w' = core w" shows "kept st w' h = kept st w h"
  by (simp only: kept_def coreD [OF assms])

definition in_flight :: "WalWriter \<Rightarrow> Batch option" where
  "in_flight w = (case ww_at w of Putting b \<Rightarrow> Some b | Committing b \<Rightarrow> Some b | _ \<Rightarrow> None)"

definition flight_ok :: "string \<Rightarrow> string \<Rightarrow> (string \<Rightarrow> bool) \<Rightarrow> Event list \<Rightarrow> WalWriter \<Rightarrow> bool" where
  "flight_ok mk me mine tr w \<longleftrightarrow>
     (\<forall>b. in_flight w = Some b \<longrightarrow> (\<exists>n < ww_seq w. ws_key (bt_ref b) = segment_key (ww_prefix w) me n)
          \<and> ws_key (bt_ref b) \<notin> ws_key ` set (listed mk mine tr))
     \<and> (\<forall>b. ww_at w = Committing b \<longrightarrow>
          (\<exists>e. current tr (ws_key (bt_ref b)) = Some \<lparr>or_body = SegmentBody (bt_records b), or_etag = e\<rparr>))"

lemma grounded: "in_flight w = None \<Longrightarrow> flight_ok mk me mine tr w"
  by (auto simp: flight_ok_def in_flight_def)

lemma grounded_control [simp]:
  "in_flight (loop_top w) = None" "in_flight (loop_idle w) = None" "in_flight (enter_flush w) = None"
  "in_flight (onFlushError e w) = None" "in_flight (flush_landed b w) = None"
  using loop_top_at [of w] loop_top_at [of "fail e w"] loop_top_at [of "batch_landed b w"]
  by (auto simp: in_flight_def loop_idle_def enter_flush_def onFlushError_def flush_landed_def Let_def)

lemma core_of_stop: "ww_at (wal_stop w) = ww_at w \<or> in_flight (wal_stop w) = None"
  by (auto simp: wal_stop_def wake_def in_flight_def Let_def)

lemma fail_core:
  "core (fail e w) = ([], 0, ww_appends w,
     ww_acks w @ map (\<lambda>x. (bf_ticket x, Some e)) (filter (\<lambda>x. \<not> bf_settled x) (ww_buffer w)),
     Some e, ww_seq w, ww_seqEpoch w, ww_concurrency w, ww_writerId w, ww_prefix w, ww_batch w, ww_stopped w)"
  unfolding fail_def Let_def core_control by (simp add: settle_records_def core_def core_of_control)

lemma kept_error:
  assumes "kept st w h" shows "kept st (onFlushError e w) h"
proof (cases "is_not_writer e")
  case True
  have "ww_appends (fail e w) = ww_appends w" "ww_terminal (fail e w) = Some e"
    "\<And>i. (i, None) \<in> set (ww_acks (fail e w)) \<longleftrightarrow> (i, None) \<in> set (ww_acks w)"
    using fail_core [of e w] by (auto simp: core_def)
  with assms have "kept st (fail e w) h" by (simp add: kept_def)
  then have "kept st (loop_top (fail e w)) h" using kept_core [OF core_control(8)] by blast
  with True show ?thesis by (simp add: onFlushError_def)
next
  case False
  have "core (onFlushError e w) = core w"
    using False unfolding onFlushError_def Let_def by (simp only: core_updates core_control if_False)
  with assms kept_core show ?thesis by blast
qed

lemma take_batch_core:
  "kept st (take_batch ep w) h = kept st w h"
  by (simp add: kept_def take_batch_def Let_def)

lemma kept_landed:
  assumes "kept st w h" "batch_in b w" "ww_terminal w = None"
  shows "kept (st @ bt_records b) (batch_landed b w) h"
proof -
  let ?n = "bt_count b"
  have fields: "ww_buffer (batch_landed b w) = drop ?n (ww_buffer w)" "ww_appends (batch_landed b w) = ww_appends w"
      "ww_terminal (batch_landed b w) = None"
      "ww_acks (batch_landed b w) = ww_acks w @ map (\<lambda>x. (bf_ticket x, None)) (filter (\<lambda>x. \<not> bf_settled x) (take ?n (ww_buffer w)))"
    using batch_landed_core [of b w] assms(3) by (simp_all add: core_def)
  have h: "h = st @ map pr_record (ww_buffer w)" "map bf_ticket (ww_buffer w) = [length st ..< length h]" "length h = ww_appends w"
    using assms(1,3) by (auto simp: kept_def)
  have recs: "bt_records b = take ?n (map pr_record (ww_buffer w))" and le: "?n \<le> length (ww_buffer w)"
    using assms(2) by (simp_all add: batch_in_def take_map)
  have len: "length (bt_records b) = ?n" using recs le by simp
  have "h = (st @ bt_records b) @ map pr_record (drop ?n (ww_buffer w))"
    using h(1) recs by (simp flip: drop_map)
  moreover have "map bf_ticket (drop ?n (ww_buffer w)) = [length st + ?n ..< length h]"
    using h(2) by (simp flip: drop_map add: drop_upt)
  moreover have "i < length st + ?n" if "(i, None) \<in> set (ww_acks (batch_landed b w))" for i
  proof -
    from that consider "(i, None) \<in> set (ww_acks w)" | x where "x \<in> set (take ?n (ww_buffer w))" "i = bf_ticket x"
      by (auto simp: fields(4))
    then show ?thesis
    proof cases
      case 1
      with assms(1) show ?thesis by (auto simp: kept_def trans_less_add1)
    next
      case 2
      then have "i \<in> set (take ?n (map bf_ticket (ww_buffer w)))" by (auto simp: take_map)
      with h(2) show ?thesis by (auto simp: in_set_conv_nth)
    qed
  qed
  ultimately show ?thesis using fields h(3) len by (auto simp: kept_def)
qed

lemma onFlushError_keeps:
  "ww_seq (onFlushError e w) = ww_seq w" "ww_seqEpoch (onFlushError e w) = ww_seqEpoch w"
  "ww_concurrency (onFlushError e w) = ww_concurrency w" "ww_writerId (onFlushError e w) = ww_writerId w"
  "ww_prefix (onFlushError e w) = ww_prefix w"
  using fail_core [of e w] unfolding onFlushError_def Let_def by (simp_all add: core_of_control) (simp_all add: core_def)

text \<open>What the callers do.\<close>

lemma woken_at: "ww_at (wake (wal_start w)) = ww_at w \<or> in_flight (wake (wal_start w)) = None"
  using grounded_control(1) [of "w\<lparr>ww_running := True\<rparr>"] by (auto simp: wal_start_def wake_def in_flight_def)

lemma flush_at: "ww_at (snd (wal_flush w)) = ww_at w \<or> in_flight (snd (wal_flush w)) = None"
  using woken_at [of "w\<lparr>ww_forced := True\<rparr>"]
  by (auto simp: wal_flush_def in_flight_def Let_def split: option.splits)

lemma prepare_core: "core (snd (wal_prepare r w)) = core w" "ww_at (snd (wal_prepare r w)) = ww_at w"
  by (auto simp: wal_prepare_def Let_def split: option.splits)

lemma append_core:
  assumes "wal_append p w = (q, w')"
  shows "(ww_at w' = ww_at w \<or> in_flight w' = None) \<and> (case q of Inl e \<Rightarrow> core w' = core w
    | Inr x \<Rightarrow> \<exists>item. pr_record item = pr_record p \<and> bf_ticket item = ww_appends w \<and> ww_terminal w = None
        \<and> core w' = (ww_buffer w @ [item], ww_bufferedBytes w + int (pr_bytes item), Suc (ww_appends w), ww_acks w, None,
            ww_seq w, ww_seqEpoch w, ww_concurrency w, ww_writerId w, ww_prefix w, ww_batch w, ww_stopped w))"
proof (cases "assertWritable w")
  case (Some e)
  with assms show ?thesis by (auto simp: wal_append_def)
next
  case None
  let ?item = "\<lparr>pr_record = pr_record p, pr_bytes = pr_bytes p, pr_hlc = pr_hlc p, pr_durable = pr_durable p,
    bf_ticket = ww_appends w, bf_settled = \<not> pr_durable p\<rparr>"
  let ?w = "w\<lparr>ww_bufferedBytes := ww_bufferedBytes w + int (pr_bytes p),
    ww_buffer := ww_buffer w @ [?item], ww_appends := ww_appends w + 1\<rparr>"
  have t: "ww_terminal w = None" using None by (auto simp: assertWritable_def split: option.splits)
  have q: "\<exists>x. q = Inr x" "w' = wake (wal_start ?w)" using assms None by (auto simp: wal_append_def Let_def)
  then have "core w' = core ?w" by simp
  with t have "core w' = (ww_buffer w @ [?item], ww_bufferedBytes w + int (pr_bytes ?item), Suc (ww_appends w), ww_acks w, None,
            ww_seq w, ww_seqEpoch w, ww_concurrency w, ww_writerId w, ww_prefix w, ww_batch w, ww_stopped w)"
    by (simp add: core_def)
  with q t woken_at [of ?w] show ?thesis by (auto intro!: exI [where x = ?item])
qed

lemma enqueue_core:
  assumes "wal_enqueue r w = (q, w')"
  shows "(ww_at w' = ww_at w \<or> in_flight w' = None) \<and> (case q of Inl e \<Rightarrow> core w' = core w
    | Inr p \<Rightarrow> \<exists>item. pr_record item = r \<and> bf_ticket item = ww_appends w \<and> ww_terminal w = None
        \<and> core w' = (ww_buffer w @ [item], ww_bufferedBytes w + int (pr_bytes item), Suc (ww_appends w), ww_acks w, None,
            ww_seq w, ww_seqEpoch w, ww_concurrency w, ww_writerId w, ww_prefix w, ww_batch w, ww_stopped w))"
proof -
  obtain p w1 where p: "wal_prepare r w = (p, w1)" by fastforce
  note same = prepare_core [of r w, unfolded p snd_conv]
  show ?thesis
  proof (cases p)
    case (Inl e)
    with assms p same show ?thesis by (auto simp: wal_enqueue_def)
  next
    case (Inr x)
    have "pr_record x = r" using p Inr by (auto simp: wal_prepare_def Let_def split: option.splits if_splits)
    moreover have "wal_append x w1 = (q, w')" using assms p Inr by (simp add: wal_enqueue_def)
    ultimately show ?thesis
      using append_core [of x w1 q w', unfolded same(2) coreD [OF same(1)] same(1)] by (cases q) simp_all
  qed
qed

section \<open>Runs\<close>

text \<open>What can happen to a writer, its manifest store and the object store: a record is submitted, a
  flush or a stop is asked for, the wait of a stop ends, the loop is resumed at a reading of the
  clock, this instance commits something else to the manifest, or reads it again.\<close>

datatype WalEvent =
    Submit WalRecord
  | AskFlush
  | AskStop
  | StopOver
  | LoopRuns int
  | LocalCommit int "ManifestRecord \<Rightarrow> ManifestRecord"
  | LocalRefresh

type_synonym 's wal_system = "'s \<times> ManifestStore \<times> WalWriter \<times> WalRecord list"

fun wal_event :: "'s ObjectDriver \<Rightarrow> WalEvent \<Rightarrow> 's wal_system \<Rightarrow> 's wal_system" where
  "wal_event d (Submit r) (s, ms, w, h) =
     (case wal_enqueue r w of (Inl e, w') \<Rightarrow> (s, ms, w', h) | (Inr p, w') \<Rightarrow> (s, ms, w', h @ [r]))"
| "wal_event d AskFlush (s, ms, w, h) = (s, ms, snd (wal_flush w), h)"
| "wal_event d AskStop (s, ms, w, h) = (s, ms, wal_stop w, h)"
| "wal_event d StopOver (s, ms, w, h) = (s, ms, wal_stop_end w, h)"
| "wal_event d (LoopRuns now) (s, ms, w, h) =
     (case resume d now (s, ms, w) of (s', ms', w') \<Rightarrow> (s', ms', w', h))"
| "wal_event d (LocalCommit now f) (s, ms, w, h) =
     (case commit d now f s ms of (r, s', ms') \<Rightarrow> (s', ms', w, h))"
| "wal_event d LocalRefresh (s, ms, w, h) =
     (case manifest_refresh d s ms of (r, s', ms') \<Rightarrow> (s', ms', w, h))"

definition allowed_event :: "(string \<Rightarrow> bool) \<Rightarrow> WalEvent \<Rightarrow> bool" where
  "allowed_event mine ev = (case ev of LocalCommit now f \<Rightarrow> keeps_refs mine f | _ \<Rightarrow> True)"

inductive wal_run :: "'s ObjectDriver \<Rightarrow> (string \<Rightarrow> bool) \<Rightarrow> 's wal_system \<Rightarrow> 's wal_system \<Rightarrow> bool"
  for d mine x where
  start: "wal_run d mine x x"
| step: "wal_run d mine x y \<Longrightarrow> allowed_event mine ev \<Longrightarrow> wal_run d mine x (wal_event d ev y)"

text \<open>No version of the manifest has an epoch past \<open>n\<close>: optimistic instances never raise it.\<close>

definition epochs_until :: "string \<Rightarrow> Event list \<Rightarrow> int \<Rightarrow> bool" where
  "epochs_until mk tr n \<longleftrightarrow> list_all (\<lambda>ev. case ev of
     Wrote k (ManifestBody m) e \<Rightarrow> k = mk \<longrightarrow> mf_epoch m \<le> n | _ \<Rightarrow> True) tr"

lemma epochs_wrote: "epochs_until mk tr n \<Longrightarrow> Wrote mk (ManifestBody m) e \<in> set tr \<Longrightarrow> mf_epoch m \<le> n"
  by (auto simp: epochs_until_def list_all_iff dest: bspec)

lemma epochs_append: "epochs_until mk (evs @ tr) n \<Longrightarrow> epochs_until mk tr n"
  by (simp add: epochs_until_def)

lemma attempts_keep:
  "commit_attempts n d f s ms = (r, t, ms') \<Longrightarrow>
     ms_concurrency ms' = ms_concurrency ms \<and> ms_manifestKey ms' = ms_manifestKey ms"
proof (induction n arbitrary: s ms)
  case (Suc n)
  have loaded: "ms_concurrency y = ms_concurrency x \<and> ms_manifestKey y = ms_manifestKey x"
    if "manifest_load d u x = (q, v, y)" for u x q v y
    using that by (auto simp: manifest_load_def split: prod.splits sum.splits option.splits)
  then have ensured: "ms_concurrency y = ms_concurrency x \<and> ms_manifestKey y = ms_manifestKey x"
    if "ensure_manifest_loaded d u x = (q, v, y)" for u x q v y
    using that by (auto simp: ensure_manifest_loaded_def split: if_splits prod.splits sum.splits)
  have tried: "ms_concurrency y = ms_concurrency x \<and> ms_manifestKey y = ms_manifestKey x"
    if "cas_attempt d f u x = (q, v, y)" for u x q v y
    using that by (auto simp: cas_attempt_def adoptOwnCommit_def Let_def split: prod.splits sum.splits option.splits if_splits)
  from Suc.prems show ?case
    by (auto split: prod.splits sum.splits option.splits if_splits dest!: loaded ensured tried dest: Suc.IH)
qed simp

locale wal_store = manifest_users d trace ok mk me mine False
  for d :: "'s ObjectDriver" and trace and ok and mk and me and mine +
  fixes pfx :: string
  assumes mine_iff: "mine k \<longleftrightarrow> own_segment pfx me k"
    and manifest_key: "mk = pfx @ MANIFEST_KEY"
begin

lemma not_mine_manifest: "\<not> mine mk"
  using segment_not_manifest [of pfx me] by (metis mine_iff own_segment_def manifest_key)

lemma own_key [simp]: "mine (segment_key pfx me n)"
  by (auto simp: mine_iff own_segment_def)

lemma own_key_other [simp]: "segment_key pfx me n \<noteq> mk"
  by (simp add: manifest_key)

text \<open>A commit lists what its change adds, and leaves own segments as they are.\<close>

lemma once_log:
  assumes "once f tr tr' next" "\<And>m. own_refs mine (f m) = own_refs mine m @ new"
  shows "listed mk mine tr' = listed mk mine tr @ new" and "mine k \<Longrightarrow> current tr' k = current tr k"
proof -
  from assms(1) obtain newer e older where t: "tr' = newer @ Wrote mk (ManifestBody next) e # older @ tr"
      "rivals (calm mk me mine) older tr" "rivals (calm mk me mine) newer (Wrote mk (ManifestBody next) e # older @ tr)"
      "succeeds_by f me (manifest_of (current (older @ tr) mk)) next" unfolding once_def by blast
  have "listed mk mine tr' = own_refs mine next"
    using calm_listed [OF t(3)] t(1) by (simp add: listed_def own_refs_def normalize_manifest_def)
  moreover have "own_refs mine next = own_refs mine (manifest_of (current (older @ tr) mk)) @ new"
    using t(4) assms(2) by (auto simp: succeeds_by_def own_refs_def)
  ultimately show "listed mk mine tr' = listed mk mine tr @ new" using calm_listed [OF t(2)] by (simp add: listed_def)
  show "current tr' k = current tr k" if "mine k"
    using calm_current [OF t(3) that] calm_current [OF t(2) that] that not_mine_manifest t(1) by auto
qed

lemma grew_log:
  assumes "grew s t"
  shows "listed mk mine (trace t) = listed mk mine (trace s)"
    and "stored_records mk mine (trace t) = stored_records mk mine (trace s)"
    and "mine k \<Longrightarrow> current (trace t) k = current (trace s) k"
  using assms by (auto simp: grew_def calm_listed calm_stored calm_current)

lemma segments_kept:
  assumes "\<And>k. mine k \<Longrightarrow> current tr' k = current tr k" "mine (ws_key ref)"
  shows "segment_records tr' ref = segment_records tr ref"
  using assms by (simp add: segment_records_def)

text \<open>Putting a segment that is not listed yet changes nothing that is listed.\<close>

lemma put_segment:
  assumes "ok s" "od_put d k b unconditional s = (r, t)" "mine k" "k \<notin> ws_key ` set (listed mk mine (trace s))"
    and "lineage mk (trace s)" "store_inv mk me mine (trace s) ms"
  shows "ok t \<and> lineage mk (trace t) \<and> store_inv mk me mine (trace t) ms \<and> (\<exists>evs. trace t = evs @ trace s)
    \<and> listed mk mine (trace t) = listed mk mine (trace s)
    \<and> stored_records mk mine (trace t) = stored_records mk mine (trace s)
    \<and> (\<forall>e. r = Inr e \<longrightarrow> current (trace t) k = Some \<lparr>or_body = b, or_etag = e\<rparr>)"
proof (cases r)
  case (Inl e)
  with put_rejected [OF assms(1), of k b unconditional e t] assms(2) obtain rv where
    "ok t" "rivals (rival_event mk me mine) rv (trace s)" "trace t = rv @ trace s" by auto
  then have g: "grew s t" and evs: "\<exists>evs. trace t = evs @ trace s" using rivals_calm by (auto simp: grew_def)
  show ?thesis
    using grew_log [OF g] grew_ok [OF g] grew_lineage [OF g assms(5)] grew_inv [OF g assms(6)] evs Inl by simp
next
  case (Inr e)
  then obtain rv where t: "ok t" "rivals (rival_event mk me mine) rv (trace s)" "trace t = Wrote k b e # rv @ trace s"
    using put_applied [OF assms(1)] assms(2) by blast
  note rv = rivals_calm [OF t(2)]
  have k: "k \<noteq> mk" using assms(3) not_mine_manifest by auto
  have "store_inv mk me mine (trace t) ms"
    using calm_inv [OF rv assms(6)] k by (auto simp: t(3) store_inv_def cache_ok_def own_versions_until_def)
  moreover have "lineage mk (trace t)" using calm_lineage [OF rv assms(5)] k by (simp add: t(3))
  moreover have l: "listed mk mine (trace t) = listed mk mine (trace s)"
    using listed_other [OF k] calm_listed [OF rv] by (simp add: t(3))
  moreover have "stored_records mk mine (trace t) = stored_records mk mine (trace s)"
  proof (rule stored_cong [OF l])
    fix ref assume "ref \<in> set (listed mk mine (trace s))"
    with assms(4) listed_mine [OF this] calm_current [OF rv] show "current (trace t) (ws_key ref) = current (trace s) (ws_key ref)"
      by (auto simp: t(3))
  qed
  ultimately show ?thesis using t(1,3) Inr by simp
qed

section \<open>Epochs\<close>

definition extends :: "'s \<Rightarrow> 's \<Rightarrow> bool" where
  "extends s t \<longleftrightarrow> ok t \<and> (\<exists>evs. trace t = evs @ trace s)"

lemma extends_trans: "extends s t \<Longrightarrow> extends t u \<Longrightarrow> extends s u"
  unfolding extends_def by (metis append.assoc)

lemma extends_refl: "ok s \<Longrightarrow> extends s s"
  by (simp add: extends_def)

lemma extends_epochs: "extends s t \<Longrightarrow> epochs_until mk (trace t) n \<Longrightarrow> epochs_until mk (trace s) n"
  using epochs_append by (auto simp: extends_def)

lemma get_extends: "ok s \<Longrightarrow> od_get d k s = (r, t) \<Longrightarrow> extends s t"
  using got [of s k r t] by (auto simp: extends_def)

lemma put_extends: "ok s \<Longrightarrow> od_put d k b opts s = (r, t) \<Longrightarrow> extends s t"
  using put_applied [of s k b opts _ t] put_rejected [of s k b opts _ t] by (cases r) (auto simp: extends_def)

definition same_epoch :: "ManifestStore \<Rightarrow> ManifestStore \<Rightarrow> bool" where
  "same_epoch ms ms' \<longleftrightarrow> ms_leaseEpoch ms' = ms_leaseEpoch ms \<and> ms_concurrency ms' = ms_concurrency ms
     \<and> ms_manifestKey ms' = ms_manifestKey ms"

lemma load_epoch:
  assumes "ok s" "ms_manifestKey ms = mk" "manifest_load d s ms = (r, t, ms')"
  shows "extends s t" and "epochs_until mk (trace t) (ms_leaseEpoch ms) \<Longrightarrow> same_epoch ms ms'"
proof -
  obtain q u where q: "od_get d mk s = (q, u)" by fastforce
  have tu: "t = u" using assms(2,3) q
    by (auto simp: manifest_load_def split: sum.splits option.splits)
  show "extends s t" using get_extends [OF assms(1) q] tu by simp
  assume e: "epochs_until mk (trace t) (ms_leaseEpoch ms)"
  have "mf_epoch m \<le> ms_leaseEpoch ms" if "q = Inr (Some y)" "or_body y = ManifestBody m" for y m
    using that got_grew(2) [OF assms(1) q] current_etag [of "trace u" mk y] epochs_wrote [OF e] tu by auto
  then have le: "decodeManifest (or_body y) mk = Inr m \<Longrightarrow> mf_epoch m \<le> ms_leaseEpoch ms" if "q = Inr (Some y)" for y m
    using that by (auto simp: decodeManifest_def split: Body.splits)
  show "same_epoch ms ms'"
    using assms(2,3) q le by (fastforce simp: manifest_load_def same_epoch_def split: sum.splits option.splits if_splits)
qed

lemma ensure_loaded_epoch:
  assumes "ok s" "ms_manifestKey ms = mk" "ensure_manifest_loaded d s ms = (r, t, ms')"
  shows "extends s t" and "epochs_until mk (trace t) (ms_leaseEpoch ms) \<Longrightarrow> same_epoch ms ms'"
  using assms extends_refl load_epoch [OF assms(1,2)]
  by (auto simp: ensure_manifest_loaded_def same_epoch_def split: prod.splits sum.splits if_splits)

lemma cas_epoch:
  assumes "ok s" "cas_attempt d f s ms = (r, t, ms')" shows "extends s t" and "same_epoch ms ms'"
proof -
  obtain q u where q: "put_manifest d (f (buildNext ms)) s ms = (q, u)" by fastforce
  have e: "extends s u" using q put_extends [OF assms(1)] extends_refl [OF assms(1)]
    by (auto simp: put_manifest_def put_with_def split: sum.splits)
  obtain b v ms3 where ad: "adoptOwnCommit d (f (buildNext ms)) u ms = (b, v, ms3)" by (metis prod_cases3)
  obtain x y where g: "od_get d (ms_manifestKey ms) u = (x, y)" by fastforce
  have "extends u v" "same_epoch ms ms3"
    using ad g get_extends [OF _ g] e
    by (auto simp: adoptOwnCommit_def extends_def same_epoch_def split: sum.splits option.splits if_splits)
  with assms(2) q ad e extends_trans show "extends s t" "same_epoch ms ms'"
    by (auto simp: cas_attempt_def Let_def same_epoch_def split: sum.splits if_splits)
qed

lemma attempts_epoch:
  assumes "ok s" "ms_manifestKey ms = mk" "commit_attempts n d f s ms = (r, t, ms')"
  shows "extends s t" and "epochs_until mk (trace t) (ms_leaseEpoch ms) \<Longrightarrow> same_epoch ms ms'"
proof -
  have "extends s t \<and> (epochs_until mk (trace t) (ms_leaseEpoch ms) \<longrightarrow> same_epoch ms ms')"
    using assms
  proof (induction n arbitrary: s ms)
    case 0
    then show ?case using extends_refl by (simp add: same_epoch_def)
  next
    case (Suc n)
    obtain q1 s1 ms1 where l: "ensure_manifest_loaded d s ms = (q1, s1, ms1)" by (metis prod_cases3)
    note l1 = ensure_loaded_epoch [OF Suc.prems(1,2) l]
    obtain q2 s2 ms2 where c: "cas_attempt d f s1 ms1 = (q2, s2, ms2)" by (metis prod_cases3)
    have ok1: "ok s1" using l1(1) by (simp add: extends_def)
    note c2 = cas_epoch [OF ok1 c]
    have ok2: "ok s2" using c2(1) by (simp add: extends_def)
    obtain q3 s3 ms3 where l': "manifest_load d s2 ms2 = (q3, s3, ms3)" by (metis prod_cases3)
    have e2: "extends s s2" using extends_trans l1(1) c2(1) by blast
    have "ms_manifestKey ms1 = ms_manifestKey ms"
      using l by (auto simp: ensure_manifest_loaded_def manifest_load_def split: if_splits prod.splits sum.splits option.splits)
    then have key2: "ms_manifestKey ms2 = mk" using c2(2) Suc.prems(2) by (simp add: same_epoch_def)
    note l3 = load_epoch [OF ok2 key2 l']
    have key3: "ms_manifestKey ms3 = mk"
      using l' key2 by (auto simp: manifest_load_def split: prod.splits sum.splits option.splits)
    have same2: "same_epoch ms ms2" if "epochs_until mk (trace u) (ms_leaseEpoch ms)" "extends s2 u" for u
      using l1(2) c2 extends_epochs that extends_trans by (fastforce simp: same_epoch_def)
    have same3: "same_epoch ms ms3" if "epochs_until mk (trace u) (ms_leaseEpoch ms)" "extends s3 u" for u
      using same2 [of u] l3 extends_epochs that extends_trans by (fastforce simp: same_epoch_def)
    consider e where "q1 = Inl e" | "q1 = Inr ()" "n = 0 \<or> q2 \<noteq> Inr None" | e where "q1 = Inr ()" "n \<noteq> 0" "q2 = Inr None" "q3 = Inl e"
      | m where "q1 = Inr ()" "n \<noteq> 0" "q2 = Inr None" "q3 = Inr m"
      by (metis old.unit.exhaust sum.exhaust)
    then show ?case
    proof cases
      case 1
      with l l1 Suc.prems(3) show ?thesis by auto
    next
      case 2
      then have "t = s2" "ms' = ms2" using l c Suc.prems(3) by (auto split: sum.splits option.splits)
      with e2 same2 extends_refl [OF ok2] show ?thesis by blast
    next
      case 3
      with l c l' Suc.prems(3) have "t = s3" "ms' = ms3" by auto
      with e2 l3(1) same3 [of s3] extends_trans extends_refl show ?thesis by (metis extends_def)
    next
      case 4
      have ok3: "ok s3" using l3(1) by (simp add: extends_def)
      have "commit_attempts n d f s3 ms3 = (r, t, ms')" using 4 l c l' Suc.prems(3) by simp
      note ih = Suc.IH [OF ok3 key3 this]
      have "extends s t" using ih e2 l3(1) extends_trans by blast
      moreover have "same_epoch ms ms'" if "epochs_until mk (trace t) (ms_leaseEpoch ms)"
        using ih same3 [of t] that by (auto simp: same_epoch_def)
      ultimately show ?thesis by blast
    qed
  qed
  then show "extends s t" "epochs_until mk (trace t) (ms_leaseEpoch ms) \<Longrightarrow> same_epoch ms ms'" by simp_all
qed

text \<open>The invariant of a run in optimistic mode, at epoch \<open>E\<close>.\<close>

definition own_writer :: "int \<Rightarrow> WalWriter \<Rightarrow> bool" where
  "own_writer E w \<longleftrightarrow> ww_concurrency w = Optimistic \<and> ww_writerId w = me \<and> ww_prefix w = pfx
     \<and> (ww_seqEpoch w = E \<or> ww_seqEpoch w = -1 \<and> ww_seq w = 0) \<and> wal_wf w"

definition refs_below :: "Event list \<Rightarrow> nat \<Rightarrow> bool" where
  "refs_below tr n \<longleftrightarrow> (\<forall>ref \<in> set (listed mk mine tr). \<exists>i < n. ws_key ref = segment_key pfx me i)"

definition store_side :: "int \<Rightarrow> 's \<Rightarrow> ManifestStore \<Rightarrow> bool" where
  "store_side E s ms \<longleftrightarrow> ok s \<and> lineage mk (trace s) \<and> store_inv mk me mine (trace s) ms
     \<and> ms_concurrency ms = Optimistic \<and> ms_leaseEpoch ms = E"

definition log_inv :: "int \<Rightarrow> 's wal_system \<Rightarrow> bool" where
  "log_inv E x = (case x of (s, ms, w, h) \<Rightarrow> store_side E s ms \<and> own_writer E w
     \<and> refs_below (trace s) (ww_seq w) \<and> flight_ok mk me mine (trace s) w
     \<and> kept (stored_records mk mine (trace s)) w h)"

lemma flight_same:
  assumes "flight_ok mk me mine tr w" "ww_at w' = ww_at w \<or> in_flight w' = None" "ww_seq w' = ww_seq w" "ww_prefix w' = ww_prefix w"
  shows "flight_ok mk me mine tr w'"
proof (cases "in_flight w' = None")
  case True
  then show ?thesis by (rule grounded)
next
  case False
  with assms(2) have "ww_at w' = ww_at w" by blast
  with assms(1,3,4) show ?thesis by (simp add: flight_ok_def in_flight_def)
qed

lemma flight_mine:
  "flight_ok mk me mine tr w \<Longrightarrow> own_writer E w \<Longrightarrow> in_flight w = Some b \<Longrightarrow> mine (ws_key (bt_ref b))"
  using own_key unfolding flight_ok_def own_writer_def by metis

lemma own_core:
  assumes "own_writer E w" "core w' = core w" "wal_wf w'" shows "own_writer E w'"
  using assms(1,3) coreD [OF assms(2)] by (simp add: own_writer_def)

lemma writer_step:
  assumes "log_inv E (s, ms, w, h)" "core w' = core w" "wal_wf w'" "ww_at w' = ww_at w \<or> in_flight w' = None"
  shows "log_inv E (s, ms, w', h)"
  using assms(1) own_core [OF _ assms(2,3)] flight_same [OF _ assms(4)] coreD(6,10) [OF assms(2)] kept_core [OF assms(2)]
  by (simp add: log_inv_def)

text \<open>The manifest moves without own segments.\<close>

lemma store_step:
  assumes "log_inv E (s, ms, w, h)" "store_side E t ms'" "listed mk mine (trace t) = listed mk mine (trace s)"
    and "\<And>k. mine k \<Longrightarrow> current (trace t) k = current (trace s) k"
  shows "log_inv E (t, ms', w, h)"
proof -
  have "stored_records mk mine (trace t) = stored_records mk mine (trace s)"
    by (rule stored_cong [OF assms(3)]) (rule assms(4), rule listed_mine)
  moreover have "flight_ok mk me mine (trace t) w"
  proof -
    have fl: "flight_ok mk me mine (trace s) w" and own: "own_writer E w" using assms(1) by (simp_all add: log_inv_def)
    have "current (trace t) (ws_key (bt_ref b)) = current (trace s) (ws_key (bt_ref b))" if "in_flight w = Some b" for b
      using flight_mine [OF fl own that] by (rule assms(4))
    then show ?thesis using fl assms(3) by (auto simp: flight_ok_def in_flight_def)
  qed
  ultimately show ?thesis using assms(1-3) by (simp add: log_inv_def refs_below_def)
qed

lemma commit_side:
  assumes "store_side E s ms" "tame_change f" "commit d now f s ms = (r, t, ms')" "epochs_until mk (trace t) E"
  shows "store_side E t ms'" and "isl r \<Longrightarrow> grew s t" and "r = Inr m \<Longrightarrow> once f (trace s) (trace t) m"
proof -
  have a: "commit_attempts OPTIMISTIC_MAX_ATTEMPTS d f s ms = (r, t, ms')"
    using assms(1,3) by (simp add: store_side_def commit_def doCommitOptimistic_def)
  have "ms_manifestKey ms = mk" using assms(1) by (simp add: store_side_def store_inv_def store_of_def)
  then have "same_epoch ms ms'" using attempts_epoch [OF _ _ a] assms(1,4) by (simp add: store_side_def)
  moreover have c: "committed f s r t ms'"
    using commit_committed [OF _ _ _ assms(2,3)] assms(1) by (simp add: store_side_def)
  ultimately show "store_side E t ms'"
    using assms(1) by (cases r) (auto simp: store_side_def committed_def same_epoch_def knows_def)
  show "isl r \<Longrightarrow> grew s t" "r = Inr m \<Longrightarrow> once f (trace s) (trace t) m"
    using c by (auto simp: committed_def split: sum.splits)
qed

lemma commit_step:
  assumes "log_inv E (s, ms, w, h)" "keeps_refs mine f" "commit d now f s ms = (r, t, ms')" "epochs_until mk (trace t) E"
  shows "log_inv E (t, ms', w, h)"
proof -
  have f: "tame_change f" "own_refs mine (f m) = own_refs mine m @ []" for m
    using assms(2) by (simp_all add: keeps_refs_def)
  note side = commit_side [OF _ f(1) assms(3,4)]
  have inv: "store_side E s ms" using assms(1) by (simp add: log_inv_def)
  show ?thesis
  proof (cases r)
    case (Inl e)
    then show ?thesis using store_step [OF assms(1) side(1) [OF inv]] grew_log side(2) [OF inv] by simp
  next
    case (Inr m)
    then show ?thesis
      using store_step [OF assms(1) side(1) [OF inv]] once_log [OF side(3) [OF inv], where new = "[]"] f(2) by simp
  qed
qed

lemma refresh_step:
  assumes "log_inv E (s, ms, w, h)" "manifest_refresh d s ms = (r, t, ms')"
  shows "log_inv E (t, ms', w, h)"
proof -
  have side: "store_side E s ms" and ok: "ok s" using assms(1) by (simp_all add: log_inv_def store_side_def)
  then have st: "ms_manifestKey ms = mk" "store_of mk me mine ms" by (simp_all add: store_side_def store_inv_def store_of_def)
  obtain q u where q: "od_get d mk s = (q, u)" by fastforce
  have tu: "t = u" using assms(2) q st(1) by (auto simp: manifest_refresh_def split: sum.splits option.splits)
  have g: "grew s t" using got_grew(1) [OF ok q] tu by simp
  have lin: "lineage mk (trace t)" using grew_lineage [OF g] side by (simp add: store_side_def)
  have "store_side E t ms'"
  proof (cases "\<exists>y. q = Inr (Some y)")
    case False
    then have "ms' = ms" using assms(2) q st(1) by (auto simp: manifest_refresh_def split: sum.splits option.splits)
    with side g lin grew_inv [OF g] grew_ok [OF g] show ?thesis by (simp add: store_side_def)
  next
    case True
    then obtain y where y: "q = Inr (Some y)" "current (trace t) mk = Some y" using got_grew(2) [OF ok q] tu by auto
    then obtain m where m: "or_body y = ManifestBody m" "normalize_manifest m = m" "manifest_of (current (trace t) mk) = m"
      using lineage_current [OF lin] by blast
    have "Wrote mk (ManifestBody m) (or_etag y) \<in> set (trace t)" using current_etag [OF y(2)] m(1) by simp
    moreover have "ms' = ms\<lparr>ms_cached := m, ms_cachedEtag := Some (or_etag y), ms_loaded := True\<rparr>"
      using assms(2) q y(1) st(1) m(1,2) by (simp add: manifest_refresh_def decodeManifest_def)
    ultimately show ?thesis
      using side lin grew_ok [OF g] versions_at_current [OF lin, of me] m(3)
      by (simp add: store_side_def store_inv_def store_of_def cache_ok_def)
  qed
  then show ?thesis using store_step [OF assms(1)] grew_log [OF g] by blast
qed

text \<open>The loop is resumed.\<close>


lemma log_invD:
  assumes "log_inv E (s, ms, w, h)"
  shows "store_side E s ms" "own_writer E w" "refs_below (trace s) (ww_seq w)"
    "flight_ok mk me mine (trace s) w" "kept (stored_records mk mine (trace s)) w h"
  using assms by (simp_all add: log_inv_def)

lemma error_step:
  assumes "log_inv E (s, ms, w, h)" "wal_wf (onFlushError e w)" shows "log_inv E (s, ms, onFlushError e w, h)"
  using assms kept_error [OF log_invD(5) [OF assms(1)]] grounded [OF grounded_control(4)]
  by (simp add: log_inv_def own_writer_def onFlushError_keeps)

lemma fencing_step:
  assumes "log_inv E (s, ms, w, h)" "wal_wf (take_batch E w)" shows "log_inv E (s, ms, take_batch E w, h)"
proof -
  note inv = log_invD [OF assms(1)]
  let ?w = "take_batch E w"
  have w: "ww_seq ?w = Suc (ww_seq w)" "ww_seqEpoch ?w = E" "ww_concurrency ?w = Optimistic" "ww_writerId ?w = me" "ww_prefix ?w = pfx"
    using inv(2) by (auto simp: take_batch_def own_writer_def Let_def)
  obtain b where b: "ww_at ?w = Putting b" "ws_key (bt_ref b) = segment_key pfx me (ww_seq w)"
    using inv(2) by (auto simp: take_batch_def own_writer_def segment_token_def Let_def)
  have "segment_key pfx me (ww_seq w) \<notin> ws_key ` set (listed mk mine (trace s))"
    using inv(3) unfolding refs_below_def by (metis image_iff less_irrefl segment_key_inj)
  with b w have "flight_ok mk me mine (trace s) ?w" by (simp add: flight_ok_def in_flight_def)
  moreover have "refs_below (trace s) (Suc (ww_seq w))" using inv(3) by (fastforce simp: refs_below_def)
  ultimately show ?thesis
    using inv(1,5) w assms(2) by (simp add: log_inv_def own_writer_def take_batch_core)
qed

lemma putting_step:
  assumes "log_inv E (s, ms, w, h)" "ww_at w = Putting b" "resume d now (s, ms, w) = (t, ms', w')" "wal_wf w'"
  shows "log_inv E (t, ms', w', h)"
proof -
  note inv = log_invD [OF assms(1)]
  obtain q u where q: "od_put d (ws_key (bt_ref b)) (encodeSegment (bt_records b)) unconditional s = (q, u)" by fastforce
  have key: "mine (ws_key (bt_ref b))" "ws_key (bt_ref b) \<notin> ws_key ` set (listed mk mine (trace s))"
    using flight_mine [OF inv(4,2)] inv(4) assms(2) by (simp_all add: in_flight_def flight_ok_def)
  have p: "ok u \<and> lineage mk (trace u) \<and> store_inv mk me mine (trace u) ms
      \<and> listed mk mine (trace u) = listed mk mine (trace s) \<and> stored_records mk mine (trace u) = stored_records mk mine (trace s)
      \<and> (\<forall>e. q = Inr e \<longrightarrow> current (trace u) (ws_key (bt_ref b)) = Some \<lparr>or_body = encodeSegment (bt_records b), or_etag = e\<rparr>)"
    using put_segment [OF _ q key, of ms] inv(1) by (simp add: store_side_def)
  then have side: "store_side E u ms" and refs: "refs_below (trace u) (ww_seq w)"
    using inv(1,3) by (simp_all add: store_side_def refs_below_def)
  show ?thesis
  proof (cases q)
    case (Inl e)
    then have t: "t = u" "ms' = ms" "w' = onFlushError e w" using assms(2,3) q by (simp_all add: resume_def)
    have "flight_ok mk me mine (trace u) w'" using t(3) grounded [OF grounded_control(4)] by simp
    then show ?thesis
      using side refs p inv(2,5) assms(4) t kept_error by (simp add: log_inv_def own_writer_def onFlushError_keeps)
  next
    case (Inr e)
    then have t: "t = u" "ms' = ms" "w' = w\<lparr>ww_at := Committing b\<rparr>" using assms(2,3) q by (simp_all add: resume_def)
    have "kept (stored_records mk mine (trace s)) w' h" using inv(5) kept_core [of w' w] core_updates(1) t(3) by blast
    moreover have "flight_ok mk me mine (trace u) w'"
      using inv(4) p Inr assms(2) t(3) by (simp add: flight_ok_def in_flight_def encodeSegment_def)
    ultimately show ?thesis using side refs p inv(2) assms(4) t by (simp add: log_inv_def own_writer_def)
  qed
qed

lemma landed_step:
  assumes "log_inv E (s, ms, w, h)" "ww_at w = Committing b" "store_side E t ms'" "wal_wf (flush_landed b w)"
    and "once (push_segment (bt_ref b)) (trace s) (trace t) m"
  shows "log_inv E (t, ms', flush_landed b w, h)"
proof -
  note inv = log_invD [OF assms(1)]
  let ?w = "flush_landed b w"
  have fl: "in_flight w = Some b" using assms(2) by (simp add: in_flight_def)
  have key: "mine (ws_key (bt_ref b))" using flight_mine [OF inv(4,2) fl] .
  note log = once_log [OF assms(5) push_segment_refs [where mine = mine and ref = "bt_ref b", OF key]]
  have "segment_records (trace s) (bt_ref b) = bt_records b"
    using inv(4) assms(2) by (auto simp: flight_ok_def segment_records_def decodeSegment_def)
  then have st: "stored_records mk mine (trace t) = stored_records mk mine (trace s) @ bt_records b"
    using log(1) key segments_kept [OF log(2)]
    by (simp add: stored_records_def) (intro arg_cong [where f = concat] map_cong refl, blast intro: listed_mine)
  have "batch_in b w" "ww_terminal w = None"
    using inv(2) assms(2) by (auto simp: own_writer_def wal_wf_def)
  then have "kept (stored_records mk mine (trace t)) (batch_landed b w) h"
    using kept_landed [OF inv(5)] by (simp add: st)
  moreover have core: "core ?w = core (batch_landed b w)" by (simp add: flush_landed_def core_updates Let_def)
  ultimately have "kept (stored_records mk mine (trace t)) ?w h" using kept_core by blast
  moreover have "ww_seq ?w = ww_seq w" "ww_seqEpoch ?w = ww_seqEpoch w" "ww_concurrency ?w = ww_concurrency w"
      "ww_writerId ?w = ww_writerId w" "ww_prefix ?w = ww_prefix w"
    using core batch_landed_core [of b w] by (simp_all add: core_def)
  moreover have "refs_below (trace t) (ww_seq w)"
    using inv(2-4) fl log(1) by (auto simp: refs_below_def flight_ok_def own_writer_def)
  ultimately show ?thesis
    using assms(3,4) inv(2) grounded [OF grounded_control(5)] by (simp add: log_inv_def own_writer_def)
qed

lemma committing_step:
  assumes "log_inv E (s, ms, w, h)" "ww_at w = Committing b" "resume d now (s, ms, w) = (t, ms', w')" "wal_wf w'"
    and "epochs_until mk (trace t) E"
  shows "log_inv E (t, ms', w', h)"
proof -
  note inv = log_invD [OF assms(1)]
  obtain q u ms2 where q: "commit d now (push_segment (bt_ref b)) s ms = (q, u, ms2)" by (metis prod_cases3)
  have tu: "t = u" "ms' = ms2" using assms(2,3) q by (auto simp: resume_def split: sum.splits)
  note side = commit_side [OF inv(1) push_segment_tame q]
  have e: "epochs_until mk (trace u) E" using assms(5) tu by simp
  show ?thesis
  proof (cases q)
    case (Inl err)
    then have "log_inv E (u, ms2, w, h)" using store_step [OF assms(1) side(1) [OF e]] grew_log side(2) [OF e] by simp
    moreover have "w' = onFlushError err w" using Inl assms(2,3) q by (simp add: resume_def)
    ultimately show ?thesis using error_step assms(4) tu by blast
  next
    case (Inr m)
    then have "w' = flush_landed b w" using assms(2,3) q by (simp add: resume_def)
    with landed_step [OF assms(1,2) side(1) [OF e] _ side(3) [OF e Inr]] assms(4) tu show ?thesis by simp
  qed
qed

lemma resume_step:
  assumes "log_inv E (s, ms, w, h)" "resume d now (s, ms, w) = (t, ms', w')" "epochs_until mk (trace t) E"
  shows "log_inv E (t, ms', w', h)"
proof -
  note inv = log_invD [OF assms(1)]
  have wf: "wal_wf w'" using resume_wf [OF _ assms(2)] inv(2) by (simp add: own_writer_def)
  show ?thesis
  proof (cases "ww_at w")
    case Fencing
    have "ms_concurrency ms = Optimistic" "ms_leaseEpoch ms = E" using inv(1) by (simp_all add: store_side_def)
    with assms(2) Fencing have "t = s" "ms' = ms" "w' = take_batch E w" by (simp_all add: resume_def ensureWriter_def)
    with fencing_step [OF assms(1)] wf show ?thesis by simp
  next
    case (Putting b)
    with putting_step [OF assms(1) _ assms(2) wf] show ?thesis by blast
  next
    case (Committing b)
    with committing_step [OF assms(1) _ assms(2) wf assms(3)] show ?thesis by blast
  qed (use assms wf writer_step [OF assms(1) _ wf] in \<open>auto simp: resume_def\<close>)
qed

lemma stop_step:
  assumes "log_inv E (s, ms, w, h)" shows "log_inv E (s, ms, wal_stop w, h)"
proof -
  note inv = log_invD [OF assms]
  have f: "ww_seq (wal_stop w) = ww_seq w" "ww_seqEpoch (wal_stop w) = ww_seqEpoch w"
      "ww_concurrency (wal_stop w) = ww_concurrency w" "ww_writerId (wal_stop w) = ww_writerId w"
      "ww_prefix (wal_stop w) = ww_prefix w" "kept st (wal_stop w) h = kept st w h" for st
    by (simp_all add: wal_stop_def wake_def kept_def Let_def)
  show ?thesis using inv stop_wf [of w] flight_same [OF inv(4) core_of_stop f(1,5)] f by (simp add: log_inv_def own_writer_def)
qed

lemma submit_step:
  assumes "log_inv E (s, ms, w, h)" shows "log_inv E (wal_event d (Submit r) (s, ms, w, h))"
proof -
  note inv = log_invD [OF assms]
  obtain q w' where q: "wal_enqueue r w = (q, w')" by fastforce
  have wf: "wal_wf w'" using enqueue_wf [OF _ q] inv(2) by (simp add: own_writer_def)
  note en = enqueue_core [OF q]
  show ?thesis
  proof (cases q)
    case (Inl e)
    with writer_step [OF assms _ wf] en q show ?thesis by simp
  next
    case (Inr p)
    then obtain item where c: "pr_record item = r" "bf_ticket item = ww_appends w" "ww_terminal w = None"
        "core w' = (ww_buffer w @ [item], ww_bufferedBytes w + int (pr_bytes item), Suc (ww_appends w), ww_acks w, None,
           ww_seq w, ww_seqEpoch w, ww_concurrency w, ww_writerId w, ww_prefix w, ww_batch w, ww_stopped w)"
      using en by auto
    have "kept (stored_records mk mine (trace s)) w' (h @ [r])"
      using inv(5) c by (auto simp: kept_def core_def)
    moreover have "own_writer E w'" using inv(2) c wf by (simp add: own_writer_def core_def)
    moreover have "ww_seq w' = ww_seq w" "ww_prefix w' = ww_prefix w" using c by (simp_all add: core_def)
    ultimately show ?thesis using inv flight_same [OF inv(4)] en q Inr by (simp add: log_inv_def)
  qed
qed

lemma event_step:
  assumes "log_inv E x" "allowed_event mine ev" "epochs_until mk (trace (fst (wal_event d ev x))) E"
  shows "log_inv E (wal_event d ev x)"
proof -
  obtain s ms w h where x: "x = (s, ms, w, h)" by (metis prod_cases4)
  have wf: "wal_wf w" using assms(1) x by (simp add: log_inv_def own_writer_def)
  note inv = assms(1) [unfolded x]
  show ?thesis
  proof (cases ev)
    case (Submit r)
    with submit_step [OF inv] x show ?thesis by simp
  next
    case AskFlush
    with writer_step [OF inv core_control(12) flush_wf [OF wf] flush_at] x show ?thesis by simp
  next
    case AskStop
    with stop_step [OF inv] x show ?thesis by simp
  next
    case StopOver
    have "ww_at (wal_stop_end w) = ww_at w" by (simp add: wal_stop_end_def)
    with writer_step [OF inv core_control(11) stop_end_wf [OF wf]] StopOver x show ?thesis by simp
  next
    case (LoopRuns now)
    with resume_step [OF inv] assms(3) x show ?thesis by (auto split: prod.splits)
  next
    case (LocalCommit now f)
    with commit_step [OF inv] assms(2,3) x show ?thesis by (auto simp: allowed_event_def split: prod.splits)
  next
    case LocalRefresh
    with refresh_step [OF inv] x show ?thesis by (auto split: prod.splits)
  qed
qed

text \<open>A run: the trace only grows, so a bound on the epochs holds of every state on the way.\<close>

definition plain :: "'s wal_system \<Rightarrow> bool" where
  "plain x \<longleftrightarrow> ok (fst x) \<and> ms_concurrency (fst (snd x)) = Optimistic \<and> ms_manifestKey (fst (snd x)) = mk"

lemma event_plain:
  assumes "plain x" shows "extends (fst x) (fst (wal_event d ev x)) \<and> plain (wal_event d ev x)"
proof -
  obtain s ms w h where x: "x = (s, ms, w, h)" by (metis prod_cases4)
  have side: "ok s" "ms_concurrency ms = Optimistic" "ms_manifestKey ms = mk" using assms x by (simp_all add: plain_def)
  have commit: "extends s t \<and> ok t \<and> ms_concurrency ms' = Optimistic \<and> ms_manifestKey ms' = mk"
    if "commit d now f s ms = (r, t, ms')" for now f r t ms'
    using that side attempts_epoch(1) [OF side(1,3)] attempts_keep
    by (fastforce simp: commit_def doCommitOptimistic_def extends_def)
  have refresh: "extends s t \<and> ok t \<and> ms_concurrency ms' = Optimistic \<and> ms_manifestKey ms' = mk"
    if "manifest_refresh d s ms = (r, t, ms')" for r t ms'
    using that get_extends [OF side(1)] side
    by (auto simp: manifest_refresh_def extends_def split: prod.splits sum.splits option.splits)
  have put: "extends s t \<and> ok t" if "od_put d k b opts s = (r, t)" for k b opts r t
    using put_extends [OF side(1) that] by (simp add: extends_def)
  have resume: "extends s t \<and> ok t \<and> ms_concurrency ms' = Optimistic \<and> ms_manifestKey ms' = mk"
    if "resume d now (s, ms, w) = (t, ms', w')" for now t ms' w'
  proof (cases "ww_at w")
    case (Putting b)
    with that put side show ?thesis by (auto simp: resume_def split: prod.splits sum.splits)
  next
    case (Committing b)
    with that commit show ?thesis by (auto simp: resume_def split: prod.splits sum.splits)
  qed (use that side extends_refl [OF side(1)] in \<open>auto simp: resume_def ensureWriter_def\<close>)
  have rest: "plain (s, ms, w', h') \<and> extends s s" for w' h' using side extends_refl by (simp add: plain_def)
  show ?thesis
    using x commit refresh resume rest
    by (cases ev) (auto simp: plain_def split: prod.splits sum.splits)
qed

lemma run_plain: "wal_run d mine x y \<Longrightarrow> plain x \<Longrightarrow> plain y"
  by (induction rule: wal_run.induct) (simp_all add: event_plain)

lemma run_inv:
  assumes "wal_run d mine x y" "log_inv E x" "epochs_until mk (trace (fst y)) E"
  shows "log_inv E y"
  using assms
proof (induction rule: wal_run.induct)
  case start
  then show ?case by simp
next
  case (step y ev)
  have "plain x" using step.prems(1) by (auto simp: log_inv_def plain_def store_side_def store_inv_def store_of_def)
  with run_plain step.hyps(1) have "plain y" by blast
  with event_plain extends_epochs step.prems(2) have "epochs_until mk (trace (fst y)) E" by blast
  with step.IH step.prems step.hyps(2) event_step show ?case by blast
qed

end

section \<open>Runs that compute\<close>

lemma fold_run:
  "list_all (allowed_event mine) evs \<Longrightarrow> wal_run d mine x y \<Longrightarrow> wal_run d mine x (fold (wal_event d) evs y)"
proof (induction evs arbitrary: y)
  case (Cons ev evs)
  then show ?case using wal_run.step [of d mine x y ev] by simp
qed simp

definition row_record :: "string \<Rightarrow> string \<Rightarrow> WalRecord" where
  "row_record rid hlc = RowRecord \<lparr>wm_table = ''t'', wm_rowId = rid, wm_row = None, wm_colClocks = [], wm_hlc = hlc\<rparr>"

definition fails_at :: "nat \<Rightarrow> fault_hook" where
  "fails_at n op key call st = (if call = n then Some (OtherError ''503'') else None)"

definition small_batch :: BatchConfig where
  "small_batch = \<lparr>ba_maxBytes = 1000, ba_minLingerMs = 5, ba_maxBufferBytes = 1000, ba_onBackpressure = RejectWrites\<rparr>"

definition new_system :: "string \<Rightarrow> Network \<Rightarrow> Network wal_system" where
  "new_system me n = (n, new_manifest_store ''r'' me LEASE_DEFAULTS Optimistic,
     new_wal_writer small_batch Durable Optimistic me ''r'' False, [])"

end
