(* ===== verification/Wal_Log.thy ===== *)
theory Wal_Log
  imports Wal_Facts
begin

text \<open>
  The log on a network: the invariant of \<open>Wal_Facts\<close> interpreted there, the property it gives, and
  what breaks it: a reply lost for good, a writer id used twice, a stop.
\<close>

section \<open>On the network\<close>

interpretation logged: wal_store "network_driver (pfx @ MANIFEST_KEY) wc sz faults" nw_trace
  "network_ok {Delivered} (pfx @ MANIFEST_KEY) me (own_segment pfx me)" "pfx @ MANIFEST_KEY" me "own_segment pfx me" pfx
  for pfx wc sz faults me
proof (rule wal_store.intro)
  show "manifest_users (network_driver (pfx @ MANIFEST_KEY) wc sz faults) nw_trace
    (network_ok {Delivered} (pfx @ MANIFEST_KEY) me (own_segment pfx me)) (pfx @ MANIFEST_KEY) me (own_segment pfx me) False"
    by (rule sure.manifest_users_axioms)
  show "wal_store_axioms (pfx @ MANIFEST_KEY) me (own_segment pfx me) pfx" by unfold_locales simp_all
qed

lemma new_writer_inv:
  assumes "network_ok {Delivered} mk me mine s" "lineage mk (nw_trace s)" "store_inv mk me mine (nw_trace s) ms"
    and "ms_concurrency ms = Optimistic" "mk = roomPrefix room @ MANIFEST_KEY" "mine = own_segment (roomPrefix room) me"
    and "listed mk mine (nw_trace s) = []"
  shows "logged.log_inv (roomPrefix room) me (ms_leaseEpoch ms)
    (s, ms, new_wal_writer batch durability Optimistic me room hasOnCommitted, [])"
  using assms
  by (simp add: logged.log_inv_def logged.store_side_def logged.own_writer_def logged.refs_below_def
      stored_records_def kept_def flight_ok_def in_flight_def wal_wf_def new_wal_writer_def)

section \<open>Acknowledged writes are stored\<close>


text \<open>The first put of a segment fails, another record arrives, and a rival commits before the
  second attempt commits.\<close>

definition sample_events :: "WalEvent list" where
  "sample_events = [Submit (row_record ''1'' ''h1''), LoopRuns 0, LoopRuns 0, LoopRuns 0,
     Submit (row_record ''2'' ''h2''), LoopRuns 0, LoopRuns 0, LoopRuns 0, LoopRuns 0, LoopRuns 0]"

definition sample_run :: "Network wal_system" where
  "sample_run = fold (wal_event (network_driver ''rooms/r/_manifest'' True (\<lambda>b. 0) (fails_at 1))) sample_events
     (new_system ''a'' (new_network [([], Delivered), ([RivalCommit ''b'' (\<lambda>m. m)], Delivered), ([], Delivered)]))"


section \<open>What breaks it\<close>

text \<open>A manifest write that lands while its reply is lost for good fails the flush. The retry finds the
  manifest changed, takes the version that landed for its own, since writer, epoch and commit number
  agree, and acknowledges records that no listed segment holds.\<close>

definition lost_reply_run :: "Network wal_system" where
  "lost_reply_run = fold (wal_event (network_driver ''rooms/r/_manifest'' True (\<lambda>b. 0) no_faults))
     [Submit (row_record ''1'' ''h1''), LoopRuns 0, LoopRuns 0, LoopRuns 0,
      Submit (row_record ''2'' ''h2''), LoopRuns 0, LoopRuns 0, LoopRuns 0, LoopRuns 0, LoopRuns 0, LoopRuns 0]
     (new_system ''a'' (new_network [([], Delivered), ([], Delivered), ([], ReplyLost)]))"

lemma lost_reply_loses_acknowledged:
  "ww_acks (fst (snd (snd lost_reply_run))) = [(0, None), (1, None)]
   \<and> concat (map (segment_records (nw_trace (fst lost_reply_run)))
       (mf_walSegs (manifest_of (current (nw_trace (fst lost_reply_run)) ''rooms/r/_manifest'')))) = [row_record ''1'' ''h1'']"
  by code_simp

text \<open>An optimistic writer id that is used again after a restart names its first segment as before, and
  the put, which has no condition, replaces the records acknowledged then.\<close>

definition restarted_run :: "Network wal_system" where
  "restarted_run =
     (let d = network_driver ''rooms/r/_manifest'' True (\<lambda>b. 0) no_faults; runs = replicate 5 (LoopRuns 0);
          first = fold (wal_event d) (Submit (row_record ''1'' ''h1'') # runs) (new_system ''a'' (new_network []))
      in fold (wal_event d) (LocalRefresh # Submit (row_record ''2'' ''h2'') # runs) (new_system ''a'' (fst first)))"

lemma reused_writer_id_overwrites:
  "ww_acks (fst (snd (snd restarted_run))) = [(0, None)]
   \<and> concat (map (segment_records (nw_trace (fst restarted_run)))
       (mf_walSegs (manifest_of (current (nw_trace (fst restarted_run)) ''rooms/r/_manifest''))))
     = [row_record ''2'' ''h2'', row_record ''2'' ''h2'']"
  by code_simp

text \<open>A stop leaves the promises of buffered writes pending for good: the loop has ended, and nothing
  settles them any more.\<close>

lemma ended_writer_settles_nothing:
  assumes "ww_at w = Exited" "ww_stopped w" "ww_terminal w = None"
  shows "case wal_event d ev (s, ms, w, h) of (s', ms', w', h') \<Rightarrow>
    ww_at w' = Exited \<and> ww_stopped w' \<and> ww_terminal w' = None \<and> ww_acks w' = ww_acks w \<and> ww_buffer w' = ww_buffer w"
  using assms
  by (cases ev) (auto simp: wal_enqueue_def wal_prepare_def assertWritable_def wal_flush_def wal_stop_def
      wal_stop_end_def wake_def settle_waiters_def resume_def Let_def split: prod.splits)

definition stopped_run :: "Network wal_system" where
  "stopped_run = fold (wal_event (network_driver ''rooms/r/_manifest'' True (\<lambda>b. 0) (fails_at 1)))
     [Submit (row_record ''1'' ''h1''), LoopRuns 0, LoopRuns 0, LoopRuns 0, AskStop, LoopRuns 0, StopOver]
     (new_system ''a'' (new_network []))"

lemma stopped_run_forgets_a_write:
  "case stopped_run of (s, ms, w, h) \<Rightarrow> ww_at w = Exited \<and> ww_stopped w \<and> ww_terminal w = None
     \<and> ww_acks w = [] \<and> map bf_settled (ww_buffer w) = [False]"
  by code_simp

end
