(* ===== verification/Wal_Liveness.thy ===== *)
theory Wal_Liveness
  imports Wal_Facts
begin

text \<open>
  The log drains: once the store answers again and rivals are quiet, an optimistic commit succeeds
  at its second attempt at the latest, and the flush loop, resumed often enough, empties its buffer
  and settles every promise. The loop's measure is the records left, then the awaits to go.
\<close>

section \<open>A quiet network\<close>

definition quiet :: "string \<Rightarrow> string \<Rightarrow> (string \<Rightarrow> bool) \<Rightarrow> Network \<Rightarrow> ManifestStore \<Rightarrow> bool" where
  "quiet mk me mine n ms \<longleftrightarrow> network_ok {Delivered} mk me mine n \<and> nw_script n = []
     \<and> lineage mk (nw_trace n) \<and> store_inv mk me mine (nw_trace n) ms \<and> ms_concurrency ms = Optimistic"

abbreviation quiet_driver :: "string \<Rightarrow> (Body \<Rightarrow> nat) \<Rightarrow> Network ObjectDriver" where
  "quiet_driver mk sz \<equiv> network_driver mk True sz no_faults"

lemma quiet_get:
  assumes "coherent n" "nw_script n = []"
  shows "\<exists>t. network_get mk no_faults k n = (Inr (current (nw_trace n) k), t) \<and> nw_trace t = nw_trace n \<and> nw_script t = []
    \<and> coherent t"
  using assms
  by (auto simp: network_get_def next_call_def memory_get_def enter_def no_faults_def coherent_def Let_def
      simp del: map_of_eq_Some_iff map_of_eq_None_iff)

lemma quiet_refusal:
  assumes "coherent n" "opts = if_match e \<or> opts = if_absent \<or> opts = unconditional"
  shows "put_refusal True k opts (nw_disk n) = (if meets opts (current (nw_trace n) k) then None else Some (PreconditionFailed k))"
proof -
  have "map_get (md_store (nw_disk n)) k = current (nw_trace n) k" using assms(1) by (simp add: coherent_def)
  then show ?thesis
    using assms(2) by (cases "current (nw_trace n) k") (auto simp: put_refusal_def meets_def simp del: map_of_eq_Some_iff map_of_eq_None_iff)
qed

lemma put_refusal_store: "md_store d' = md_store d \<Longrightarrow> put_refusal wc k opts d' = put_refusal wc k opts d"
  by (simp only: put_refusal_def)

lemma quiet_put:
  assumes "coherent n" "nw_script n = []" "opts = if_match e \<or> opts = if_absent \<or> opts = unconditional"
  shows "case network_put mk True no_faults k b opts n of (r, t) \<Rightarrow> nw_script t = [] \<and> coherent t \<and>
    (if meets opts (current (nw_trace n) k) then \<exists>e. r = Inr e
     else r = Inl (PreconditionFailed k) \<and> nw_trace t = nw_trace n)"
proof -
  obtain r t where d: "disk_put True no_faults k b opts n = (r, t)" by fastforce
  have same: "put_refusal True k opts (nw_disk n\<lparr>md_calls := c, md_stats := st\<rparr>) = put_refusal True k opts (nw_disk n)" for c st
    by (rule put_refusal_store) simp
  have "case put_refusal True k opts (nw_disk n) of None \<Rightarrow> \<exists>e. r = Inr e | Some e \<Rightarrow> r = Inl e"
    using d same by (simp add: disk_put_def memory_put_def enter_def no_faults_def Let_def split: option.splits) auto
  with quiet_refusal [OF assms(1,3)] have "if meets opts (current (nw_trace n) k) then \<exists>e. r = Inr e else r = Inl (PreconditionFailed k)"
    by auto
  with disk_put_step [OF assms(1) d] assms(2) d show ?thesis
    by (auto simp: network_put_def next_call_def split: sum.splits if_splits)
qed

section \<open>Commits succeed\<close>

definition fresh_cache :: "string \<Rightarrow> Event list \<Rightarrow> ManifestStore \<Rightarrow> bool" where
  "fresh_cache mk tr ms \<longleftrightarrow> ms_cachedEtag ms = map_option or_etag (current tr mk)"

lemma quiet_cas:
  assumes "coherent n" "nw_script n = []" "ms_manifestKey ms = mk" "[] \<notin> set (etags (nw_trace n))" "cache_ok mk (nw_trace n) ms"
  obtains opts e where "cas_options (quiet_driver mk sz) ms (ms_cachedEtag ms) = Inr opts"
    and "opts = if_match e \<or> opts = if_absent \<or> opts = unconditional"
    and "fresh_cache mk (nw_trace n) ms \<Longrightarrow> meets opts (current (nw_trace n) mk)"
proof (cases "ms_cachedEtag ms")
  case None
  then show ?thesis using that [of if_absent]
    by (auto simp: cas_options_def createOptions_def falsy_str_def network_selectors fresh_cache_def meets_def)
next
  case (Some e)
  then obtain m where "Wrote mk (ManifestBody m) e \<in> set (nw_trace n)" using assms(5) by (auto simp: cache_ok_def)
  then have "e \<noteq> []" using assms(4) in_etags by blast
  then show ?thesis using that [of "if_match e"] Some
    by (auto simp: cas_options_def falsy_str_def fresh_cache_def meets_def)
qed

lemma quiet_attempt:
  assumes "coherent n" "nw_script n = []" "ms_manifestKey ms = mk" "lineage mk (nw_trace n)" "cache_ok mk (nw_trace n) ms"
  obtains q t ms' where "cas_attempt (quiet_driver mk sz) f n ms = (Inr q, t, ms')" "nw_script t = []"
    and "fresh_cache mk (nw_trace n) ms \<Longrightarrow> q \<noteq> None"
proof -
  let ?d = "quiet_driver mk sz" and ?next = "f (buildNext ms)"
  have "[] \<notin> set (etags (nw_trace n))" using assms(1) unfolding coherent_def by (metis etag_str_nonempty)
  from quiet_cas [OF assms(1-3) this assms(5)] obtain opts e where o': "cas_options ?d ms (ms_cachedEtag ms) = Inr opts"
      "opts = if_match e \<or> opts = if_absent \<or> opts = unconditional"
      "fresh_cache mk (nw_trace n) ms \<Longrightarrow> meets opts (current (nw_trace n) mk)" by metis
  obtain r t where p: "network_put mk True no_faults mk (ManifestBody ?next) opts n = (r, t)" by fastforce
  have put: "put_manifest ?d ?next n ms = (r, t)"
    using p o'(1) assms(3) by (simp add: put_manifest_def put_with_def network_selectors)
  note step = quiet_put [OF assms(1,2) o'(2), of mk mk "ManifestBody ?next", unfolded p prod.case]
  show ?thesis
  proof (cases "meets opts (current (nw_trace n) mk)")
    case True
    with step put that show ?thesis by (auto simp: cas_attempt_def Let_def)
  next
    case False
    then have t: "r = Inl (PreconditionFailed mk)" "nw_script t = []" "coherent t" "nw_trace t = nw_trace n" using step by auto
    obtain u where u: "network_get mk no_faults mk t = (Inr (current (nw_trace t) mk), u)" "nw_script u = []"
      using quiet_get [OF t(3,2)] by blast
    have "\<not> fresh_cache mk (nw_trace n) ms" using o'(3) False by blast
    moreover have "\<exists>b v. adoptOwnCommit ?d ?next t ms = (b, u, v)"
      using u(1) assms(3) lineage_current [OF assms(4)] t(4)
      by (cases "current (nw_trace n) mk") (auto simp: adoptOwnCommit_def network_selectors decodeManifest_def)
    then obtain b v where "adoptOwnCommit ?d ?next t ms = (b, u, v)" by blast
    ultimately show ?thesis
      using put t(1) u(2) that [of "if b then Some ?next else None" u v] by (simp add: cas_attempt_def Let_def is_precondition_def)
  qed
qed

lemma quiet_load:
  assumes "coherent n" "nw_script n = []" "ms_manifestKey ms = mk" "lineage mk (nw_trace n)"
  obtains m t ms' where "manifest_load (quiet_driver mk sz) n ms = (Inr m, t, ms')" "nw_script t = []"
    and "fresh_cache mk (nw_trace t) ms'" "nw_trace t = nw_trace n"
proof -
  obtain u where u: "network_get mk no_faults mk n = (Inr (current (nw_trace n) mk), u)" "nw_script u = []" "nw_trace u = nw_trace n"
    using quiet_get [OF assms(1,2)] by blast
  show ?thesis
    using u assms(3) lineage_current [OF assms(4)] that
    by (cases "current (nw_trace n) mk")
      (auto simp: manifest_load_def network_selectors decodeManifest_def fresh_cache_def)
qed

lemma quiet_ensure:
  assumes "coherent n" "nw_script n = []" "ms_manifestKey ms = mk" "lineage mk (nw_trace n)"
  obtains t ms' where "ensure_manifest_loaded (quiet_driver mk sz) n ms = (Inr (), t, ms')" "nw_script t = []"
proof (cases "ms_loaded ms")
  case True
  with assms(2) that show ?thesis by (simp add: ensure_manifest_loaded_def)
next
  case False
  from quiet_load [OF assms, of sz] obtain m t ms' where "manifest_load (quiet_driver mk sz) n ms = (Inr m, t, ms')" "nw_script t = []"
    by metis
  with False that show ?thesis by (simp add: ensure_manifest_loaded_def)
qed

text \<open>The first attempt can find its version outdated; the second is made on the latest.\<close>

lemma quiet_attempts:
  assumes n: "network_ok {Delivered} mk me mine n" "nw_script n = []" "lineage mk (nw_trace n)"
    and ms: "store_inv mk me mine (nw_trace n) ms" and f: "tame_change f"
  shows "\<exists>m t ms'. commit_attempts (Suc (Suc k)) (quiet_driver mk sz) f n ms = (Inr m, t, ms') \<and> nw_script t = []"
proof -
  let ?d = "quiet_driver mk sz"
  note ok = sure.grew_ok and lin = sure.grew_lineage
  have key: "ms_manifestKey ms = mk" using ms by (simp add: store_inv_def store_of_def)
  obtain s1 ms1 where l: "ensure_manifest_loaded ?d n ms = (Inr (), s1, ms1)" "nw_script s1 = []"
    using quiet_ensure [OF ok_coherent [OF n(1)] n(2) key n(3)] by metis
  have s1: "sure.grew mk me mine n s1" "knows mk me mine (nw_trace s1) ms1"
    using sure.ensure_loaded_step [OF n(1,3) ms l(1)] by simp_all
  note ok1 = ok [OF s1(1)] and lin1 = lin [OF s1(1) n(3)]
  have key1: "ms_manifestKey ms1 = mk" "cache_ok mk (nw_trace s1) ms1"
    using s1(2) by (simp_all add: knows_def store_inv_def store_of_def)
  obtain q s2 ms2 where c: "cas_attempt ?d f s1 ms1 = (Inr q, s2, ms2)" "nw_script s2 = []"
    using quiet_attempt [OF ok_coherent [OF ok1] l(2) key1(1) lin1 key1(2)] by metis
  show ?thesis
  proof (cases q)
    case (Some m)
    with l c show ?thesis by simp
  next
    case None
    have s2: "sure.grew mk me mine s1 s2" "ms2 = ms1"
      using sure.cas_attempt_step [OF ok1 lin1 s1(2) f c(1)] None
      by (simp_all add: sure.moved_def)
    note ok2 = ok [OF s2(1)] and lin2 = lin [OF s2(1) lin1]
    obtain m s3 ms3 where l3: "manifest_load ?d s2 ms1 = (Inr m, s3, ms3)" "nw_script s3 = []" "fresh_cache mk (nw_trace s3) ms3"
      using quiet_load [OF ok_coherent [OF ok2] c(2) key1(1) lin2] by metis
    have "store_of mk me mine ms1" using s1(2) by (simp add: knows_def store_inv_def)
    then have s3: "sure.grew mk me mine s2 s3" "knows mk me mine (nw_trace s3) ms3"
      using sure.load_step [OF ok2 lin2 _ l3(1)] by simp_all
    note ok3 = ok [OF s3(1)] and lin3 = lin [OF s3(1) lin2]
    have key3: "ms_manifestKey ms3 = mk" "cache_ok mk (nw_trace s3) ms3" "ms_loaded ms3"
      using s3(2) by (simp_all add: knows_def store_inv_def store_of_def)
    obtain q' s4 ms4 where "cas_attempt ?d f s3 ms3 = (Inr q', s4, ms4)" "nw_script s4 = []" "q' \<noteq> None"
      using quiet_attempt [OF ok_coherent [OF ok3] l3(2) key3(1) lin3 key3(2)] l3(3) by metis
    moreover have "ensure_manifest_loaded ?d s3 ms3 = (Inr (), s3, ms3)" using key3(3) by (simp add: ensure_manifest_loaded_def)
    ultimately show ?thesis using l(1) c(1) None s2(2) l3(1) by auto
  qed
qed

lemma quiet_commit:
  assumes q: "quiet mk me mine n ms" and f: "tame_change f"
  obtains m t ms' where "commit (quiet_driver mk sz) now f n ms = (Inr m, t, ms')" "quiet mk me mine t ms'"
proof -
  let ?d = "quiet_driver mk sz"
  have n: "network_ok {Delivered} mk me mine n" "nw_script n = []" "lineage mk (nw_trace n)"
      "store_inv mk me mine (nw_trace n) ms" "ms_concurrency ms = Optimistic"
    using q by (simp_all add: quiet_def)
  have "OPTIMISTIC_MAX_ATTEMPTS = Suc (Suc 4)" by (simp add: OPTIMISTIC_MAX_ATTEMPTS_def)
  with quiet_attempts [OF n(1-4) f, of 4 sz] obtain m t ms' where a: "commit_attempts OPTIMISTIC_MAX_ATTEMPTS ?d f n ms = (Inr m, t, ms')"
      "nw_script t = []" by auto
  then have c: "commit ?d now f n ms = (Inr m, t, ms')" using n(5) by (simp add: commit_def doCommitOptimistic_def)
  have "sure.committed mk me mine f n (Inr m) t ms'"
    using sure.commit_committed [OF n(1,3,4) f c] .
  then have "network_ok {Delivered} mk me mine t" "lineage mk (nw_trace t)" "store_inv mk me mine (nw_trace t) ms'"
    by (simp_all add: sure.committed_def knows_def)
  moreover have "ms_concurrency ms' = Optimistic" using attempts_keep [OF a(1)] n(5) by simp
  ultimately show ?thesis using that c a(2) by (simp add: quiet_def)
qed

section \<open>The loop drains\<close>

definition pending_acks :: "Buffered list \<Rightarrow> (nat \<times> StoreError option) list" where
  "pending_acks bs = map (\<lambda>b. (bf_ticket b, None)) (filter (\<lambda>b. \<not> bf_settled b) bs)"

text \<open>From \<open>w\<close> to \<open>w'\<close> promises were settled well, or are still pending.\<close>

definition settles :: "WalWriter \<Rightarrow> WalWriter \<Rightarrow> bool" where
  "settles w w' \<longleftrightarrow> ww_acks w' @ pending_acks (ww_buffer w') = ww_acks w @ pending_acks (ww_buffer w)
     \<and> set (ww_flushAcks w) \<subseteq> set (ww_flushAcks w')
     \<and> (\<forall>t \<in> set (ww_flushWaiters w). t \<in> set (ww_flushWaiters w') \<or> (t, None) \<in> set (ww_flushAcks w'))"

lemma settles_refl [simp]: "settles w w"
  by (simp add: settles_def)

lemma settles_trans: "settles w w' \<Longrightarrow> settles w' w'' \<Longrightarrow> settles w w''"
  by (simp add: settles_def) blast

lemma flush_acks_control [simp]:
  "ww_flushAcks (setHealth h w) = ww_flushAcks w" "ww_flushAcks (setBackpressured v w) = ww_flushAcks w"
  "ww_flushAcks (note_durable hlc w) = ww_flushAcks w" "ww_flushAcks (settle_records r items w) = ww_flushAcks w"
  "ww_flushWaiters (settle_records r items w) = ww_flushWaiters w" "ww_buffer (settle_records r items w) = ww_buffer w"
  by (simp_all add: setHealth_def setBackpressured_def note_durable_def settle_records_def Let_def)

lemma settles_waiters: "settles w (settleFlushWaiters w)"
  by (auto simp: settles_def core_of_control settleFlushWaiters_def settle_waiters_def)

lemma settles_at [simp]: "settles w (w'\<lparr>ww_at := p\<rparr>) = settles w w'"
  by (simp add: settles_def)

lemma settles_top: "settles w (loop_top w)" "settles w (enter_flush w)"
  by (simp_all add: loop_top_def enter_flush_def loop_idle_def settles_waiters)

lemma settles_landed: "settles w (batch_landed b w)"
proof -
  have split: "pending_acks (take (bt_count b) (ww_buffer w)) @ pending_acks (drop (bt_count b) (ww_buffer w)) = pending_acks (ww_buffer w)"
    unfolding pending_acks_def by (metis append_take_drop_id filter_append map_append)
  have "set (ww_flushAcks w) \<subseteq> set (ww_flushAcks (batch_landed b w))
     \<and> (\<forall>t \<in> set (ww_flushWaiters w). t \<in> set (ww_flushWaiters (batch_landed b w)) \<or> (t, None) \<in> set (ww_flushAcks (batch_landed b w)))"
    by (auto simp: batch_landed_def settleFlushWaiters_def settle_waiters_def core_of_control Let_def)
  then show ?thesis using batch_landed_core [of b w] split by (simp add: settles_def core_def pending_acks_def)
qed

lemma settles_batch: "settles w (take_batch ep w)"
  by (simp add: settles_def take_batch_def Let_def)

fun awaits_to_go :: "LoopPoint \<Rightarrow> nat" where
  "awaits_to_go (Committing b) = 1"
| "awaits_to_go (Putting b) = 2"
| "awaits_to_go Fencing = 3"
| "awaits_to_go Lingering = 4"
| "awaits_to_go p = 5"

definition work_left :: "WalWriter \<Rightarrow> nat" where
  "work_left w = 6 * length (ww_buffer w) + awaits_to_go (ww_at w)"

definition writer_ok :: "WalWriter \<Rightarrow> bool" where
  "writer_ok w \<longleftrightarrow> wal_wf w
     \<and> (\<forall>b. in_flight w = Some b \<longrightarrow> (\<exists>t i. ws_key (bt_ref b) = segment_key (ww_prefix w) t i))"

lemma take_batch_named:
  "\<exists>b t i. ww_at (take_batch e w) = Putting b \<and> ws_key (bt_ref b) = segment_key (ww_prefix w) t i"
  "ww_prefix (take_batch e w) = ww_prefix w"
  by (auto simp: take_batch_def Let_def)

lemma flush_landed_prefix: "ww_prefix (flush_landed b w) = ww_prefix w"
  using batch_landed_core [of b w] by (simp add: flush_landed_def core_of_control core_def Let_def)

lemma named_cong:
  assumes "writer_ok w" "wal_wf w'" "ww_prefix w' = ww_prefix w" "ww_at w' = ww_at w \<or> in_flight w' = None"
  shows "writer_ok w'"
proof (cases "in_flight w' = None")
  case False
  then have "in_flight w' = in_flight w" using assms(4) by (auto simp: in_flight_def)
  with assms show ?thesis by (simp add: writer_ok_def)
qed (use assms(2) in \<open>simp add: writer_ok_def\<close>)

lemma resume_named:
  assumes "writer_ok w" "resume d now (s, ms, w) = (s', ms', w')"
  shows "writer_ok w' \<and> ww_prefix w' = ww_prefix w"
proof -
  have wf: "wal_wf w'" using assms resume_wf by (auto simp: writer_ok_def)
  have quick: ?thesis if "ww_prefix w' = ww_prefix w" "in_flight w' = None" using that named_cong [OF assms(1) wf] by blast
  show ?thesis
  proof (cases "ww_at w")
    case Fencing
    have "w' = onFlushError e w \<Longrightarrow> ?thesis" for e using quick by (simp add: onFlushError_keeps)
    moreover have ?thesis if tb: "w' = take_batch e w" for e
    proof -
      obtain b t i where "ww_at w' = Putting b" "ws_key (bt_ref b) = segment_key (ww_prefix w) t i"
        using take_batch_named(1) [of e w, folded tb] by (elim exE conjE)
      with wf take_batch_named(2) [of e w] tb show ?thesis by (simp add: writer_ok_def in_flight_def) blast
    qed
    ultimately show ?thesis using assms(2) Fencing by (auto simp: resume_def split: prod.splits sum.splits)
  next
    case (Putting b)
    have "w' = onFlushError e w \<Longrightarrow> ?thesis" for e using quick by (simp add: onFlushError_keeps)
    moreover have "w' = w\<lparr>ww_at := Committing b\<rparr> \<Longrightarrow> ?thesis"
      using wf assms(1) Putting by (auto simp: writer_ok_def in_flight_def)
    ultimately show ?thesis using assms(2) Putting by (auto simp: resume_def split: prod.splits sum.splits)
  next
    case (Committing b)
    have "w' = onFlushError e w \<Longrightarrow> ?thesis" for e using quick by (simp add: onFlushError_keeps)
    moreover have "w' = flush_landed b w \<Longrightarrow> ?thesis" using quick by (simp add: flush_landed_prefix)
    ultimately show ?thesis using assms(2) Committing by (auto simp: resume_def split: prod.splits sum.splits)
  qed (use assms quick in \<open>auto simp: resume_def core_of_control\<close>)
qed

lemma event_named:
  assumes "writer_ok w" "wal_event d ev (s, ms, w, h) = (s', ms', w', h')"
  shows "writer_ok w' \<and> ww_prefix w' = ww_prefix w"
proof -
  have wf: "wal_wf w" using assms(1) by (simp add: writer_ok_def)
  note keep = named_cong [OF assms(1)]
  show ?thesis
  proof (cases ev)
    case (Submit r)
    obtain q u where q: "wal_enqueue r w = (q, u)" by fastforce
    have "ww_prefix u = ww_prefix w" using enqueue_core [OF q] by (cases q) (auto dest: coreD simp: core_def)
    with keep [OF enqueue_wf [OF wf q]] enqueue_core [OF q] assms(2) q Submit show ?thesis
      by (auto split: sum.splits)
  next
    case AskFlush
    with keep [OF flush_wf [OF wf] _ flush_at] coreD(10) [OF core_control(12)] assms(2) show ?thesis by auto
  next
    case AskStop
    have "ww_prefix (wal_stop w) = ww_prefix w" by (simp add: wal_stop_def wake_def Let_def)
    with keep [OF stop_wf [OF wf] _ core_of_stop] assms(2) AskStop show ?thesis by auto
  next
    case StopOver
    have "ww_prefix (wal_stop_end w) = ww_prefix w" "ww_at (wal_stop_end w) = ww_at w"
      by (simp_all add: wal_stop_end_def settle_waiters_def)
    with keep [OF stop_end_wf [OF wf]] assms(2) StopOver show ?thesis by auto
  next
    case (LoopRuns now)
    with resume_named [OF assms(1), of d now s ms s' ms' w'] assms(2) show ?thesis by (auto split: prod.splits)
  qed (use assms in \<open>auto split: prod.splits\<close>)
qed

definition draining :: "string \<Rightarrow> string \<Rightarrow> Network \<times> ManifestStore \<times> WalWriter \<Rightarrow> bool" where
  "draining mk me x = (case x of (n, ms, w) \<Rightarrow>
     quiet mk me (\<lambda>k. False) n ms \<and> writer_ok w \<and> ww_running w \<and> ww_terminal w = None \<and> ww_prefix w @ MANIFEST_KEY = mk)"

lemma quiet_segment:
  assumes "quiet mk me (\<lambda>k. False) n ms" "k \<noteq> mk"
  obtains e t where "od_put (quiet_driver mk sz) k b unconditional n = (Inr e, t)" "quiet mk me (\<lambda>k. False) t ms"
proof -
  have n: "network_ok {Delivered} mk me (\<lambda>k. False) n" "nw_script n = []" "lineage mk (nw_trace n)"
      "store_inv mk me (\<lambda>k. False) (nw_trace n) ms"
    using assms(1) by (simp_all add: quiet_def)
  obtain r t where p: "od_put (quiet_driver mk sz) k b unconditional n = (r, t)" by fastforce
  then have p': "network_put mk True no_faults k b unconditional n = (r, t)" by (simp add: network_selectors)
  have "meets unconditional (current (nw_trace n) k)" by (simp add: meets_def)
  with quiet_put [OF ok_coherent [OF n(1)] n(2), of unconditional _ k mk b] p' obtain e where e: "r = Inr e" "nw_script t = []" by auto
  have g: "sure.grew mk me (\<lambda>k. False) n t" using sure.put_other_grew [OF n(1) p assms(2)] by simp
  have "quiet mk me (\<lambda>k. False) t ms"
    using assms(1) e(2) sure.grew_ok [OF g] sure.grew_lineage [OF g n(3)] sure.grew_inv [OF g n(4)] by (simp add: quiet_def)
  with p e(1) that show ?thesis by blast
qed

text \<open>One resumption: progress.\<close>

lemma top_progress:
  assumes "ww_running w" "5 \<le> awaits_to_go (ww_at w) \<or> length (ww_buffer w') < length (ww_buffer w)"
    and "ww_running w'" "length (ww_buffer w') \<le> length (ww_buffer w)" "ww_buffer w' \<noteq> []"
  shows "work_left (loop_top w') < work_left w"
  using assms by (auto simp: work_left_def core_of_control loop_top_def enter_flush_def)

definition step_on :: "string \<Rightarrow> string \<Rightarrow> WalWriter \<Rightarrow> Network \<times> ManifestStore \<times> WalWriter \<Rightarrow> bool" where
  "step_on mk me w x \<longleftrightarrow> draining mk me x
     \<and> (case x of (n', ms', w') \<Rightarrow> settles w w' \<and> (ww_buffer w' = [] \<or> work_left w' < work_left w))"

lemma drain_step:
  assumes "draining mk me (n, ms, w)" "ww_buffer w \<noteq> []"
  shows "step_on mk me w (resume (quiet_driver mk sz) now (n, ms, w))"
proof -
  let ?d = "quiet_driver mk sz"
  have q: "quiet mk me (\<lambda>k. False) n ms" and ok: "writer_ok w" and wf: "wal_wf w" and run: "ww_running w" "ww_terminal w = None"
    and pfx: "ww_prefix w @ MANIFEST_KEY = mk"
    using assms(1) by (simp_all add: draining_def writer_ok_def)
  have wf': "writer_ok w' \<and> ww_prefix w' = ww_prefix w" if "resume ?d now (n, ms, w) = (n', ms', w')" for n' ms' w'
    using resume_named [OF ok that] .
  have top: ?thesis if "resume ?d now (n, ms, w) = (n, ms, loop_top w)" "5 \<le> awaits_to_go (ww_at w)"
    using that wf' [OF that(1)] q run pfx settles_top(1) top_progress [of w w] assms(2)
    by (simp add: step_on_def draining_def core_of_control)
  show ?thesis
  proof (cases "ww_at w")
    case Lingering
    then have r: "resume ?d now (n, ms, w) = (n, ms, enter_flush w)" by (simp add: resume_def)
    have "work_left (enter_flush w) < work_left w"
      using assms(2) Lingering by (simp add: enter_flush_def work_left_def)
    with r wf' [OF r] q run pfx settles_top(2) show ?thesis by (simp add: step_on_def draining_def core_of_control)
  next
    case Fencing
    have "ensureWriter ?d now n ms = (Inr (), n, ms)" using q by (simp add: ensureWriter_def quiet_def)
    with Fencing have r: "resume ?d now (n, ms, w) = (n, ms, take_batch (ms_leaseEpoch ms) w)" by (simp add: resume_def)
    have "work_left (take_batch (ms_leaseEpoch ms) w) < work_left w"
      using Fencing by (simp add: take_batch_def work_left_def Let_def)
    moreover have "ww_running (take_batch e w) = ww_running w" "ww_terminal (take_batch e w) = ww_terminal w"
        "ww_prefix (take_batch e w) = ww_prefix w" for e by (simp_all add: take_batch_def Let_def)
    ultimately show ?thesis
      using r wf' [OF r] q run pfx settles_batch by (simp add: step_on_def draining_def)
  next
    case (Putting b)
    have "\<exists>t i. ws_key (bt_ref b) = segment_key (ww_prefix w) t i"
      using ok Putting by (simp add: writer_ok_def in_flight_def)
    then have "ws_key (bt_ref b) \<noteq> mk" using pfx segment_not_manifest by metis
    then obtain e t where p: "od_put ?d (ws_key (bt_ref b)) (encodeSegment (bt_records b)) unconditional n = (Inr e, t)"
        "quiet mk me (\<lambda>k. False) t ms"
      using quiet_segment [OF q] by metis
    with Putting have r: "resume ?d now (n, ms, w) = (t, ms, w\<lparr>ww_at := Committing b\<rparr>)" by (simp add: resume_def)
    with p(2) wf' [OF r] run pfx Putting show ?thesis by (simp add: step_on_def draining_def work_left_def)
  next
    case (Committing b)
    obtain m t ms' where c: "commit ?d now (push_segment (bt_ref b)) n ms = (Inr m, t, ms')" "quiet mk me (\<lambda>k. False) t ms'"
      using quiet_commit [OF q push_segment_tame] by metis
    with Committing have r: "resume ?d now (n, ms, w) = (t, ms', flush_landed b w)" by (simp add: resume_def)
    have b: "0 < bt_count b" using wf Committing by (simp add: wal_wf_def batch_in_def)
    let ?l = "batch_landed b w"
    have l: "ww_running ?l" "ww_terminal ?l = None" "ww_prefix ?l = ww_prefix w" "ww_buffer ?l = drop (bt_count b) (ww_buffer w)"
      using batch_landed_core [of b w] batch_landed_fields [of b w] run by (simp_all add: core_def)
    have "settles w (flush_landed b w)"
      using settles_landed settles_trans [OF settles_landed settles_top(1)] by (simp add: flush_landed_def Let_def)
    moreover have "length (ww_buffer (flush_landed b w)) < length (ww_buffer w)"
      using b assms(2) l(4) by (simp add: flush_landed_def core_of_control Let_def)
    moreover have "awaits_to_go (ww_at (flush_landed b w)) \<le> 5" by (cases "ww_at (flush_landed b w)") simp_all
    ultimately have "settles w (flush_landed b w)" "work_left (flush_landed b w) < work_left w"
      using Committing by (simp_all add: work_left_def)
    moreover have "ww_running (flush_landed b w)" "ww_terminal (flush_landed b w) = None" "ww_prefix (flush_landed b w) = ww_prefix w"
      using l by (simp_all add: flush_landed_def core_of_control Let_def)
    ultimately show ?thesis using r wf' [OF r] c(2) pfx by (simp add: step_on_def draining_def)
  qed (use wf run assms(2) top in \<open>auto simp: wal_wf_def resume_def\<close>)
qed

definition emptied :: "string \<Rightarrow> string \<Rightarrow> WalWriter \<Rightarrow> Network \<times> ManifestStore \<times> WalWriter \<Rightarrow> bool" where
  "emptied mk me w x \<longleftrightarrow> draining mk me x \<and> (case x of (n', ms', w') \<Rightarrow> settles w w' \<and> ww_buffer w' = [])"

lemma emptied_trans: "settles w w1 \<Longrightarrow> emptied mk me w1 x \<Longrightarrow> emptied mk me w x"
  using settles_trans by (cases x) (auto simp: emptied_def)

lemma drains:
  assumes "draining mk me (n, ms, w)"
  shows "\<exists>k \<le> work_left w. emptied mk me w ((resume (quiet_driver mk sz) now ^^ k) (n, ms, w))"
  using assms
proof (induction "work_left w" arbitrary: n ms w rule: less_induct)
  case less
  show ?case
  proof (cases "ww_buffer w = []")
    case True
    with less.prems show ?thesis by (intro exI [where x = 0]) (simp add: emptied_def)
  next
    case False
    obtain n1 ms1 w1 where r: "resume (quiet_driver mk sz) now (n, ms, w) = (n1, ms1, w1)" by (metis prod_cases3)
    have s: "draining mk me (n1, ms1, w1)" "settles w w1" "ww_buffer w1 = [] \<or> work_left w1 < work_left w"
      using drain_step [OF less.prems False, of sz now] r by (simp_all add: step_on_def)
    have again: "(resume (quiet_driver mk sz) now ^^ Suc k) (n, ms, w) = (resume (quiet_driver mk sz) now ^^ k) (n1, ms1, w1)" for k
      using r by (simp only: funpow_Suc_right comp_apply)
    show ?thesis
    proof (cases "ww_buffer w1 = []")
      case True
      then have "emptied mk me w ((resume (quiet_driver mk sz) now ^^ Suc 0) (n, ms, w))"
        using s(1,2) unfolding again by (simp add: emptied_def)
      moreover have "Suc 0 \<le> work_left w" using False by (cases "ww_buffer w") (simp_all add: work_left_def)
      ultimately show ?thesis by blast
    next
      case False
      then have lt: "work_left w1 < work_left w" using s(3) by blast
      from less.hyps [OF lt s(1)] obtain k where k: "k \<le> work_left w1"
          "emptied mk me w1 ((resume (quiet_driver mk sz) now ^^ k) (n1, ms1, w1))" by blast
      have "emptied mk me w ((resume (quiet_driver mk sz) now ^^ Suc k) (n, ms, w))"
        unfolding again by (rule emptied_trans [OF s(2) k(2)])
      moreover have "Suc k \<le> work_left w" using k(1) lt by simp
      ultimately show ?thesis by blast
    qed
  qed
qed

lemma new_writer_ok: "writer_ok (new_wal_writer batch durability concurrency me room cb)"
  by (simp add: writer_ok_def wal_wf_def in_flight_def new_wal_writer_def)

lemma run_named:
  assumes "wal_run d mine x y" "x = (s, ms, w, h)" "writer_ok w" "y = (s', ms', w', h')"
  shows "writer_ok w' \<and> ww_prefix w' = ww_prefix w"
  using assms
proof (induction arbitrary: s' ms' w' h' rule: wal_run.induct)
  case (step y ev)
  obtain s1 ms1 w1 h1 where y: "y = (s1, ms1, w1, h1)" by (metis prod_cases4)
  have "writer_ok w1 \<and> ww_prefix w1 = ww_prefix w" using step.IH [OF step.prems(1,2) y] .
  with event_named [of w1 d ev s1 ms1 h1 s' ms' w' h'] step.prems(3) y show ?case by simp
qed simp


definition outage_run :: "Network wal_system" where
  "outage_run = fold (wal_event (network_driver ''rooms/r/_manifest'' True (\<lambda>b. 0) (fails_at 1)))
     [Submit (row_record ''1'' ''h1''), LoopRuns 0, LoopRuns 0, LoopRuns 0, AskFlush]
     (new_system ''a'' (new_network []))"


end
