(* ===== verification/Object_Adapter.thy ===== *)
theory Object_Adapter
  imports Wal
begin

text \<open>
  \<open>src/server/storage/object/index.ts\<close>: the storage adapter of a room over an object store. It
  composes the state in memory, the manifest and the log writer. A method takes and returns the
  driver's state and the adapter; \<open>now\<close> is what the clock reads while it runs. A method runs to its
  end before the next method of the same adapter starts; other processes act inside the driver.
\<close>

section \<open>Configuration\<close>

record CompactionConfig =
  cc_afterSegments :: nat
  cc_afterBytes :: nat
  cc_gcGraceMs :: int

record BatchOverrides =
  bo_maxBytes :: "nat option"
  bo_minLingerMs :: "nat option"
  bo_maxBufferBytes :: "nat option"
  bo_onBackpressure :: "BackpressurePolicy option"

record CompactionOverrides =
  co_afterSegments :: "nat option"
  co_afterBytes :: "nat option"
  co_gcGraceMs :: "int option"

record LeaseOverrides =
  lo_ttlMs :: "int option"
  lo_renewMs :: "int option"
  lo_mode :: "LeaseMode option"

text \<open>A limit of \<open>None\<close> is \<open>Infinity\<close>, so an override of a limit is an option of an option.\<close>

record MemoryOverrides =
  mo_maxTotalBytes :: "int option option"
  mo_maxRoomBytes :: "int option option"
  mo_onExceeded :: "MemoryPolicy option"
  mo_idleEvictMs :: "int option"

record ObjectStorageConfig =
  os_roomId :: string
  os_writerId :: "string option"
  os_durability :: "DurabilityMode option"
  os_retentionMs :: "int option option"
  os_concurrency :: "ConcurrencyMode option"
  os_batch :: "BatchOverrides option"
  os_compaction :: "CompactionOverrides option"
  os_lease :: "LeaseOverrides option"
  os_memory :: "MemoryOverrides option"
  os_shutdownFlushMs :: "int option"

record ResolvedConfig =
  rc_roomId :: string
  rc_writerId :: string
  rc_durability :: DurabilityMode
  rc_retentionMs :: "int option"
  rc_concurrency :: ConcurrencyMode
  rc_batch :: BatchConfig
  rc_compaction :: CompactionConfig
  rc_lease :: LeaseConfig
  rc_memory :: MemoryConfig
  rc_shutdownFlushMs :: int

definition COMPACTION_DEFAULTS :: CompactionConfig where
  "COMPACTION_DEFAULTS = \<lparr>cc_afterSegments = 200, cc_afterBytes = 64 * 1024 * 1024, cc_gcGraceMs = 60 * 60 * 1000\<rparr>"

definition MEMORY_DEFAULTS :: MemoryConfig where
  "MEMORY_DEFAULTS = \<lparr>mc_maxTotalBytes = None, mc_maxRoomBytes = None, mc_onExceeded = RejectPolicy,
     mc_idleEvictMs = 5 * 60 * 1000\<rparr>"

definition SHUTDOWN_FLUSH_MS :: int where
  "SHUTDOWN_FLUSH_MS = 5000"

definition override :: "'a \<Rightarrow> 'a option \<Rightarrow> 'a" where
  "override d x = (case x of None \<Rightarrow> d | Some v \<Rightarrow> v)"

definition override_batch :: "BatchConfig \<Rightarrow> BatchOverrides option \<Rightarrow> BatchConfig" where
  "override_batch d x = (case x of None \<Rightarrow> d | Some b \<Rightarrow>
     \<lparr>ba_maxBytes = override (ba_maxBytes d) (bo_maxBytes b), ba_minLingerMs = override (ba_minLingerMs d) (bo_minLingerMs b),
      ba_maxBufferBytes = override (ba_maxBufferBytes d) (bo_maxBufferBytes b),
      ba_onBackpressure = override (ba_onBackpressure d) (bo_onBackpressure b)\<rparr>)"

definition override_compaction :: "CompactionConfig \<Rightarrow> CompactionOverrides option \<Rightarrow> CompactionConfig" where
  "override_compaction d x = (case x of None \<Rightarrow> d | Some c \<Rightarrow>
     \<lparr>cc_afterSegments = override (cc_afterSegments d) (co_afterSegments c),
      cc_afterBytes = override (cc_afterBytes d) (co_afterBytes c), cc_gcGraceMs = override (cc_gcGraceMs d) (co_gcGraceMs c)\<rparr>)"

definition override_lease :: "LeaseConfig \<Rightarrow> LeaseOverrides option \<Rightarrow> LeaseConfig" where
  "override_lease d x = (case x of None \<Rightarrow> d | Some l \<Rightarrow>
     \<lparr>lc_ttlMs = override (lc_ttlMs d) (lo_ttlMs l), lc_renewMs = override (lc_renewMs d) (lo_renewMs l),
      lc_mode = override (lc_mode d) (lo_mode l)\<rparr>)"

definition override_memory :: "MemoryConfig \<Rightarrow> MemoryOverrides option \<Rightarrow> MemoryConfig" where
  "override_memory d x = (case x of None \<Rightarrow> d | Some m \<Rightarrow>
     \<lparr>mc_maxTotalBytes = override (mc_maxTotalBytes d) (mo_maxTotalBytes m),
      mc_maxRoomBytes = override (mc_maxRoomBytes d) (mo_maxRoomBytes m),
      mc_onExceeded = override (mc_onExceeded d) (mo_onExceeded m), mc_idleEvictMs = override (mc_idleEvictMs d) (mo_idleEvictMs m)\<rparr>)"

text \<open>\<open>random\<close> is the id \<open>crypto.randomUUID()\<close> makes.\<close>

definition resolveObjectStorageConfig :: "string \<Rightarrow> ObjectStorageConfig \<Rightarrow> ResolvedConfig" where
  "resolveObjectStorageConfig random c =
     \<lparr>rc_roomId = os_roomId c, rc_writerId = override (''writer-'' @ random) (os_writerId c),
      rc_durability = override Durable (os_durability c), rc_retentionMs = override None (os_retentionMs c),
      rc_concurrency = override SingleWriter (os_concurrency c),
      rc_batch = override_batch BATCH_DEFAULTS (os_batch c),
      rc_compaction = override_compaction COMPACTION_DEFAULTS (os_compaction c),
      rc_lease = override_lease LEASE_DEFAULTS (os_lease c),
      rc_memory = override_memory MEMORY_DEFAULTS (os_memory c),
      rc_shutdownFlushMs = override SHUTDOWN_FLUSH_MS (os_shutdownFlushMs c)\<rparr>"

section \<open>The adapter\<close>

datatype AdapterError =
    OfStore StoreError
  | OfState StateError
  | SegmentMissing string string
  | IncompleteState string string
  | AdapterClosed string
  | TwoDrivers
  | NoDriver

text \<open>\<open>createS3Driver\<close> drives a service outside the repository and is an argument.\<close>

definition resolveDriver :: "('store \<Rightarrow> 'd) \<Rightarrow> 'd option \<Rightarrow> 'store option \<Rightarrow> AdapterError + 'd" where
  "resolveDriver createS3Driver driver store =
     (case (driver, store) of
        (Some d, Some s) \<Rightarrow> Inl TwoDrivers
      | (Some d, None) \<Rightarrow> Inr d
      | (None, Some s) \<Rightarrow> Inr (createS3Driver s)
      | (None, None) \<Rightarrow> Inl NoDriver)"

text \<open>\<open>oa_booted\<close>: the cached promise of a boot that succeeded; a failed one is not cached.\<close>

record ObjectStorage =
  oa_config :: ResolvedConfig
  oa_state :: RoomState
  oa_manifest :: ManifestStore
  oa_wal :: WalWriter
  oa_snapshotSeq :: nat
  oa_appliedSegments :: "string list"
  oa_appliedSnapshotKey :: "string option"
  oa_closed :: bool
  oa_booted :: bool

definition createObjectStorage :: "ResolvedConfig \<Rightarrow> ProcessMemoryBudget \<Rightarrow> ObjectStorage" where
  "createObjectStorage c budget =
     \<lparr>oa_config = c, oa_state = new_room_state (rc_memory c) budget,
      oa_manifest = new_manifest_store (rc_roomId c) (rc_writerId c) (rc_lease c) (rc_concurrency c),
      oa_wal = new_wal_writer (rc_batch c) (rc_durability c) (rc_concurrency c) (rc_writerId c) (rc_roomId c) True,
      oa_snapshotSeq = 0, oa_appliedSegments = [], oa_appliedSnapshotKey = None, oa_closed = False, oa_booted = False\<rparr>"

type_synonym ('s, 'a) adapter = "'s \<times> ObjectStorage \<Rightarrow> (AdapterError + 'a) \<times> 's \<times> ObjectStorage"

definition ret :: "'a \<Rightarrow> ('s, 'a) adapter" where
  "ret a x = (Inr a, x)"

definition raise_error :: "AdapterError \<Rightarrow> ('s, 'a) adapter" where
  "raise_error e x = (Inl e, x)"

definition bind_adapter :: "('s, 'a) adapter \<Rightarrow> ('a \<Rightarrow> ('s, 'b) adapter) \<Rightarrow> ('s, 'b) adapter" where
  "bind_adapter m f x = (case m x of (Inl e, y) \<Rightarrow> (Inl e, y) | (Inr a, y) \<Rightarrow> f a y)"

definition reads_adapter :: "(ObjectStorage \<Rightarrow> 'a) \<Rightarrow> ('s, 'a) adapter" where
  "reads_adapter f x = (Inr (f (snd x)), x)"

definition update_adapter :: "(ObjectStorage \<Rightarrow> ObjectStorage) \<Rightarrow> ('s, unit) adapter" where
  "update_adapter f x = (case x of (s, a) \<Rightarrow> (Inr (), s, f a))"

definition on_state :: "'a effect \<Rightarrow> ('s, 'a) adapter" where
  "on_state m x = (case x of (s, a) \<Rightarrow>
     (case m (oa_state a) of
        (Inl e, st) \<Rightarrow> (Inl (OfState e), s, a\<lparr>oa_state := st\<rparr>)
      | (Inr v, st) \<Rightarrow> (Inr v, s, a\<lparr>oa_state := st\<rparr>)))"

definition on_manifest ::
  "('s \<Rightarrow> ManifestStore \<Rightarrow> (StoreError + 'a) \<times> 's \<times> ManifestStore) \<Rightarrow> ('s, 'a) adapter" where
  "on_manifest m x = (case x of (s, a) \<Rightarrow>
     (case m s (oa_manifest a) of
        (Inl e, t, ms) \<Rightarrow> (Inl (OfStore e), t, a\<lparr>oa_manifest := ms\<rparr>)
      | (Inr v, t, ms) \<Rightarrow> (Inr v, t, a\<lparr>oa_manifest := ms\<rparr>)))"

definition on_driver :: "('s \<Rightarrow> (StoreError + 'a) \<times> 's) \<Rightarrow> ('s, 'a) adapter" where
  "on_driver m x = (case x of (s, a) \<Rightarrow>
     (case m s of (Inl e, t) \<Rightarrow> (Inl (OfStore e), t, a) | (Inr v, t) \<Rightarrow> (Inr v, t, a)))"

definition on_wal :: "(WalWriter \<Rightarrow> (StoreError + 'a) \<times> WalWriter) \<Rightarrow> ('s, 'a) adapter" where
  "on_wal m x = (case x of (s, a) \<Rightarrow>
     (case m (oa_wal a) of
        (Inl e, w) \<Rightarrow> (Inl (OfStore e), s, a\<lparr>oa_wal := w\<rparr>)
      | (Inr v, w) \<Rightarrow> (Inr v, s, a\<lparr>oa_wal := w\<rparr>)))"

definition sum_value :: "StoreError + 'a \<Rightarrow> ('s, 'a) adapter" where
  "sum_value v = (case v of Inl e \<Rightarrow> raise_error (OfStore e) | Inr a \<Rightarrow> ret a)"

fun each_adapter :: "('a \<Rightarrow> ('s, unit) adapter) \<Rightarrow> 'a list \<Rightarrow> ('s, unit) adapter" where
  "each_adapter f [] = ret ()"
| "each_adapter f (x # xs) = bind_adapter (f x) (\<lambda>_. each_adapter f xs)"

section \<open>Boot\<close>

definition isOwnSegment :: "ObjectStorage \<Rightarrow> string \<Rightarrow> bool" where
  "isOwnSegment a key \<longleftrightarrow> rc_concurrency (oa_config a) = Optimistic
     \<and> starts_with_key (roomPrefix (rc_roomId (oa_config a)) @ ''wal/'' @ rc_writerId (oa_config a) @ ''-'') key"

definition applySegment :: "'s ObjectDriver \<Rightarrow> int \<Rightarrow> string \<Rightarrow> ('s, unit) adapter" where
  "applySegment d now key =
     bind_adapter (on_driver (od_get d key)) (\<lambda>object.
       case object of
         None \<Rightarrow> bind_adapter (reads_adapter (rc_roomId \<circ> oa_config)) (\<lambda>room. raise_error (SegmentMissing key room))
       | Some r \<Rightarrow> bind_adapter (sum_value (decodeSegment (or_body r) key)) (\<lambda>rs. on_state (applyRecords now rs)))"

definition decode_snapshot :: "Body \<Rightarrow> string \<Rightarrow> StoreError + SnapshotRecord" where
  "decode_snapshot body key = (case body of SnapshotBody sn \<Rightarrow> Inr sn | _ \<Rightarrow> Inl (NotJson key))"

definition loadSnapshotObject :: "'s ObjectDriver \<Rightarrow> int \<Rightarrow> string \<Rightarrow> ('s, unit) adapter" where
  "loadSnapshotObject d now key =
     bind_adapter (on_driver (od_get d key)) (\<lambda>object.
       case object of
         None \<Rightarrow> bind_adapter (reads_adapter (rc_roomId \<circ> oa_config)) (\<lambda>room. raise_error (IncompleteState room key))
       | Some r \<Rightarrow> bind_adapter (sum_value (decode_snapshot (or_body r) key)) (\<lambda>sn. on_state (loadSnapshot now sn)))"

definition boot :: "'s ObjectDriver \<Rightarrow> int \<Rightarrow> ('s, unit) adapter" where
  "boot d now =
     bind_adapter (on_manifest (\<lambda>s ms. case manifest_init d s ms of (r, t) \<Rightarrow> (r, t, ms))) (\<lambda>_.
     bind_adapter (on_manifest (manifest_load d)) (\<lambda>m.
     bind_adapter (on_state (modify (loadMeta (mf_meta m)))) (\<lambda>_.
     bind_adapter
       (if falsy_str (mf_snapshotKey m) then ret ()
        else bind_adapter (loadSnapshotObject d now (the (mf_snapshotKey m))) (\<lambda>_.
          update_adapter (\<lambda>a. a\<lparr>oa_appliedSnapshotKey := mf_snapshotKey m\<rparr>))) (\<lambda>_.
     bind_adapter (each_adapter (applySegment d now) (map ws_key (mf_walSegs m))) (\<lambda>_.
     bind_adapter (update_adapter (\<lambda>a. a\<lparr>oa_appliedSegments := map ws_key (mf_walSegs m)\<rparr>)) (\<lambda>_.
     on_manifest (manifest_start d now)))))))"

definition ready :: "'s ObjectDriver \<Rightarrow> int \<Rightarrow> ('s, unit) adapter" where
  "ready d now x =
     (if oa_booted (snd x) then (Inr (), x)
      else bind_adapter (boot d now) (\<lambda>_. update_adapter (\<lambda>a. a\<lparr>oa_booted := True\<rparr>)) x)"

definition assertOpen :: "('s, unit) adapter" where
  "assertOpen x =
     (if oa_closed (snd x) then raise_error (AdapterClosed (rc_roomId (oa_config (snd x)))) x else ret () x)"

section \<open>The write path\<close>

definition submit :: "WalRecord \<Rightarrow> unit effect \<Rightarrow> ('s, Promise) adapter" where
  "submit r mutate =
     bind_adapter (on_wal (wal_prepare r)) (\<lambda>prepared.
     bind_adapter (on_state mutate) (\<lambda>_.
     on_wal (wal_append prepared)))"

text \<open>The promise is dropped, and so is an error of \<open>prepare\<close> or \<open>append\<close>.\<close>

definition persistReservations :: "int \<Rightarrow> string list \<Rightarrow> ('s, unit) adapter" where
  "persistReservations now ids x =
     (case on_wal (wal_enqueue (ReserveRecord ids now)) x of (r, y) \<Rightarrow> (Inr (), y))"

definition adapter_putRow ::
  "'s ObjectDriver \<Rightarrow> int \<Rightarrow> string \<Rightarrow> string \<Rightarrow> row option \<Rightarrow> clocks \<Rightarrow> string \<Rightarrow> ('s, Promise) adapter" where
  "adapter_putRow d now table rowId row cc hlc =
     bind_adapter (ready d now) (\<lambda>_. bind_adapter assertOpen (\<lambda>_.
       submit (RowRecord \<lparr>wm_table = table, wm_rowId = rowId, wm_row = row, wm_colClocks = cc, wm_hlc = hlc\<rparr>)
         (state_putRow table rowId row cc hlc)))"

definition adapter_appendOp :: "'s ObjectDriver \<Rightarrow> int \<Rightarrow> OpLogEntry \<Rightarrow> ('s, Promise) adapter" where
  "adapter_appendOp d now entry =
     bind_adapter (ready d now) (\<lambda>_. bind_adapter assertOpen (\<lambda>_. submit (OpRecord entry) (appendOp entry)))"

definition adapter_applyOp ::
  "'s ObjectDriver \<Rightarrow> int \<Rightarrow> string \<Rightarrow> string \<Rightarrow> row option \<Rightarrow> clocks \<Rightarrow> string \<Rightarrow> string \<Rightarrow> row option
     \<Rightarrow> ('s, Promise) adapter" where
  "adapter_applyOp d now table rowId row cc hlc opType payload =
     (let m = \<lparr>wm_table = table, wm_rowId = rowId, wm_row = row, wm_colClocks = cc, wm_hlc = hlc\<rparr>;
          op = \<lparr>ol_table = table, ol_op = opType, ol_rowId = rowId, ol_payload = payload, ol_hlc = hlc, ol_colClocks = cc\<rparr>
      in bind_adapter (ready d now) (\<lambda>_. bind_adapter assertOpen (\<lambda>_.
         bind_adapter (on_state (assertCanAdmitApply m (Some op))) (\<lambda>_.
         submit (ApplyRecord m op) (and_then (state_putRow table rowId row cc hlc) (\<lambda>_. appendOp op))))))"

definition adapter_reserveOp :: "'s ObjectDriver \<Rightarrow> int \<Rightarrow> string \<Rightarrow> ('s, bool) adapter" where
  "adapter_reserveOp d now opId =
     bind_adapter (ready d now) (\<lambda>_. bind_adapter (on_state (reserveOp now opId)) (\<lambda>fresh.
       if fresh then bind_adapter (persistReservations now [opId]) (\<lambda>_. ret fresh) else ret fresh))"

definition adapter_reserveOps :: "'s ObjectDriver \<Rightarrow> int \<Rightarrow> string list \<Rightarrow> ('s, string list) adapter" where
  "adapter_reserveOps d now opIds =
     bind_adapter (ready d now) (\<lambda>_. bind_adapter (on_state (reserveOps now opIds)) (\<lambda>fresh.
       if fresh \<noteq> [] then bind_adapter (persistReservations now fresh) (\<lambda>_. ret fresh) else ret fresh))"

definition put_meta :: "string \<Rightarrow> string \<Rightarrow> ManifestRecord \<Rightarrow> ManifestRecord" where
  "put_meta k v m = m\<lparr>mf_meta := obj_put k v (mf_meta m)\<rparr>"

definition adapter_setMeta :: "'s ObjectDriver \<Rightarrow> int \<Rightarrow> string \<Rightarrow> string \<Rightarrow> ('s, unit) adapter" where
  "adapter_setMeta d now k v =
     bind_adapter (ready d now) (\<lambda>_. bind_adapter assertOpen (\<lambda>_.
     bind_adapter (on_state (modify (setMeta k v))) (\<lambda>_.
     bind_adapter (on_manifest (commit d now (put_meta k v))) (\<lambda>_. ret ()))))"

section \<open>Reads\<close>

definition adapter_read :: "'s ObjectDriver \<Rightarrow> int \<Rightarrow> (RoomState \<Rightarrow> 'a) \<Rightarrow> ('s, 'a) adapter" where
  "adapter_read d now f = bind_adapter (ready d now) (\<lambda>_. reads_adapter (f \<circ> oa_state))"

definition adapter_getRowsByIds :: "'s ObjectDriver \<Rightarrow> int \<Rightarrow> string \<Rightarrow> string list \<Rightarrow> ('s, ExistingRow jsobj) adapter" where
  "adapter_getRowsByIds d now table rowIds =
     adapter_read d now (\<lambda>st. if rowIds = [] then [] else state_getRowsByIds st table rowIds)"

definition adapter_deleteOpsBefore :: "'s ObjectDriver \<Rightarrow> int \<Rightarrow> string \<Rightarrow> ('s, nat) adapter" where
  "adapter_deleteOpsBefore d now hlc = bind_adapter (ready d now) (\<lambda>_. on_state (deleteOpsBefore hlc))"

section \<open>Compaction and garbage collection\<close>

definition compaction_due :: "CompactionConfig \<Rightarrow> ManifestRecord \<Rightarrow> bool" where
  "compaction_due c m \<longleftrightarrow>
     \<not> (length (mf_walSegs m) < cc_afterSegments c \<and> sum_list (map ws_bytes (mf_walSegs m)) < cc_afterBytes c)"

definition raise_cutoff :: "string option \<Rightarrow> string jsobj \<Rightarrow> string jsobj" where
  "raise_cutoff cutoff meta =
     (if \<not> falsy_str cutoff
         \<and> (falsy_str (obj_get meta ''compactionCutoff'') \<or> the (obj_get meta ''compactionCutoff'') < the cutoff)
      then obj_put ''compactionCutoff'' (the cutoff) meta else meta)"

definition publish_snapshot :: "string \<Rightarrow> SnapshotRecord \<Rightarrow> int \<Rightarrow> ManifestRecord \<Rightarrow> ManifestRecord" where
  "publish_snapshot key snapshot deletableAt m =
     m\<lparr>mf_pendingGc := mf_pendingGc m @ map (\<lambda>seg. (ws_key seg, deletableAt)) (mf_walSegs m)
         @ (if falsy_str (mf_snapshotKey m) then [] else [(the (mf_snapshotKey m), deletableAt)]),
       mf_walSegs := [], mf_snapshotKey := Some key, mf_snapshotHlc := sn_hlc snapshot,
       mf_meta := raise_cutoff (sn_hlc snapshot) (mf_meta m)\<rparr>"

definition snapshot_token :: "ObjectStorage \<Rightarrow> string" where
  "snapshot_token a =
     (if rc_concurrency (oa_config a) = Optimistic then rc_writerId (oa_config a)
      else int_str (ms_leaseEpoch (oa_manifest a)))"

definition snapshot_key :: "ObjectStorage \<Rightarrow> string" where
  "snapshot_key a = roomPrefix (rc_roomId (oa_config a)) @ ''snap/'' @ snapshot_token a @ ''-''
     @ nat_str (oa_snapshotSeq a) @ ''.json''"

definition note_cutoff :: "string option \<Rightarrow> RoomState \<Rightarrow> RoomState" where
  "note_cutoff cutoff st = (if falsy_str cutoff then st else setMeta ''compactionCutoff'' (the cutoff) st)"

definition compactIfDue :: "'s ObjectDriver \<Rightarrow> int \<Rightarrow> ('s, unit) adapter" where
  "compactIfDue d now x =
     (let a = snd x in
      if \<not> compaction_due (rc_compaction (oa_config a)) (ms_cached (oa_manifest a)) then (Inr (), x)
      else let snapshot = toSnapshot now (oa_state a); key = snapshot_key a;
               deletableAt = now + cc_gcGraceMs (rc_compaction (oa_config a))
        in bind_adapter (update_adapter (\<lambda>a. a\<lparr>oa_snapshotSeq := oa_snapshotSeq a + 1\<rparr>)) (\<lambda>_.
           bind_adapter (on_driver (od_put d key (SnapshotBody snapshot) unconditional)) (\<lambda>_.
           bind_adapter (on_manifest (commit d now (publish_snapshot key snapshot deletableAt))) (\<lambda>committed.
           bind_adapter (on_state (modify (note_cutoff (obj_get (mf_meta committed) ''compactionCutoff'')))) (\<lambda>_.
           update_adapter (\<lambda>a. a\<lparr>oa_appliedSegments := [], oa_appliedSnapshotKey := Some key\<rparr>))))) x)"

definition live_keys :: "ManifestRecord \<Rightarrow> string list" where
  "live_keys m = (if falsy_str (mf_snapshotKey m) then [] else [the (mf_snapshotKey m)]) @ map ws_key (mf_walSegs m)"

definition deletable_keys :: "int \<Rightarrow> ManifestRecord \<Rightarrow> string list" where
  "deletable_keys now m =
     map fst (filter (\<lambda>(k, at). k \<notin> set (live_keys m)) (filter (\<lambda>(k, at). at \<le> now) (mf_pendingGc m)))"

definition forget_deleted :: "int \<Rightarrow> ManifestRecord \<Rightarrow> ManifestRecord" where
  "forget_deleted now m = m\<lparr>mf_pendingGc := filter (\<lambda>(k, at). at > now) (mf_pendingGc m)\<rparr>"

definition collectGarbage :: "'s ObjectDriver \<Rightarrow> int \<Rightarrow> ('s, unit) adapter" where
  "collectGarbage d now x =
     (let m = ms_cached (oa_manifest (snd x))
      in if filter (\<lambda>(k, at). at \<le> now) (mf_pendingGc m) = [] then (Inr (), x)
         else bind_adapter
           (if deletable_keys now m \<noteq> [] then on_driver (od_delete d (deletable_keys now m)) else ret ()) (\<lambda>_.
           bind_adapter (on_manifest (commit d now (forget_deleted now))) (\<lambda>_. ret ())) x)"

definition maintain :: "'s ObjectDriver \<Rightarrow> int \<Rightarrow> ('s, unit) adapter" where
  "maintain d now = bind_adapter (compactIfDue d now) (\<lambda>_. collectGarbage d now)"

text \<open>The flush loop is resumed; \<open>onCommitted\<close> is \<open>maintain\<close>, and its error is swallowed.\<close>

definition adapter_loop :: "'s ObjectDriver \<Rightarrow> int \<Rightarrow> 's \<times> ObjectStorage \<Rightarrow> 's \<times> ObjectStorage" where
  "adapter_loop d now x =
     (case (if ww_at (oa_wal (snd x)) = Maintaining then snd (maintain d now x) else x) of (s, a) \<Rightarrow>
        (case resume d now (s, oa_manifest a, oa_wal a) of (t, ms, w) \<Rightarrow>
           (t, a\<lparr>oa_manifest := ms, oa_wal := w\<rparr>)))"

section \<open>Catching up\<close>

definition rebuild :: "'s ObjectDriver \<Rightarrow> int \<Rightarrow> ManifestRecord \<Rightarrow> ('s, bool) adapter" where
  "rebuild d now m =
     bind_adapter (loadSnapshotObject d now (the (mf_snapshotKey m))) (\<lambda>_.
     bind_adapter (on_state (modify (loadMeta (mf_meta m)))) (\<lambda>_.
     bind_adapter (update_adapter (\<lambda>a. a\<lparr>oa_appliedSnapshotKey := mf_snapshotKey m, oa_appliedSegments := []\<rparr>)) (\<lambda>_.
     bind_adapter (each_adapter (\<lambda>k. bind_adapter (applySegment d now k)
         (\<lambda>_. update_adapter (\<lambda>a. a\<lparr>oa_appliedSegments := set_add k (oa_appliedSegments a)\<rparr>))) (map ws_key (mf_walSegs m))) (\<lambda>_.
     ret True))))"

fun apply_unseen :: "'s ObjectDriver \<Rightarrow> int \<Rightarrow> string list \<Rightarrow> bool \<Rightarrow> ('s, bool) adapter" where
  "apply_unseen d now [] applied = ret applied"
| "apply_unseen d now (k # ks) applied =
     bind_adapter (reads_adapter (\<lambda>a. k \<in> set (oa_appliedSegments a) \<or> isOwnSegment a k)) (\<lambda>known.
       if known then apply_unseen d now ks applied
       else bind_adapter (applySegment d now k) (\<lambda>_.
            bind_adapter (update_adapter (\<lambda>a. a\<lparr>oa_appliedSegments := set_add k (oa_appliedSegments a)\<rparr>)) (\<lambda>_.
            apply_unseen d now ks True)))"

definition adapter_refresh :: "'s ObjectDriver \<Rightarrow> int \<Rightarrow> ('s, bool) adapter" where
  "adapter_refresh d now x =
     (if rc_concurrency (oa_config (snd x)) \<noteq> Optimistic then (Inr False, x)
      else bind_adapter (ready d now) (\<lambda>_. bind_adapter (on_manifest (manifest_refresh d)) (\<lambda>m.
        bind_adapter (reads_adapter oa_appliedSnapshotKey) (\<lambda>seen.
        if \<not> falsy_str (mf_snapshotKey m) \<and> mf_snapshotKey m \<noteq> seen then rebuild d now m
        else bind_adapter (apply_unseen d now (map ws_key (mf_walSegs m)) False) (\<lambda>applied.
          bind_adapter (if applied then on_state (modify (loadMeta (mf_meta m))) else ret ()) (\<lambda>_. ret applied))))) x)"

section \<open>Flush and close\<close>

definition adapter_flush :: "'s ObjectDriver \<Rightarrow> int \<Rightarrow> ('s, Promise) adapter" where
  "adapter_flush d now = bind_adapter (ready d now) (\<lambda>_ x. case x of (s, a) \<Rightarrow>
     (case wal_flush (oa_wal a) of (p, w) \<Rightarrow> (Inr p, s, a\<lparr>oa_wal := w\<rparr>)))"

text \<open>\<open>close\<close>, cut at its two waits for the log, which a timeout bounds: the drain, the stop, the end.\<close>

definition close_drain :: "'s \<times> ObjectStorage \<Rightarrow> Promise \<times> 's \<times> ObjectStorage" where
  "close_drain x = (case x of (s, a) \<Rightarrow>
     (case wal_flush (oa_wal a) of (p, w) \<Rightarrow> (p, s, a\<lparr>oa_closed := True, oa_wal := w\<rparr>)))"

definition close_stop :: "'s \<times> ObjectStorage \<Rightarrow> 's \<times> ObjectStorage" where
  "close_stop x = (case x of (s, a) \<Rightarrow> (s, a\<lparr>oa_wal := wal_stop (oa_wal a)\<rparr>))"

text \<open>The release is waited for up to a timeout; a failure of it is only logged.\<close>

definition close_end :: "'s ObjectDriver \<Rightarrow> 's \<times> ObjectStorage \<Rightarrow> 's \<times> ObjectStorage" where
  "close_end d x = (case x of (s, a) \<Rightarrow>
     (let a = a\<lparr>oa_wal := wal_stop_end (oa_wal a), oa_manifest := manifest_stop (oa_manifest a)\<rparr>
      in case release d s (oa_manifest a) of (r, t, ms) \<Rightarrow>
           (t, a\<lparr>oa_manifest := ms, oa_state := snd (dispose (oa_state a))\<rparr>)))"

end
