(* ===== verification/Object_Adapter_Facts.thy ===== *)
theory Object_Adapter_Facts
  imports Object_Adapter Wal_Facts Room_State_Facts
begin

text \<open>
  What an instance serves after its boot: the rows of one version of the manifest, which the trace of
  the store determines. The last section runs the adapter where it loses writes: a compaction that
  drops segments it never read, a refresh that forgets a write still buffered, and a boot retried.
\<close>

section \<open>The room an object store holds\<close>

text \<open>The body last written under a key, erased or not.\<close>

fun content :: "Event list \<Rightarrow> string \<Rightarrow> Body option" where
  "content [] k = None"
| "content (Wrote j b e # tr) k = (if j = k then Some b else content tr k)"
| "content (Erased ks # tr) k = content tr k"

definition write_once :: "Event list \<Rightarrow> string \<Rightarrow> bool" where
  "write_once tr k \<longleftrightarrow> (\<forall>b e b' e'. Wrote k b e \<in> set tr \<longrightarrow> Wrote k b' e' \<in> set tr \<longrightarrow> b' = b)"

definition records_at :: "Event list \<Rightarrow> string \<Rightarrow> WalRecord list" where
  "records_at tr k = (case content tr k of Some (SegmentBody rs) \<Rightarrow> rs | _ \<Rightarrow> [])"

definition snapshot_at :: "Event list \<Rightarrow> string \<Rightarrow> row_view" where
  "snapshot_at tr k =
     (case content tr k of Some (SnapshotBody sn) \<Rightarrow> overwrite (snapshot_updates (sn_rows sn)) (\<lambda>k. None) | _ \<Rightarrow> (\<lambda>k. None))"

text \<open>The rows of a manifest: its snapshot, and its segments in order over it.\<close>

definition durable_view :: "Event list \<Rightarrow> ManifestRecord \<Rightarrow> row_view" where
  "durable_view tr m =
     overwrite (updates (concat (map (records_at tr \<circ> ws_key) (mf_walSegs m))))
       (if falsy_str (mf_snapshotKey m) then (\<lambda>k. None) else snapshot_at tr (the (mf_snapshotKey m)))"

lemma content_written: "content tr k = Some b \<Longrightarrow> \<exists>e. Wrote k b e \<in> set tr"
  by (induction tr k rule: content.induct) (auto split: if_splits)

lemma written_content: "Wrote k b e \<in> set tr \<Longrightarrow> content tr k \<noteq> None"
  by (induction tr k rule: content.induct) auto

lemma content_fixed: "write_once tr k \<Longrightarrow> Wrote k b e \<in> set tr \<Longrightarrow> content tr k = Some b"
  using written_content [of k b e tr] content_written [of tr k] unfolding write_once_def by blast

lemma updates_append: "updates (xs @ ys) = updates xs @ updates ys"
  by (simp add: updates_def)

section \<open>The steps of a method\<close>

lemma bind_Inr:
  "bind_adapter m f x = (Inr b, z) \<longleftrightarrow> (\<exists>a y. m x = (Inr a, y) \<and> f a y = (Inr b, z))"
  by (auto simp: bind_adapter_def split: prod.splits sum.splits)

lemma adapter_simps:
  "ret u x = (Inr b, y) \<longleftrightarrow> b = u \<and> y = x" "raise_error e x \<noteq> (Inr b, y)"
  "reads_adapter f (s, a) = (Inr v, t, a') \<longleftrightarrow> v = f a \<and> t = s \<and> a' = a"
  "update_adapter f' (s, a) = (Inr (), t, a') \<longleftrightarrow> t = s \<and> a' = f' a"
  by (auto simp: ret_def raise_error_def reads_adapter_def update_adapter_def)

lemma on_state_Inr:
  "on_state m (s, a) = (Inr v, t, a') \<longleftrightarrow> (\<exists>st. m (oa_state a) = (Inr v, st) \<and> t = s \<and> a' = a\<lparr>oa_state := st\<rparr>)"
  by (auto simp: on_state_def split: prod.splits sum.splits)

lemma on_manifest_Inr:
  "on_manifest m (s, a) = (Inr v, t, a') \<longleftrightarrow>
     (\<exists>ms. m s (oa_manifest a) = (Inr v, t, ms) \<and> a' = a\<lparr>oa_manifest := ms\<rparr>)"
  by (auto simp: on_manifest_def split: prod.splits sum.splits)

lemma on_driver_Inr: "on_driver m (s, a) = (Inr v, t, a') \<longleftrightarrow> m s = (Inr v, t) \<and> a' = a"
  by (auto simp: on_driver_def split: prod.splits sum.splits)

lemma sum_value_Inr: "sum_value v (s, a) = (Inr u, t, a') \<longleftrightarrow> v = Inr u \<and> t = s \<and> a' = a"
  by (auto simp: sum_value_def adapter_simps split: sum.splits)

lemmas adapter_steps = bind_Inr adapter_simps on_state_Inr on_manifest_Inr on_driver_Inr sum_value_Inr

section \<open>Boot\<close>

context object_store
begin

definition later :: "'s \<Rightarrow> 's \<Rightarrow> bool" where
  "later s t \<longleftrightarrow> ok t \<and> (\<exists>evs. trace t = evs @ trace s)"

lemma later_refl: "ok s \<Longrightarrow> later s s"
  by (simp add: later_def)

lemma later_trans: "later s t \<Longrightarrow> later t u \<Longrightarrow> later s u"
  unfolding later_def by (metis append.assoc)

lemma later_ok: "later s t \<Longrightarrow> ok t"
  by (simp add: later_def)

lemma get_later: "ok s \<Longrightarrow> od_get d k s = (r, t) \<Longrightarrow> later s t"
  using got [of s k r t] by (auto simp: later_def)

lemma put_later: "ok s \<Longrightarrow> od_put d k b opts s = (r, t) \<Longrightarrow> later s t"
  using put_applied [of s k b opts _ t] put_rejected [of s k b opts _ t] by (cases r) (auto simp: later_def)

lemma get_content:
  assumes "ok s" "od_get d k s = (Inr (Some r), t)" "later t u" "write_once (trace u) k"
  shows "content (trace u) k = Some (or_body r)"
proof -
  have "current (trace t) k = Some r" using got [OF assms(1,2)] by simp
  then have "Wrote k (or_body r) (or_etag r) \<in> set (trace u)"
    using assms(3) current_etag by (fastforce simp: later_def)
  then show ?thesis by (rule content_fixed [OF assms(4)])
qed

lemma applySegment_step:
  assumes "ok s" "applySegment d now k (s, a) = (Inr (), t, a')" "later t u" "write_once (trace u) k"
  shows "later s t \<and> a' = a\<lparr>oa_state := oa_state a'\<rparr>
    \<and> view (oa_state a') = overwrite (updates (records_at (trace u) k)) (view (oa_state a))"
proof -
  from assms(2) obtain r rs st where r: "od_get d k s = (Inr (Some r), t)" "decodeSegment (or_body r) k = Inr rs"
      "applyRecords now rs (oa_state a) = (Inr (), st)" "a' = a\<lparr>oa_state := st\<rparr>"
    by (auto simp: applySegment_def adapter_steps split: option.splits)
  have "records_at (trace u) k = rs"
    using get_content [OF assms(1) r(1) assms(3,4)] r(2)
    by (auto simp: records_at_def decodeSegment_def split: Body.splits)
  with applyRecords_view [OF r(3)] get_later [OF assms(1) r(1)] r(4) show ?thesis by simp
qed

lemma segments_later:
  "ok s \<Longrightarrow> each_adapter (applySegment d now) ks (s, a) = (Inr (), t, a') \<Longrightarrow> later s t"
proof (induction ks arbitrary: s a)
  case (Cons k ks)
  then obtain s1 a1 where s1: "applySegment d now k (s, a) = (Inr (), s1, a1)"
      "each_adapter (applySegment d now) ks (s1, a1) = (Inr (), t, a')" by (auto simp: adapter_steps)
  from s1(1) obtain r where "od_get d k s = (Inr r, s1)"
    by (auto simp: applySegment_def adapter_steps split: option.splits)
  with get_later Cons.prems(1) have "later s s1" by blast
  with Cons.IH [OF later_ok s1(2)] show ?case using later_trans by blast
qed (simp add: adapter_steps later_refl)

lemma segments_step:
  assumes "ok s" "each_adapter (applySegment d now) ks (s, a) = (Inr (), t, a')" "later t u"
    and "\<forall>k \<in> set ks. write_once (trace u) k"
  shows "a' = a\<lparr>oa_state := oa_state a'\<rparr>
    \<and> view (oa_state a') = overwrite (updates (concat (map (records_at (trace u)) ks))) (view (oa_state a))"
  using assms
proof (induction ks arbitrary: s a)
  case (Cons k ks)
  then obtain s1 a1 where s1: "applySegment d now k (s, a) = (Inr (), s1, a1)"
      "each_adapter (applySegment d now) ks (s1, a1) = (Inr (), t, a')" by (auto simp: adapter_steps)
  from s1(1) obtain r where "od_get d k s = (Inr r, s1)"
    by (auto simp: applySegment_def adapter_steps split: option.splits)
  with get_later Cons.prems(1) have s_s1: "later s s1" by blast
  have "later s1 u" using segments_later [OF later_ok [OF s_s1] s1(2)] Cons.prems(3) later_trans by blast
  note one = applySegment_step [OF Cons.prems(1) s1(1) this]
  note rest = Cons.IH [OF later_ok [OF s_s1] s1(2) Cons.prems(3)]
  have "view (oa_state a') = overwrite (updates (concat (map (records_at (trace u)) ks)))
      (overwrite (updates (records_at (trace u) k)) (view (oa_state a)))"
    using one rest Cons.prems(4) by simp
  moreover have "a' = a\<lparr>oa_state := oa_state a'\<rparr>"
    using one rest Cons.prems(4) by (cases a, cases a1, cases a') simp
  ultimately show ?case by (simp add: updates_append flip: overwrite_append)
qed (simp add: adapter_steps updates_def)

lemma loadSnapshotObject_step:
  assumes "ok s" "loadSnapshotObject d now k (s, a) = (Inr (), t, a')" "0 \<le> rs_roomBytes (oa_state a)"
  shows "later s t \<and> a' = a\<lparr>oa_state := oa_state a'\<rparr>
    \<and> (later t u \<longrightarrow> write_once (trace u) k \<longrightarrow> view (oa_state a') = snapshot_at (trace u) k)"
proof -
  from assms(2) obtain r sn st where r: "od_get d k s = (Inr (Some r), t)" "decode_snapshot (or_body r) k = Inr sn"
      "loadSnapshot now sn (oa_state a) = (Inr (), st)" "a' = a\<lparr>oa_state := st\<rparr>"
    by (auto simp: loadSnapshotObject_def adapter_steps split: option.splits)
  have "snapshot_at (trace u) k = overwrite (snapshot_updates (sn_rows sn)) (\<lambda>k. None)"
    if "later t u" "write_once (trace u) k"
    using get_content [OF assms(1) r(1) that] r(2)
    by (auto simp: snapshot_at_def decode_snapshot_def split: Body.splits)
  with loadSnapshot_view(1) [OF r(3) assms(3)] get_later [OF assms(1) r(1)] r(4) show ?thesis by simp
qed

lemma seed_later: "ok s \<Longrightarrow> seed_if_absent d k b s = (r, t) \<Longrightarrow> later s t"
  by (auto simp: seed_if_absent_def split: prod.splits sum.splits option.splits
      dest: get_later put_later intro: later_trans [OF get_later put_later] later_ok)


lemma put_after: "later s u \<Longrightarrow> od_put d k b opts u = (r, t) \<Longrightarrow> later s t"
  using put_later later_trans later_ok by blast

lemma seed_after: "later s u \<Longrightarrow> seed_if_absent d k b u = (r, t) \<Longrightarrow> later s t"
  using seed_later later_trans later_ok by blast

lemma init_later: "ok s \<Longrightarrow> manifest_init d s ms = (r, t) \<Longrightarrow> later s t"
  by (auto simp: manifest_init_def later_refl split: if_splits prod.splits sum.splits
      dest: seed_later intro: seed_after)

lemma load_reads:
  assumes "ok s" "manifest_load d s ms = (Inr m, t, ms')"
  shows "later s t" "m = manifest_of (current (trace t) (ms_manifestKey ms))"
proof -
  from assms(2) obtain x where x: "od_get d (ms_manifestKey ms) s = (Inr x, t)"
    by (auto simp: manifest_load_def split: prod.splits sum.splits option.splits)
  from get_later [OF assms(1) x] show "later s t" .
  have "x = current (trace t) (ms_manifestKey ms)" using got [OF assms(1) x] by simp
  with assms(2) x show "m = manifest_of (current (trace t) (ms_manifestKey ms))"
    by (auto simp: manifest_load_def manifest_of_def decodeManifest_def
        split: prod.splits sum.splits option.splits Body.splits)
qed

lemma start_later: "ok s \<Longrightarrow> manifest_start d now s ms = (r, t, ms') \<Longrightarrow> later s t"
  by (auto simp: manifest_start_def acquire_def read_lease_def take_lease_def put_with_def Let_def later_refl
      split: if_splits prod.splits sum.splits option.splits
      dest: get_later intro: put_after)

text \<open>A boot that returns has the rows of a version that was current while it ran.\<close>

lemma boot_restores:
  assumes "ok s" "boot d now (s, a) = (Inr (), t, a')" "oa_state a = new_room_state c b"
    and once: "\<And>k. k \<noteq> ms_manifestKey (oa_manifest a) \<Longrightarrow> k \<noteq> ms_leaseKey (oa_manifest a) \<Longrightarrow> write_once (trace t) k"
    and names: "\<And>tr evs k. trace t = evs @ tr \<Longrightarrow>
      k \<in> set (live_keys (manifest_of (current tr (ms_manifestKey (oa_manifest a))))) \<Longrightarrow>
      k \<noteq> ms_manifestKey (oa_manifest a) \<and> k \<noteq> ms_leaseKey (oa_manifest a)"
  shows "ok t \<and> (\<exists>newer older. trace t = newer @ older @ trace s
    \<and> view (oa_state a') = durable_view (trace t) (manifest_of (current (older @ trace s) (ms_manifestKey (oa_manifest a)))))"
proof -
  let ?mk = "ms_manifestKey (oa_manifest a)"
  from assms(2) obtain s1 a1 s2 m a2 s3 a3 s4 a4 s5 a5 a6 where
      i: "on_manifest (\<lambda>s ms. case manifest_init d s ms of (r, t) \<Rightarrow> (r, t, ms)) (s, a) = (Inr (), s1, a1)"
    and l: "on_manifest (manifest_load d) (s1, a1) = (Inr m, s2, a2)"
    and u: "on_state (modify (loadMeta (mf_meta m))) (s2, a2) = (Inr (), s3, a3)"
    and sn: "(if falsy_str (mf_snapshotKey m) then ret ()
        else bind_adapter (loadSnapshotObject d now (the (mf_snapshotKey m))) (\<lambda>_.
          update_adapter (\<lambda>a. a\<lparr>oa_appliedSnapshotKey := mf_snapshotKey m\<rparr>))) (s3, a3) = (Inr (), s4, a4)"
    and sg: "each_adapter (applySegment d now) (map ws_key (mf_walSegs m)) (s4, a4) = (Inr (), s5, a5)"
    and e: "on_manifest (manifest_start d now) (s5, a6) = (Inr (), t, a')"
    and a6: "a6 = a5\<lparr>oa_appliedSegments := map ws_key (mf_walSegs m)\<rparr>"
    by (auto simp: boot_def bind_Inr adapter_simps)
  from i have a1: "a1 = a" and s1: "later s s1" using init_later [OF assms(1)]
    by (auto simp: on_manifest_Inr split: prod.splits)
  from l a1 obtain ms where ms: "manifest_load d s1 (oa_manifest a) = (Inr m, s2, ms)" "a2 = a\<lparr>oa_manifest := ms\<rparr>"
    by (auto simp: on_manifest_Inr)
  note m = load_reads [OF later_ok [OF s1] ms(1)]
  from u ms(2) have a3: "s3 = s2" "oa_state a3 = loadMeta (mf_meta m) (oa_state a)"
    by (auto simp: on_state_Inr modify_def)
  have empty: "view (oa_state a3) = (\<lambda>k. None)" "0 \<le> rs_roomBytes (oa_state a3)"
    by (simp_all add: a3 assms(3) loadMeta_def new_room_state_def view_def entry_of_def get_map_def fun_eq_iff)
  have s4: "later s3 s4"
    using sn loadSnapshotObject_step [OF later_ok [OF m(1)] _ empty(2)] a3(1) m(1)
    by (auto simp: adapter_steps intro: later_refl later_ok split: if_splits)
  have s5: "later s4 s5" by (rule segments_later [OF later_ok [OF s4] sg])
  have t: "later s5 t" using e start_later [OF later_ok [OF s5]] by (auto simp: on_manifest_Inr)
  have a': "oa_state a' = oa_state a5" using e a6 by (auto simp: on_manifest_Inr)
  have s2t: "later s2 t" using s4 s5 t a3(1) later_trans by blast
  then obtain newer where newer: "trace t = newer @ trace s2" by (auto simp: later_def)
  have live: "write_once (trace t) k" if "k \<in> set (live_keys m)" for k
    using names [OF newer] that m(2) once by simp
  have "view (oa_state a4) = (if falsy_str (mf_snapshotKey m) then (\<lambda>k. None) else snapshot_at (trace t) (the (mf_snapshotKey m)))"
  proof (cases "falsy_str (mf_snapshotKey m)")
    case True
    with sn empty show ?thesis by (simp add: adapter_simps)
  next
    case False
    with sn obtain x where x: "loadSnapshotObject d now (the (mf_snapshotKey m)) (s3, a3) = (Inr (), s4, x)"
        "oa_state a4 = oa_state x" by (auto simp: adapter_steps)
    have "later s4 t" using s5 t later_trans by blast
    moreover have "write_once (trace t) (the (mf_snapshotKey m))" using live False by (simp add: live_keys_def)
    ultimately show ?thesis
      using loadSnapshotObject_step [OF _ x(1) empty(2)] later_ok [OF m(1)] a3(1) x(2) False by simp
  qed
  with segments_step [OF later_ok [OF s4] sg t] live
  have "view (oa_state a') = durable_view (trace t) m"
    by (simp add: a' durable_view_def live_keys_def comp_def)
  moreover have "later s s2" using s1 m(1) later_trans by blast
  ultimately show ?thesis using newer later_ok [OF t] m(2) unfolding later_def by metis
qed

end

interpretation booted: object_store "network_driver mk wc sz faults" nw_trace
  "network_ok {Delivered, Resent} mk me mine" "rival_event mk me mine" True
  for mk wc sz faults me mine
  using net.object_store_axioms [where lossy = True] by simp


section \<open>Runs that compute\<close>

definition tiny_config :: "string \<Rightarrow> ResolvedConfig" where
  "tiny_config w = \<lparr>rc_roomId = ''r'', rc_writerId = w, rc_durability = Durable, rc_retentionMs = None,
     rc_concurrency = Optimistic, rc_batch = \<lparr>ba_maxBytes = 1, ba_minLingerMs = 5, ba_maxBufferBytes = 200, ba_onBackpressure = RejectWrites\<rparr>,
     rc_compaction = \<lparr>cc_afterSegments = 2, cc_afterBytes = 200, cc_gcGraceMs = 0\<rparr>,
     rc_lease = LEASE_DEFAULTS, rc_memory = MEMORY_DEFAULTS, rc_shutdownFlushMs = 5000\<rparr>"

definition new_adapter :: "string \<Rightarrow> ObjectStorage" where
  "new_adapter w = createObjectStorage (tiny_config w) new_budget"

definition put_row :: "Network ObjectDriver \<Rightarrow> string \<Rightarrow> string \<Rightarrow> Network \<times> ObjectStorage \<Rightarrow> Network \<times> ObjectStorage" where
  "put_row d rid hlc x = snd (adapter_putRow d 0 ''t'' rid (Some [(''c'', Num 1)]) [] hlc x)"

definition rows_of :: "ObjectStorage \<Rightarrow> string list" where
  "rows_of a = map fst (get_map (rs_rows (oa_state a)) ''t'')"


definition rival_segment :: "string \<Rightarrow> WalRecord list \<Rightarrow> Rival list" where
  "rival_segment k rs = [RivalPut k (SegmentBody rs), RivalCommit ''a''
     (\<lambda>m. m\<lparr>mf_walSegs := mf_walSegs m @ [\<lparr>ws_key = k, ws_epoch = 0, ws_seq = 0, ws_bytes = 9, ws_maxHlc = []\<rparr>]\<rparr>)]"

text \<open>The conditions of the theorem, computed from a trace.\<close>

fun written_keys :: "Event list \<Rightarrow> string list" where
  "written_keys [] = []"
| "written_keys (Wrote k b e # tr) = k # written_keys tr"
| "written_keys (Erased ks # tr) = written_keys tr"

definition sound_trace :: "string \<Rightarrow> string \<Rightarrow> Event list \<Rightarrow> bool" where
  "sound_trace mk lk tr \<longleftrightarrow> distinct (filter (\<lambda>k. k \<noteq> mk \<and> k \<noteq> lk) (written_keys tr))
     \<and> list_all (\<lambda>ev. case ev of Wrote k (ManifestBody m) e \<Rightarrow>
         k = mk \<longrightarrow> mk \<notin> set (live_keys m) \<and> lk \<notin> set (live_keys m) | _ \<Rightarrow> True) tr"

lemma in_written: "Wrote k b e \<in> set tr \<Longrightarrow> k \<in> set (written_keys tr)"
  by (induction tr rule: written_keys.induct) auto

lemma distinct_once:
  "distinct (filter P (written_keys tr)) \<Longrightarrow> P k \<Longrightarrow> write_once tr k"
  by (induction tr rule: written_keys.induct) (auto simp: write_once_def dest: in_written split: if_splits)

lemma sound_traceD:
  assumes "sound_trace mk lk tr"
  shows "\<forall>k. k \<noteq> mk \<longrightarrow> k \<noteq> lk \<longrightarrow> write_once tr k"
    and "\<forall>m e. Wrote mk (ManifestBody m) e \<in> set tr \<longrightarrow> {mk, lk} \<inter> set (live_keys m) = {}"
  using assms distinct_once [of "\<lambda>k. k \<noteq> mk \<and> k \<noteq> lk" tr]
  by (auto simp: sound_trace_def list_all_iff dest: bspec)

text \<open>A snapshot and a segment over it; a rival lists another segment while the boot reads them.\<close>

definition boot_script :: "(Rival list \<times> Fate) list" where
  "boot_script =
     [([RivalPut ''p'' (SnapshotBody \<lparr>sn_hlc = None, sn_rows = [\<lparr>sr_table = ''t'', sr_rowId = ''1'', sr_row = [],
          sr_colClocks = [], sr_hlc = ''h0''\<rparr>], sn_reservedOps = []\<rparr>),
        RivalCommit ''a'' (\<lambda>m. m\<lparr>mf_snapshotKey := Some ''p''\<rparr>)] @ rival_segment ''s1'' [row_record ''2'' ''h1''], Delivered),
      (rival_segment ''s2'' [row_record ''1'' ''h2''], Delivered)]"

definition boot_run :: "(AdapterError + unit) \<times> Network \<times> ObjectStorage" where
  "boot_run = ready (network_driver ''rooms/r/_manifest'' True (\<lambda>b. 0) no_faults) 0
     (new_network boot_script, createObjectStorage (tiny_config ''b'') new_budget)"


section \<open>What loses writes\<close>

text \<open>A compaction publishes the local rows as the snapshot and lists no segment any more, those of
  other writers that it never read included.\<close>

definition compaction_race :: "Network \<times> ObjectStorage" where
  "compaction_race =
     (let d = network_driver ''rooms/r/_manifest'' True (\<lambda>b. 0) no_faults
      in (adapter_loop d 0 ^^ 5) (put_row d ''2'' ''h2'' (new_network [([], Delivered), (rival_segment ''s'' [row_record ''1'' ''h1''], Delivered)], new_adapter ''b'')))"

definition stored_room :: "Network \<Rightarrow> string list \<times> string list" where
  "stored_room n =
     (let m = manifest_of (current (nw_trace n) ''rooms/r/_manifest'')
      in (map ws_key (mf_walSegs m),
          case current (nw_trace n) (the (mf_snapshotKey m)) of
            Some r \<Rightarrow> (case or_body r of SnapshotBody sn \<Rightarrow> map sr_rowId (sn_rows sn) | _ \<Rightarrow> []) | None \<Rightarrow> []))"

lemma compaction_drops_unseen_segments:
  "case compaction_race of (n, b) \<Rightarrow> ww_acks (oa_wal b) = [(0, None)] \<and> stored_room n = ([], [''2''])"
  by code_simp

text \<open>After the compaction of another writer, a refresh replaces the rows by that snapshot. A write of
  the own that was not flushed is gone from memory; it reaches the log, and no later refresh reads it,
  since a segment of the own counts as known.\<close>

definition rival_compaction :: "Rival list" where
  "rival_compaction = [RivalPut ''p'' (SnapshotBody \<lparr>sn_hlc = None, sn_rows = [], sn_reservedOps = []\<rparr>),
     RivalCommit ''a'' (\<lambda>m. m\<lparr>mf_walSegs := [], mf_snapshotKey := Some ''p''\<rparr>)]"

definition refresh_race :: "(AdapterError + bool) \<times> Network \<times> ObjectStorage" where
  "refresh_race =
     (let d = network_driver ''rooms/r/_manifest'' True (\<lambda>b. 0) no_faults;
          x = put_row d ''2'' ''h2'' (new_network [([], Delivered), (rival_compaction, Delivered)], new_adapter ''b'')
      in adapter_refresh d 0 ((adapter_loop d 0 ^^ 5) (snd (adapter_refresh d 0 x))))"

lemma refresh_forgets_buffered_write:
  "case refresh_race of (r, n, b) \<Rightarrow> r = Inr False \<and> ww_acks (oa_wal b) = [(0, None)]
     \<and> stored_room n = ([''rooms/r/wal/b-0.jsonl''], []) \<and> rows_of b = []"
  by code_simp

text \<open>A boot that fails after a segment leaves its records in memory, and the boot after it appends
  the ops again.\<close>

definition retried_boot :: "(AdapterError + unit) \<times> Network \<times> ObjectStorage" where
  "retried_boot =
     (let d = network_driver ''rooms/r/_manifest'' True (\<lambda>b. 0) (fails_at 7);
          op = OpRecord \<lparr>ol_table = ''t'', ol_op = ''insert'', ol_rowId = ''1'', ol_payload = None, ol_hlc = ''h1'', ol_colClocks = []\<rparr>;
          script = [(rival_segment ''s1'' [op] @ rival_segment ''s2'' [], Delivered)]
      in ready d 0 (snd (ready d 0 (new_network script, new_adapter ''b''))))"

lemma retried_boot_repeats_ops:
  "case retried_boot of (r, n, b) \<Rightarrow> r = Inr () \<and> map op_hlc (rs_ops (oa_state b)) = [''h1'', ''h1'']"
  by code_simp

end
