(* ===== verification/Broadcast.thy ===== *)
theory Broadcast
  imports Session Result_Cache Enforcement Json_Size
begin

text \<open>
  \<open>src/server/broadcast-engine.ts\<close>: a write turned into deltas for each subscriber. Subscribers are
  grouped by what can change a result, the query runs once per group, and each client is sent the
  difference to what the result cache says it holds.

  What the engine calls is a record of functions over the world \<open>'w\<close> outside it: the application's
  database, the transport, the clock. Groups and their members run here one after the other; the
  other handlers that run while the frames of one client are in flight are the argument
  \<open>meanwhile\<close> of \<open>sendToSubscriber\<close>.
\<close>

section \<open>Deterministic JSON\<close>

definition lower_hex :: "nat \<Rightarrow> char" where
  "lower_hex n = char_of (if n < 10 then 48 + n else 87 + n)"

definition json_char :: "char \<Rightarrow> string" where
  "json_char c =
     (let n = of_char c :: nat
      in if n = 34 \<or> n = 92 then [CHR 0x5C, c]
         else if n = 8 then [CHR 0x5C, CHR ''b''] else if n = 9 then [CHR 0x5C, CHR ''t'']
         else if n = 10 then [CHR 0x5C, CHR ''n''] else if n = 12 then [CHR 0x5C, CHR ''f'']
         else if n = 13 then [CHR 0x5C, CHR ''r'']
         else if n < 32 then [CHR 0x5C, CHR ''u'', CHR ''0'', CHR ''0'', lower_hex (n div 16), lower_hex (n mod 16)]
         else [c])"

definition json_string :: "string \<Rightarrow> string" where
  "json_string s = CHR 0x22 # concat (map json_char s) @ [CHR 0x22]"

text \<open>\<open>toISOString\<close> of a date in range: the calendar of days since 1970.\<close>

definition civil :: "int \<Rightarrow> int \<times> int \<times> int" where
  "civil days =
     (let z = days + 719468; era = z div 146097; doe = z mod 146097;
          yoe = (doe - doe div 1460 + doe div 36524 - doe div 146096) div 365;
          doy = doe - (365 * yoe + yoe div 4 - yoe div 100);
          mp = (5 * doy + 2) div 153; month = (if mp < 10 then mp + 3 else mp - 9)
      in (yoe + era * 400 + (if month \<le> 2 then 1 else 0), month, doy - (153 * mp + 2) div 5 + 1))"

definition padded :: "nat \<Rightarrow> int \<Rightarrow> string" where
  "padded n i = pad_start n (nat_str (nat i))"

definition iso_string :: "int \<Rightarrow> string" where
  "iso_string d =
     (let (y, m, day) = civil (d div 86400000); t = d mod 86400000
      in (if 0 \<le> y \<and> y \<le> 9999 then padded 4 y else (if y < 0 then CHR ''-'' else CHR ''+'') # padded 6 \<bar>y\<bar>)
         @ ''-'' @ padded 2 m @ ''-'' @ padded 2 day @ ''T'' @ padded 2 (t div 3600000) @ '':''
         @ padded 2 (t div 60000 mod 60) @ '':'' @ padded 2 (t div 1000 mod 60) @ ''.'' @ padded 3 (t mod 1000) @ ''Z'')"

fun commas :: "string list \<Rightarrow> string" where
  "commas [] = []"
| "commas [x] = x"
| "commas (x # xs) = x @ CHR '','' # commas xs"

fun stableStringify :: "jsval \<Rightarrow> string"
  and stable_items :: "jsval list \<Rightarrow> string list"
  and stable_members :: "row \<Rightarrow> (string \<times> string) list" where
  "stableStringify Undefined = ''null''"
| "stableStringify Null = ''null''"
| "stableStringify (Bool b) = (if b then ''true'' else ''false'')"
| "stableStringify (Num n) = int_str n"
| "stableStringify NaN = ''null''"
| "stableStringify (Str s) = json_string s"
| "stableStringify (Date r d) = json_string (iso_string d)"
| "stableStringify (Arr r xs) = ''['' @ commas (stable_items xs) @ '']''"
| "stableStringify (Obj r f) =
     ''{'' @ commas (map (\<lambda>(k, t). json_string k @ '':'' @ t) (sort_key fst (stable_members f))) @ ''}''"
| "stable_items [] = []"
| "stable_items (x # xs) = stableStringify x # stable_items xs"
| "stable_members [] = []"
| "stable_members ((k, v) # f) =
     (if v = Undefined then stable_members f else (k, stableStringify v) # stable_members f)"

section \<open>Text columns\<close>

definition MIN_PATCH_LENGTH :: nat where
  "MIN_PATCH_LENGTH = 256"

definition hunks_value :: "(nat \<times> nat \<times> string) list \<Rightarrow> jsval" where
  "hunks_value hs = Arr 0 (map (\<lambda>(a, b, s). Arr 0 [Num (int a), Num (int b), Str s]) hs)"

definition patch_for :: "jsval \<Rightarrow> jsval \<Rightarrow> TextPatch option" where
  "patch_for prev nxt =
     (case (prev, nxt) of
        (Str p, Str n) \<Rightarrow>
          if length n < MIN_PATCH_LENGTH then None
          else let hunks = diffText p n
            in if the (json_len (hunks_value hunks)) * 2 > length n then None
               else Some \<lparr>pt_hunks = hunks, pt_hash = hash_string n\<rparr>
      | _ \<Rightarrow> None)"

definition patch_column ::
  "row \<Rightarrow> row \<Rightarrow> string \<Rightarrow> row \<times> TextPatch jsobj \<Rightarrow> row \<times> TextPatch jsobj" where
  "patch_column changed held column st =
     (case patch_for (get_prop held column) (get_prop changed column) of
        None \<Rightarrow> st
      | Some p \<Rightarrow> (obj_del column (fst st), obj_put column p (snd st)))"

definition patchTextColumns ::
  "row \<Rightarrow> row option \<Rightarrow> string list option \<Rightarrow> row \<times> TextPatch jsobj option" where
  "patchTextColumns changed held textColumns =
     (case (textColumns, held) of
        (Some cols, Some h) \<Rightarrow>
          (case fold (patch_column changed h) cols (changed, []) of
             (payload, patches) \<Rightarrow> (payload, if patches = [] then None else Some patches))
      | _ \<Rightarrow> (changed, None))"

section \<open>What the engine works on\<close>

type_synonym session = "QueryOptions ClientSession"
type_synonym subscription = "QueryOptions QuerySubscription"

text \<open>\<open>ResolvedOp\<close>, \<open>MutationContext\<close> and \<open>QueryRegistration\<close>. Callbacks are application code over the
  world; \<open>None\<close> of \<open>groupBy\<close>'s result is a throw. A value of \<open>serverSet\<close> may be a function.
  A pure function stands for one of \<open>serverSet\<close> and \<open>groupBy\<close>.\<close>

record ResolvedOp =
  ro_type :: OpType
  ro_table :: string
  ro_rowId :: string
  ro_payload :: "row option"
  ro_hlc :: string

record MutationContext =
  mx_auth :: AuthContext
  mx_params :: row

record 'w QueryRegistration =
  qr_name :: string
  qr_options :: QueryOptions
  qr_serverSet :: "(string \<times> (jsval + (MutationContext \<Rightarrow> jsval))) list option"
  qr_count :: bool
  qr_groupBy :: "(AuthContext option \<Rightarrow> row \<Rightarrow> string option) option"
  qr_authorize :: "(ResolvedOp \<Rightarrow> MutationContext \<Rightarrow> 'w \<Rightarrow> thrown option \<times> 'w) option"
  qr_mutate :: "(ResolvedOp \<Rightarrow> MutationContext \<Rightarrow> 'w \<Rightarrow> (thrown + string list) \<times> 'w) option"


text \<open>The error an event may carry is not kept.\<close>

datatype SyncEvent =
    ClientConnected string | ClientDisconnected string | AuthFailed string | MessageInvalid string string
  | OpsProcessed string int int | BootstrapEvent string int | ResumeEvent string int int | CompactionEvent int
  | EphemeralFull int | EphemeralRateLimited string | QueryError string string string | QueueOverflow string int
  | EagerFlushFailed string string

text \<open>An execution takes some milliseconds and gives rows or rejects; a send that rejects is \<open>False\<close>.\<close>

record 'w BroadcastDeps =
  bd_queries :: "(string, 'w QueryRegistration) jsmap"
  bd_tableDependencyIndex :: "(string, string list) jsmap"
  bd_send :: "string \<Rightarrow> ServerMessage \<Rightarrow> 'w \<Rightarrow> bool \<times> 'w"
  bd_executeQuery :: "'w QueryRegistration \<Rightarrow> session \<Rightarrow> int option \<Rightarrow> 'w \<Rightarrow> (int \<times> row list option) \<times> 'w"
  bd_countQuery :: "'w QueryRegistration \<Rightarrow> session \<Rightarrow> 'w \<Rightarrow> int option \<times> 'w"
  bd_nextHlc :: "'w \<Rightarrow> string \<times> 'w"
  bd_emit :: "SyncEvent \<Rightarrow> 'w \<Rightarrow> 'w"
  bd_queryTimeoutMs :: int
  bd_dateText :: "int \<Rightarrow> string"

text \<open>The session object of a connection is identified by the number of connects of its client id.\<close>

record 'w Engine =
  en_sessions :: "QueryOptions SessionManager"
  en_connects :: "string \<Rightarrow> nat"
  en_cache :: ResultCache
  en_world :: 'w

definition engine_connect :: "string \<Rightarrow> int \<Rightarrow> ('w, 'z) Engine_scheme \<Rightarrow> ('w, 'z) Engine_scheme" where
  "engine_connect c now e =
     e\<lparr>en_sessions := session_connect c now (en_sessions e), en_connects := (en_connects e)(c := en_connects e c + 1)\<rparr>"

section \<open>The writer's own rows\<close>

definition affected_queries :: "'w BroadcastDeps \<Rightarrow> string \<Rightarrow> string list" where
  "affected_queries d table = members (bd_tableDependencyIndex d) table"

definition on_cache :: "(ResultCache \<Rightarrow> ResultCache) \<Rightarrow> ('w, 'z) Engine_scheme \<Rightarrow> ('w, 'z) Engine_scheme" where
  "on_cache f e = e\<lparr>en_cache := f (en_cache e)\<rparr>"

definition forgetWriterRow ::
  "'w BroadcastDeps \<Rightarrow> string \<Rightarrow> string \<Rightarrow> string \<Rightarrow> ('w, 'z) Engine_scheme \<Rightarrow> ('w, 'z) Engine_scheme" where
  "forgetWriterRow d table c rowId = on_cache (fold (\<lambda>q. evictRow c q rowId) (affected_queries d table))"

definition clientViewRow :: "('w, 'z) Engine_scheme \<Rightarrow> string \<Rightarrow> string \<Rightarrow> string \<Rightarrow> row option" where
  "clientViewRow e q c rowId = map_get (cache_get (en_cache e) c q) rowId"

definition recordDeliveredRow ::
  "'w BroadcastDeps \<Rightarrow> string \<Rightarrow> string \<Rightarrow> string \<Rightarrow> row \<Rightarrow> ('w, 'z) Engine_scheme \<Rightarrow> ('w, 'z) Engine_scheme" where
  "recordDeliveredRow d table c rowId row = on_cache (fold (\<lambda>q. Result_Cache.putRow c q rowId row) (affected_queries d table))"

definition recordWriterColumns ::
  "'w BroadcastDeps \<Rightarrow> string \<Rightarrow> string \<Rightarrow> string \<Rightarrow> row \<Rightarrow> ('w, 'z) Engine_scheme \<Rightarrow> ('w, 'z) Engine_scheme" where
  "recordWriterColumns d table c rowId columns = on_cache (fold (\<lambda>q. patchRow c q rowId columns) (affected_queries d table))"

section \<open>Running a query\<close>

text \<open>The race with the timer: an execution that takes longer than the limit is a rejection.\<close>

definition executeWithTimeout ::
  "'w BroadcastDeps \<Rightarrow> 'w QueryRegistration \<Rightarrow> session \<Rightarrow> int option \<Rightarrow> 'w \<Rightarrow> row list option \<times> 'w" where
  "executeWithTimeout d reg s limit w =
     (case bd_executeQuery d reg s limit w of
        ((ms, r), w') \<Rightarrow> (if 0 < bd_queryTimeoutMs d \<and> bd_queryTimeoutMs d < ms then None else r, w'))"

section \<open>Groups\<close>

definition auth_value :: "AuthContext option \<Rightarrow> jsval" where
  "auth_value a = (case a of None \<Rightarrow> Null | Some x \<Rightarrow> Obj 0 ((''userId'', Str (au_userId x)) # au_fields x))"

definition room_value :: "string option \<Rightarrow> jsval" where
  "room_value k = (case k of None \<Rightarrow> Null | Some s \<Rightarrow> Str s)"

definition identity_value :: "session \<Rightarrow> subscription \<Rightarrow> jsval" where
  "identity_value s sub =
     Obj 0 [(''auth'', auth_value (cs_auth s)), (''params'', Obj 0 (qs_params sub)), (''roomKey'', room_value (qs_roomKey sub))]"

definition groupKeyFor :: "'w QueryRegistration \<Rightarrow> session \<Rightarrow> subscription \<Rightarrow> string" where
  "groupKeyFor reg s sub =
     (let own = stableStringify (identity_value s sub)
      in case qr_groupBy reg of
           None \<Rightarrow> own
         | Some g \<Rightarrow> (case g (cs_auth s) (qs_params sub) of
             None \<Rightarrow> own
           | Some k \<Rightarrow> ''custom:'' @ k @ ''|'' @ (case qs_roomKey sub of None \<Rightarrow> [] | Some r \<Rightarrow> r)))"

text \<open>The room to reach: an override wins, \<open>Some None\<close> being \<open>null\<close>; otherwise that of the writer's
  subscription, if it has one. \<open>null\<close> and \<open>undefined\<close> both reach all rooms.\<close>

definition sender_room ::
  "QueryOptions SessionManager \<Rightarrow> string \<Rightarrow> string \<Rightarrow> string option option \<Rightarrow> string option" where
  "sender_room sm q exclude room =
     (case room of
        Some r \<Rightarrow> r
      | None \<Rightarrow> (case session_get sm exclude of
          None \<Rightarrow> None
        | Some s \<Rightarrow> (case map_get (cs_subscriptions s) q of None \<Rightarrow> None | Some sub \<Rightarrow> qs_roomKey sub)))"

definition group_member :: "string \<Rightarrow> string \<Rightarrow> session \<Rightarrow> (session \<times> subscription) option" where
  "group_member q exclude s =
     (if cs_clientId s = exclude then None
      else case map_get (cs_subscriptions s) q of
        None \<Rightarrow> None
      | Some sub \<Rightarrow> if qs_windowSize sub \<noteq> None \<and> \<not> qs_bootstrapped sub then None else Some (s, sub))"

definition join_group ::
  "'w QueryRegistration \<Rightarrow> session \<times> subscription
     \<Rightarrow> (string, (session \<times> subscription) list) jsmap \<Rightarrow> (string, (session \<times> subscription) list) jsmap" where
  "join_group reg m groups =
     (let k = groupKeyFor reg (fst m) (snd m) in map_set k (get_map groups k @ [m]) groups)"

definition buildGroups ::
  "'w QueryRegistration \<Rightarrow> string \<Rightarrow> string option option \<Rightarrow> QueryOptions SessionManager
     \<Rightarrow> (session \<times> subscription) list list" where
  "buildGroups reg exclude room sm =
     (let q = qr_name reg
      in map snd (fold (join_group reg)
           (List.map_filter (group_member q exclude) (getSubscribersForQuery sm q (sender_room sm q exclude room))) []))"

fun max_window :: "(session \<times> subscription) list \<Rightarrow> int \<Rightarrow> int option" where
  "max_window [] m = Some m"
| "max_window ((s, sub) # g) m = (if qs_windowSize sub = None then None else max_window g (max m (qs_windowLimit sub)))"

definition limitFor :: "'w QueryRegistration \<Rightarrow> (session \<times> subscription) list \<Rightarrow> int option" where
  "limitFor reg grp =
     (case max_window grp 0 of
        None \<Rightarrow> None
      | Some m \<Rightarrow>
          if qo_countHints (qr_options reg) \<and> \<not> qr_count reg then None
          else if m > 0 then Some m else None)"

section \<open>One subscriber\<close>

definition text_columns :: "QueryOptions \<Rightarrow> string list option" where
  "text_columns o' = (case qo_conflict o' of Some (TextPolicy p) \<Rightarrow> Some (tp_text p) | _ \<Rightarrow> None)"

definition pk_column :: "QueryOptions \<Rightarrow> string" where
  "pk_column o' = (case qo_pk o' of None \<Rightarrow> ''id'' | Some p \<Rightarrow> p)"

definition window_rows :: "subscription \<Rightarrow> row list \<Rightarrow> row list" where
  "window_rows sub rows =
     (let n = qs_windowLimit sub
      in if qs_windowSize sub = None then rows else take (nat (if n < 0 then int (length rows) + n else n)) rows)"

definition insert_delta :: "string \<Rightarrow> string \<Rightarrow> string \<times> row \<Rightarrow> ServerMessage" where
  "insert_delta q hlc x = Delta \<lparr>dm_table = q, dm_op = Insert, dm_rowId = fst x, dm_payload = Some (snd x),
     dm_hlc = hlc, dm_colClocks = None, dm_textPatches = None\<rparr>"

definition update_delta ::
  "string \<Rightarrow> string \<Rightarrow> string list option \<Rightarrow> result_rows \<Rightarrow> string \<times> row \<Rightarrow> ServerMessage" where
  "update_delta q hlc cols cached x =
     (case patchTextColumns (snd x) (map_get cached (fst x)) cols of
        (payload, patches) \<Rightarrow> Delta \<lparr>dm_table = q, dm_op = Update, dm_rowId = fst x, dm_payload = Some payload,
          dm_hlc = hlc, dm_colClocks = Some (map (\<lambda>k. (k, hlc)) (obj_keys (snd x))), dm_textPatches = patches\<rparr>)"

definition delete_delta :: "string \<Rightarrow> string \<Rightarrow> string \<Rightarrow> ServerMessage" where
  "delete_delta q hlc rowId = Delta \<lparr>dm_table = q, dm_op = Delete, dm_rowId = rowId, dm_payload = None,
     dm_hlc = hlc, dm_colClocks = None, dm_textPatches = None\<rparr>"

definition deltas :: "string \<Rightarrow> string \<Rightarrow> string list option \<Rightarrow> result_rows \<Rightarrow> DiffResult \<Rightarrow> ServerMessage list" where
  "deltas q hlc cols cached diff =
     map (insert_delta q hlc) (dr_inserted diff) @ map (update_delta q hlc cols cached) (dr_updated diff)
     @ map (delete_delta q hlc) (dr_deleted diff)"

definition count_change :: "QueryOptions \<Rightarrow> subscription \<Rightarrow> int option \<Rightarrow> int option" where
  "count_change o' sub tot =
     (if qs_windowSize sub \<noteq> None \<and> qo_countHints o' \<and> tot \<noteq> None \<and> tot \<noteq> qs_lastTotalCount sub then tot else None)"

text \<open>Every send is started before any is awaited.\<close>

fun send_all :: "'w BroadcastDeps \<Rightarrow> string \<Rightarrow> ServerMessage list \<Rightarrow> 'w \<Rightarrow> bool list \<times> 'w" where
  "send_all d c [] w = ([], w)"
| "send_all d c (m # ms) w =
     (case bd_send d c m w of (b, w1) \<Rightarrow> (case send_all d c ms w1 of (bs, w2) \<Rightarrow> (b # bs, w2)))"

definition still_connected :: "('w, 'z) Engine_scheme \<Rightarrow> string \<Rightarrow> nat \<Rightarrow> bool" where
  "still_connected e c n \<longleftrightarrow> session_get (en_sessions e) c \<noteq> None \<and> en_connects e c = n"

definition commit_rows ::
  "'w BroadcastDeps \<Rightarrow> string \<Rightarrow> nat \<Rightarrow> string \<Rightarrow> row list \<Rightarrow> string \<Rightarrow> ('w, 'z) Engine_scheme
     \<Rightarrow> bool \<times> ('w, 'z) Engine_scheme" where
  "commit_rows d c n q rows pk e =
     (if \<not> still_connected e c n then (False, e)
      else (True, on_cache (\<lambda>cache. snd (cache_set (bd_dateText d) c q rows pk cache)) e))"

definition note_count :: "string \<Rightarrow> string \<Rightarrow> int \<Rightarrow> QueryOptions SessionManager \<Rightarrow> QueryOptions SessionManager" where
  "note_count c q tot sm =
     (case session_get sm c of
        None \<Rightarrow> sm
      | Some s \<Rightarrow> (case map_get (cs_subscriptions s) q of
          None \<Rightarrow> sm
        | Some sub \<Rightarrow> put_session c (s\<lparr>cs_subscriptions :=
            map_set q (sub\<lparr>qs_lastTotalCount := Some tot\<rparr>) (cs_subscriptions s)\<rparr>) sm))"

text \<open>The section runs under the lock of the client and query; \<open>True\<close> if it resolves. The session
  of the member is the \<open>n\<close>th of its client.\<close>

definition sendToSubscriber ::
  "'w BroadcastDeps \<Rightarrow> (('w, 'z) Engine_scheme \<Rightarrow> ('w, 'z) Engine_scheme) \<Rightarrow> nat \<Rightarrow> 'w QueryRegistration
     \<Rightarrow> session \<times> subscription \<Rightarrow> row list \<Rightarrow> int option \<Rightarrow> string \<Rightarrow> ('w, 'z) Engine_scheme \<Rightarrow> bool \<times> ('w, 'z) Engine_scheme" where
  "sendToSubscriber d meanwhile n reg m fullRows tot hlc e =
     (let q = qr_name reg; c = cs_clientId (fst m); o' = qr_options reg;
          newRows = window_rows (snd m) fullRows;
          diff = diffOnly (bd_dateText d) c q newRows (pk_column o') (en_cache e);
          msgs = deltas q hlc (text_columns o') (cache_get (en_cache e) c q) diff;
          countToCommit = count_change o' (snd m) tot;
          frames = msgs @ (case countToCommit of None \<Rightarrow> [] | Some t \<Rightarrow> [CountChanged q t])
      in if frames = [] then (True, snd (commit_rows d c n q newRows (pk_column o') e))
         else case send_all d c frames (en_world e) of
           (delivered, w) \<Rightarrow>
             (let e = meanwhile (e\<lparr>en_world := w\<rparr>)
              in if False \<in> set delivered then (False, e)
                 else case commit_rows d c n q newRows (pk_column o') e of
                   (committed, e) \<Rightarrow>
                     (True, case countToCommit of
                        None \<Rightarrow> e
                      | Some t \<Rightarrow> if committed then e\<lparr>en_sessions := note_count c q t (en_sessions e)\<rparr> else e)))"

section \<open>Groups and broadcasts\<close>

definition total_count ::
  "'w BroadcastDeps \<Rightarrow> 'w QueryRegistration \<Rightarrow> session \<Rightarrow> row list \<Rightarrow> 'w \<Rightarrow> int option \<times> 'w" where
  "total_count d reg s rows w =
     (if \<not> qo_countHints (qr_options reg) then (None, w)
      else if qr_count reg then bd_countQuery d reg s w else (Some (int (length rows)), w))"

definition broadcastGroup ::
  "'w BroadcastDeps \<Rightarrow> 'w QueryRegistration \<Rightarrow> string \<Rightarrow> (session \<times> subscription) list
     \<Rightarrow> ('w, 'z) Engine_scheme \<Rightarrow> ('w, 'z) Engine_scheme" where
  "broadcastGroup d reg hlc grp e =
     (let s = fst (hd grp)
      in case executeWithTimeout d reg s (limitFor reg grp) (en_world e) of
           (None, w) \<Rightarrow> e\<lparr>en_world := bd_emit d (QueryError (cs_clientId s) (qr_name reg) ''broadcast'') w\<rparr>
         | (Some fullRows, w) \<Rightarrow>
             (case total_count d reg s fullRows w of
                (tot, w) \<Rightarrow> fold (\<lambda>m x. snd (sendToSubscriber d id (en_connects e (cs_clientId (fst m))) reg m fullRows tot hlc x))
                   grp (e\<lparr>en_world := w\<rparr>)))"

definition broadcast_query ::
  "'w BroadcastDeps \<Rightarrow> string \<Rightarrow> string option option \<Rightarrow> string \<Rightarrow> string
     \<Rightarrow> ('w, 'z) Engine_scheme \<Rightarrow> ('w, 'z) Engine_scheme" where
  "broadcast_query d exclude room hlc q e =
     (case map_get (bd_queries d) q of
        None \<Rightarrow> e
      | Some reg \<Rightarrow> fold (broadcastGroup d reg hlc) (buildGroups reg exclude room (en_sessions e)) e)"

definition broadcastChanges ::
  "'w BroadcastDeps \<Rightarrow> string \<Rightarrow> string \<Rightarrow> string option option \<Rightarrow> ('w, 'z) Engine_scheme \<Rightarrow> ('w, 'z) Engine_scheme" where
  "broadcastChanges d table exclude room e =
     (case map_get (bd_tableDependencyIndex d) table of
        None \<Rightarrow> e
      | Some queries \<Rightarrow>
          (case bd_nextHlc d (en_world e) of
             (hlc, w) \<Rightarrow> fold (broadcast_query d exclude room hlc) queries (e\<lparr>en_world := w\<rparr>)))"

end
