(* ===== verification/Op_Processor.thy ===== *)
theory Op_Processor
  imports Broadcast Eager_Buffer
begin

text \<open>
  \<open>src/server/op-processor.ts\<close>: a client's ops through replay detection, the gates, conflict
  resolution, the application's \<open>authorize\<close> and \<open>mutate\<close>, and the store. The consistent path
  leaves the fan-out to the broadcast engine; the eager ones send the delta themselves.

  Each await of something outside the processor runs what other handlers do meanwhile, the field
  \<open>od_meanwhile\<close>. The row queue that the consistent path waits in is taken as granted. The session
  of the writer is authenticated, as the handler checks first, and its context is the argument
  \<open>a\<close>; only the writer's own messages change its subscriptions, and those are handled one at a time.
\<close>

section \<open>What the processor works on\<close>

record OpResult =
  or_accepted :: bool
  or_reason :: "string option"
  or_serverRow :: "row option"
  or_hearWriter :: bool

record BatchContext =
  bx_freshOpIds :: "string list"
  bx_rows :: "(string, ExistingRow) jsmap"
  bx_stale :: "string list"

text \<open>The calls of a \<open>StorageAdapter\<close> used here; \<open>None\<close>, or \<open>False\<close> of \<open>applyOp\<close>, is a rejection.\<close>

record 'w OpStorage =
  os_getRow :: "string \<Rightarrow> string \<Rightarrow> 'w \<Rightarrow> ExistingRow option \<times> 'w"
  os_getRowsByIds :: "(string \<Rightarrow> string list \<Rightarrow> 'w \<Rightarrow> ExistingRow jsobj option \<times> 'w) option"
  os_applyOp :: "WalRowMutation \<Rightarrow> OpLogEntry \<Rightarrow> 'w \<Rightarrow> bool \<times> 'w"
  os_applyOpIf :: "(WalRowMutation \<Rightarrow> OpLogEntry \<Rightarrow> string option \<Rightarrow> 'w \<Rightarrow> bool option \<times> 'w) option"
  os_reserveOp :: "string \<Rightarrow> 'w \<Rightarrow> bool option \<times> 'w"
  os_reserveOps :: "(string list \<Rightarrow> 'w \<Rightarrow> string list option \<times> 'w) option"

text \<open>A batch is an object: it is active under the number it was created with. The tokens are a cache of
  the message handler, which calls the processor.\<close>

record 'w OpEngine = "'w Engine" +
  on_buffer :: EagerBuffer
  on_replay :: "(string, int) jsmap"
  on_limiter :: RateLimiter
  on_activeBatches :: "(nat, BatchContext) jsmap"
  on_created :: nat
  on_authCache :: "(string, AuthContext \<times> int) jsmap"

record 'w OpDeps =
  od_engine :: "'w BroadcastDeps"
  od_storage :: "'w OpStorage option"
  od_limits :: "RateLimitConfig option"
  od_maxBatchSize :: int
  od_now :: "'w \<Rightarrow> int"
  od_receiveHlc :: "string \<Rightarrow> 'w \<Rightarrow> 'w"
  od_auth :: "(string \<Rightarrow> 'w \<Rightarrow> AuthContext option \<times> 'w) option"
  od_disconnect :: "string \<Rightarrow> 'w \<Rightarrow> 'w"
  od_meanwhile :: "'w OpEngine \<Rightarrow> 'w OpEngine"

definition MAX_WRITE_ATTEMPTS :: nat where
  "MAX_WRITE_ATTEMPTS = 8"

text \<open>Calls of the world outside: one that is awaited, and one that is not.\<close>

definition awaiting :: "'w OpDeps \<Rightarrow> ('w \<Rightarrow> 'a \<times> 'w) \<Rightarrow> 'w OpEngine \<Rightarrow> 'a \<times> 'w OpEngine" where
  "awaiting d f e = (case f (en_world e) of (x, w) \<Rightarrow> (x, od_meanwhile d (e\<lparr>en_world := w\<rparr>)))"

definition calling :: "('w \<Rightarrow> 'a \<times> 'w) \<Rightarrow> 'w OpEngine \<Rightarrow> 'a \<times> 'w OpEngine" where
  "calling f e = (case f (en_world e) of (x, w) \<Rightarrow> (x, e\<lparr>en_world := w\<rparr>))"

section \<open>Columns\<close>

text \<open>\<open>JSON.stringify\<close>; \<open>None\<close> is \<open>undefined\<close>.\<close>

fun json_text :: "jsval \<Rightarrow> string"
  and json_items :: "jsval list \<Rightarrow> string list"
  and json_members :: "row \<Rightarrow> string list" where
  "json_text Undefined = ''null''"
| "json_text Null = ''null''"
| "json_text (Bool b) = (if b then ''true'' else ''false'')"
| "json_text (Num n) = int_str n"
| "json_text NaN = ''null''"
| "json_text (Str s) = json_string s"
| "json_text (Date r d) = json_string (iso_string d)"
| "json_text (Arr r xs) = ''['' @ commas (json_items xs) @ '']''"
| "json_text (Obj r f) = ''{'' @ commas (json_members f) @ ''}''"
| "json_items [] = []"
| "json_items (x # xs) = json_text x # json_items xs"
| "json_members [] = []"
| "json_members ((k, v) # f) =
     (if v = Undefined then json_members f else (json_string k @ '':'' @ json_text v) # json_members f)"

definition json_stringify :: "jsval \<Rightarrow> string option" where
  "json_stringify v = (if v = Undefined then None else Some (json_text v))"

definition sameValue :: "jsval \<Rightarrow> jsval \<Rightarrow> bool" where
  "sameValue a b \<longleftrightarrow> strict_eq a b \<or> json_stringify a = json_stringify b"

definition sent_value :: "row option \<Rightarrow> string \<Rightarrow> jsval" where
  "sent_value sent column = (case sent of None \<Rightarrow> Undefined | Some p \<Rightarrow> get_prop p column)"

text \<open>The columns of the row that the op stamped and the server does not own.\<close>

definition stamped_columns :: "row \<Rightarrow> clocks \<Rightarrow> string \<Rightarrow> row option \<Rightarrow> string list" where
  "stamped_columns row colClocks opHlc serverSet =
     map fst (filter (\<lambda>(column, clock). column \<noteq> ROW_CLOCK \<and> clock = opHlc \<and> obj_has row column
       \<and> (case serverSet of None \<Rightarrow> True | Some s \<Rightarrow> \<not> obj_has s column)) colClocks)"

definition resolverChangedValue ::
  "row option \<Rightarrow> clocks \<Rightarrow> string \<Rightarrow> row option \<Rightarrow> row option \<Rightarrow> bool" where
  "resolverChangedValue row colClocks opHlc serverSet sent =
     (case row of
        None \<Rightarrow> False
      | Some r \<Rightarrow> list_ex (\<lambda>column. \<not> sameValue (sent_value sent column) (get_prop r column))
          (stamped_columns r colClocks opHlc serverSet))"

definition writerHeldColumns ::
  "row option \<Rightarrow> clocks \<Rightarrow> string \<Rightarrow> row option \<Rightarrow> row option option \<Rightarrow> row option" where
  "writerHeldColumns row colClocks opHlc serverSet sent =
     (case row of
        None \<Rightarrow> None
      | Some r \<Rightarrow>
          (case filter (\<lambda>column. case sent of None \<Rightarrow> True | Some p \<Rightarrow> sameValue (sent_value p column) (get_prop r column))
                  (stamped_columns r colClocks opHlc serverSet) of
             [] \<Rightarrow> None
           | columns \<Rightarrow> Some (fold (\<lambda>column c. obj_put column (get_prop r column) c) columns [])))"

section \<open>Batches\<close>

definition no_row :: ExistingRow where
  "no_row = \<lparr>ex_row = None, ex_rowHlc = None, ex_colClocks = []\<rparr>"

definition rowKey :: "string \<Rightarrow> string \<Rightarrow> string" where
  "rowKey table rowId = nat_str (length table) @ '':'' @ table @ '':'' @ rowId"

definition context_of_batch :: "nat option \<Rightarrow> 'w OpEngine \<Rightarrow> BatchContext option" where
  "context_of_batch batch e = (case batch of None \<Rightarrow> None | Some b \<Rightarrow> map_get (on_activeBatches e) b)"

definition on_batch :: "nat option \<Rightarrow> (BatchContext \<Rightarrow> BatchContext) \<Rightarrow> 'w OpEngine \<Rightarrow> 'w OpEngine" where
  "on_batch batch f e =
     (case batch of
        None \<Rightarrow> e
      | Some b \<Rightarrow> (case map_get (on_activeBatches e) b of
          None \<Rightarrow> e | Some x \<Rightarrow> e\<lparr>on_activeBatches := map_set b (f x) (on_activeBatches e)\<rparr>))"

definition set_row :: "string \<Rightarrow> ExistingRow \<Rightarrow> BatchContext \<Rightarrow> BatchContext" where
  "set_row key ex x = x\<lparr>bx_rows := map_set key ex (bx_rows x)\<rparr>"

definition unstale :: "string \<Rightarrow> BatchContext \<Rightarrow> BatchContext" where
  "unstale key x = x\<lparr>bx_stale := removeAll key (bx_stale x)\<rparr>"

text \<open>\<open>ReplayDetector.reserve\<close> with the store it was given, if any.\<close>

definition replay_reserve :: "'w OpDeps \<Rightarrow> string \<Rightarrow> 'w OpEngine \<Rightarrow> bool option \<times> 'w OpEngine" where
  "replay_reserve d opId e =
     (case od_storage d of
        Some st \<Rightarrow> awaiting d (os_reserveOp st opId) e
      | None \<Rightarrow> (case reserve (od_now d (en_world e)) opId (on_replay e) of
          (fresh, m) \<Rightarrow> (Some fresh, e\<lparr>on_replay := m\<rparr>)))"

definition reservable :: "'w OpDeps \<Rightarrow> ClientOp \<Rightarrow> bool" where
  "reservable d op =
     (case map_get (bd_queries (od_engine d)) (co_table op) of
        None \<Rightarrow> False | Some reg \<Rightarrow> qr_mutate reg \<noteq> None)"

text \<open>\<open>Inl\<close> is a rejection of the whole call.\<close>

fun reserve_each ::
  "'w OpDeps \<Rightarrow> nat \<Rightarrow> ClientOp list \<Rightarrow> 'w OpEngine \<Rightarrow> (unit + unit) \<times> 'w OpEngine" where
  "reserve_each d b [] e = (Inr (), e)"
| "reserve_each d b (op # ops) e =
     (case replay_reserve d (co_id op) e of
        (None, e) \<Rightarrow> (Inl (), e)
      | (Some fresh, e) \<Rightarrow> reserve_each d b ops
          (if fresh then on_batch (Some b) (\<lambda>x. x\<lparr>bx_freshOpIds := set_add (co_id op) (bx_freshOpIds x)\<rparr>) e else e))"

definition reserve_batch ::
  "'w OpDeps \<Rightarrow> nat \<Rightarrow> ClientOp list \<Rightarrow> 'w OpEngine \<Rightarrow> (unit + unit) \<times> 'w OpEngine" where
  "reserve_batch d b ops e =
     (case Option.bind (od_storage d) os_reserveOps of
        None \<Rightarrow> reserve_each d b ops e
      | Some f \<Rightarrow> (case awaiting d (f (map co_id ops)) e of
          (None, e) \<Rightarrow> (Inl (), e)
        | (Some ids, e) \<Rightarrow> (Inr (), on_batch (Some b) (\<lambda>x. x\<lparr>bx_freshOpIds := fold set_add ids (bx_freshOpIds x)\<rparr>) e)))"

definition touched :: "string list \<Rightarrow> ClientOp list \<Rightarrow> (string, string list) jsmap" where
  "touched fresh ops =
     fold (\<lambda>op m. if co_id op \<in> set fresh then map_set (co_table op) (set_add (co_rowId op) (members m (co_table op))) m else m)
       ops []"

definition prefetch_table ::
  "'w OpDeps \<Rightarrow> nat \<Rightarrow> (string \<Rightarrow> string list \<Rightarrow> 'w \<Rightarrow> ExistingRow jsobj option \<times> 'w) \<Rightarrow> string \<times> string list
     \<Rightarrow> 'w OpEngine \<Rightarrow> 'w OpEngine" where
  "prefetch_table d b f t e =
     (case awaiting d (f (fst t) (snd t)) e of
        (None, e) \<Rightarrow> e
      | (Some found, e) \<Rightarrow> on_batch (Some b) (fold (\<lambda>rowId. set_row (rowKey (fst t) rowId)
            (case obj_get found rowId of Some ex \<Rightarrow> ex | None \<Rightarrow> no_row)) (snd t)) e)"

definition prefetchBatch :: "'w OpDeps \<Rightarrow> ClientOp list \<Rightarrow> 'w OpEngine \<Rightarrow> (unit + nat) \<times> 'w OpEngine" where
  "prefetchBatch d ops e =
     (let b = on_created e;
          e = e\<lparr>on_created := b + 1,
                on_activeBatches := map_set b \<lparr>bx_freshOpIds = [], bx_rows = [], bx_stale = []\<rparr> (on_activeBatches e)\<rparr>
      in case reserve_batch d b (filter (reservable d) ops) e of
           (Inl u, e) \<Rightarrow> (Inl u, e)
         | (Inr u, e) \<Rightarrow>
             (Inr b, case Option.bind (od_storage d) os_getRowsByIds of
                None \<Rightarrow> e
              | Some f \<Rightarrow> fold (prefetch_table d b f)
                  (touched (case context_of_batch (Some b) e of None \<Rightarrow> [] | Some x \<Rightarrow> bx_freshOpIds x) ops) e))"

definition finishBatch :: "nat \<Rightarrow> 'w OpEngine \<Rightarrow> 'w OpEngine" where
  "finishBatch b e = e\<lparr>on_activeBatches := map_del b (on_activeBatches e)\<rparr>"

definition cached_row :: "nat option \<Rightarrow> string \<Rightarrow> 'w OpEngine \<Rightarrow> ExistingRow option" where
  "cached_row batch key e =
     (case context_of_batch batch e of
        None \<Rightarrow> None
      | Some x \<Rightarrow> if key \<in> set (bx_stale x) then None else map_get (bx_rows x) key)"

definition readRow ::
  "'w OpDeps \<Rightarrow> string \<Rightarrow> string \<Rightarrow> nat option \<Rightarrow> 'w OpEngine \<Rightarrow> ExistingRow option \<times> 'w OpEngine" where
  "readRow d table rowId batch e =
     (case cached_row batch (rowKey table rowId) e of
        Some ex \<Rightarrow> (Some ex, e)
      | None \<Rightarrow>
          (case od_storage d of
             None \<Rightarrow> (Some no_row, e)
           | Some st \<Rightarrow>
               (case awaiting d (os_getRow st table rowId) e of
                  (None, e) \<Rightarrow> (None, e)
                | (Some ex, e) \<Rightarrow>
                    (Some ex, on_batch batch (unstale (rowKey table rowId) \<circ> set_row (rowKey table rowId) ex) e))))"

definition recordBatchWrite ::
  "nat option \<Rightarrow> string \<Rightarrow> string \<Rightarrow> row option \<Rightarrow> clocks \<Rightarrow> string \<Rightarrow> 'w OpEngine \<Rightarrow> 'w OpEngine" where
  "recordBatchWrite batch table rowId row colClocks hlc e =
     (let key = rowKey table rowId
      in on_batch batch (set_row key \<lparr>ex_row = row, ex_rowHlc = Some hlc, ex_colClocks = colClocks\<rparr> \<circ> unstale key)
           (e\<lparr>on_activeBatches := map (\<lambda>(b, x). (b, if Some b = batch then x else x\<lparr>bx_stale := set_add key (bx_stale x)\<rparr>))
               (on_activeBatches e)\<rparr>))"

section \<open>What both paths share\<close>

definition refused :: "string option \<Rightarrow> OpResult" where
  "refused reason = \<lparr>or_accepted = False, or_reason = reason, or_serverRow = None, or_hearWriter = False\<rparr>"

definition accepted_op :: OpResult where
  "accepted_op = \<lparr>or_accepted = True, or_reason = None, or_serverRow = None, or_hearWriter = False\<rparr>"

text \<open>What a rejected op's client should roll back to.\<close>

definition toldRow :: "ClientOp \<Rightarrow> string \<Rightarrow> 'w OpEngine \<Rightarrow> row option" where
  "toldRow op c e = clientViewRow e (co_table op) c (co_rowId op)"

definition mutation_context :: "ClientOp \<Rightarrow> AuthContext \<Rightarrow> session \<Rightarrow> MutationContext" where
  "mutation_context op a s =
     \<lparr>mx_auth = a, mx_params = (case map_get (cs_subscriptions s) (co_table op) of None \<Rightarrow> [] | Some sub \<Rightarrow> qs_params sub)\<rparr>"

text \<open>The options with the functions of \<open>serverSet\<close> evaluated.\<close>

definition resolved_options :: "'w QueryRegistration \<Rightarrow> MutationContext \<Rightarrow> QueryOptions" where
  "resolved_options reg ctx =
     (qr_options reg)\<lparr>qo_serverSet :=
        map_option (map (\<lambda>(k, v). (k, case v of Inl x \<Rightarrow> x | Inr f \<Rightarrow> f ctx))) (qr_serverSet reg)\<rparr>"

definition op_text :: "OpType \<Rightarrow> string" where
  "op_text t = (case t of Insert \<Rightarrow> ''insert'' | Update \<Rightarrow> ''update'' | Delete \<Rightarrow> ''delete'')"

text \<open>The arguments of \<open>applyOp\<close>: the row, and the entry of the op log.\<close>

definition apply_args ::
  "ClientOp \<Rightarrow> row option \<Rightarrow> clocks \<Rightarrow> string \<Rightarrow> row option \<Rightarrow> WalRowMutation \<times> OpLogEntry" where
  "apply_args op row colClocks hlc payload =
     (\<lparr>wm_table = co_table op, wm_rowId = co_rowId op, wm_row = row, wm_colClocks = colClocks, wm_hlc = hlc\<rparr>,
      \<lparr>ol_table = co_table op, ol_op = op_text (co_op op), ol_rowId = co_rowId op, ol_payload = payload, ol_hlc = hlc,
       ol_colClocks = colClocks\<rparr>)"

definition logged_payload :: "QueryOptions \<Rightarrow> row option \<Rightarrow> row option" where
  "logged_payload o' payload = (if qo_oplog o' = Some OplogTables then None else payload)"

definition authorize_op ::
  "'w OpDeps \<Rightarrow> 'w QueryRegistration \<Rightarrow> ResolvedOp \<Rightarrow> MutationContext \<Rightarrow> 'w OpEngine \<Rightarrow> thrown option \<times> 'w OpEngine" where
  "authorize_op d reg op ctx e =
     (case qr_authorize reg of None \<Rightarrow> (None, e) | Some f \<Rightarrow> awaiting d (f op ctx) e)"

text \<open>\<open>mutate\<close> gives the tables it affected, or throws.\<close>

definition mutate_op ::
  "'w OpDeps \<Rightarrow> 'w QueryRegistration \<Rightarrow> ResolvedOp \<Rightarrow> MutationContext \<Rightarrow> 'w OpEngine
     \<Rightarrow> (thrown + string list) \<times> 'w OpEngine" where
  "mutate_op d reg op ctx e =
     (case qr_mutate reg of None \<Rightarrow> (Inr [], e) | Some f \<Rightarrow> awaiting d (f op ctx) e)"

definition op_broadcast :: "'w OpDeps \<Rightarrow> string \<Rightarrow> string \<Rightarrow> 'w OpEngine \<Rightarrow> 'w OpEngine" where
  "op_broadcast d exclude table = broadcastChanges (od_engine d) table exclude None"

section \<open>The eager path\<close>

definition eager_context :: "'w OpDeps \<Rightarrow> AuthContext \<Rightarrow> session \<Rightarrow> QueryOptions \<Rightarrow> PipelineContext" where
  "eager_context d a s o' =
     \<lparr>pc_userId = au_userId a, pc_nodeId = cs_clientId s, pc_options = o',
      pc_conflict = (case qo_conflict o' of Some p \<Rightarrow> p | None \<Rightarrow> Lww), pc_limits = od_limits d,
      pc_maxBatchSize = Some (od_maxBatchSize d)\<rparr>"

text \<open>The gates: drift, batch size, rate. A refusal by the limiter leaves it checked.\<close>

definition eager_gates ::
  "'w OpDeps \<Rightarrow> ClientOp \<Rightarrow> PipelineContext \<Rightarrow> 'w OpEngine \<Rightarrow> string option \<times> 'w OpEngine" where
  "eager_gates d op ctx e =
     (let now = od_now d (en_world e)
      in case enforceClockDrift now (co_hlc op) of
           Some reason \<Rightarrow> (Some reason, e)
         | None \<Rightarrow>
             (case enforceBatchSize (co_batchSize op) (od_maxBatchSize d) of
                Some reason \<Rightarrow> (Some reason, e)
              | None \<Rightarrow>
                  (case rate_gate now ctx (co_table op) (on_limiter e) of
                     (r, l) \<Rightarrow> (map_option (\<lambda>_. ''rate_limited'') r, e\<lparr>on_limiter := l\<rparr>))))"

definition eager_clocks :: "row option \<Rightarrow> string \<Rightarrow> clocks" where
  "eager_clocks payload hlc = obj_put ROW_CLOCK hlc (stamp_keys hlc payload [])"

definition merge_existing ::
  "ExistingRow \<Rightarrow> row \<Rightarrow> string \<Rightarrow> row option \<times> clocks" where
  "merge_existing ex payload hlc =
     (case ex_row ex of
        None \<Rightarrow> (Some payload, eager_clocks (Some payload) hlc)
      | Some r \<Rightarrow> (Some (obj_assign r payload),
          obj_assign (eager_clocks (Some payload) hlc)
            (obj_put ROW_CLOCK hlc (stamp_keys hlc (Some payload) (ex_colClocks ex)))))"

definition eager_row ::
  "'w OpDeps \<Rightarrow> ClientOp \<Rightarrow> string \<Rightarrow> nat option \<Rightarrow> 'w OpEngine \<Rightarrow> (row option \<times> clocks) \<times> 'w OpEngine" where
  "eager_row d op hlc batch e =
     (case co_payload op of
        Some p \<Rightarrow>
          if co_op op = Update \<and> od_storage d \<noteq> None then
            (case readRow d (co_table op) (co_rowId op) batch e of
               (None, e) \<Rightarrow> ((Some p, eager_clocks (Some p) hlc), e)
             | (Some ex, e) \<Rightarrow> (merge_existing ex p hlc, e))
          else ((Some p, eager_clocks (Some p) hlc), e)
      | None \<Rightarrow> ((None, eager_clocks None hlc), e))"

definition eager_buffered :: "ClientOp \<Rightarrow> QueryOptions \<Rightarrow> string \<Rightarrow> row option \<times> clocks \<Rightarrow> BufferedOp" where
  "eager_buffered op o' hlc x =
     \<lparr>bo_entry = snd (apply_args op (fst x) (snd x) hlc (logged_payload o' (co_payload op))), bo_row = Some (fst x)\<rparr>"

text \<open>Durable at once, not at all, or in the buffer; \<open>False\<close> is the rejection of a durable write.\<close>

definition eager_persist ::
  "'w OpDeps \<Rightarrow> ClientOp \<Rightarrow> QueryOptions \<Rightarrow> string \<Rightarrow> row option \<times> clocks \<Rightarrow> nat option \<Rightarrow> 'w OpEngine
     \<Rightarrow> bool \<times> 'w OpEngine" where
  "eager_persist d op o' hlc x batch e =
     (let (m, entry) = apply_args op (fst x) (snd x) hlc (logged_payload o' (co_payload op));
          record_write = recordBatchWrite batch (co_table op) (co_rowId op) (fst x) (snd x) hlc
      in case od_storage d of
           None \<Rightarrow> (True, record_write e)
         | Some st \<Rightarrow>
             if qo_broadcast o' = EagerDurable then
               (case awaiting d (os_applyOp st m entry) e of
                  (ok, e) \<Rightarrow> if ok then (True, record_write e) else (False, e))
             else
               (case push (co_table op) (eager_buffered op o' hlc x) (qo_maxBufferSize o') (on_buffer e) of
                  (pushed, buffer) \<Rightarrow>
                    (let e = record_write (e\<lparr>on_buffer := buffer\<rparr>)
                     in (True, if pushed then e else snd (awaiting d (os_applyOp st m entry) e)))))"

definition keep_writer_view ::
  "'w OpDeps \<Rightarrow> ClientOp \<Rightarrow> string \<Rightarrow> row option \<Rightarrow> 'w OpEngine \<Rightarrow> 'w OpEngine" where
  "keep_writer_view d op c held e =
     (if co_op op = Delete then forgetWriterRow (od_engine d) (co_table op) c (co_rowId op) e
      else case held of None \<Rightarrow> e | Some columns \<Rightarrow> recordWriterColumns (od_engine d) (co_table op) c (co_rowId op) columns e)"

definition eager_delta :: "ClientOp \<Rightarrow> string \<Rightarrow> clocks \<Rightarrow> ServerMessage" where
  "eager_delta op hlc colClocks = Delta \<lparr>dm_table = co_table op, dm_op = co_op op, dm_rowId = co_rowId op,
     dm_payload = co_payload op, dm_hlc = hlc, dm_colClocks = Some colClocks, dm_textPatches = None\<rparr>"

definition deliver_eager ::
  "'w OpDeps \<Rightarrow> ClientOp \<Rightarrow> row option \<Rightarrow> string \<Rightarrow> 'w OpEngine \<Rightarrow> 'w OpEngine" where
  "deliver_eager d op row c e =
     (if co_op op = Delete then forgetWriterRow (od_engine d) (co_table op) c (co_rowId op) e
      else case row of None \<Rightarrow> e | Some r \<Rightarrow> recordDeliveredRow (od_engine d) (co_table op) c (co_rowId op) r e)"

text \<open>All sends are started, then what they deliver is recorded, then they are awaited.\<close>

definition eager_fanout ::
  "'w OpDeps \<Rightarrow> ClientOp \<Rightarrow> string \<Rightarrow> row option \<times> clocks \<Rightarrow> string \<Rightarrow> 'w OpEngine \<Rightarrow> 'w OpEngine" where
  "eager_fanout d op hlc x c e =
     (let sm = en_sessions e;
          others = filter (\<lambda>i. i \<noteq> c)
            (map cs_clientId (getSubscribersForQuery sm (co_table op) (sender_room sm (co_table op) c None)));
          e = fold (\<lambda>i e. snd (calling (bd_send (od_engine d) i (eager_delta op hlc (snd x))) e)) others e;
          e = fold (deliver_eager d op (fst x)) others e
      in od_meanwhile d e)"

definition processEagerOp ::
  "'w OpDeps \<Rightarrow> ClientOp \<Rightarrow> 'w QueryRegistration \<Rightarrow> AuthContext \<Rightarrow> session \<Rightarrow> nat option \<Rightarrow> 'w OpEngine
     \<Rightarrow> (unit + OpResult) \<times> 'w OpEngine" where
  "processEagerOp d op0 reg a s batch e =
     (let ctx = mutation_context op0 a s; o' = resolved_options reg ctx; c = cs_clientId s
      in case eager_gates d op0 (eager_context d a s o') e of
           (Some reason, e) \<Rightarrow> (Inr (refused (Some reason)), e)
         | (None, e) \<Rightarrow>
             (let op = enforceServerSet (enforceReadonly op0 o') o'
              in case calling (bd_nextHlc (od_engine d)) e of
                   (hlc, e) \<Rightarrow>
                     (case eager_row d op hlc batch e of
                        (x, e) \<Rightarrow>
                          (let resolved = \<lparr>ro_type = co_op op, ro_table = co_table op, ro_rowId = co_rowId op,
                                 ro_payload = co_payload op, ro_hlc = hlc\<rparr>
                           in case authorize_op d reg resolved ctx e of
                                (Some err, e) \<Rightarrow> (Inr (refused (Some (reasonFromError err))), e)
                              | (None, e) \<Rightarrow>
                                  if \<not> hasCapacity (on_buffer e) (co_table op) (qo_maxBufferSize o')
                                  then (Inr (refused (Some ''buffer_full'')), e)
                                  else case mutate_op d reg resolved ctx e of
                                    (Inl err, e) \<Rightarrow> (Inr (refused (Some (reasonFromError err))), e)
                                  | (Inr tables, e) \<Rightarrow>
                                      (case eager_persist d op o' hlc x batch e of
                                         (False, e) \<Rightarrow> (Inl (), e)
                                       | (True, e) \<Rightarrow>
                                           (let e = keep_writer_view d op c (writerHeldColumns (fst x) (snd x) hlc (qo_serverSet o') None) e;
                                                e = eager_fanout d op hlc x c e
                                            in (Inr accepted_op, fold (op_broadcast d c) tables e)))))))"

section \<open>The consistent path\<close>

definition object_policy :: "QueryOptions \<Rightarrow> bool" where
  "object_policy o' = (case qo_conflict o' of Some (Custom f) \<Rightarrow> True | Some (TextPolicy p) \<Rightarrow> True | _ \<Rightarrow> False)"

text \<open>Without a store the row is not there. A retry reads the store, not the batch.\<close>

definition read_existing ::
  "'w OpDeps \<Rightarrow> ClientOp \<Rightarrow> nat option \<Rightarrow> bool \<Rightarrow> 'w OpEngine \<Rightarrow> ExistingRow option \<times> 'w OpEngine" where
  "read_existing d op batch again e =
     (case od_storage d of
        None \<Rightarrow> (Some no_row, e)
      | Some st \<Rightarrow>
          if again then awaiting d (os_getRow st (co_table op) (co_rowId op)) e
          else readRow d (co_table op) (co_rowId op) batch e)"

datatype Written = Rejected_by_store | Lost_race | Written

definition persist_resolved ::
  "'w OpDeps \<Rightarrow> ClientOp \<Rightarrow> QueryOptions \<Rightarrow> PipelineResult \<Rightarrow> ExistingRow \<Rightarrow> nat option \<Rightarrow> 'w OpEngine
     \<Rightarrow> Written \<times> 'w OpEngine" where
  "persist_resolved d op o' r ex batch e =
     (case od_storage d of
        None \<Rightarrow> (Written, e)
      | Some st \<Rightarrow>
          (let (m, entry) = apply_args op (pr_resolvedRow r) (pr_colClocks r) (co_hlc op) (logged_payload o' (pr_resolvedRow r));
               record_write = recordBatchWrite batch (co_table op) (co_rowId op) (pr_resolvedRow r) (pr_colClocks r) (co_hlc op)
           in case (if object_policy o' then os_applyOpIf st else None) of
                Some f \<Rightarrow>
                  (case awaiting d (f m entry (ex_rowHlc ex)) e of
                     (None, e) \<Rightarrow> (Rejected_by_store, e)
                   | (Some False, e) \<Rightarrow> (Lost_race, e)
                   | (Some True, e) \<Rightarrow> (Written, record_write e))
              | None \<Rightarrow>
                  (case awaiting d (os_applyOp st m entry) e of
                     (ok, e) \<Rightarrow> if ok then (Written, record_write e) else (Rejected_by_store, e))))"

text \<open>The tables to announce: collected for the end of the message, or announced at once.\<close>

definition announce ::
  "'w OpDeps \<Rightarrow> string \<Rightarrow> string list \<Rightarrow> string list option \<Rightarrow> 'w OpEngine \<Rightarrow> string list option \<times> 'w OpEngine" where
  "announce d exclude tables deferred e =
     (case deferred of
        Some ts \<Rightarrow> (Some (fold set_add tables ts), e)
      | None \<Rightarrow> (None, fold (op_broadcast d exclude) (fold set_add tables []) e))"

text \<open>\<open>Inr None\<close> asks for another attempt.\<close>

definition attemptConsistentOp ::
  "'w OpDeps \<Rightarrow> ClientOp \<Rightarrow> 'w QueryRegistration \<Rightarrow> AuthContext \<Rightarrow> session \<Rightarrow> string list option \<Rightarrow> nat option \<Rightarrow> bool
     \<Rightarrow> 'w OpEngine \<Rightarrow> (unit + OpResult option) \<times> string list option \<times> 'w OpEngine" where
  "attemptConsistentOp d op reg a s deferred batch again e =
     (let ctx = mutation_context op a s; o' = resolved_options reg ctx; c = cs_clientId s
      in case read_existing d op batch again e of
           (None, e) \<Rightarrow> (Inl (), deferred, e)
         | (Some ex, e) \<Rightarrow>
             (case processOp (od_now d (en_world e)) op ex (eager_context d a s o') (on_limiter e) of
                (r, l) \<Rightarrow>
                  (let e = e\<lparr>on_limiter := l\<rparr>; no = \<lambda>err e. (Inr (Some ((refused (Some (reasonFromError err)))\<lparr>or_serverRow := toldRow op c e\<rparr>)), deferred, e)
                   in if \<not> pr_accepted r
                      then (Inr (Some ((refused (pr_reason r))\<lparr>or_serverRow := toldRow op c e\<rparr>)), deferred, e)
                      else let resolved = \<lparr>ro_type = co_op op, ro_table = co_table op, ro_rowId = co_rowId op,
                                 ro_payload = pr_resolvedRow r, ro_hlc = co_hlc op\<rparr>
                        in case authorize_op d reg resolved ctx e of
                             (Some err, e) \<Rightarrow> no err e
                           | (None, e) \<Rightarrow>
                               (case mutate_op d reg resolved ctx e of
                                  (Inl err, e) \<Rightarrow> no err e
                                | (Inr tables, e) \<Rightarrow>
                                    (case persist_resolved d op o' r ex batch e of
                                       (Rejected_by_store, e) \<Rightarrow> (Inl (), deferred, e)
                                     | (Lost_race, e) \<Rightarrow> (Inr None, deferred, e)
                                     | (Written, e) \<Rightarrow>
                                         (let held = writerHeldColumns (pr_resolvedRow r) (pr_colClocks r) (co_hlc op)
                                                (qo_serverSet o') (Some (co_payload op));
                                              hear = (co_op op \<noteq> Delete \<and> resolverChangedValue (pr_resolvedRow r) (pr_colClocks r)
                                                (co_hlc op) (qo_serverSet o') (co_payload op));
                                              e = keep_writer_view d op c held e
                                          in case announce d (if hear then [] else c) (co_table op # tables) deferred e of
                                               (deferred, e) \<Rightarrow>
                                                 (Inr (Some (accepted_op\<lparr>or_reason := pr_reason r, or_hearWriter := hear\<rparr>)),
                                                  deferred, e)))))))"

fun consistent_attempts ::
  "'w OpDeps \<Rightarrow> ClientOp \<Rightarrow> 'w QueryRegistration \<Rightarrow> AuthContext \<Rightarrow> session \<Rightarrow> string list option \<Rightarrow> nat option \<Rightarrow> bool \<Rightarrow> nat
     \<Rightarrow> 'w OpEngine \<Rightarrow> (unit + OpResult) \<times> string list option \<times> 'w OpEngine" where
  "consistent_attempts d op reg a s deferred batch again 0 e =
     (Inr ((refused (Some ''server_error''))\<lparr>or_serverRow := toldRow op (cs_clientId s) e\<rparr>), deferred, e)"
| "consistent_attempts d op reg a s deferred batch again (Suc n) e =
     (case attemptConsistentOp d op reg a s deferred batch again e of
        (Inl u, deferred, e) \<Rightarrow> (Inl u, deferred, e)
      | (Inr (Some r), deferred, e) \<Rightarrow> (Inr r, deferred, e)
      | (Inr None, deferred, e) \<Rightarrow> consistent_attempts d op reg a s deferred batch True n e)"

definition processConsistentOp ::
  "'w OpDeps \<Rightarrow> ClientOp \<Rightarrow> 'w QueryRegistration \<Rightarrow> AuthContext \<Rightarrow> session \<Rightarrow> string list option \<Rightarrow> nat option
     \<Rightarrow> 'w OpEngine \<Rightarrow> (unit + OpResult) \<times> string list option \<times> 'w OpEngine" where
  "processConsistentOp d op reg a s deferred batch e =
     consistent_attempts d op reg a s deferred batch False MAX_WRITE_ATTEMPTS e"

section \<open>One op\<close>

text \<open>Fresh or not; the reservation of a batch is consumed.\<close>

definition take_reservation :: "'w OpDeps \<Rightarrow> string \<Rightarrow> nat option \<Rightarrow> 'w OpEngine \<Rightarrow> bool option \<times> 'w OpEngine" where
  "take_reservation d opId batch e =
     (case batch of
        None \<Rightarrow> replay_reserve d opId e
      | Some b \<Rightarrow>
          (Some (case context_of_batch batch e of None \<Rightarrow> False | Some x \<Rightarrow> opId \<in> set (bx_freshOpIds x)),
           on_batch batch (\<lambda>x. x\<lparr>bx_freshOpIds := removeAll opId (bx_freshOpIds x)\<rparr>) e))"

definition processClientOp ::
  "'w OpDeps \<Rightarrow> ClientOp \<Rightarrow> AuthContext \<Rightarrow> session \<Rightarrow> string list option \<Rightarrow> nat option \<Rightarrow> 'w OpEngine
     \<Rightarrow> (unit + OpResult) \<times> string list option \<times> 'w OpEngine" where
  "processClientOp d op a s deferred batch e =
     (case map_get (bd_queries (od_engine d)) (co_table op) of
        None \<Rightarrow> (Inr (refused (Some ''outside_shape'')), deferred, e)
      | Some reg \<Rightarrow>
          if qr_mutate reg = None then (Inr (refused (Some ''readonly_query'')), deferred, e)
          else case take_reservation d (co_id op) batch e of
            (None, e) \<Rightarrow> (Inl (), deferred, e)
          | (Some False, e) \<Rightarrow> (Inr accepted_op, deferred, e)
          | (Some True, e) \<Rightarrow>
              (let e = e\<lparr>en_world := od_receiveHlc d (co_hlc op) (en_world e)\<rparr>
               in if qo_broadcast (qr_options reg) = Consistent then processConsistentOp d op reg a s deferred batch e
                  else let pending = (case deferred of None \<Rightarrow> [] | Some ts \<Rightarrow> ts);
                           e = fold (op_broadcast d (cs_clientId s)) pending e
                    in case processEagerOp d op reg a s batch e of
                         (r, e) \<Rightarrow> (r, map_option (\<lambda>_. []) deferred, e)))"

end
