(* ===== verification/Ops_Message.thy ===== *)
theory Ops_Message
  imports Op_Processor
begin

text \<open>
  The ops message in \<open>src/server/handler.ts\<close>: the gate of \<open>handleMessage\<close>, the cache of tokens, and
  \<open>handleOps\<close>, which runs a batch of ops, announces the tables they changed and answers each op.
\<close>

section \<open>Sending\<close>

text \<open>\<open>trySend\<close>: a frame that does not arrive is no error.\<close>

definition trySend :: "'w OpDeps \<Rightarrow> string \<Rightarrow> ServerMessage \<Rightarrow> 'w OpEngine \<Rightarrow> 'w OpEngine" where
  "trySend d c m e = snd (awaiting d (bd_send (od_engine d) c m) e)"

definition emit_event :: "'w OpDeps \<Rightarrow> SyncEvent \<Rightarrow> 'w OpEngine \<Rightarrow> 'w OpEngine" where
  "emit_event d ev e = e\<lparr>en_world := bd_emit (od_engine d) ev (en_world e)\<rparr>"

section \<open>Authentication\<close>

definition AUTH_CACHE_TTL_MS :: int where
  "AUTH_CACHE_TTL_MS = 5000"

definition evict_tokens :: "int \<Rightarrow> (string, AuthContext \<times> int) jsmap \<Rightarrow> (string, AuthContext \<times> int) jsmap" where
  "evict_tokens now cache =
     (if length cache \<le> 1000 then cache
      else let live = filter (\<lambda>(k, a, expiresAt). \<not> expiresAt \<le> now) cache
        in drop (length live - 1000) live)"

text \<open>The context of the session afterwards; \<open>None\<close> if the token was refused. A session that is gone
  keeps the one it had.\<close>

definition authenticate ::
  "'w OpDeps \<Rightarrow> string \<Rightarrow> AuthContext \<Rightarrow> string \<Rightarrow> 'w OpEngine \<Rightarrow> AuthContext option \<times> 'w OpEngine" where
  "authenticate d c old token e =
     (case od_auth d of
        None \<Rightarrow> (Some old, e)
      | Some f \<Rightarrow>
          (let now = od_now d (en_world e); n = en_connects e c;
               install = \<lambda>a e. (Some (if still_connected e c n then a else old), e\<lparr>en_sessions := setAuth c a (en_sessions e)\<rparr>);
               ask = (case awaiting d (f token) e of
                   (None, e) \<Rightarrow> (None, trySend d c Reauth (emit_event d (AuthFailed c) e))
                 | (Some a, e) \<Rightarrow> install a (e\<lparr>on_authCache :=
                     evict_tokens now (map_set token (a, now + AUTH_CACHE_TTL_MS) (on_authCache e))\<rparr>))
           in case map_get (on_authCache e) token of
                None \<Rightarrow> ask
              | Some (a, expiresAt) \<Rightarrow> if now < expiresAt then install a e else ask))"

section \<open>The batch\<close>

record OpsAnswers =
  oa_accepted :: "string list"
  oa_rejected :: "(string \<times> string option \<times> string \<times> row option) list"
  oa_failed :: "(string, string) jsmap"
  oa_tables :: "string list"
  oa_hear :: "string list"

definition no_answers :: OpsAnswers where
  "no_answers = \<lparr>oa_accepted = [], oa_rejected = [], oa_failed = [], oa_tables = [], oa_hear = []\<rparr>"

text \<open>An empty batch id is none.\<close>

definition failed_before :: "ClientOp \<Rightarrow> OpsAnswers \<Rightarrow> string option" where
  "failed_before op x =
     (case co_batchId op of None \<Rightarrow> None | Some b \<Rightarrow> if b = [] then None else map_get (oa_failed x) b)"

definition note_accept :: "ClientOp \<Rightarrow> OpResult \<Rightarrow> OpsAnswers \<Rightarrow> OpsAnswers" where
  "note_accept op r x = x\<lparr>oa_accepted := oa_accepted x @ [co_id op],
     oa_hear := if or_hearWriter r then set_add (co_table op) (oa_hear x) else oa_hear x\<rparr>"

definition note_reject :: "ClientOp \<Rightarrow> OpResult \<Rightarrow> OpsAnswers \<Rightarrow> OpsAnswers" where
  "note_reject op r x =
     (let reason = (case or_reason r of None \<Rightarrow> ''server_error'' | Some s \<Rightarrow> s)
      in x\<lparr>oa_rejected := oa_rejected x @ [(co_id op, co_batchId op, reason, or_serverRow r)],
           oa_failed := (case co_batchId op of
               None \<Rightarrow> oa_failed x
             | Some b \<Rightarrow> if b = [] then oa_failed x else map_set b reason (oa_failed x))\<rparr>)"

definition note_skipped :: "ClientOp \<Rightarrow> string \<Rightarrow> OpsAnswers \<Rightarrow> OpsAnswers" where
  "note_skipped op reason x = x\<lparr>oa_rejected := oa_rejected x @ [(co_id op, co_batchId op, reason, None)]\<rparr>"

fun run_ops ::
  "'w OpDeps \<Rightarrow> AuthContext \<Rightarrow> session \<Rightarrow> nat \<Rightarrow> ClientOp list \<Rightarrow> OpsAnswers \<Rightarrow> 'w OpEngine
     \<Rightarrow> (unit + OpsAnswers) \<times> 'w OpEngine" where
  "run_ops d a s b [] x e = (Inr x, e)"
| "run_ops d a s b (op # ops) x e =
     (case failed_before op x of
        Some reason \<Rightarrow> run_ops d a s b ops (note_skipped op reason x) e
      | None \<Rightarrow>
          (case processClientOp d op a s (Some (oa_tables x)) (Some b) e of
             (Inl u, tables, e) \<Rightarrow> (Inl u, e)
           | (Inr r, tables, e) \<Rightarrow>
               (let x = x\<lparr>oa_tables := case tables of None \<Rightarrow> [] | Some ts \<Rightarrow> ts\<rparr>
                in run_ops d a s b ops (if or_accepted r then note_accept op r x else note_reject op r x) e)))"

text \<open>The rejects are all sent before any is awaited.\<close>

definition answer_ops :: "'w OpDeps \<Rightarrow> string \<Rightarrow> OpsAnswers \<Rightarrow> 'w OpEngine \<Rightarrow> 'w OpEngine" where
  "answer_ops d c x e =
     (let e = (if oa_accepted x = [] then e else trySend d c (Ack (oa_accepted x)) e)
      in if oa_rejected x = [] then e
         else od_meanwhile d (fold (\<lambda>(i, b, reason, row) e.
             snd (calling (bd_send (od_engine d) c (Reject (Some i) b reason row)) e)) (oa_rejected x) e))"

definition finish_ops :: "'w OpDeps \<Rightarrow> string \<Rightarrow> OpsAnswers \<Rightarrow> 'w OpEngine \<Rightarrow> 'w OpEngine" where
  "finish_ops d c x e =
     (let e = fold (\<lambda>table. op_broadcast d (if table \<in> set (oa_hear x) then [] else c) table) (oa_tables x) e;
          e = emit_event d (OpsProcessed c (int (length (oa_accepted x))) (int (length (oa_rejected x)))) e
      in answer_ops d c x e)"

text \<open>\<open>Inl\<close> is a message whose handling failed; nothing is answered then.\<close>

definition handleOps ::
  "'w OpDeps \<Rightarrow> string \<Rightarrow> ClientOp list \<Rightarrow> string \<Rightarrow> 'w OpEngine \<Rightarrow> (unit + unit) \<times> 'w OpEngine" where
  "handleOps d c ops token e =
     (case session_get (en_sessions e) c of
        None \<Rightarrow> (Inr (), e)
      | Some s \<Rightarrow> (case cs_auth s of
          None \<Rightarrow> (Inr (), e)
        | Some old \<Rightarrow>
            (case authenticate d c old token e of
               (None, e) \<Rightarrow> (Inr (), e)
             | (Some a, e) \<Rightarrow>
                 (case prefetchBatch d ops e of
                    (Inl u, e) \<Rightarrow> (Inl u, e)
                  | (Inr b, e) \<Rightarrow>
                      (case run_ops d a s b ops no_answers e of
                         (Inl u, e) \<Rightarrow> (Inl u, finishBatch b e)
                       | (Inr x, e) \<Rightarrow> (Inr (), finish_ops d c x (finishBatch b e)))))))"

text \<open>The gate before every message but hello and auth.\<close>

definition handle_ops_message ::
  "'w OpDeps \<Rightarrow> string \<Rightarrow> ClientOp list \<Rightarrow> string \<Rightarrow> 'w OpEngine \<Rightarrow> (unit + unit) \<times> 'w OpEngine" where
  "handle_ops_message d c ops token e =
     (case Option.bind (session_get (en_sessions e) c) cs_auth of
        None \<Rightarrow> (let e = trySend d c (Disconnect ''Not authenticated'') e
                 in (Inr (), od_meanwhile d (e\<lparr>en_world := od_disconnect d c (en_world e)\<rparr>)))
      | Some a \<Rightarrow> handleOps d c ops token e)"

end
