(* ===== verification/Row_Store.thy ===== *)
theory Row_Store
  imports Op_Processor Room_State_Facts
begin

text \<open>
  What the op processor relies on of the row store, as the locale \<open>row_store\<close>: reads give the row that is
  there, a write that resolves has written that row alone, a conditional write found the clock it
  expected. The room of the object store provides it.
\<close>

section \<open>The store\<close>

definition written_row :: "WalRowMutation \<Rightarrow> ExistingRow" where
  "written_row m =
     (case wm_row m of
        None \<Rightarrow> no_row
      | Some r \<Rightarrow> \<lparr>ex_row = Some r, ex_rowHlc = Some (wm_hlc m), ex_colClocks = wm_colClocks m\<rparr>)"

definition target_of :: "WalRowMutation \<Rightarrow> string \<times> string" where
  "target_of m = (wm_table m, wm_rowId m)"

text \<open>What the processor relies on of the store: reads give the row that is there, a write that resolves
  has written that row only, a conditional one that gives \<open>True\<close> found the expected clock. What a write
  that rejects leaves is open.\<close>

locale row_store =
  fixes st :: "'w OpStorage"
    and rows :: "'w \<Rightarrow> string \<times> string \<Rightarrow> ExistingRow"
  assumes got: "os_getRow st t r w = (x, w') \<Longrightarrow> rows w' = rows w \<and> (\<forall>ex. x = Some ex \<longrightarrow> ex = rows w (t, r))"
    and got_many: "os_getRowsByIds st = Some f \<Longrightarrow> f t ids w = (y, w') \<Longrightarrow>
      rows w' = rows w \<and> (\<forall>found. y = Some found \<longrightarrow> (\<forall>r \<in> set ids.
        (case obj_get found r of Some ex \<Rightarrow> ex | None \<Rightarrow> no_row) = rows w (t, r)))"
    and applied: "os_applyOp st m en w = (True, w') \<Longrightarrow> rows w' = (rows w)(target_of m := written_row m)"
    and applied_if: "os_applyOpIf st = Some g \<Longrightarrow> g m en h w = (Some True, w') \<Longrightarrow>
      ex_rowHlc (rows w (target_of m)) = h \<and> rows w' = (rows w)(target_of m := written_row m)"
    and lost: "os_applyOpIf st = Some g \<Longrightarrow> g m en h w = (Some False, w') \<Longrightarrow>
      ex_rowHlc (rows w (target_of m)) \<noteq> h \<and> rows w' = rows w"
    and reserved: "os_reserveOp st i w = (b, w') \<Longrightarrow> rows w' = rows w"
    and reserved_many: "os_reserveOps st = Some k \<Longrightarrow> k is w = (z, w') \<Longrightarrow> rows w' = rows w"
begin

lemma read_after_write:
  "os_applyOp st m en w = (True, w1) \<Longrightarrow> os_getRow st (wm_table m) (wm_rowId m) w1 = (Some ex, w2) \<Longrightarrow> ex = written_row m"
  using applied got by (fastforce simp: target_of_def)

lemma other_row_untouched:
  "os_applyOp st m en w = (True, w') \<Longrightarrow> (t, r) \<noteq> target_of m \<Longrightarrow> rows w' (t, r) = rows w (t, r)"
  using applied by simp

end

text \<open>The room of the object store: one writer, so no conditional write.\<close>

definition effect_result :: "('e + 'a) \<times> 'w \<Rightarrow> 'a option \<times> 'w" where
  "effect_result x = (case x of (Inl e, s) \<Rightarrow> (None, s) | (Inr a, s) \<Rightarrow> (Some a, s))"

definition room_op_storage :: "int \<Rightarrow> RoomState OpStorage" where
  "room_op_storage now =
     \<lparr>os_getRow = (\<lambda>t r s. (Some (state_getRow s t r), s)),
      os_getRowsByIds = Some (\<lambda>t ids s. (Some (state_getRowsByIds s t ids), s)),
      os_applyOp = room_applyOp, os_applyOpIf = None,
      os_reserveOp = (\<lambda>i s. effect_result (reserveOp now i s)),
      os_reserveOps = Some (\<lambda>is s. effect_result (reserveOps now is s))\<rparr>"

definition room_rows :: "RoomState \<Rightarrow> string \<times> string \<Rightarrow> ExistingRow" where
  "room_rows s p = state_getRow s (fst p) (snd p)"

lemma room_rows_view:
  "room_rows s = (\<lambda>p. case view s p of None \<Rightarrow> no_row
     | Some (r, c, h) \<Rightarrow> \<lparr>ex_row = Some r, ex_rowHlc = Some h, ex_colClocks = c\<rparr>)"
  by (auto simp: room_rows_def fun_eq_iff view_def state_getRow_def no_row_def existing_def split: option.splits)

lemma room_rows_eq: "rs_rows t = rs_rows s \<Longrightarrow> room_rows t = room_rows s"
  by (simp add: room_rows_view view_def fun_eq_iff)

lemma addBytes_rows: "rs_rows (snd (addBytes n s)) = rs_rows s"
proof (cases "addBytes n s")
  case (Pair x t)
  have "rs_rows t = rs_rows s"
  proof (cases x)
    case (Inl e)
    with Pair addBytes_Inl show ?thesis by blast
  next
    case (Inr u)
    with Pair have "t = charge n s" by (simp add: addBytes_Inr)
    then show ?thesis by simp
  qed
  with Pair show ?thesis by simp
qed

lemma swept_rows: "rs_rows (swept now s) = rs_rows s"
  by (simp add: swept_def sweepReservedOps_def Let_def addBytes_rows)

lemma admit_rows: "rs_rows (snd (admit_reservation i now s)) = rs_rows s"
  by (simp add: admit_reservation_def and_then_def modify_def addBytes_rows)

lemma reserve_loop_rows: "rs_rows (snd (reserve_loop now is s)) = rs_rows s"
proof (induction "is" arbitrary: s)
  case (Cons i "is")
  have a: "rs_rows (snd (admit_reservation i now s)) = rs_rows s" by (rule admit_rows)
  show ?case
    using Cons.IH [of "snd (admit_reservation i now s)"] Cons.IH [of s] a
    by (auto simp: and_then_def split: prod.splits sum.splits)
qed simp

lemma reserve_rows:
  "rs_rows (snd (reserveOp now i s)) = rs_rows s" "rs_rows (snd (reserveOps now is s)) = rs_rows s"
  using admit_rows [of i now "swept now s"] reserve_loop_rows [of now "is" "swept now s"] swept_rows [of now s]
  by (auto simp: reserveOp_def reserveOps_def and_then_def sweep_returns split: prod.splits sum.splits)

lemma effect_world: "snd (effect_result x) = snd x"
  by (cases x; cases "fst x") (auto simp: effect_result_def)

lemma found_row:
  "r \<in> set ids \<Longrightarrow> (case obj_get (state_getRowsByIds s t ids) r of Some ex \<Rightarrow> ex | None \<Rightarrow> no_row) = room_rows s (t, r)"
proof -
  have "obj_get (foldl (\<lambda>out r. case map_get (get_map (rs_rows s) t) r of
        None \<Rightarrow> out | Some e \<Rightarrow> obj_put r (existing e) out) out ids) r
      = (if r \<in> set ids \<and> map_get (get_map (rs_rows s) t) r \<noteq> None
         then map_option existing (map_get (get_map (rs_rows s) t) r) else obj_get out r)" for out
    by (induction ids arbitrary: out) (auto simp: keyed_simps split: option.splits)
  from this [of "[]"] show "r \<in> set ids \<Longrightarrow> ?thesis"
    by (auto simp: state_getRowsByIds_def room_rows_def state_getRow_def entry_of_def no_row_def split: option.splits)
qed

lemma room_write: "room_applyOp m en s = (True, t) \<Longrightarrow> room_rows t = (room_rows s)(target_of m := written_row m)"
proof -
  assume "room_applyOp m en s = (True, t)"
  then obtain u where "applyRecord 0 (ApplyRecord m en) s = (Inr (), t)"
    using assertCanAdmit_keeps by (fastforce simp: room_applyOp_def split: prod.splits sum.splits)
  from applyRecord_view [OF this] show ?thesis
    by (auto simp: room_rows_view overwrite_one mutation_update_def target_of_def written_row_def fun_eq_iff split: option.splits)
qed

interpretation room_ops: row_store "room_op_storage now" room_rows
proof
  show "os_getRow (room_op_storage now) t r w = (x, w') \<Longrightarrow> room_rows w' = room_rows w \<and> (\<forall>ex. x = Some ex \<longrightarrow> ex = room_rows w (t, r))"
    for t r w x w' by (auto simp: room_op_storage_def room_rows_def)
  show "os_getRowsByIds (room_op_storage now) = Some f \<Longrightarrow> f t ids w = (y, w') \<Longrightarrow>
      room_rows w' = room_rows w \<and> (\<forall>found. y = Some found \<longrightarrow> (\<forall>r \<in> set ids.
        (case obj_get found r of Some ex \<Rightarrow> ex | None \<Rightarrow> no_row) = room_rows w (t, r)))" for f t ids w y w'
    using found_row [of _ ids w t] by (auto simp: room_op_storage_def)
  show "os_applyOp (room_op_storage now) m en w = (True, w') \<Longrightarrow> room_rows w' = (room_rows w)(target_of m := written_row m)"
    for m en w w' using room_write by (simp add: room_op_storage_def)
  show "os_reserveOp (room_op_storage now) i w = (b, w') \<Longrightarrow> room_rows w' = room_rows w" for i w b w'
    using effect_world [of "reserveOp now i w"] reserve_rows(1) [of now i w] by (intro room_rows_eq) (simp add: room_op_storage_def)
  show "os_reserveOps (room_op_storage now) = Some k \<Longrightarrow> k is w = (z, w') \<Longrightarrow> room_rows w' = room_rows w" for k "is" w z w'
    using effect_world [of "reserveOps now is w"] reserve_rows(2) [of now "is" w] by (intro room_rows_eq) (auto simp: room_op_storage_def)
qed (simp_all add: room_op_storage_def)

end
