(* ===== verification/Op_Facts.thy ===== *)
theory Op_Facts
  imports Row_Store
begin

text \<open>
  One op on the consistent path: what it leaves in the store is what the pipeline makes of the row that
  was stored. A broadcast and the application's callbacks write no row, by hypothesis.
\<close>

section \<open>A broadcast writes no row\<close>

text \<open>Part of the world that the engine's calls leave as it is, such as the rows of the store.\<close>

definition quiet_engine :: "'w BroadcastDeps \<Rightarrow> ('w \<Rightarrow> 'v) \<Rightarrow> bool" where
  "quiet_engine d obs \<longleftrightarrow> (\<forall>c m w. obs (snd (bd_send d c m w)) = obs w)
     \<and> (\<forall>reg s l w. obs (snd (bd_executeQuery d reg s l w)) = obs w)
     \<and> (\<forall>reg s w. obs (snd (bd_countQuery d reg s w)) = obs w)
     \<and> (\<forall>w. obs (snd (bd_nextHlc d w)) = obs w) \<and> (\<forall>ev w. obs (bd_emit d ev w) = obs w)"

text \<open>Steps that keep that part, and what the processor adds to the engine.\<close>

definition keeps :: "('w \<Rightarrow> 'v) \<Rightarrow> 'w OpEngine \<Rightarrow> 'w OpEngine \<Rightarrow> bool" where
  "keeps obs e e' \<longleftrightarrow> obs (en_world e') = obs (en_world e) \<and> Engine.more e' = Engine.more e"

lemma keeps_refl [simp]: "keeps obs e e"
  by (simp add: keeps_def)

lemma keeps_trans [trans]: "keeps obs e e1 \<Longrightarrow> keeps obs e1 e2 \<Longrightarrow> keeps obs e e2"
  by (simp add: keeps_def)

lemma fold_keeps: "(\<And>x e. keeps obs e (f x e)) \<Longrightarrow> keeps obs e (fold f xs e)"
  by (induction xs arbitrary: e) (auto intro: keeps_trans)

lemma keeps_world: "obs w = obs (en_world e) \<Longrightarrow> keeps obs e (e\<lparr>en_world := w\<rparr>)"
  by (simp add: keeps_def)

lemma keeps_cache [simp]: "keeps obs e (on_cache f e)"
  by (simp add: keeps_def on_cache_def)

lemma keeps_sessions [simp]: "keeps obs e (e\<lparr>en_sessions := sm\<rparr>)"
  by (simp add: keeps_def)

lemma send_all_quiet: "quiet_engine d obs \<Longrightarrow> obs (snd (send_all d c ms w)) = obs w"
proof (induction ms arbitrary: w)
  case (Cons m ms)
  have "obs (snd (bd_send d c m w)) = obs w" using Cons.prems by (simp add: quiet_engine_def)
  with Cons.IH [OF Cons.prems, of "snd (bd_send d c m w)"] show ?case by (simp add: split_def)
qed simp

lemma commit_keeps: "keeps obs e (snd (commit_rows d c n q rows pk e))"
  by (simp add: commit_rows_def)

lemma section_keeps:
  assumes "quiet_engine d obs"
  shows "keeps obs e (snd (sendToSubscriber d id n reg m rows tot hlc e))"
proof -
  have sent: "keeps obs e (e\<lparr>en_world := snd (send_all d c ms (en_world e))\<rparr>)" for c ms
    by (rule keeps_world) (rule send_all_quiet [OF assms])
  have sent_committed: "keeps obs e (snd (commit_rows d c n q rs pk (e\<lparr>en_world := snd (send_all d c ms (en_world e))\<rparr>)))" for c ms q rs pk
    using sent commit_keeps by (rule keeps_trans)
  have counted: "keeps obs e (snd (commit_rows d c n q rs pk (e\<lparr>en_world := snd (send_all d c ms (en_world e))\<rparr>))\<lparr>en_sessions := sm\<rparr>)"
    for c ms q rs pk sm using sent_committed keeps_sessions by (rule keeps_trans)
  show ?thesis
    by (simp add: sendToSubscriber_def Let_def split_def sent sent_committed counted commit_keeps split: option.splits)
qed

lemma broadcast_keeps:
  assumes q: "quiet_engine d obs"
  shows "keeps obs e (broadcastChanges d table exclude room e)"
proof -
  have count: "obs (snd (total_count d reg s rows w)) = obs w" for reg s rows w
    using q by (simp add: total_count_def quiet_engine_def)
  have group: "keeps obs e (broadcastGroup d reg hlc grp e)" for reg hlc grp e
  proof -
    obtain r w where r: "executeWithTimeout d reg (fst (hd grp)) (limitFor reg grp) (en_world e) = (r, w)" by fastforce
    then have w: "obs w = obs (en_world e)"
      using q by (auto simp: executeWithTimeout_def quiet_engine_def split: prod.splits) (metis snd_conv)
    show ?thesis
    proof (cases r)
      case None
      then show ?thesis using q r w by (simp add: broadcastGroup_def Let_def quiet_engine_def keeps_world)
    next
      case (Some rows)
      obtain tot w' where t: "total_count d reg (fst (hd grp)) rows w = (tot, w')" by fastforce
      then have "obs w' = obs (en_world e)" using count [of reg "fst (hd grp)" rows w] w by simp
      then have "keeps obs e (e\<lparr>en_world := w'\<rparr>)" by (rule keeps_world)
      moreover have "keeps obs (e\<lparr>en_world := w'\<rparr>) (fold (\<lambda>m x. snd (sendToSubscriber d id (en_connects e (cs_clientId (fst m))) reg m rows tot hlc x)) grp (e\<lparr>en_world := w'\<rparr>))"
        by (rule fold_keeps) (rule section_keeps [OF q])
      ultimately show ?thesis using r t Some by (auto simp: broadcastGroup_def Let_def intro: keeps_trans)
    qed
  qed
  have query: "keeps obs e (broadcast_query d exclude room hlc qn e)" for hlc qn e
    by (auto simp: broadcast_query_def split: option.splits intro!: fold_keeps group)
  show ?thesis
  proof (cases "map_get (bd_tableDependencyIndex d) table")
    case (Some queries)
    obtain hlc w where h: "bd_nextHlc d (en_world e) = (hlc, w)" by fastforce
    then have "obs w = obs (en_world e)" using q by (metis quiet_engine_def snd_conv)
    then have "keeps obs e (e\<lparr>en_world := w\<rparr>)" by (rule keeps_world)
    moreover have "keeps obs (e\<lparr>en_world := w\<rparr>) (fold (broadcast_query d exclude room hlc) queries (e\<lparr>en_world := w\<rparr>))"
      by (rule fold_keeps) (rule query)
    ultimately show ?thesis using Some h by (auto simp: broadcastChanges_def intro: keeps_trans)
  qed (simp add: broadcastChanges_def)
qed

section \<open>One op on a quiet row\<close>

text \<open>Nothing but the store's own writes changes the part of the world that is observed. For a single row
  the row queue sees to that within one server.\<close>

definition quiet_world :: "'w OpDeps \<Rightarrow> ('w \<Rightarrow> 'v) \<Rightarrow> bool" where
  "quiet_world d obs \<longleftrightarrow> quiet_engine (od_engine d) obs \<and> (\<forall>h w. obs (od_receiveHlc d h w) = obs w)
     \<and> (\<forall>e. obs (en_world (od_meanwhile d e)) = obs (en_world e))
     \<and> (\<forall>q reg. map_get (bd_queries (od_engine d)) q = Some reg \<longrightarrow>
          (\<forall>f op ctx w. qr_authorize reg = Some f \<longrightarrow> obs (snd (f op ctx w)) = obs w)
          \<and> (\<forall>f op ctx w. qr_mutate reg = Some f \<longrightarrow> obs (snd (f op ctx w)) = obs w))"

lemma awaiting_quiet:
  "quiet_world d obs \<Longrightarrow> (\<And>w. obs (snd (f w)) = obs w) \<Longrightarrow> awaiting d f e = (x, e') \<Longrightarrow> obs (en_world e') = obs (en_world e)"
  by (auto simp: awaiting_def quiet_world_def split_def)

lemma authorize_quiet:
  assumes "quiet_world d obs" "map_get (bd_queries (od_engine d)) q = Some reg" "authorize_op d reg op ctx e = (x, e')"
  shows "obs (en_world e') = obs (en_world e)"
proof (cases "qr_authorize reg")
  case (Some f)
  then have "\<And>w. obs (snd (f op ctx w)) = obs w" using assms(1,2) by (simp add: quiet_world_def)
  from awaiting_quiet [OF assms(1) this] assms(3) Some show ?thesis by (simp add: authorize_op_def)
qed (use assms(3) in \<open>simp add: authorize_op_def\<close>)

lemma mutate_quiet:
  assumes "quiet_world d obs" "map_get (bd_queries (od_engine d)) q = Some reg" "mutate_op d reg op ctx e = (x, e')"
  shows "obs (en_world e') = obs (en_world e)"
proof (cases "qr_mutate reg")
  case (Some f)
  then have "\<And>w. obs (snd (f op ctx w)) = obs w" using assms(1,2) by (simp add: quiet_world_def)
  from awaiting_quiet [OF assms(1) this] assms(3) Some show ?thesis by (simp add: mutate_op_def)
qed (use assms(3) in \<open>simp add: mutate_op_def\<close>)

lemma batch_world [simp]: "en_world (on_batch b f e) = en_world e" "en_world (recordBatchWrite b t r row c h e) = en_world e"
  by (auto simp: on_batch_def recordBatchWrite_def Let_def split: option.splits)

lemma view_world [simp]: "en_world (keep_writer_view d op c held e) = en_world e" "en_world (on_cache f e) = en_world e"
  by (auto simp: keep_writer_view_def forgetWriterRow_def recordWriterColumns_def on_cache_def split: option.splits)

lemma announce_quiet:
  assumes "quiet_world d obs" "announce d c ts deferred e = (x, e')"
  shows "obs (en_world e') = obs (en_world e)"
proof -
  have "keeps obs e (fold (op_broadcast d c) ts e)" for ts
    using assms(1) by (intro fold_keeps) (simp add: op_broadcast_def broadcast_keeps quiet_world_def)
  with assms(2) show ?thesis by (auto simp: announce_def keeps_def split: option.splits)
qed

definition row_key_of :: "ClientOp \<Rightarrow> string \<times> string" where
  "row_key_of op = (co_table op, co_rowId op)"

text \<open>What the batch would answer for the op's row is what the store has.\<close>

definition batch_agrees :: "('w \<Rightarrow> string \<times> string \<Rightarrow> ExistingRow) \<Rightarrow> nat option \<Rightarrow> ClientOp \<Rightarrow> 'w OpEngine \<Rightarrow> bool" where
  "batch_agrees rows batch op e \<longleftrightarrow>
     (\<forall>ex. cached_row batch (rowKey (co_table op) (co_rowId op)) e = Some ex \<longrightarrow> ex = rows (en_world e) (row_key_of op))"

lemma read_existing_gives:
  assumes "row_store st rows" "od_storage d = Some st" "quiet_world d (\<lambda>w. rows w (row_key_of op))"
    and "again \<or> batch_agrees rows batch op e" "read_existing d op batch again e = (Some ex, e')"
  shows "ex = rows (en_world e) (row_key_of op) \<and> rows (en_world e') (row_key_of op) = rows (en_world e) (row_key_of op)"
proof -
  have got: "rows w' = rows w \<and> (\<forall>ex. x = Some ex \<longrightarrow> ex = rows w (row_key_of op))"
    if "os_getRow st (co_table op) (co_rowId op) w = (x, w')" for x w w'
    using row_store.got [OF assms(1) that] by (simp add: row_key_of_def)
  have asked: "ex = rows (en_world e) (row_key_of op) \<and> rows (en_world y) (row_key_of op) = rows (en_world e) (row_key_of op)"
    if "awaiting d (os_getRow st (co_table op) (co_rowId op)) e = (Some ex, y)" for ex y
    using got that assms(3) by (auto simp: awaiting_def quiet_world_def split: prod.splits)
  show ?thesis
  proof (cases "again \<or> cached_row batch (rowKey (co_table op) (co_rowId op)) e = None")
    case True
    with assms(2,5) obtain y where "awaiting d (os_getRow st (co_table op) (co_rowId op)) e = (Some ex, y)" "en_world e' = en_world y"
      by (auto simp: read_existing_def readRow_def split: if_splits prod.splits option.splits)
    with asked show ?thesis by simp
  next
    case False
    with assms(2,4,5) show ?thesis by (auto simp: read_existing_def readRow_def batch_agrees_def)
  qed
qed

lemma persist_gives:
  assumes "row_store st rows" "od_storage d = Some st" "quiet_world d (\<lambda>w. rows w (row_key_of op))"
    and "persist_resolved d op o' r ex batch e = (x, e')"
  shows "case x of
      Written \<Rightarrow> rows (en_world e') (row_key_of op)
        = written_row (fst (apply_args op (pr_resolvedRow r) (pr_colClocks r) (co_hlc op) None))
    | Lost_race \<Rightarrow> ex_rowHlc (rows (en_world e) (row_key_of op)) \<noteq> ex_rowHlc ex
    | Rejected_by_store \<Rightarrow> True"
proof -
  let ?args = "apply_args op (pr_resolvedRow r) (pr_colClocks r) (co_hlc op) (logged_payload o' (pr_resolvedRow r))"
  have target: "target_of (fst ?args) = row_key_of op"
    and same: "written_row (fst ?args) = written_row (fst (apply_args op (pr_resolvedRow r) (pr_colClocks r) (co_hlc op) None))"
    by (simp_all add: apply_args_def target_of_def row_key_of_def)
  have world: "rows (en_world (od_meanwhile d y)) (row_key_of op) = rows (en_world y) (row_key_of op)" for y
    using assms(3) by (simp add: quiet_world_def)
  show ?thesis
  proof (cases "if object_policy o' then os_applyOpIf st else None")
    case None
    obtain ok w where w: "os_applyOp st (fst ?args) (snd ?args) (en_world e) = (ok, w)" by fastforce
    then have "ok \<Longrightarrow> rows w (row_key_of op) = written_row (fst ?args)"
      using row_store.applied [OF assms(1), of "fst ?args" "snd ?args" "en_world e" w] target by simp
    with None w assms(2,4) same show ?thesis
      by (auto simp: persist_resolved_def awaiting_def split_def Let_def world split: if_splits)
  next
    case (Some f)
    then have f: "os_applyOpIf st = Some f" by (simp split: if_splits)
    obtain ok w where w: "f (fst ?args) (snd ?args) (ex_rowHlc ex) (en_world e) = (ok, w)" by fastforce
    have "ok = Some True \<Longrightarrow> rows w (row_key_of op) = written_row (fst ?args)"
      "ok = Some False \<Longrightarrow> ex_rowHlc (rows (en_world e) (row_key_of op)) \<noteq> ex_rowHlc ex"
      using row_store.applied_if [OF assms(1) f, of "fst ?args" "snd ?args" "ex_rowHlc ex" "en_world e" w]
        row_store.lost [OF assms(1) f, of "fst ?args" "snd ?args" "ex_rowHlc ex" "en_world e" w] target w by simp_all
    with Some w assms(2,4) same show ?thesis
      by (auto simp: persist_resolved_def awaiting_def split_def Let_def world split: option.splits bool.splits if_splits)
  qed
qed

text \<open>The reference: the pipeline on the stored row.\<close>

definition decision ::
  "'w OpDeps \<Rightarrow> ClientOp \<Rightarrow> 'w QueryRegistration \<Rightarrow> AuthContext \<Rightarrow> session \<Rightarrow> ExistingRow \<Rightarrow> int \<Rightarrow> RateLimiter
     \<Rightarrow> PipelineResult" where
  "decision d op reg a s ex now l =
     fst (processOp now op ex (eager_context d a s (resolved_options reg (mutation_context op a s))) l)"

definition stored_decision :: "ClientOp \<Rightarrow> PipelineResult \<Rightarrow> ExistingRow" where
  "stored_decision op p = written_row (fst (apply_args op (pr_resolvedRow p) (pr_colClocks p) (co_hlc op) None))"

definition settled :: "'w OpDeps \<Rightarrow> ('w \<Rightarrow> string \<times> string \<Rightarrow> ExistingRow) \<Rightarrow> ClientOp \<Rightarrow> 'w QueryRegistration
     \<Rightarrow> AuthContext \<Rightarrow> session \<Rightarrow> OpResult \<Rightarrow> 'w OpEngine \<Rightarrow> 'w OpEngine \<Rightarrow> bool" where
  "settled d rows op reg a s res e e' \<longleftrightarrow>
     (if or_accepted res
      then \<exists>now l. let p = decision d op reg a s (rows (en_world e) (row_key_of op)) now l
        in pr_accepted p \<and> rows (en_world e') (row_key_of op) = stored_decision op p
      else rows (en_world e') (row_key_of op) = rows (en_world e) (row_key_of op))"

lemma attempt_settles:
  assumes st: "row_store st rows" "od_storage d = Some st" "quiet_world d (\<lambda>w. rows w (row_key_of op))"
    and reg: "map_get (bd_queries (od_engine d)) q = Some reg" and agrees: "again \<or> batch_agrees rows batch op e"
    and run: "attemptConsistentOp d op reg a s deferred batch again e = (Inr res, deferred', e')"
  shows "\<exists>r. res = Some r \<and> settled d rows op reg a s r e e'"
proof -
  let ?row = "\<lambda>e. rows (en_world e) (row_key_of op)"
  let ?ctx = "mutation_context op a s" and ?o = "resolved_options reg (mutation_context op a s)"
  obtain x e1 where read: "read_existing d op batch again e = (x, e1)" by fastforce
  with run obtain ex where x: "x = Some ex" by (cases x) (auto simp: attemptConsistentOp_def)
  have ex: "ex = ?row e" "?row e1 = ?row e" using read_existing_gives [OF st agrees read [unfolded x]] by simp_all
  let ?now = "od_now d (en_world e1)" and ?l = "on_limiter e1"
  let ?p = "decision d op reg a s ex ?now ?l"
  let ?e1 = "e1\<lparr>on_limiter := snd (processOp ?now op ex (eager_context d a s ?o) ?l)\<rparr>"
  let ?resolved = "\<lparr>ro_type = co_op op, ro_table = co_table op, ro_rowId = co_rowId op,
    ro_payload = pr_resolvedRow ?p, ro_hlc = co_hlc op\<rparr>"
  obtain err e2 where auth: "authorize_op d reg ?resolved ?ctx ?e1 = (err, e2)" by fastforce
  obtain m e3 where mut: "mutate_op d reg ?resolved ?ctx e2 = (m, e3)" by fastforce
  obtain y e4 where per: "persist_resolved d op ?o ?p ex batch e3 = (y, e4)" by fastforce
  have e2: "?row e2 = ?row e" using authorize_quiet [OF st(3) reg auth] ex(2) by simp
  have e3: "?row e3 = ?row e" using mutate_quiet [OF st(3) reg mut] e2 by simp
  note written = persist_gives [OF st per]
  show ?thesis
  proof (cases "\<not> pr_accepted ?p \<or> err \<noteq> None \<or> isl m")
    case True
    then have "\<exists>r. res = Some r \<and> \<not> or_accepted r \<and> ?row e' = ?row e"
      using run read x auth mut ex(2) e2 e3
      by (auto simp: attemptConsistentOp_def Let_def split_def decision_def refused_def split: option.splits sum.splits if_splits)
    then show ?thesis by (auto simp: settled_def)
  next
    case False
    then obtain tables where ok: "pr_accepted ?p" "err = None" "m = Inr tables" by (cases m) auto
    have "y = Written"
      using written ex(1) e3 run read x auth mut ok per
      by (cases y) (auto simp: attemptConsistentOp_def Let_def split_def decision_def)
    let ?c = "cs_clientId s"
    let ?hear = "co_op op \<noteq> Delete \<and> resolverChangedValue (pr_resolvedRow ?p) (pr_colClocks ?p) (co_hlc op) (qo_serverSet ?o) (co_payload op)"
    let ?e4 = "keep_writer_view d op ?c (writerHeldColumns (pr_resolvedRow ?p) (pr_colClocks ?p) (co_hlc op)
      (qo_serverSet ?o) (Some (co_payload op))) e4"
    obtain ts e5 where ann: "announce d (if ?hear then [] else ?c) (co_table op # tables) deferred ?e4 = (ts, e5)" by fastforce
    have "res = Some (accepted_op\<lparr>or_reason := pr_reason ?p, or_hearWriter := ?hear\<rparr>) \<and> e' = e5"
      using run read x auth mut ok per \<open>y = Written\<close> ann
      by (simp add: attemptConsistentOp_def Let_def split_def decision_def)
    then have "\<exists>r. res = Some r \<and> or_accepted r \<and> ?row e' = ?row e4"
      using announce_quiet [OF st(3) ann] by (simp add: accepted_op_def)
    then show ?thesis using written \<open>y = Written\<close> ok(1) ex(1)
      by (auto simp: settled_def Let_def stored_decision_def intro!: exI [where x = ?now] exI [where x = ?l])
  qed
qed

text \<open>C31: The consistent path refines the pipeline. On a store that keeps its contract, while no one else
  writes the row, an accepted op has left in the store exactly what the pipeline makes of the row that
  was there, and an op that was refused, by a gate, the resolution, \<open>authorize\<close> or \<open>mutate\<close>, has left
  that row alone. No attempt is lost to a race.\<close>

theorem consistent_op_refines_pipeline:
  assumes "row_store st rows" "od_storage d = Some st" "quiet_world d (\<lambda>w. rows w (row_key_of op))"
    and "map_get (bd_queries (od_engine d)) (co_table op) = Some reg" "batch_agrees rows batch op e"
    and "processConsistentOp d op reg a s deferred batch e = (Inr res, deferred', e')"
  shows "if or_accepted res
    then \<exists>now l. let p = decision d op reg a s (rows (en_world e) (row_key_of op)) now l
      in pr_accepted p \<and> rows (en_world e') (row_key_of op) = stored_decision op p
    else rows (en_world e') (row_key_of op) = rows (en_world e) (row_key_of op)"
proof -
  obtain x ts e1 where one: "attemptConsistentOp d op reg a s deferred batch False e = (x, ts, e1)" by (cases rule: prod_cases3)
  have n: "MAX_WRITE_ATTEMPTS = Suc 7" by (simp add: MAX_WRITE_ATTEMPTS_def)
  note run = assms(6) [unfolded processConsistentOp_def n consistent_attempts.simps one]
  obtain y where "x = Inr y" using run by (cases x) auto
  with attempt_settles [OF assms(1-4), of False batch e a s deferred y ts e1] one assms(5)
  obtain r where r: "x = Inr (Some r)" "settled d rows op reg a s r e e1" by auto
  with run have "r = res" "e1 = e'" by auto
  with r(2) show ?thesis by (simp add: settled_def)
qed

end
