(* ===== verification/Stable_Json.thy ===== *)
theory Stable_Json
  imports Broadcast
begin

text \<open>
  The text that groups subscribers is unambiguous: for values that come from JSON, two texts are the
  same exactly when the values are, up to the order of their fields.
\<close>

section \<open>Deterministic JSON is unambiguous\<close>

text \<open>The value a text stands for: no member that is undefined, keys in order, no references.\<close>

fun canon :: "jsval \<Rightarrow> jsval" where
  "canon Undefined = Null"
| "canon NaN = Null"
| "canon (Arr r xs) = Arr 0 (map canon xs)"
| "canon (Obj r f) = Obj 0 (sort_key fst (map (\<lambda>(k, v). (k, canon v)) (filter (\<lambda>(k, v). v \<noteq> Undefined) f)))"
| "canon v = v"

text \<open>Values that come from JSON: no dates, and objects with distinct keys.\<close>

fun from_json :: "jsval \<Rightarrow> bool" where
  "from_json (Date r d) = False"
| "from_json (Arr r xs) = list_all from_json xs"
| "from_json (Obj r f) = (obj_wf f \<and> list_all (\<lambda>(k, v). from_json v) f)"
| "from_json v = True"

lemma stable_items_map: "stable_items xs = map stableStringify xs"
  by (induction xs) auto

lemma stable_members_map:
  "stable_members f = map (\<lambda>(k, v). (k, stableStringify v)) (filter (\<lambda>(k, v). v \<noteq> Undefined) f)"
  by (induction f) auto

lemma sort_key_map: "(\<And>x. g' (h x) = g x) \<Longrightarrow> sort_key g' (map h xs) = map h (sort_key g xs)"
proof (induction xs)
  case (Cons x xs)
  have "insort_key g' (h x) (map h ys) = map h (insort_key g x ys)" for ys
    by (induction ys) (use Cons.prems in auto)
  with Cons show ?case by simp
qed simp

definition defined_members :: "row \<Rightarrow> row" where
  "defined_members f = sort_key fst (filter (\<lambda>(k, v). v \<noteq> Undefined) f)"

definition member_text :: "string \<times> jsval \<Rightarrow> string" where
  "member_text p = json_string (fst p) @ '':'' @ stableStringify (snd p)"

lemma stable_Obj: "stableStringify (Obj r f) = ''{'' @ commas (map member_text (defined_members f)) @ ''}''"
proof -
  have "sort_key fst (stable_members f) = map (\<lambda>(k, v). (k, stableStringify v)) (defined_members f)"
    unfolding stable_members_map defined_members_def by (rule sort_key_map) (simp add: split_def)
  then show ?thesis by (simp add: member_text_def [abs_def] comp_def split_def)
qed

lemma canon_Obj: "canon (Obj r f) = Obj 0 (map (\<lambda>(k, v). (k, canon v)) (defined_members f))"
  by (simp add: defined_members_def sort_key_map split_def)

subsection \<open>Texts end where they end\<close>

definition stop :: "string \<Rightarrow> bool" where
  "stop r \<longleftrightarrow> r = [] \<or> hd r \<in> {CHR '','', CHR '']'', CHR ''}''}"

definition hex_value :: "char \<Rightarrow> nat" where
  "hex_value c = (let n = of_char c :: nat in if n < 58 then n - 48 else n - 87)"

definition unescape :: "string \<Rightarrow> char \<times> string" where
  "unescape s =
     (if hd s \<noteq> CHR 0x5C then (hd s, tl s)
      else let c = s ! 1
        in if c = CHR ''u'' then (char_of (16 * hex_value (s ! 4) + hex_value (s ! 5)), drop 6 s)
           else (if c = CHR ''b'' then CHR 0x08 else if c = CHR ''t'' then CHR 0x09 else if c = CHR ''n'' then CHR 0x0A
                 else if c = CHR ''f'' then CHR 0x0C else if c = CHR ''r'' then CHR 0x0D else c, drop 2 s))"

lemma hex_value_lower [simp]: "n < 16 \<Longrightarrow> hex_value (lower_hex n) = n"
  by (auto simp: hex_value_def lower_hex_def)

lemma of_char_eq: "(of_char c :: nat) = n \<Longrightarrow> c = char_of n"
  by auto

lemma unescape_json: "unescape (json_char c @ x) = (c, x)"
proof -
  define n where n: "n = (of_char c :: nat)"
  then have c: "c = char_of n" and lt: "n < 256" by simp_all
  have known: "c = d" if "n = of_char d" for d using that n by simp
  show ?thesis
  proof (cases "n \<in> {34, 92, 8, 9, 10, 12, 13}")
    case True
    then have "c \<in> {CHR 0x22, CHR 0x5C, CHR 0x08, CHR 0x09, CHR 0x0A, CHR 0x0C, CHR 0x0D}"
      using known [of "CHR 0x22"] known [of "CHR 0x5C"] known [of "CHR 0x08"] known [of "CHR 0x09"]
        known [of "CHR 0x0A"] known [of "CHR 0x0C"] known [of "CHR 0x0D"] by auto
    then show ?thesis by (elim insertE) (simp_all add: json_char_def unescape_def)
  next
    case False
    show ?thesis
    proof (cases "n < 32")
      case True
      then have "n div 16 < 16" "16 * (n div 16) + n mod 16 = n" by simp_all
      with True False n show ?thesis
        by (simp add: json_char_def unescape_def Let_def)
    next
      case ge: False
      have "c \<noteq> CHR 0x5C" using False n by auto
      with ge False n show ?thesis by (simp add: json_char_def unescape_def Let_def)
    qed
  qed
qed

lemma json_char_inj: "json_char c @ x = json_char d @ y \<Longrightarrow> c = d \<and> x = y"
  by (metis unescape_json prod.inject)

lemma json_char_head: "json_char c = b # bs \<Longrightarrow> b \<noteq> CHR 0x22"
  by (auto simp: json_char_def Let_def split: if_splits)

lemma json_char_nonempty [simp]: "json_char c \<noteq> []"
  by (simp add: json_char_def Let_def)

lemma chars_inj:
  "concat (map json_char s) @ CHR 0x22 # x = concat (map json_char t) @ CHR 0x22 # y \<Longrightarrow> s = t \<and> x = y"
proof (induction s arbitrary: t)
  case Nil
  then show ?case
    by (cases t; cases "json_char (hd t)") (auto dest: json_char_head)
next
  case (Cons c s)
  show ?case
  proof (cases t)
    case Nil
    with Cons.prems show ?thesis by (cases "json_char c") (auto dest: json_char_head)
  next
    case (Cons d ts)
    with Cons.prems have "json_char c @ concat (map json_char s) @ CHR 0x22 # x = json_char d @ concat (map json_char ts) @ CHR 0x22 # y"
      by simp
    from json_char_inj [OF this] Cons.IH Cons show ?thesis by blast
  qed
qed

lemma json_string_inj: "json_string s @ x = json_string t @ y \<Longrightarrow> s = t \<and> x = y"
  using chars_inj [of s x t y] by (simp add: json_string_def)

lemma stop_no_digit: "stop r \<Longrightarrow> r \<noteq> [] \<Longrightarrow> \<not> is_digit (hd r)"
  by (auto simp: stop_def is_digit_def)

lemma digits_then_stop: "stop r \<Longrightarrow> takeWhile is_digit (nat_str n @ r) = nat_str n"
  using stop_no_digit [of r] nat_str_digits [of n]
  by (cases r) (auto simp: list_all_iff takeWhile_append)

lemma nat_str_inj: "stop x \<Longrightarrow> stop y \<Longrightarrow> nat_str m @ x = nat_str n @ y \<Longrightarrow> m = n \<and> x = y"
  by (metis digits_then_stop digits_val_nat_str append_same_eq same_append_eq)

lemma nat_str_head: "\<exists>c cs. nat_str n = c # cs \<and> is_digit c"
  using nat_str_digits [of n] nat_str_nonempty [of n] by (cases "nat_str n") auto

lemma nat_str_minus: "nat_str n \<noteq> CHR ''-'' # x"
  using nat_str_head [of n] by (auto simp: is_digit_def)

lemma int_str_inj:
  assumes "stop x" "stop y" "int_str m @ x = int_str n @ y"
  shows "m = n \<and> x = y"
proof (cases "m < 0 \<longleftrightarrow> n < 0")
  case True
  with assms(3) have "nat_str (nat \<bar>m\<bar>) @ x = nat_str (nat \<bar>n\<bar>) @ y" by (auto simp: int_str_def split: if_splits)
  from nat_str_inj [OF assms(1,2) this] True show ?thesis by auto
next
  case False
  have "nat_str k @ a \<noteq> CHR ''-'' # b" for k a b using nat_str_head [of k] by (auto simp: is_digit_def)
  with False assms(3) show ?thesis by (auto simp: int_str_def split: if_splits) metis
qed

subsection \<open>The head of a text tells its kind\<close>

definition kind :: "jsval \<Rightarrow> nat" where
  "kind v = (case v of Bool b \<Rightarrow> if b then 1 else 2 | Num n \<Rightarrow> 3 | Str s \<Rightarrow> 4 | Arr r xs \<Rightarrow> 5 | Obj r f \<Rightarrow> 6 | _ \<Rightarrow> 0)"

definition head_kind :: "char \<Rightarrow> nat" where
  "head_kind c = (if c = CHR ''n'' then 0 else if c = CHR ''t'' then 1 else if c = CHR ''f'' then 2
     else if c = CHR 0x22 then 4 else if c = CHR ''['' then 5 else if c = CHR ''{'' then 6
     else if c = CHR '']'' \<or> c = CHR ''}'' then 7 else 3)"

lemma head_of_text: "from_json v \<Longrightarrow> \<exists>c cs. stableStringify v = c # cs \<and> head_kind c = kind v"
proof (cases v)
  case (Num n)
  obtain c cs where c: "nat_str (nat n) = c # cs" "is_digit c" using nat_str_head by blast
  then have "c \<notin> {CHR ''n'', CHR ''t'', CHR ''f'', CHR 0x22, CHR ''['', CHR ''{'', CHR '']'', CHR ''}''}" by (auto simp: is_digit_def)
  with c Num show ?thesis by (auto simp: int_str_def head_kind_def kind_def)
qed (auto simp: kind_def head_kind_def json_string_def)

definition after_one :: "char \<Rightarrow> string list \<Rightarrow> string \<Rightarrow> string" where
  "after_one e l r = (if l = [] then e # r else CHR '','' # commas l @ e # r)"

lemma commas_Cons: "commas (a # l) @ e # r = a @ after_one e l r"
  by (cases l) (auto simp: after_one_def)

lemma stop_after: "e = CHR '']'' \<or> e = CHR ''}'' \<Longrightarrow> stop (after_one e l r)"
  by (auto simp: stop_def after_one_def)

lemma commas_inj:
  assumes "\<forall>p \<in> set ps. \<forall>q \<in> set qs. \<forall>x y. stop x \<longrightarrow> stop y \<longrightarrow> pr p @ x = pr q @ y \<longrightarrow> cn p = cn q \<and> x = y"
    and "\<forall>p \<in> set ps \<union> set qs. pr p \<noteq> [] \<and> head_kind (hd (pr p)) \<noteq> 7"
    and "e = CHR '']'' \<or> e = CHR ''}''" "commas (map pr ps) @ e # x = commas (map pr qs) @ e # y"
  shows "map cn ps = map cn qs \<and> x = y"
  using assms
proof (induction ps arbitrary: qs)
  case Nil
  show ?case
  proof (cases qs)
    case (Cons q qs')
    with Nil.prems have "e # x = pr q @ after_one e (map pr qs') y" by (simp add: commas_Cons)
    then have "hd (pr q) = e" using Nil.prems(2) Cons by (cases "pr q") auto
    with Nil.prems(2,3) Cons show ?thesis by (auto simp: head_kind_def)
  qed (use Nil in simp)
next
  case (Cons p ps)
  show ?case
  proof (cases qs)
    case Nil
    with Cons.prems have "e # y = pr p @ after_one e (map pr ps) x" by (simp add: commas_Cons)
    then have "hd (pr p) = e" using Cons.prems(2) by (cases "pr p") auto
    with Cons.prems(2,3) show ?thesis by (auto simp: head_kind_def)
  next
    case qs: (Cons q qs')
    have "pr p @ after_one e (map pr ps) x = pr q @ after_one e (map pr qs') y"
      using Cons.prems(4) qs by (simp add: commas_Cons)
    moreover have "\<forall>x y. stop x \<longrightarrow> stop y \<longrightarrow> pr p @ x = pr q @ y \<longrightarrow> cn p = cn q \<and> x = y"
      using Cons.prems(1) qs by (meson list.set_intros(1))
    ultimately have p: "cn p = cn q" "after_one e (map pr ps) x = after_one e (map pr qs') y"
      using stop_after [OF Cons.prems(3)] by blast+
    have "ps = [] \<longleftrightarrow> qs' = []" using p(2) Cons.prems(3) by (auto simp: after_one_def split: if_splits)
    then have "ps = [] \<and> qs' = [] \<and> x = y \<or> commas (map pr ps) @ e # x = commas (map pr qs') @ e # y"
      using p(2) by (auto simp: after_one_def split: if_splits)
    then show ?thesis
    proof
      assume "ps = [] \<and> qs' = [] \<and> x = y"
      with p(1) qs show ?thesis by simp
    next
      assume c: "commas (map pr ps) @ e # x = commas (map pr qs') @ e # y"
      have "map cn ps = map cn qs' \<and> x = y"
        by (rule Cons.IH [OF _ _ Cons.prems(3) c]) (use Cons.prems(1,2) qs in simp_all)
      with p(1) qs show ?thesis by simp
    qed
  qed
qed

lemma text_head: "from_json v \<Longrightarrow> stableStringify v \<noteq> [] \<and> head_kind (hd (stableStringify v)) \<noteq> 7"
  using head_of_text [of v] by (auto simp: kind_def split: jsval.splits)

lemma member_head: "member_text p \<noteq> [] \<and> head_kind (hd (member_text p)) \<noteq> 7"
  by (simp add: member_text_def json_string_def head_kind_def)

lemma kinds_agree:
  assumes "from_json v" "from_json w" "stableStringify v @ x = stableStringify w @ y"
  shows "kind v = kind w"
  using head_of_text [OF assms(1)] head_of_text [OF assms(2)] assms(3) by auto

lemma simple_inj:
  "from_json v \<Longrightarrow> from_json w \<Longrightarrow> kind v = kind w \<Longrightarrow> kind v \<le> 2 \<Longrightarrow> canon v = canon w \<and> stableStringify v = stableStringify w"
  by (cases v; cases w) (auto simp: kind_def split: if_splits)

lemma low_inj:
  assumes "kind v \<le> 2" "from_json v" "from_json w" "stableStringify v @ x = stableStringify w @ y"
  shows "canon v = canon w \<and> x = y"
  using simple_inj [OF assms(2,3) kinds_agree [OF assms(2-4)] assms(1)] assms(4) by simp

lemma stable_inj:
  assumes "from_json v" "from_json w" "stop x" "stop y" "stableStringify v @ x = stableStringify w @ y"
  shows "canon v = canon w \<and> x = y"
  using assms
proof (induction v arbitrary: w x y)
  case (Arr r xs)
  then obtain r' ys where w: "w = Arr r' ys" using kinds_agree [OF Arr.prems(1,2,5)]
    by (cases w) (auto simp: kind_def split: if_splits)
  have "map canon xs = map canon ys \<and> x = y"
  proof (rule commas_inj [where pr = stableStringify and e = "CHR '']''"])
    show "\<forall>p \<in> set xs. \<forall>q \<in> set ys. \<forall>x y. stop x \<longrightarrow> stop y \<longrightarrow> stableStringify p @ x = stableStringify q @ y
        \<longrightarrow> canon p = canon q \<and> x = y"
      using Arr.IH Arr.prems(1,2) w by (auto simp: list_all_iff)
    show "\<forall>p \<in> set xs \<union> set ys. stableStringify p \<noteq> [] \<and> head_kind (hd (stableStringify p)) \<noteq> 7"
      using Arr.prems(1,2) w text_head by (auto simp: list_all_iff)
    show "commas (map stableStringify xs) @ CHR '']'' # x = commas (map stableStringify ys) @ CHR '']'' # y"
      using Arr.prems(5) w by (simp add: stable_items_map)
  qed simp
  with w show ?case by simp
next
  case (Obj r f)
  then obtain r' g where w: "w = Obj r' g" using kinds_agree [OF Obj.prems(1,2,5)]
    by (cases w) (auto simp: kind_def split: if_splits)
  have "map (\<lambda>(k, v). (k, canon v)) (defined_members f) = map (\<lambda>(k, v). (k, canon v)) (defined_members g) \<and> x = y"
  proof (rule commas_inj [where pr = member_text and e = "CHR ''}''"])
    show "\<forall>p \<in> set (defined_members f). \<forall>q \<in> set (defined_members g). \<forall>x y. stop x \<longrightarrow> stop y
        \<longrightarrow> member_text p @ x = member_text q @ y \<longrightarrow> (case p of (k, v) \<Rightarrow> (k, canon v)) = (case q of (k, v) \<Rightarrow> (k, canon v)) \<and> x = y"
    proof (intro ballI allI impI)
      fix p q x y
      assume p: "p \<in> set (defined_members f)" and q: "q \<in> set (defined_members g)" and st: "stop x" "stop y"
        and "member_text p @ x = member_text q @ y"
      then have "json_string (fst p) @ CHR '':'' # stableStringify (snd p) @ x
          = json_string (fst q) @ CHR '':'' # stableStringify (snd q) @ y" by (simp add: member_text_def)
      from json_string_inj [OF this] have k: "fst p = fst q" "stableStringify (snd p) @ x = stableStringify (snd q) @ y" by auto
      have "p \<in> set f" "q \<in> set g" using p q by (auto simp: defined_members_def)
      then have j: "from_json (snd p)" "from_json (snd q)" "snd p \<in> Basic_BNFs.snds p"
        using Obj.prems(1,2) w by (auto simp: list_all_iff prod_set_simps)
      show "(case p of (k, v) \<Rightarrow> (k, canon v)) = (case q of (k, v) \<Rightarrow> (k, canon v)) \<and> x = y"
        using Obj.IH [OF \<open>p \<in> set f\<close> j(3,1,2) st k(2)] k(1) by (simp add: split_def)
    qed
    show "commas (map member_text (defined_members f)) @ CHR ''}'' # x = commas (map member_text (defined_members g)) @ CHR ''}'' # y"
      using Obj.prems(5) w by (simp add: stable_Obj del: stableStringify.simps)
  qed (simp_all add: member_head)
  with w show ?case by (simp only: canon_Obj)
next
  case (Str s)
  then obtain t where "w = Str t" using kinds_agree [OF Str.prems(1,2,5)]
    by (cases w) (auto simp: kind_def split: if_splits)
  with json_string_inj [of s x t y] Str.prems(5) show ?case by simp
next
  case (Num n)
  then obtain m where "w = Num m" using kinds_agree [OF Num.prems(1,2,5)]
    by (cases w) (auto simp: kind_def split: if_splits)
  with int_str_inj [OF Num.prems(3,4), of n m] Num.prems(5) show ?case by simp
qed (rule low_inj, simp add: kind_def, assumption+)+

lemma stable_canon: "from_json v \<Longrightarrow> stableStringify (canon v) = stableStringify v"
proof (induction v)
  case (Arr r xs)
  then show ?case by (auto simp: stable_items_map list_all_iff intro!: arg_cong [where f = commas])
next
  case (Obj r f)
  let ?g = "map (\<lambda>(k, v). (k, canon v)) (defined_members f)"
  have "filter (\<lambda>(k, v). v \<noteq> Undefined) ?g = ?g"
    by (rule filter_True) (auto elim!: canon.elims)
  moreover have "sorted (map fst ?g)" by (simp add: defined_members_def comp_def split_def)
  then have "sort_key fst ?g = ?g" by (rule sort_key_id_if_sorted)
  ultimately have g: "defined_members ?g = ?g" by (simp only: defined_members_def [of ?g])
  have "map member_text ?g = map member_text (defined_members f)"
    using Obj by (auto simp: member_text_def defined_members_def list_all_iff prod_set_simps)
  then show ?case by (simp only: canon_Obj stable_Obj g)
qed auto

lemma stable_iff:
  assumes "from_json v" "from_json w"
  shows "stableStringify v = stableStringify w \<longleftrightarrow> canon v = canon w"
  using stable_inj [OF assms, of "[]" "[]"] stable_canon [OF assms(1)] stable_canon [OF assms(2)]
  by (auto simp: stop_def)

end
