(* ===== verification/Broadcast_Facts.thy ===== *)
theory Broadcast_Facts
  imports Stable_Json Text_Diff
begin

text \<open>
  What a broadcast does for its clients: who shares one execution of a query, and that the frames of a
  section bring a client to the new result, with the client's side of a frame as a definition.
\<close>

section \<open>Groups\<close>


lemma get_map_update: "get_map (map_set k v m) j = (if j = k then v else get_map m j)"
  by (simp add: get_map_def jsmap.get_put)

definition keyed_by :: "'w QueryRegistration \<Rightarrow> (string, (session \<times> subscription) list) jsmap \<Rightarrow> bool" where
  "keyed_by reg groups \<longleftrightarrow> map_wf groups \<and> (\<forall>k. \<forall>m \<in> set (get_map groups k). groupKeyFor reg (fst m) (snd m) = k)"

lemma join_groups_keyed: "keyed_by reg groups \<Longrightarrow> keyed_by reg (fold (join_group reg) ms groups)"
proof (induction ms arbitrary: groups)
  case (Cons m ms)
  have "keyed_by reg (join_group reg m groups)"
    using Cons.prems by (auto simp: keyed_by_def join_group_def Let_def get_map_update distinct_update)
  with Cons.IH show ?case by simp
qed simp

lemma mset_groups:
  "map_wf groups \<Longrightarrow> mset (concat (map snd (map_set k (get_map groups k @ [m]) groups))) = add_mset m (mset (concat (map snd groups)))"
proof (induction groups)
  case (Cons g groups)
  then show ?case
    by (cases "fst g = k") (auto simp: get_map_def map_of_eq_None_iff split: option.splits)
qed (simp add: get_map_def)

lemma join_groups_mset:
  "map_wf groups \<Longrightarrow> mset (concat (map snd (fold (join_group reg) ms groups))) = mset ms + mset (concat (map snd groups))"
proof (induction ms arbitrary: groups)
  case (Cons m ms)
  have "map_wf (join_group reg m groups)" using Cons.prems by (simp add: join_group_def Let_def distinct_update)
  with Cons.IH [OF this] mset_groups [OF Cons.prems] show ?case by (simp add: join_group_def Let_def)
qed simp

text \<open>Who takes part in a broadcast of a query.\<close>

definition receivers ::
  "'w QueryRegistration \<Rightarrow> string \<Rightarrow> string option option \<Rightarrow> QueryOptions SessionManager \<Rightarrow> (session \<times> subscription) list" where
  "receivers reg exclude room sm =
     List.map_filter (group_member (qr_name reg) exclude)
       (getSubscribersForQuery sm (qr_name reg) (sender_room sm (qr_name reg) exclude room))"

lemma buildGroups_eq:
  "buildGroups reg exclude room sm = map snd (fold (join_group reg) (receivers reg exclude room sm) [])"
  by (simp add: buildGroups_def receivers_def Let_def)

lemma groups_keyed:
  assumes "ms \<in> set (buildGroups reg exclude room sm)" "m \<in> set ms" "m' \<in> set ms"
  shows "groupKeyFor reg (fst m) (snd m) = groupKeyFor reg (fst m') (snd m')"
proof -
  let ?g = "fold (join_group reg) (receivers reg exclude room sm) []"
  have k: "keyed_by reg ?g" by (rule join_groups_keyed) (simp add: keyed_by_def get_map_def)
  obtain k where "(k, ms) \<in> set ?g" using assms(1) by (auto simp: buildGroups_eq)
  then have "get_map ?g k = ms" using k by (simp add: get_map_def keyed_by_def)
  with k assms(2,3) show ?thesis by (auto simp: keyed_by_def)
qed

lemma member_Undefined: "room_value k \<noteq> Undefined" "auth_value a \<noteq> Undefined"
  by (auto simp: room_value_def auth_value_def split: option.splits)

lemma canon_room: "canon (room_value k) = canon (room_value j) \<longleftrightarrow> k = j"
  by (auto simp: room_value_def split: option.splits)

lemma canon_identity:
  assumes "canon (identity_value s sub) = canon (identity_value s' sub')"
  shows "canon (auth_value (cs_auth s)) = canon (auth_value (cs_auth s'))
    \<and> canon (Obj 0 (qs_params sub)) = canon (Obj 0 (qs_params sub')) \<and> qs_roomKey sub = qs_roomKey sub'"
  using assms by (simp add: identity_value_def member_Undefined canon_room less_char_def)


text \<open>C35: Isolation. Without a \<open>groupBy\<close>, two clients are served by one execution of a query only if they
  have the same auth context, params and room: the key of a group determines them, whatever order the
  fields were given in. Every receiver is in exactly one group.\<close>

theorem groups_share_an_identity:
  assumes "qr_groupBy reg = None" "ms \<in> set (buildGroups reg exclude room sm)" "(s, sub) \<in> set ms" "(s', sub') \<in> set ms"
    and "\<forall>(s, sub) \<in> set ms. from_json (auth_value (cs_auth s)) \<and> from_json (Obj 0 (qs_params sub))"
  shows "canon (auth_value (cs_auth s)) = canon (auth_value (cs_auth s'))
    \<and> canon (Obj 0 (qs_params sub)) = canon (Obj 0 (qs_params sub')) \<and> qs_roomKey sub = qs_roomKey sub'
    \<and> mset (concat (buildGroups reg exclude room sm)) = mset (receivers reg exclude room sm)"
proof -
  have "from_json (identity_value s sub) \<and> from_json (identity_value s' sub')"
    using assms(3-5) by (auto simp: identity_value_def obj_wf_def room_value_def split: option.splits)
  moreover have "stableStringify (identity_value s sub) = stableStringify (identity_value s' sub')"
    using groups_keyed [OF assms(2-4)] assms(1) by (simp add: groupKeyFor_def)
  ultimately have "canon (identity_value s sub) = canon (identity_value s' sub')" using stable_iff by blast
  from canon_identity [OF this] join_groups_mset [of "[]" reg "receivers reg exclude room sm"] show ?thesis
    unfolding buildGroups_eq by auto
qed

section \<open>Rows a client shows\<close>

text \<open>A value no two places share, as one fresh from a database or a frame is.\<close>

fun unshared :: "jsval \<Rightarrow> bool" where
  "unshared (Date r d) = (r = 0)"
| "unshared (Arr r xs) = (r = 0 \<and> list_all unshared xs)"
| "unshared (Obj r f) = (r = 0 \<and> list_all (\<lambda>(k, v). unshared v) f)"
| "unshared v = True"

lemma equal_fields_iff: "equal_fields f g \<longleftrightarrow> (\<forall>(k, v) \<in> set f. \<exists>w. obj_get g k = Some w \<and> deepEqual v w)"
  by (induction f) (auto split: option.splits)

lemma equal_items_iff: "length xs = length ys \<Longrightarrow> equal_items xs ys \<longleftrightarrow> list_all2 deepEqual xs ys"
  by (induction xs ys rule: list_induct2) auto

lemma deepEqual_Arr:
  "deepEqual (Arr r xs) b \<longleftrightarrow> (\<exists>r' ys. b = Arr r' ys \<and> (r = r' \<and> r \<noteq> 0 \<or> list_all2 deepEqual xs ys))"
  using equal_items_iff [of xs]
  by (auto simp: deepEqual.simps [of "Arr r xs"] list_all2_lengthD split: jsval.splits if_splits)

lemma deepEqual_Obj:
  "deepEqual (Obj r f) b \<longleftrightarrow>
     (\<exists>r' g. b = Obj r' g \<and> (r = r' \<and> r \<noteq> 0 \<or> length f = length g \<and> equal_fields f g))"
  by (auto simp: deepEqual.simps [of "Obj r f"] split: jsval.splits if_splits)

lemma deepEqual_trans: "deepEqual a b \<Longrightarrow> deepEqual b c \<Longrightarrow> unshared b \<Longrightarrow> deepEqual a c"
proof (induction a arbitrary: b c)
  case (Arr r xs)
  then obtain ys where ys: "b = Arr 0 ys" "list_all2 deepEqual xs ys" by (auto simp: deepEqual_Arr)
  then obtain r' zs where zs: "c = Arr r' zs" "list_all2 deepEqual ys zs" using Arr.prems(2) by (auto simp: deepEqual_Arr)
  have "list_all2 deepEqual xs zs"
    using ys(2) zs(2) Arr.prems(3) Arr.IH unfolding ys(1)
    by (auto simp: list_all2_conv_all_nth list_all_length)
  with zs(1) show ?case by (auto simp: deepEqual_Arr)
next
  case (Obj r f)
  then obtain g where g: "b = Obj 0 g" "length f = length g" "equal_fields f g" by (auto simp: deepEqual_Obj)
  then obtain r' h where h: "c = Obj r' h" "length g = length h" "equal_fields g h" using Obj.prems(2) by (auto simp: deepEqual_Obj)
  have "equal_fields f h"
    unfolding equal_fields_iff
  proof clarify
    fix k v assume kv: "(k, v) \<in> set f"
    then obtain w where w: "obj_get g k = Some w" "deepEqual v w" using g(3) by (auto simp: equal_fields_iff)
    then have mem: "(k, w) \<in> set g" by (simp add: obj_get_def map_of_SomeD)
    then obtain u where u: "obj_get h k = Some u" "deepEqual w u" using h(3) by (auto simp: equal_fields_iff)
    have "unshared w" using mem Obj.prems(3) g(1) by (auto simp: list_all_iff)
    with Obj.IH [of "(k, v)" v w u] kv w(2) u show "\<exists>w. obj_get h k = Some w \<and> deepEqual v w" by auto
  qed
  with g h show ?case by (auto simp: deepEqual_Obj)
qed (auto simp: deepEqual.simps split: jsval.splits if_splits)

definition proper_row :: "row \<Rightarrow> bool" where
  "proper_row n \<longleftrightarrow> obj_wf n \<and> (\<forall>(k, v) \<in> set n. v \<noteq> Undefined \<and> unshared v)"

lemma proper_row_get: "proper_row n \<Longrightarrow> obj_get n k = Some v \<Longrightarrow> v \<noteq> Undefined \<and> unshared v"
  by (auto simp: proper_row_def obj_get_def dest!: map_of_SomeD)

lemma deepEqual_Undefined [simp]: "deepEqual Undefined v \<longleftrightarrow> v = Undefined" "deepEqual v Undefined \<longleftrightarrow> v = Undefined"
  by (auto simp: deepEqual.simps [of v] deepEqual.simps [of Undefined] split: jsval.splits if_splits elim: strict_eq.elims)

lemma shows_row_self: "shows_row n n"
  by (auto simp: shows_row_def get_prop_def nullish_def split: option.splits)

lemma shows_row_get: "shows_row r n \<Longrightarrow> obj_get n k = Some v \<Longrightarrow> get_prop r k = v \<or> deepEqual (get_prop r k) v"
  by (auto simp: shows_row_def dest: spec [of _ k])

lemma shows_row_none: "shows_row r n \<Longrightarrow> obj_get n k = None \<Longrightarrow> nullish (get_prop r k)"
  by (auto simp: shows_row_def dest: spec [of _ k])

text \<open>What is left out of a diff is what the client has already.\<close>

lemma shows_changed:
  assumes "shows_row r old" "proper_row old" "proper_row n" "obj_wf c"
    and c: "\<forall>k. obj_get c k = obj_get (removed_fields old n (changed_fields old n)) k"
  shows "shows_row (obj_assign r c) n"
  unfolding shows_row_def
proof
  fix k
  have wf: "obj_wf n" using assms(3) by (simp add: proper_row_def)
  have get: "get_prop (obj_assign r c) k = (case obj_get c k of Some v \<Rightarrow> v | None \<Rightarrow> get_prop r k)"
    using assms(4) by (simp add: get_prop_def obj_get_assign split: option.splits)
  show "case obj_get n k of
      Some v \<Rightarrow> get_prop (obj_assign r c) k = v \<or> deepEqual (get_prop (obj_assign r c) k) v
    | None \<Rightarrow> nullish (get_prop (obj_assign r c) k)"
  proof (cases "obj_get n k")
    case None
    then show ?thesis using shows_row_none [OF assms(1), of k] get
      by (auto simp: c removed_fields_get changed_fields_get [OF wf] obj_has_def nullish_def)
  next
    case (Some v)
    have v: "v \<noteq> Undefined" using proper_row_get [OF assms(3) Some] by simp
    show ?thesis
    proof (cases "deepEqual (get_prop old k) v")
      case True
      then obtain u where u: "obj_get old k = Some u" "deepEqual u v"
        using v by (auto simp: get_prop_def split: option.splits)
      have "get_prop r k = u \<or> deepEqual (get_prop r k) u" using shows_row_get [OF assms(1) u(1)] .
      then have "deepEqual (get_prop r k) v"
        using u(2) deepEqual_trans proper_row_get [OF assms(2) u(1)] by auto
      with Some True get show ?thesis by (simp add: c removed_fields_get changed_fields_get [OF wf] obj_has_def)
    next
      case False
      with Some get show ?thesis by (simp add: c removed_fields_get changed_fields_get [OF wf] obj_has_def)
    qed
  qed
qed

lemma shows_unchanged:
  assumes "shows_row r old" "proper_row old" "proper_row n" "fieldDiff old n = None"
  shows "shows_row r n"
proof -
  have "removed_fields old n (changed_fields old n) = []" using assms(4) by (simp add: fieldDiff_def Let_def split: if_splits)
  with shows_changed [OF assms(1-3), of "[]"] show ?thesis by (simp add: obj_assign_def)
qed

section \<open>What a section does to a client\<close>

text \<open>The client's side of a frame: whole rows, changed columns, and patches of text checked by a hash.\<close>

definition unpatch_column :: "row \<Rightarrow> string \<times> TextPatch \<Rightarrow> row option \<Rightarrow> row option" where
  "unpatch_column r x acc =
     (case (acc, get_prop r (fst x)) of
        (Some payload, Str held) \<Rightarrow>
          let v = applyHunks held (pt_hunks (snd x))
          in if hash_string v = pt_hash (snd x) then Some (obj_put (fst x) (Str v) payload) else None
      | _ \<Rightarrow> None)"

definition client_receives :: "ServerMessage \<Rightarrow> result_rows \<Rightarrow> result_rows" where
  "client_receives m rows =
     (case m of
        Delta x \<Rightarrow>
          (case (dm_op x, dm_payload x) of
             (Insert, Some p) \<Rightarrow> map_set (dm_rowId x) p rows
           | (Update, Some p) \<Rightarrow>
               (case map_get rows (dm_rowId x) of
                  None \<Rightarrow> rows
                | Some r \<Rightarrow>
                    (case fold (unpatch_column r) (case dm_textPatches x of None \<Rightarrow> [] | Some ps \<Rightarrow> ps) (Some p) of
                       None \<Rightarrow> rows
                     | Some p' \<Rightarrow> map_set (dm_rowId x) (obj_assign r p') rows))
           | (Delete, _) \<Rightarrow> map_del (dm_rowId x) rows
           | _ \<Rightarrow> rows)
      | _ \<Rightarrow> rows)"

lemma patch_for_applies:
  "patch_for (get_prop held k) (get_prop changed k) = Some p \<Longrightarrow>
     \<exists>h n. get_prop held k = Str h \<and> obj_get changed k = Some (Str n) \<and> applyHunks h (pt_hunks p) = n \<and> hash_string n = pt_hash p"
  by (auto simp: patch_for_def Let_def diffText_correct get_prop_def split: jsval.splits if_splits option.splits)

text \<open>After some columns were patched, the payload and the patches together are the change.\<close>

definition splits_change :: "row \<Rightarrow> row \<Rightarrow> row \<Rightarrow> TextPatch jsobj \<Rightarrow> bool" where
  "splits_change changed held payload ps \<longleftrightarrow> obj_wf payload \<and> obj_wf ps
     \<and> (\<forall>k. obj_get payload k = (if obj_has ps k then None else obj_get changed k))
     \<and> (\<forall>k p. obj_get ps k = Some p \<longrightarrow> (\<exists>h n. get_prop held k = Str h \<and> obj_get changed k = Some (Str n)
           \<and> applyHunks h (pt_hunks p) = n \<and> hash_string n = pt_hash p))"

lemma patch_column_splits:
  "splits_change changed held (fst st) (snd st) \<Longrightarrow>
     splits_change changed held (fst (patch_column changed held k st)) (snd (patch_column changed held k st))"
  using patch_for_applies [of held k changed]
  by (auto simp: patch_column_def splits_change_def keyed_simps obj_has_def wf_intros split: option.splits if_splits)

lemma patch_columns_split:
  "splits_change changed held (fst st) (snd st) \<Longrightarrow>
     splits_change changed held (fst (fold (patch_column changed held) ks st)) (snd (fold (patch_column changed held) ks st))"
proof (induction ks arbitrary: st)
  case (Cons k ks)
  show ?case using Cons.IH [OF patch_column_splits [OF Cons.prems]] by simp
qed simp

lemma unpatch_all:
  assumes "obj_wf ps" "obj_wf payload"
    and "\<forall>k p. (k, p) \<in> set ps \<longrightarrow> (\<exists>h n. get_prop r k = Str h \<and> applyHunks h (pt_hunks p) = n \<and> hash_string n = pt_hash p \<and> f k = Some (Str n))"
  shows "\<exists>p'. fold (unpatch_column r) ps (Some payload) = Some p' \<and> obj_wf p'
    \<and> (\<forall>k. obj_get p' k = (if obj_has ps k then f k else obj_get payload k))"
  using assms
proof (induction ps arbitrary: payload)
  case (Cons x ps)
  obtain k p where x: "x = (k, p)" by (cases x)
  then have "(k, p) \<in> set (x # ps)" by simp
  with Cons.prems(3) obtain h n where h: "get_prop r k = Str h" "applyHunks h (pt_hunks p) = n" "hash_string n = pt_hash p" "f k = Some (Str n)"
    by blast
  have wf: "obj_wf ps" "k \<notin> fst ` set ps" using Cons.prems(1) x by (auto simp: obj_wf_def)
  have step: "unpatch_column r x (Some payload) = Some (obj_put k (Str n) payload)"
    using h x by (simp add: unpatch_column_def Let_def)
  have rest: "\<forall>k p. (k, p) \<in> set ps \<longrightarrow> (\<exists>h n. get_prop r k = Str h \<and> applyHunks h (pt_hunks p) = n
      \<and> hash_string n = pt_hash p \<and> f k = Some (Str n))" using Cons.prems(3) by (meson list.set_intros(2))
  obtain p' where p': "fold (unpatch_column r) ps (Some (obj_put k (Str n) payload)) = Some p'" "obj_wf p'"
      "\<forall>j. obj_get p' j = (if obj_has ps j then f j else obj_get (obj_put k (Str n) payload) j)"
    using Cons.IH [OF wf(1) obj_wf_put [OF Cons.prems(2)] rest] by blast
  have none: "\<not> obj_has ps k" using wf(2) by (simp add: obj_has_def obj_get_def map_of_eq_None_iff)
  have has: "obj_has (x # ps) j = (j = k \<or> obj_has ps j)" for j by (auto simp: x obj_has_def obj_get_def)
  have "obj_get p' j = (if obj_has (x # ps) j then f j else obj_get payload j)" for j
    using p'(3) none h(4) by (cases "j = k") (simp_all add: has keyed_simps)
  then show ?case using p'(1,2) step by (intro exI [where x = p']) simp
qed (auto simp: obj_has_def)

text \<open>The client holds a result: the same row ids, and rows that show the result's rows.\<close>

definition holds_rows :: "result_rows \<Rightarrow> result_rows \<Rightarrow> bool" where
  "holds_rows held rows \<longleftrightarrow> (\<forall>i. case map_get rows i of
       None \<Rightarrow> map_get held i = None
     | Some n \<Rightarrow> \<exists>r. map_get held i = Some r \<and> shows_row r n)"

lemma shows_text: "shows_row r n \<Longrightarrow> get_prop n k = Str h \<Longrightarrow> get_prop r k = Str h"
proof -
  assume a: "shows_row r n" "get_prop n k = Str h"
  then have "obj_get n k = Some (Str h)" by (simp add: get_prop_def split: option.splits)
  from shows_row_get [OF a(1) this] show ?thesis by (auto simp: deepEqual.simps split: jsval.splits if_splits)
qed

text \<open>An update frame changes a row that shows the cached one as the diff says.\<close>

lemma update_received:
  assumes "obj_wf changed" "map_get rows i = Some r" "map_get cached i = Some n" "shows_row r n"
  shows "\<exists>c. obj_wf c \<and> (\<forall>k. obj_get c k = obj_get changed k)
    \<and> client_receives (update_delta q hlc cols cached (i, changed)) rows = map_set i (obj_assign r c) rows"
proof -
  obtain payload ps where p: "patchTextColumns changed (Some n) cols = (payload, ps)" by fastforce
  let ?ps = "case ps of None \<Rightarrow> [] | Some x \<Rightarrow> x"
  have "splits_change changed n payload ?ps"
  proof (cases cols)
    case None
    with p assms(1) show ?thesis by (auto simp: patchTextColumns_def splits_change_def obj_has_def)
  next
    case (Some ks)
    have "splits_change changed n (fst (fold (patch_column changed n) ks (changed, []))) (snd (fold (patch_column changed n) ks (changed, [])))"
      by (rule patch_columns_split) (use assms(1) in \<open>simp add: splits_change_def obj_has_def\<close>)
    with p Some show ?thesis by (auto simp: patchTextColumns_def split: prod.splits if_splits)
  qed
  then have wf: "obj_wf ?ps" "obj_wf payload"
    and k: "\<forall>k. obj_get payload k = (if obj_has ?ps k then None else obj_get changed k)"
    and each: "\<forall>k p. obj_get ?ps k = Some p \<longrightarrow> (\<exists>h m. get_prop n k = Str h \<and> obj_get changed k = Some (Str m)
           \<and> applyHunks h (pt_hunks p) = m \<and> hash_string m = pt_hash p)"
    by (auto simp: splits_change_def)
  have "\<forall>k p. obj_get ?ps k = Some p \<longrightarrow> (\<exists>h m. get_prop r k = Str h \<and> applyHunks h (pt_hunks p) = m
      \<and> hash_string m = pt_hash p \<and> obj_get changed k = Some (Str m))"
    using each shows_text [OF assms(4)] by meson
  then have "\<forall>k p. (k, p) \<in> set ?ps \<longrightarrow> (\<exists>h m. get_prop r k = Str h \<and> applyHunks h (pt_hunks p) = m
      \<and> hash_string m = pt_hash p \<and> obj_get changed k = Some (Str m))"
    using wf(1) unfolding obj_get_def obj_wf_def by (metis map_of_is_SomeI)
  from unpatch_all [OF wf this] k obtain p' where "fold (unpatch_column r) ?ps (Some payload) = Some p'" "obj_wf p'"
      "\<forall>k. obj_get p' k = obj_get changed k" by auto
  with p assms(2,3) show ?thesis
    by (intro exI [where x = p']) (simp add: client_receives_def update_delta_def)
qed

lemma receive_inserts:
  "fold client_receives (map (insert_delta q hlc) xs) rows = fold (\<lambda>(i, r). map_set i r) xs rows"
  by (induction xs arbitrary: rows) (auto simp: client_receives_def insert_delta_def)

lemma receive_deletes: "fold client_receives (map (delete_delta q hlc) ids) rows = fold map_del ids rows"
  by (induction ids arbitrary: rows) (auto simp: client_receives_def delete_delta_def)

text \<open>Rows that a client has after a change: the same columns, whatever order they are in.\<close>

definition changed_to :: "row option \<Rightarrow> row \<Rightarrow> row option \<Rightarrow> bool" where
  "changed_to before c after \<longleftrightarrow> (\<exists>r c'. before = Some r \<and> obj_wf c' \<and> (\<forall>k. obj_get c' k = obj_get c k)
     \<and> after = Some (obj_assign r c'))"

definition shown :: "result_rows \<Rightarrow> result_rows \<Rightarrow> string \<Rightarrow> bool" where
  "shown held rows i \<longleftrightarrow> (\<exists>r n. map_get held i = Some r \<and> map_get rows i = Some n \<and> shows_row r n)"

lemma receive_updates:
  assumes "distinct (map fst ups)" "\<forall>(i, c) \<in> set ups. obj_wf c \<and> shown rows cached i"
  shows "case map_of ups j of
      None \<Rightarrow> map_get (fold client_receives (map (update_delta q hlc cols cached) ups) rows) j = map_get rows j
    | Some c \<Rightarrow> changed_to (map_get rows j) c (map_get (fold client_receives (map (update_delta q hlc cols cached) ups) rows) j)"
  using assms
proof (induction ups arbitrary: rows)
  case (Cons u ups)
  obtain i c where u: "u = (i, c)" by (cases u)
  then obtain r n where r: "obj_wf c" "map_get rows i = Some r" "map_get cached i = Some n" "shows_row r n"
    using Cons.prems(2) by (auto simp: shown_def)
  obtain c' where c': "obj_wf c'" "\<forall>k. obj_get c' k = obj_get c k"
      "client_receives (update_delta q hlc cols cached u) rows = map_set i (obj_assign r c') rows"
    using update_received [OF r] u by blast
  have rest: "distinct (map fst ups)" "i \<notin> fst ` set ups" using Cons.prems(1) u by auto
  then have "\<forall>(k, c) \<in> set ups. obj_wf c \<and> shown (map_set i (obj_assign r c') rows) cached k"
    using Cons.prems(2) by (force simp: jsmap.get_put shown_def)
  note ih = Cons.IH [OF rest(1) this]
  have none: "map_of ups i = None" using rest(2) by (simp add: map_of_eq_None_iff)
  show ?case
  proof (cases "j = i")
    case True
    have "changed_to (map_get rows i) c (Some (obj_assign r c'))"
      unfolding changed_to_def using r(2) c'(1,2) by blast
    with True ih none u c'(3) show ?thesis by (simp add: jsmap.get_put)
  next
    case False
    then show ?thesis using ih u c'(3) by (simp add: jsmap.get_put split: option.splits)
  qed
qed simp

lemma fieldDiff_parts:
  "fieldDiff r n = Some c \<Longrightarrow> obj_wf c \<and> c = removed_fields r n (changed_fields r n)"
  using obj_wf_changed [of r n] by (auto simp: fieldDiff_def Let_def split: if_splits)

lemma row_after_updates:
  assumes "proper_row n"
    and "case old of None \<Rightarrow> late = Some n
      | Some old \<Rightarrow> proper_row old \<and> (\<exists>r. shows_row r old
          \<and> (case fieldDiff old n of None \<Rightarrow> late = Some r | Some c \<Rightarrow> changed_to (Some r) c late))"
  shows "\<exists>r. late = Some r \<and> shows_row r n"
proof (cases old)
  case None
  with assms(2) shows_row_self show ?thesis by simp
next
  case (Some old)
  then obtain r where r: "proper_row old" "shows_row r old"
      "case fieldDiff old n of None \<Rightarrow> late = Some r | Some c \<Rightarrow> changed_to (Some r) c late" using assms(2) by auto
  show ?thesis
  proof (cases "fieldDiff old n")
    case None
    with r(3) shows_unchanged [OF r(2,1) assms(1)] show ?thesis by simp
  next
    case (Some c)
    with r(3) shows_changed [OF r(2,1) assms(1)] fieldDiff_parts [OF Some] show ?thesis by (auto simp: changed_to_def)
  qed
qed

lemma deltas_received:
  assumes "distinct (map fst new)" "\<forall>(i, n) \<in> set new. proper_row n" "\<forall>(i, n) \<in> set cached. proper_row n" "holds_rows held cached"
  shows "holds_rows (fold client_receives (deltas q hlc cols cached (diff_rows cached new)) held) new"
proof -
  let ?d = "diff_rows cached new"
  define mid where "mid = fold (\<lambda>(i, r). map_set i r) (dr_inserted ?d) held"
  define late where "late = fold client_receives (map (update_delta q hlc cols cached) (dr_updated ?d)) mid"
  have was: "case map_get cached j of None \<Rightarrow> map_get held j = None
      | Some n \<Rightarrow> \<exists>r. map_get held j = Some r \<and> shows_row r n" for j
    using assms(4) by (simp add: holds_rows_def)
  have ins: "distinct (map fst (dr_inserted ?d))"
    unfolding diff_rows_parts using assms(1) by (rule distinct_fst_filter)
  have ins_get: "map_of (dr_inserted ?d) j = (if map_get cached j = None then map_get new j else None)" for j
    unfolding diff_rows_parts by (rule map_of_filter_key)
  have mid: "map_get mid j = (if map_get cached j = None then map_get new j else map_get held j)" for j
    unfolding mid_def get_fold_set [OF ins] ins_get using was [of j] by (simp split: option.splits)
  have upd: "distinct (map fst (dr_updated ?d))" unfolding diff_rows_parts using assms(1) by (rule map_filter_wf)
  have upd_get: "map_of (dr_updated ?d) j = (case map_get new j of Some n \<Rightarrow> row_change cached j n | None \<Rightarrow> None)" for j
    unfolding diff_rows_parts using assms(1) by (rule map_of_map_filter)
  have ok: "\<forall>(j, c) \<in> set (dr_updated ?d). obj_wf c \<and> shown mid cached j"
  proof clarify
    fix j c assume "(j, c) \<in> set (dr_updated ?d)"
    then have "map_of (dr_updated ?d) j = Some c" using upd by simp
    then show "obj_wf c \<and> shown mid cached j"
      unfolding upd_get using was [of j] fieldDiff_parts
      by (auto simp: row_change_def mid shown_def split: option.splits)
  qed
  have late: "case map_of (dr_updated ?d) j of None \<Rightarrow> map_get late j = map_get mid j
      | Some c \<Rightarrow> changed_to (map_get mid j) c (map_get late j)" for j
    unfolding late_def by (rule receive_updates [OF upd ok])
  have all: "fold client_receives (deltas q hlc cols cached ?d) held = fold map_del (dr_deleted ?d) late"
    by (simp add: deltas_def receive_inserts receive_deletes mid_def late_def)
  have del: "j \<in> set (dr_deleted ?d) \<longleftrightarrow> map_get new j = None \<and> map_get cached j \<noteq> None" for j
    unfolding diff_rows_parts by (auto simp: map_of_eq_None_iff)
  show ?thesis
    unfolding holds_rows_def
  proof
    fix i
    show "case map_get new i of
        None \<Rightarrow> map_get (fold client_receives (deltas q hlc cols cached ?d) held) i = None
      | Some n \<Rightarrow> \<exists>r. map_get (fold client_receives (deltas q hlc cols cached ?d) held) i = Some r \<and> shows_row r n"
    proof (cases "map_get new i")
      case None
      then show ?thesis using late [of i] upd_get [of i] mid [of i] by (auto simp: all jsmap.get_fold_del del)
    next
      case new: (Some n)
      have proper: "proper_row n" using assms(2) map_of_SomeD [OF new] by auto
      have get: "map_get (fold client_receives (deltas q hlc cols cached ?d) held) i = map_get late i"
        using new by (simp add: all jsmap.get_fold_del del)
      have "\<exists>r. map_get late i = Some r \<and> shows_row r n"
      proof (rule row_after_updates [OF proper])
        show "case map_get cached i of None \<Rightarrow> map_get late i = Some n
            | Some old \<Rightarrow> proper_row old \<and> (\<exists>r. shows_row r old
                \<and> (case fieldDiff old n of None \<Rightarrow> map_get late i = Some r | Some c \<Rightarrow> changed_to (Some r) c (map_get late i)))"
        proof (cases "map_get cached i")
          case None
          with new late [of i] upd_get [of i] mid [of i] show ?thesis by (simp add: row_change_def)
        next
          case (Some old)
          moreover have "proper_row old" using assms(3) map_of_SomeD [OF Some] by auto
          ultimately show ?thesis
            using new was [of i] late [of i] upd_get [of i] mid [of i] by (auto simp: row_change_def split: option.splits)
        qed
      qed
      with get new show ?thesis by simp
    qed
  qed
qed

section \<open>A section\<close>

lemma set_update: "set (map_set k v m) \<subseteq> insert (k, v) (set m)"
  by (induction m) auto

lemma proper_by_id:
  assumes "\<forall>r \<in> set rows. proper_row r"
  shows "\<forall>(i, n) \<in> set (rows_by_id ds f rows). proper_row n"
proof -
  have "\<forall>p \<in> set (foldl (\<lambda>m row. let i = row_id ds f row in if i = [] then m else map_set i row m) [] rows). proper_row (snd p)"
    using assms
  proof (induction rows rule: rev_induct)
    case (snoc r rows)
    let ?m = "foldl (\<lambda>m row. let i = row_id ds f row in if i = [] then m else map_set i row m) [] rows"
    have "\<forall>p \<in> set ?m. proper_row (snd p)" using snoc by simp
    then have "\<forall>p \<in> set (map_set (row_id ds f r) r ?m). proper_row (snd p)"
      using set_update [of "row_id ds f r" r ?m] snoc.prems by fastforce
    with snoc show ?case by (simp add: Let_def)
  qed simp
  then show ?thesis by (auto simp: rows_by_id_def)
qed

lemma window_subset: "set (window_rows sub rows) \<subseteq> set rows"
  by (auto simp: window_rows_def Let_def dest: in_set_takeD split: if_splits)

lemma send_all_delivers:
  assumes sent: "\<forall>m w w'. bd_send d c m w = (True, w') \<longrightarrow> wire w' = wire w @ [m]"
  shows "send_all d c ms w = (bs, w') \<Longrightarrow> False \<notin> set bs \<Longrightarrow> wire w' = wire w @ ms"
proof (induction ms arbitrary: w bs)
  case (Cons m ms)
  obtain b w1 where b: "bd_send d c m w = (b, w1)" by fastforce
  obtain bs1 w2 where bs: "send_all d c ms w1 = (bs1, w2)" by fastforce
  from Cons.prems b bs have [simp]: "b" "bs = True # bs1" "False \<notin> set bs1" and w2: "w2 = w'" by auto
  have "wire w1 = wire w @ [m]" using b sent by simp
  with Cons.IH [OF bs [unfolded w2]] show ?case by simp
qed simp

lemma commit_cache:
  assumes "commit_rows d c n q rows pk e = (ok, e')"
  shows "ok = still_connected e c n \<and> en_world e' = en_world e \<and> en_sessions e' = en_sessions e \<and> en_connects e' = en_connects e
    \<and> (ok \<longrightarrow> cached_rows (en_cache e') c q = Some (rows_by_id (bd_dateText d) pk rows))
    \<and> (\<not> ok \<longrightarrow> e' = e)"
  using assms by (auto simp: commit_rows_def on_cache_def cache_set_def Let_def cached_put split: if_splits)

lemma note_count_connected:
  "still_connected (e\<lparr>en_sessions := note_count c q t (en_sessions e)\<rparr>) c' n \<longleftrightarrow> still_connected e c' n"
proof -
  have "session_get (note_count c q t sm) c' = None \<longleftrightarrow> session_get sm c' = None" for sm
    by (auto simp: note_count_def session_get_def put_session_def jsmap.get_put split: option.splits)
  then show ?thesis by (simp add: still_connected_def del: not_None_eq)
qed

definition section_rows :: "'w BroadcastDeps \<Rightarrow> 'w QueryRegistration \<Rightarrow> subscription \<Rightarrow> row list \<Rightarrow> result_rows" where
  "section_rows d reg sub rows = rows_by_id (bd_dateText d) (pk_column (qr_options reg)) (window_rows sub rows)"

lemma count_is_no_row: "client_receives (CountChanged q t) rows = rows"
  by (simp add: client_receives_def)

text \<open>C34: A section that resolves leaves its client with the result. Whatever a client holds that shows the
  rows the cache has for it, the frames that reached it turn that into the rows of the new result (in
  its window), text patches included, and the cache then says so if the connection is still the same.
  So the rows of client and cache stay in step from one section to the next.\<close>

theorem section_keeps_in_step:
  assumes sent: "\<forall>m w w'. bd_send d (cs_clientId (fst sub)) m w = (True, w') \<longrightarrow> wire w' = wire w @ [m]"
    and quiet: "\<forall>e. wire (en_world (meanwhile e)) = wire (en_world e)"
    and proper: "\<forall>r \<in> set rows. proper_row r" "\<forall>(i, n) \<in> set (cache_get (en_cache e) (cs_clientId (fst sub)) (qr_name reg)). proper_row n"
    and held: "holds_rows held (cache_get (en_cache e) (cs_clientId (fst sub)) (qr_name reg))"
    and run: "sendToSubscriber d meanwhile n reg sub rows tot hlc e = (True, e')"
  shows "\<exists>frames. wire (en_world e') = wire (en_world e) @ frames
    \<and> holds_rows (fold client_receives frames held) (section_rows d reg (snd sub) rows)
    \<and> (still_connected e' (cs_clientId (fst sub)) n \<longrightarrow>
         cached_rows (en_cache e') (cs_clientId (fst sub)) (qr_name reg) = Some (section_rows d reg (snd sub) rows))"
proof -
  let ?c = "cs_clientId (fst sub)" and ?q = "qr_name reg" and ?pk = "pk_column (qr_options reg)"
  let ?new = "section_rows d reg (snd sub) rows"
  let ?msgs = "deltas ?q hlc (text_columns (qr_options reg)) (cache_get (en_cache e) ?c ?q)
    (diff_rows (cache_get (en_cache e) ?c ?q) ?new)"
  let ?count = "case count_change (qr_options reg) (snd sub) tot of None \<Rightarrow> [] | Some t \<Rightarrow> [CountChanged ?q t]"
  have "\<forall>r \<in> set (window_rows (snd sub) rows). proper_row r" using proper(1) window_subset by blast
  then have step: "holds_rows (fold client_receives ?msgs held) ?new"
    unfolding section_rows_def by (intro deltas_received proper_by_id rows_by_id_wf proper(2) held)
  then have step: "holds_rows (fold client_receives (?msgs @ ?count) held) ?new"
    by (simp add: count_is_no_row split: option.splits)
  have commit: "commit_rows d ?c n ?q (window_rows (snd sub) rows) ?pk x = (ok, y) \<Longrightarrow>
      en_world y = en_world x \<and> en_sessions y = en_sessions x \<and> en_connects y = en_connects x
      \<and> (still_connected x ?c n \<longrightarrow> cached_rows (en_cache y) ?c ?q = Some ?new)" for x ok y
    using commit_cache [of d ?c n ?q "window_rows (snd sub) rows" ?pk x ok y] by (auto simp: section_rows_def)
  show ?thesis
  proof (cases "?msgs @ ?count = []")
    case True
    with run have "e' = snd (commit_rows d ?c n ?q (window_rows (snd sub) rows) ?pk e)"
      by (simp add: sendToSubscriber_def Let_def diffOnly_def section_rows_def)
    then obtain ok where "commit_rows d ?c n ?q (window_rows (snd sub) rows) ?pk e = (ok, e')"
      by (metis prod.collapse)
    from commit [OF this] step True show ?thesis by (intro exI [where x = "[]"]) (simp add: still_connected_def)
  next
    case False
    obtain bs w where w: "send_all d ?c (?msgs @ ?count) (en_world e) = (bs, w)" by fastforce
    let ?e = "meanwhile (e\<lparr>en_world := w\<rparr>)"
    obtain ok y where y: "commit_rows d ?c n ?q (window_rows (snd sub) rows) ?pk ?e = (ok, y)" by fastforce
    have e': "False \<notin> set bs \<and> e' = (case count_change (qr_options reg) (snd sub) tot of None \<Rightarrow> y
        | Some t \<Rightarrow> if ok then y\<lparr>en_sessions := note_count ?c ?q t (en_sessions y)\<rparr> else y)"
      using run w y False by (simp add: sendToSubscriber_def Let_def diffOnly_def section_rows_def split: if_splits)
    have "wire (en_world y) = wire (en_world e) @ ?msgs @ ?count"
      using commit [OF y] quiet send_all_delivers [OF sent w] e' by simp
    moreover have "en_world e' = en_world y \<and> en_cache e' = en_cache y \<and> (still_connected e' ?c n \<longrightarrow> still_connected y ?c n)"
      using e' by (auto simp: note_count_connected split: option.splits)
    ultimately show ?thesis using commit [OF y] step
      by (intro exI [where x = "?msgs @ ?count"]) (auto simp: still_connected_def)
  qed
qed

section \<open>Windows\<close>

lemma max_window_bound: "max_window g m = Some k \<Longrightarrow> m \<le> k \<and> (\<forall>(s, sub) \<in> set g. qs_windowSize sub \<noteq> None \<and> qs_windowLimit sub \<le> k)"
  by (induction g m rule: max_window.induct) (fastforce split: if_splits)+

text \<open>The rows a group asks for are enough for every member: its window of them is its window of all.\<close>

lemma limit_is_enough:
  assumes "limitFor reg grp = Some l" "(s, sub) \<in> set grp" "0 \<le> qs_windowLimit sub"
  shows "0 < l \<and> window_rows sub (take (nat l) rows) = window_rows sub rows"
proof -
  have "max_window grp 0 = Some l" "0 < l" using assms(1) by (auto simp: limitFor_def split: option.splits if_splits)
  with max_window_bound [OF this(1)] assms(2,3) show ?thesis
    by (auto simp: window_rows_def Let_def min_def nat_le_iff)
qed

section \<open>Runs\<close>

text \<open>A transport that logs what it delivered; each send takes its fate from a script.\<close>

record wire_world =
  ww_fates :: "bool list"
  ww_log :: "ServerMessage list"

definition wire_send :: "string \<Rightarrow> ServerMessage \<Rightarrow> wire_world \<Rightarrow> bool \<times> wire_world" where
  "wire_send c m w =
     (case ww_fates w of
        [] \<Rightarrow> (True, w\<lparr>ww_log := ww_log w @ [m]\<rparr>)
      | ok # fates \<Rightarrow> (ok, w\<lparr>ww_fates := fates, ww_log := ww_log w @ (if ok then [m] else [])\<rparr>))"

definition bc_options :: QueryOptions where
  "bc_options = \<lparr>qo_tables = [''t''], qo_pk = None, qo_conflict = None, qo_oplog = None, qo_serverSet = None,
     qo_readonly = None, qo_countHints = False, qo_room = None, qo_broadcast = Consistent, qo_flushInterval = None,
     qo_maxBufferSize = None, qo_mutate = False\<rparr>"

definition bc_query :: "wire_world QueryRegistration" where
  "bc_query = \<lparr>qr_name = ''q'', qr_options = bc_options, qr_serverSet = None, qr_count = False, qr_groupBy = None,
     qr_authorize = None, qr_mutate = None\<rparr>"

definition bc_deps :: "wire_world BroadcastDeps" where
  "bc_deps = \<lparr>bd_queries = [(''q'', bc_query)], bd_tableDependencyIndex = [(''t'', [''q''])], bd_send = wire_send,
     bd_executeQuery = (\<lambda>reg s l w. ((0, Some []), w)), bd_countQuery = (\<lambda>reg s w. (None, w)),
     bd_nextHlc = (\<lambda>w. ([], w)), bd_emit = (\<lambda>e w. w), bd_queryTimeoutMs = 0, bd_dateText = (\<lambda>_. [])\<rparr>"

definition bc_subscription :: "string option \<Rightarrow> row \<Rightarrow> subscription" where
  "bc_subscription room params = \<lparr>qs_queryName = ''q'', qs_params = params, qs_options = bc_options, qs_roomKey = room,
     qs_windowSize = None, qs_windowLimit = 0, qs_loadedCount = 0, qs_lastTotalCount = None, qs_bootstrapped = True\<rparr>"

definition bc_session :: "string \<Rightarrow> AuthContext option \<Rightarrow> subscription \<Rightarrow> session" where
  "bc_session c auth sub = \<lparr>cs_clientId = c, cs_auth = auth, cs_subscriptions = [(''q'', sub)], cs_watermark = None,
     cs_connectedAt = 0\<rparr>"

definition bc_member :: "session \<times> subscription" where
  "bc_member = (let sub = bc_subscription None [] in (bc_session ''c'' None sub, sub))"

definition bc_engine :: "bool list \<Rightarrow> wire_world Engine" where
  "bc_engine fates = \<lparr>en_sessions = new_sessions\<lparr>sm_sessions := [(''c'', fst bc_member)], sm_querySubscribers := [(''q'', [''c''])]\<rparr>,
     en_connects = (\<lambda>_. 1), en_cache = [], en_world = \<lparr>ww_fates = fates, ww_log = []\<rparr>\<rparr>"

definition bc_row :: "string \<Rightarrow> row" where
  "bc_row i = [(''id'', Str i)]"

definition bc_section :: "row list \<Rightarrow> wire_world Engine \<Rightarrow> bool \<times> wire_world Engine" where
  "bc_section rows e = sendToSubscriber bc_deps id 1 bc_query bc_member rows None ''h'' e"

text \<open>Frames that failed together with others are not undone: the cache stays as it was, while the client
  has the frames that arrived. A row that came that way and is then gone from the result is never
  deleted at the client, although the next section resolves.\<close>

lemma partial_delivery_leaves_a_phantom:
  "case bc_section [bc_row ''a'', bc_row ''b''] (bc_engine [True, False]) of
     (ok1, e1) \<Rightarrow> (case bc_section [] e1 of
       (ok2, e2) \<Rightarrow> \<not> ok1 \<and> ok2 \<and> cache_get (en_cache e2) ''c'' ''q'' = []
         \<and> map_get (fold client_receives (ww_log (en_world e2)) []) ''a'' = Some (bc_row ''a''))"
  by code_simp

text \<open>With a \<open>groupBy\<close> the key and the room are joined by a bar, which either may contain.\<close>

lemma custom_keys_collide:
  "let reg = bc_query\<lparr>qr_groupBy := Some (\<lambda>auth params. str_of (get_prop params ''k''))\<rparr>;
       s1 = bc_subscription (Some ''y|z'') [(''k'', Str ''x'')]; s2 = bc_subscription (Some ''z'') [(''k'', Str ''x|y'')]
   in groupKeyFor reg (bc_session ''c'' None s1) s1 = groupKeyFor reg (bc_session ''d'' None s2) s2
        \<and> qs_roomKey s1 \<noteq> qs_roomKey s2"
  by code_simp

theorem section_keeps_in_step_witness:
  "\<exists>frames. ww_log (en_world (snd (bc_section [bc_row ''a''] (bc_engine [])))) = frames
    \<and> holds_rows (fold client_receives frames []) (section_rows bc_deps bc_query (snd bc_member) [bc_row ''a''])
    \<and> frames \<noteq> []"
proof -
  let ?e = "bc_engine []"
  have ok: "fst (bc_section [bc_row ''a''] ?e)" by code_simp
  have run: "sendToSubscriber bc_deps id 1 bc_query bc_member [bc_row ''a''] None ''h'' ?e
      = (True, snd (bc_section [bc_row ''a''] ?e))"
    unfolding bc_section_def [symmetric] using ok by (simp add: prod_eq_iff)
  have none: "cache_get (en_cache ?e) (cs_clientId (fst bc_member)) (qr_name bc_query) = []" by code_simp
  have some: "ww_log (en_world (snd (bc_section [bc_row ''a''] ?e))) \<noteq> []" by code_simp
  have world: "ww_log (en_world ?e) = []" by (simp add: bc_engine_def)
  have sent: "\<forall>m w w'. bd_send bc_deps (cs_clientId (fst bc_member)) m w = (True, w') \<longrightarrow> ww_log w' = ww_log w @ [m]"
    by (auto simp: bc_deps_def wire_send_def split: list.splits)
  have held: "holds_rows [] []" by (simp add: holds_rows_def)
  have proper: "\<forall>r \<in> set [bc_row ''a'']. proper_row r" by (simp add: proper_row_def obj_wf_def bc_row_def)
  obtain frames where "ww_log (en_world (snd (bc_section [bc_row ''a''] ?e))) = ww_log (en_world ?e) @ frames"
      "holds_rows (fold client_receives frames []) (section_rows bc_deps bc_query (snd bc_member) [bc_row ''a''])"
    using section_keeps_in_step [OF sent _ proper _ _ run, of "[]", unfolded none] held by auto
  with some show ?thesis unfolding world by simp
qed

definition bc_pair_member :: "string \<Rightarrow> row \<Rightarrow> session \<times> subscription" where
  "bc_pair_member c params = (let sub = bc_subscription (Some ''r'') params in (bc_session c None sub, sub))"

definition bc_pair :: "(session \<times> subscription) list" where
  "bc_pair = [bc_pair_member ''c'' [(''a'', Num 1), (''b'', Num 2)], bc_pair_member ''d'' [(''b'', Num 2), (''a'', Num 1)]]"

definition bc_pair_sessions :: "QueryOptions SessionManager" where
  "bc_pair_sessions = new_sessions\<lparr>sm_sessions := map (\<lambda>m. (cs_clientId (fst m), fst m)) bc_pair,
     sm_querySubscribers := [(''q'', [''c'', ''d''])]\<rparr>"

theorem groups_share_an_identity_witness:
  "let s1 = snd (bc_pair ! 0); s2 = snd (bc_pair ! 1)
   in qs_params s1 \<noteq> qs_params s2 \<and> canon (Obj 0 (qs_params s1)) = canon (Obj 0 (qs_params s2))
     \<and> mset (concat (buildGroups bc_query [] None bc_pair_sessions)) = mset (receivers bc_query [] None bc_pair_sessions)"
proof -
  have m: "cs_clientId (fst (bc_pair_member c p)) = c"
      "group_member ''q'' [] (fst (bc_pair_member c p)) = (if c = [] then None else Some (bc_pair_member c p))" for c p
    by (simp_all add: bc_pair_member_def bc_session_def bc_subscription_def group_member_def Let_def)
  have subs: "getSubscribersForQuery bc_pair_sessions ''q'' None = map fst bc_pair"
    by (simp add: getSubscribersForQuery_def bc_pair_sessions_def members_def bc_pair_def List.map_filter_simps m in_room_def)
  have r: "receivers bc_query [] None bc_pair_sessions = bc_pair"
  proof -
    have "sender_room bc_pair_sessions ''q'' [] None = None"
      by (simp add: sender_room_def session_get_def bc_pair_sessions_def bc_pair_def m)
    then show ?thesis by (simp add: receivers_def bc_query_def subs) (simp add: bc_pair_def List.map_filter_simps m)
  qed
  have k: "groupKeyFor bc_query (fst (bc_pair ! 0)) (snd (bc_pair ! 0)) = groupKeyFor bc_query (fst (bc_pair ! 1)) (snd (bc_pair ! 1))"
    by code_simp
  have g: "buildGroups bc_query [] None bc_pair_sessions = [bc_pair]"
    using k by (simp add: buildGroups_eq r) (simp add: bc_pair_def join_group_def get_map_def)
  have json: "\<forall>(s, sub) \<in> set bc_pair. from_json (auth_value (cs_auth s)) \<and> from_json (Obj 0 (qs_params sub))"
    by code_simp
  have ne: "qs_params (snd (bc_pair ! 0)) \<noteq> qs_params (snd (bc_pair ! 1))" by code_simp
  have mem: "(fst (bc_pair ! 0), snd (bc_pair ! 0)) \<in> set bc_pair" "(fst (bc_pair ! 1), snd (bc_pair ! 1)) \<in> set bc_pair"
    by (simp_all add: bc_pair_def)
  have grp: "bc_pair \<in> set (buildGroups bc_query [] None bc_pair_sessions)" by (simp add: g)
  have no: "qr_groupBy bc_query = None" by (simp add: bc_query_def)
  show ?thesis
    unfolding Let_def using groups_share_an_identity [OF no grp mem json] ne by blast
qed

end
