(* ===== verification/Ops_Facts.thy ===== *)
theory Ops_Facts
  imports Ops_Message Op_Facts Broadcast_Facts
begin

text \<open>
  A message of ops: each op gets one answer, and a batch stops at its first failure. The runs at the end
  are of a store that several processes share.
\<close>

section \<open>Every op is answered\<close>

definition picked :: "bool list \<Rightarrow> 'a list \<Rightarrow> 'a list" where
  "picked bs xs = map snd (filter fst (zip bs xs))"

lemma picked_Cons: "picked (b # bs) (x # xs) = (if b then x # picked bs xs else picked bs xs)"
  by (simp add: picked_def)

lemma picked_Nil [simp]: "picked [] xs = []"
  by (simp add: picked_def)

definition batch_id :: "ClientOp \<Rightarrow> string" where
  "batch_id op = (case co_batchId op of None \<Rightarrow> [] | Some b \<Rightarrow> b)"

text \<open>Ops of a batch that failed are not accepted any more.\<close>

definition batches_stop :: "(string, string) jsmap \<Rightarrow> ClientOp list \<Rightarrow> bool list \<Rightarrow> bool" where
  "batches_stop failed ops oks \<longleftrightarrow>
     (\<forall>j < length ops. oks ! j \<longrightarrow> batch_id (ops ! j) \<noteq> [] \<longrightarrow>
        map_get failed (batch_id (ops ! j)) = None
        \<and> (\<forall>i < j. batch_id (ops ! i) = batch_id (ops ! j) \<longrightarrow> oks ! i))"

lemma batches_stop_Cons:
  assumes "batches_stop failed' ops oks" "\<And>b. map_get failed' b = None \<Longrightarrow> map_get failed b = None"
    and "ok \<Longrightarrow> batch_id op \<noteq> [] \<Longrightarrow> map_get failed (batch_id op) = None"
    and "\<not> ok \<Longrightarrow> batch_id op \<noteq> [] \<Longrightarrow> map_get failed' (batch_id op) \<noteq> None"
  shows "batches_stop failed (op # ops) (ok # oks)"
  unfolding batches_stop_def
proof (intro allI impI)
  fix j assume j: "j < length (op # ops)" "(ok # oks) ! j" "batch_id ((op # ops) ! j) \<noteq> []"
  show "map_get failed (batch_id ((op # ops) ! j)) = None
      \<and> (\<forall>i < j. batch_id ((op # ops) ! i) = batch_id ((op # ops) ! j) \<longrightarrow> (ok # oks) ! i)"
  proof (cases j)
    case 0
    with j assms(3) show ?thesis by simp
  next
    case (Suc k)
    with j assms(1) have k: "map_get failed' (batch_id (ops ! k)) = None"
        "\<forall>i < k. batch_id (ops ! i) = batch_id (ops ! k) \<longrightarrow> oks ! i" "batch_id (ops ! k) \<noteq> []"
      by (simp_all add: batches_stop_def)
    have "batch_id op = batch_id (ops ! k) \<Longrightarrow> ok" using assms(4) k(1,3) by auto
    with k assms(2) Suc show ?thesis by (auto simp: nth_Cons less_Suc_eq_0_disj)
  qed
qed

lemma failed_before_eq: "failed_before op x = (if batch_id op = [] then None else map_get (oa_failed x) (batch_id op))"
  by (simp add: failed_before_def batch_id_def split: option.splits)

definition answers :: "ClientOp list \<Rightarrow> OpsAnswers \<Rightarrow> OpsAnswers \<Rightarrow> bool list \<Rightarrow> bool" where
  "answers ops x y oks \<longleftrightarrow> length oks = length ops
     \<and> oa_accepted y = oa_accepted x @ map co_id (picked oks ops)
     \<and> map fst (oa_rejected y) = map fst (oa_rejected x) @ map co_id (picked (map Not oks) ops)
     \<and> batches_stop (oa_failed x) ops oks"

lemma run_ops_answers:
  "run_ops d a s b ops x e = (Inr y, e') \<Longrightarrow> \<exists>oks. answers ops x y oks"
proof (induction ops arbitrary: x e)
  case Nil
  then show ?case by (auto simp: answers_def batches_stop_def)
next
  case (Cons op ops)
  show ?case
  proof (cases "failed_before op x")
    case (Some reason)
    with Cons.prems Cons.IH [of "note_skipped op reason x" e] obtain oks where "answers ops (note_skipped op reason x) y oks" by auto
    then have "answers (op # ops) x y (False # oks)"
      using Some by (auto simp: answers_def picked_Cons note_skipped_def failed_before_eq intro!: batches_stop_Cons split: if_splits)
    then show ?thesis ..
  next
    case None
    obtain r ts e1 where p: "processClientOp d op a s (Some (oa_tables x)) (Some b) e = (r, ts, e1)" by (cases rule: prod_cases3)
    with Cons.prems None obtain res where res: "r = Inr res" by (cases r) auto
    let ?x = "x\<lparr>oa_tables := case ts of None \<Rightarrow> [] | Some ts \<Rightarrow> ts\<rparr>"
    let ?x1 = "if or_accepted res then note_accept op res ?x else note_reject op res ?x"
    have "run_ops d a s b ops ?x1 e1 = (Inr y, e')" using Cons.prems None p res by (simp add: Let_def)
    with Cons.IH obtain oks where oks: "answers ops ?x1 y oks" by blast
    have "batches_stop (oa_failed x) (op # ops) (or_accepted res # oks)"
    proof (rule batches_stop_Cons [of "oa_failed ?x1"])
      show "batches_stop (oa_failed ?x1) ops oks" using oks by (simp add: answers_def)
      show "map_get (oa_failed ?x1) j = None \<Longrightarrow> map_get (oa_failed x) j = None" for j
        by (auto simp: note_accept_def note_reject_def Let_def jsmap.get_put split: if_splits option.splits)
      show "or_accepted res \<Longrightarrow> batch_id op \<noteq> [] \<Longrightarrow> map_get (oa_failed x) (batch_id op) = None"
        using None by (simp add: failed_before_eq)
      show "\<not> or_accepted res \<Longrightarrow> batch_id op \<noteq> [] \<Longrightarrow> map_get (oa_failed ?x1) (batch_id op) \<noteq> None"
        by (auto simp: note_reject_def Let_def jsmap.get_put batch_id_def split: option.splits)
    qed
    then have "answers (op # ops) x y (or_accepted res # oks)"
      using oks by (auto simp: answers_def picked_Cons note_accept_def note_reject_def Let_def)
    then show ?thesis ..
  qed
qed

text \<open>C33: A message of ops that is handled answers every op exactly once, with an ack or a reject, each list
  in the order of the message, and once an op of a batch was refused no later op of that batch is
  accepted.\<close>

theorem every_op_is_answered_once:
  assumes "run_ops d a s b ops no_answers e = (Inr y, e')"
  shows "\<exists>oks. length oks = length ops
    \<and> oa_accepted y = map co_id (picked oks ops) \<and> map fst (oa_rejected y) = map co_id (picked (map Not oks) ops)
    \<and> (\<forall>i j. i < j \<longrightarrow> j < length ops \<longrightarrow> batch_id (ops ! i) = batch_id (ops ! j) \<longrightarrow> batch_id (ops ! j) \<noteq> [] \<longrightarrow>
         oks ! j \<longrightarrow> oks ! i)"
proof -
  obtain oks where "answers ops no_answers y oks" using run_ops_answers [OF assms] by blast
  then show ?thesis by (intro exI [where x = oks]) (simp add: answers_def batches_stop_def no_answers_def)
qed

section \<open>Runs\<close>

text \<open>A world with a store that several processes share, as the databases behind the adapters are: rows, a
  log and reserved ids, and conditional writes. Its writes take their fate from a script; the frames
  sent are logged.\<close>

record ops_world =
  ow_rows :: "(string \<times> string, ExistingRow) jsmap"
  ow_log :: "OpLogEntry list"
  ow_reserved :: "string list"
  ow_fates :: "bool list"
  ow_sent :: "(string \<times> ServerMessage) list"
  ow_rival :: bool

definition shared_rows :: "ops_world \<Rightarrow> string \<times> string \<Rightarrow> ExistingRow" where
  "shared_rows w k = (case map_get (ow_rows w) k of Some ex \<Rightarrow> ex | None \<Rightarrow> no_row)"

definition shared_write :: "WalRowMutation \<Rightarrow> OpLogEntry \<Rightarrow> ops_world \<Rightarrow> ops_world" where
  "shared_write m en w = w\<lparr>ow_rows := map_set (target_of m) (written_row m) (ow_rows w), ow_log := ow_log w @ [en]\<rparr>"

definition shared_apply :: "WalRowMutation \<Rightarrow> OpLogEntry \<Rightarrow> ops_world \<Rightarrow> bool \<times> ops_world" where
  "shared_apply m en w =
     (case ow_fates w of
        [] \<Rightarrow> (True, shared_write m en w)
      | ok # fates \<Rightarrow> (ok, if ok then shared_write m en (w\<lparr>ow_fates := fates\<rparr>) else w\<lparr>ow_fates := fates\<rparr>))"

definition shared_apply_if ::
  "WalRowMutation \<Rightarrow> OpLogEntry \<Rightarrow> string option \<Rightarrow> ops_world \<Rightarrow> bool option \<times> ops_world" where
  "shared_apply_if m en h w =
     (if ex_rowHlc (shared_rows w (target_of m)) = h
      then (case shared_apply m en w of (ok, w') \<Rightarrow> (if ok then Some True else None, w'))
      else (Some False, w))"

definition shared_get_many :: "string \<Rightarrow> string list \<Rightarrow> ops_world \<Rightarrow> ExistingRow jsobj" where
  "shared_get_many t ids w = map (\<lambda>r. (r, shared_rows w (t, r))) (remdups ids)"

definition shared_reserve :: "string list \<Rightarrow> ops_world \<Rightarrow> string list \<times> ops_world" where
  "shared_reserve is w =
     (let fresh = filter (\<lambda>i. i \<notin> set (ow_reserved w)) (remdups is)
      in (fresh, w\<lparr>ow_reserved := ow_reserved w @ fresh\<rparr>))"

definition shared_storage :: "ops_world OpStorage" where
  "shared_storage =
     \<lparr>os_getRow = (\<lambda>t r w. (Some (shared_rows w (t, r)), w)),
      os_getRowsByIds = Some (\<lambda>t ids w. (Some (shared_get_many t ids w), w)),
      os_applyOp = shared_apply, os_applyOpIf = Some shared_apply_if,
      os_reserveOp = (\<lambda>i w. case shared_reserve [i] w of (fresh, w') \<Rightarrow> (Some (fresh \<noteq> []), w')),
      os_reserveOps = Some (\<lambda>is w. case shared_reserve is w of (fresh, w') \<Rightarrow> (Some fresh, w'))\<rparr>"

lemma shared_written: "shared_apply m en w = (True, w') \<Longrightarrow> shared_rows w' = (shared_rows w)(target_of m := written_row m)"
  by (auto simp: shared_apply_def shared_write_def shared_rows_def fun_eq_iff jsmap.get_put split: list.splits if_splits)

lemma shared_failed: "shared_apply m en w = (False, w') \<Longrightarrow> shared_rows w' = shared_rows w"
  by (auto simp: shared_apply_def shared_rows_def fun_eq_iff split: list.splits if_splits)

lemma shared_rows_frame [simp]:
  "shared_rows (w\<lparr>ow_reserved := a\<rparr>) = shared_rows w" "shared_rows (w\<lparr>ow_sent := b\<rparr>) = shared_rows w"
  by (simp_all add: shared_rows_def fun_eq_iff)

interpretation shared_ops: row_store shared_storage shared_rows
proof
  show "os_getRowsByIds shared_storage = Some f \<Longrightarrow> f t ids w = (y, w') \<Longrightarrow>
      shared_rows w' = shared_rows w \<and> (\<forall>found. y = Some found \<longrightarrow> (\<forall>r \<in> set ids.
        (case obj_get found r of Some ex \<Rightarrow> ex | None \<Rightarrow> no_row) = shared_rows w (t, r)))" for f t ids w y w'
    by (auto simp: shared_storage_def shared_get_many_def obj_get_def map_of_map_restrict split: option.splits)
qed (auto simp: shared_storage_def shared_apply_if_def shared_reserve_def Let_def shared_written
    split: prod.splits if_splits)

definition ops_options :: "ConflictPolicy option \<Rightarrow> Broadcast \<Rightarrow> QueryOptions" where
  "ops_options policy br = bc_options\<lparr>qo_conflict := policy, qo_broadcast := br\<rparr>"

definition ops_query :: "ConflictPolicy option \<Rightarrow> Broadcast \<Rightarrow> ops_world QueryRegistration" where
  "ops_query policy br = \<lparr>qr_name = ''q'', qr_options = ops_options policy br, qr_serverSet = None, qr_count = False,
     qr_groupBy = None, qr_authorize = None, qr_mutate = Some (\<lambda>op ctx w. (Inr [], w))\<rparr>"

definition ops_engine_deps :: "ConflictPolicy option \<Rightarrow> Broadcast \<Rightarrow> ops_world BroadcastDeps" where
  "ops_engine_deps policy br = \<lparr>bd_queries = [(''q'', ops_query policy br)], bd_tableDependencyIndex = [(''q'', [''q''])],
     bd_send = (\<lambda>c m w. (True, w\<lparr>ow_sent := ow_sent w @ [(c, m)]\<rparr>)),
     bd_executeQuery = (\<lambda>reg s l w. ((0, Some []), w)), bd_countQuery = (\<lambda>reg s w. (None, w)),
     bd_nextHlc = (\<lambda>w. (''6.1.s'', w)), bd_emit = (\<lambda>e w. w), bd_queryTimeoutMs = 0, bd_dateText = (\<lambda>_. [])\<rparr>"

definition ops_deps :: "ConflictPolicy option \<Rightarrow> Broadcast \<Rightarrow> ops_world OpDeps" where
  "ops_deps policy br = \<lparr>od_engine = ops_engine_deps policy br, od_storage = Some shared_storage, od_limits = None,
     od_maxBatchSize = 100, od_now = (\<lambda>w. 9), od_receiveHlc = (\<lambda>h w. w), od_auth = None, od_disconnect = (\<lambda>c w. w),
     od_meanwhile = (\<lambda>e. e)\<rparr>"

definition ops_auth :: AuthContext where
  "ops_auth = \<lparr>au_userId = ''u'', au_fields = []\<rparr>"

definition ops_session :: session where
  "ops_session = \<lparr>cs_clientId = ''c'', cs_auth = Some ops_auth, cs_subscriptions = [], cs_watermark = None, cs_connectedAt = 0\<rparr>"

definition ops_engine :: "bool list \<Rightarrow> ops_world OpEngine" where
  "ops_engine fates = \<lparr>en_sessions = new_sessions\<lparr>sm_sessions := [(''c'', ops_session)]\<rparr>, en_connects = (\<lambda>_. 1), en_cache = [],
     en_world = \<lparr>ow_rows = [], ow_log = [], ow_reserved = [], ow_fates = fates, ow_sent = [], ow_rival = True\<rparr>, on_buffer = new_buffer None None,
     on_replay = [], on_limiter = createRateLimiter 9, on_activeBatches = [], on_created = 0, on_authCache = []\<rparr>"

definition sample_client_op :: "string \<Rightarrow> OpType \<Rightarrow> row \<Rightarrow> string \<Rightarrow> ClientOp" where
  "sample_client_op i t p h = \<lparr>co_id = i, co_table = ''q'', co_op = t, co_rowId = ''r'', co_payload = Some p, co_hlc = h,
     co_batchId = None, co_batchSize = None, co_batchSeq = None\<rparr>"

definition first_op :: ClientOp where
  "first_op = sample_client_op ''o1'' Insert [(''x'', Num 0), (''y'', Num 0)] ''5.1.c''"

text \<open>The store rejects a write after its op id was reserved. The message fails, nothing is answered, and the
  client sends it again: the op is taken for a replay and acknowledged, although it was never stored.\<close>

lemma failed_write_is_acked_on_retry:
  "case handleOps (ops_deps None Consistent) ''c'' [first_op] ''t'' (ops_engine [False]) of
     (r1, e1) \<Rightarrow> (case handleOps (ops_deps None Consistent) ''c'' [first_op] ''t'' e1 of
       (r2, e2) \<Rightarrow> isl r1 \<and> ow_sent (en_world e1) = [] \<and> \<not> isl r2
         \<and> ow_sent (en_world e2) = [(''c'', Ack [''o1''])]
         \<and> ex_row (shared_rows (en_world e2) (''q'', ''r'')) = None)"
  by code_simp

text \<open>A rival process writes a column while an op is between its read and its write.\<close>

definition rival_write :: "row \<Rightarrow> clocks \<Rightarrow> string \<Rightarrow> ops_world OpEngine \<Rightarrow> ops_world OpEngine" where
  "rival_write row cc h e =
     (if ow_rival (en_world e)
      then e\<lparr>en_world := snd (shared_apply \<lparr>wm_table = ''q'', wm_rowId = ''r'', wm_row = Some row, wm_colClocks = cc, wm_hlc = h\<rparr>
        \<lparr>ol_table = ''q'', ol_op = ''update'', ol_rowId = ''r'', ol_payload = Some row, ol_hlc = h, ol_colClocks = cc\<rparr>
        ((en_world e)\<lparr>ow_rival := False\<rparr>))\<rparr>
      else e)"

definition with_first_row :: "ops_world OpEngine \<Rightarrow> ops_world OpEngine" where
  "with_first_row e = e\<lparr>en_world := snd (shared_apply
     \<lparr>wm_table = ''q'', wm_rowId = ''r'', wm_row = Some [(''x'', Num 0), (''y'', Num 0)],
      wm_colClocks = [(''_row'', ''1.1.c''), (''x'', ''1.1.c''), (''y'', ''1.1.c'')], wm_hlc = ''1.1.c''\<rparr>
     \<lparr>ol_table = ''q'', ol_op = ''insert'', ol_rowId = ''r'', ol_payload = None, ol_hlc = ''1.1.c'', ol_colClocks = []\<rparr> (en_world e))\<rparr>"

definition second_op :: ClientOp where
  "second_op = sample_client_op ''o2'' Update [(''x'', Num 1)] ''5.1.c''"

definition rival_deps :: "ConflictPolicy \<Rightarrow> ops_world OpDeps" where
  "rival_deps policy = (ops_deps (Some policy) Consistent)\<lparr>od_meanwhile :=
     rival_write [(''x'', Num 0), (''y'', Num 7)] [(''_row'', ''4.1.d''), (''x'', ''1.1.c''), (''y'', ''4.1.d'')] ''4.1.d''\<rparr>"

definition written_xy :: "ConflictPolicy \<Rightarrow> jsval \<times> jsval" where
  "written_xy policy =
     (case processConsistentOp (rival_deps policy) second_op (ops_query (Some policy) Consistent) ops_auth ops_session None None
             (with_first_row (ops_engine [])) of
        (r, ts, e) \<Rightarrow> (case ex_row (shared_rows (en_world e) (''q'', ''r'')) of
            Some row \<Rightarrow> (get_prop row ''x'', get_prop row ''y'') | None \<Rightarrow> (Undefined, Undefined)))"

text \<open>The write is conditional only under a policy given as an object. Under \<open>merge\<close>, a column that another
  server wrote in between is overwritten with the value read before; with text columns declared it is not.\<close>

lemma merge_forgets_a_rival_column:
  "written_xy Merge = (Num 1, Num 0) \<and> written_xy (TextPolicy \<lparr>tp_text = [], tp_softDelete = None\<rparr>) = (Num 1, Num 7)"
  by code_simp

text \<open>Two eager writes of one row by two clients, the second while \<open>mutate\<close> of the first is awaited: both
  are accepted, and the stored row lacks the column of the second.\<close>

definition other_session :: session where
  "other_session = ops_session\<lparr>cs_clientId := ''d''\<rparr>"

definition eager_rival :: "ops_world OpEngine \<Rightarrow> ops_world OpEngine" where
  "eager_rival e =
     (if ow_rival (en_world e)
      then snd (processEagerOp (ops_deps None EagerDurable) (sample_client_op ''o3'' Update [(''y'', Num 7)] ''5.1.d'')
        (ops_query None EagerDurable) ops_auth other_session None (e\<lparr>en_world := (en_world e)\<lparr>ow_rival := False\<rparr>\<rparr>))
      else e)"

lemma eager_writes_lose_a_column:
  "case processEagerOp ((ops_deps None EagerDurable)\<lparr>od_meanwhile := eager_rival\<rparr>) second_op (ops_query None EagerDurable)
          ops_auth ops_session None (with_first_row (ops_engine [])) of
     (r, e) \<Rightarrow> (case r of Inl u \<Rightarrow> False | Inr x \<Rightarrow> or_accepted x)
       \<and> map (get_prop (case ex_row (shared_rows (en_world e) (''q'', ''r'')) of Some row \<Rightarrow> row | None \<Rightarrow> [])) [''x'', ''y'']
          = [Num 1, Num 0]"
  by code_simp

lemma ops_deps_quiet: "quiet_world (ops_deps policy br) (\<lambda>w. shared_rows w k)"
  by (auto simp: quiet_world_def quiet_engine_def ops_deps_def ops_engine_deps_def ops_query_def)

theorem consistent_op_refines_pipeline_witness:
  "let d = ops_deps (Some Merge) Consistent; reg = ops_query (Some Merge) Consistent; e = with_first_row (ops_engine []);
       e' = snd (snd (processConsistentOp d second_op reg ops_auth ops_session None None e))
   in \<exists>now l. shared_rows (en_world e') (''q'', ''r'')
     = stored_decision second_op (decision d second_op reg ops_auth ops_session (shared_rows (en_world e) (''q'', ''r'')) now l)"
proof -
  let ?d = "ops_deps (Some Merge) Consistent" and ?reg = "ops_query (Some Merge) Consistent"
  let ?e = "with_first_row (ops_engine [])"
  let ?run = "processConsistentOp ?d second_op ?reg ops_auth ops_session None None ?e"
  have k: "row_key_of second_op = (''q'', ''r'')" by code_simp
  have ok: "case fst ?run of Inl u \<Rightarrow> False | Inr r \<Rightarrow> or_accepted r" by code_simp
  then obtain res where res: "fst ?run = Inr res" "or_accepted res" by (auto split: sum.splits)
  then have run: "?run = (Inr res, fst (snd ?run), snd (snd ?run))" by (simp add: prod_eq_iff)
  have st: "row_store shared_storage shared_rows" by unfold_locales
  have d: "od_storage ?d = Some shared_storage" "map_get (bd_queries (od_engine ?d)) (co_table second_op) = Some ?reg"
    by (simp_all add: ops_deps_def ops_engine_deps_def second_op_def sample_client_op_def)
  have agrees: "batch_agrees shared_rows None second_op ?e" by (simp add: batch_agrees_def cached_row_def context_of_batch_def)
  show ?thesis
    using consistent_op_refines_pipeline [OF st d(1) ops_deps_quiet d(2) agrees run] res(2)
    unfolding Let_def k by auto
qed

definition mixed_batch :: "ClientOp list" where
  "mixed_batch = [first_op\<lparr>co_id := ''a'', co_table := ''z'', co_batchId := Some ''b''\<rparr>,
     first_op\<lparr>co_id := ''b'', co_batchId := Some ''b''\<rparr>, first_op]"

definition batch_run :: "(unit + OpsAnswers) \<times> ops_world OpEngine" where
  "batch_run = run_ops (ops_deps None Consistent) ops_auth ops_session 0 mixed_batch no_answers
     (snd (prefetchBatch (ops_deps None Consistent) mixed_batch (ops_engine [])))"

theorem every_op_is_answered_once_witness:
  "\<exists>y oks. fst batch_run = Inr y \<and> oa_accepted y = [''o1''] \<and> length oks = 3
     \<and> oa_accepted y = map co_id (picked oks mixed_batch) \<and> map fst (oa_rejected y) = map co_id (picked (map Not oks) mixed_batch)"
proof -
  have ok: "case fst batch_run of Inl u \<Rightarrow> False | Inr y \<Rightarrow> oa_accepted y = [''o1'']" by code_simp
  then obtain y where y: "fst batch_run = Inr y" "oa_accepted y = [''o1'']" by (auto split: sum.splits)
  then have "batch_run = (Inr y, snd batch_run)" by (simp add: prod_eq_iff)
  then obtain oks where "length oks = length mixed_batch" "oa_accepted y = map co_id (picked oks mixed_batch)"
      "map fst (oa_rejected y) = map co_id (picked (map Not oks) mixed_batch)"
    using every_op_is_answered_once [of "ops_deps None Consistent" ops_auth ops_session 0 mixed_batch] unfolding batch_run_def by blast
  moreover have "length mixed_batch = 3" by (simp add: mixed_batch_def)
  ultimately show ?thesis using y by (intro exI [where x = y] exI [where x = oks]) simp
qed

end
