(* ===== verification/Batch_Facts.thy ===== *)
theory Batch_Facts
  imports Ops_Facts
begin

text \<open>
  The rows a batch of ops keeps, against the store: an invariant over the messages of several clients
  taking turns, as the inductive relation \<open>ops_run\<close>.
\<close>

section \<open>Batches and the store\<close>

lemma colon_no_digit: "takeWhile is_digit (nat_str n @ CHR '':'' # x) = nat_str n"
  using nat_str_digits [of n] by (auto simp: list_all_iff takeWhile_append is_digit_def)

lemma rowKey_inj: "rowKey t r = rowKey t' r' \<Longrightarrow> t = t' \<and> r = r'"
proof -
  assume eq: "rowKey t r = rowKey t' r'"
  then have "takeWhile is_digit (rowKey t r) = takeWhile is_digit (rowKey t' r')" by simp
  then have s: "nat_str (length t) = nat_str (length t')" by (simp add: rowKey_def colon_no_digit)
  then have "length t = length t'" by (metis digits_val_nat_str)
  with eq s show ?thesis by (simp add: rowKey_def)
qed

text \<open>A row the batch holds is the row of the store; of one that is gone only that is known.\<close>

definition same_row :: "ExistingRow \<Rightarrow> ExistingRow \<Rightarrow> bool" where
  "same_row ex s \<longleftrightarrow> ex_row ex = ex_row s \<and> (ex_row ex \<noteq> None \<longrightarrow> ex = s)"

definition batch_ok :: "(string \<times> string \<Rightarrow> ExistingRow) \<Rightarrow> BatchContext \<Rightarrow> bool" where
  "batch_ok rows x \<longleftrightarrow> (\<forall>t r ex. rowKey t r \<notin> set (bx_stale x) \<longrightarrow> map_get (bx_rows x) (rowKey t r) = Some ex
     \<longrightarrow> same_row ex (rows (t, r)))"

definition in_step :: "('w \<Rightarrow> string \<times> string \<Rightarrow> ExistingRow) \<Rightarrow> 'w OpEngine \<Rightarrow> bool" where
  "in_step rows e \<longleftrightarrow> (\<forall>b x. map_get (on_activeBatches e) b = Some x \<longrightarrow> batch_ok (rows (en_world e)) x)"

lemma same_row_refl [simp]: "same_row ex ex"
  by (simp add: same_row_def)

lemma coherent_cong: "rows (en_world e') = rows (en_world e) \<Longrightarrow> on_activeBatches e' = on_activeBatches e \<Longrightarrow> in_step rows e' = in_step rows e"
  by (simp add: in_step_def)

lemma coherent_on_batch:
  "in_step rows e \<Longrightarrow> (\<And>x. batch_ok (rows (en_world e)) x \<Longrightarrow> batch_ok (rows (en_world e)) (f x)) \<Longrightarrow> in_step rows (on_batch b f e)"
  by (auto simp: in_step_def on_batch_def jsmap.get_put split: option.splits if_splits)

lemma batch_ok_set: "batch_ok rows x \<Longrightarrow> same_row ex (rows (t, r)) \<Longrightarrow> batch_ok rows (set_row (rowKey t r) ex x)"
  by (auto simp: batch_ok_def set_row_def jsmap.get_put dest: rowKey_inj split: if_splits)

lemma batch_ok_set_unstale:
  "batch_ok rows x \<Longrightarrow> same_row ex (rows (t, r)) \<Longrightarrow> batch_ok rows (unstale (rowKey t r) (set_row (rowKey t r) ex x))"
  by (auto simp: batch_ok_def set_row_def unstale_def jsmap.get_put dest: rowKey_inj split: if_splits)

lemma unstale_set: "set_row k ex (unstale j x) = unstale j (set_row k ex x)"
  by (simp add: set_row_def unstale_def)

lemma batch_ok_fresh [simp]: "batch_ok rows (x\<lparr>bx_freshOpIds := ids\<rparr>) = batch_ok rows x"
  by (simp add: batch_ok_def)

text \<open>A write is recorded in its own batch, and makes the row stale in all others.\<close>

lemma map_of_map_val: "map_get (map (\<lambda>(b, x). (b, f b x)) m) b = map_option (f b) (map_get m b)"
  by (induction m) auto

lemma coherent_write:
  assumes "in_step rows e" "rows w = (rows (en_world e))((t, r) := written_row m)"
    and "en_world e1 = w" "on_activeBatches e1 = on_activeBatches e"
  shows "in_step rows (recordBatchWrite batch t r (wm_row m) (wm_colClocks m) (wm_hlc m) e1)"
proof -
  let ?key = "rowKey t r" and ?ex = "\<lparr>ex_row = wm_row m, ex_rowHlc = Some (wm_hlc m), ex_colClocks = wm_colClocks m\<rparr>"
  have written: "same_row ?ex (written_row m)"
    by (auto simp: same_row_def written_row_def no_row_def split: option.splits)
  have mine: "batch_ok (rows w) ((set_row ?key ?ex \<circ> unstale ?key) x)" if "batch_ok (rows (en_world e)) x" for x
    using that assms(2) written
    by (auto simp: batch_ok_def set_row_def unstale_def jsmap.get_put dest: rowKey_inj split: if_splits)
  have other: "batch_ok (rows w) (x\<lparr>bx_stale := set_add ?key (bx_stale x)\<rparr>)" if "batch_ok (rows (en_world e)) x" for x
    using that assms(2) by (auto simp: batch_ok_def set_add_def split: if_splits)
  show ?thesis
    using assms(1) mine other
    by (auto simp: in_step_def recordBatchWrite_def Let_def on_batch_def map_of_map_val jsmap.get_put assms(3,4)
        simp del: map_of_eq_Some_iff split: option.splits if_splits)
qed

text \<open>Steps that write no row and leave the batches alone.\<close>

definition calm_step :: "('w \<Rightarrow> string \<times> string \<Rightarrow> ExistingRow) \<Rightarrow> 'w OpEngine \<Rightarrow> 'w OpEngine \<Rightarrow> bool" where
  "calm_step rows e e' \<longleftrightarrow> rows (en_world e') = rows (en_world e) \<and> on_activeBatches e' = on_activeBatches e"

lemma calm_refl [simp]: "calm_step rows e e"
  by (simp add: calm_step_def)

lemma calm_trans [trans]: "calm_step rows e e1 \<Longrightarrow> calm_step rows e1 e2 \<Longrightarrow> calm_step rows e e2"
  by (simp add: calm_step_def)

lemma calm_coherent: "calm_step rows e e' \<Longrightarrow> in_step rows e \<Longrightarrow> in_step rows e'"
  by (simp add: calm_step_def in_step_def)

lemma keeps_calm: "keeps rows e e' \<Longrightarrow> calm_step rows e e'"
  by (cases e; cases e') (simp add: keeps_def calm_step_def)

text \<open>Handlers take turns between ops here: while one awaits nothing else runs.\<close>

definition turns :: "'w OpDeps \<Rightarrow> 'w OpStorage \<Rightarrow> ('w \<Rightarrow> string \<times> string \<Rightarrow> ExistingRow) \<Rightarrow> bool" where
  "turns d st rows \<longleftrightarrow> row_store st rows \<and> od_storage d = Some st \<and> quiet_world d rows \<and> (\<forall>e. od_meanwhile d e = e)"

lemma turns_awaiting:
  "turns d st rows \<Longrightarrow> awaiting d f e = (x, e') \<Longrightarrow> \<exists>w. f (en_world e) = (x, w) \<and> e' = e\<lparr>en_world := w\<rparr>"
  by (auto simp: awaiting_def turns_def split: prod.splits)

lemma calm_awaiting:
  "turns d st rows \<Longrightarrow> (\<And>x w w'. f w = (x, w') \<Longrightarrow> rows w' = rows w) \<Longrightarrow> awaiting d f e = (x, e') \<Longrightarrow> calm_step rows e e'"
  using turns_awaiting [of d st rows f e x e'] by (fastforce simp: calm_step_def)

lemma calm_authorize:
  assumes "turns d st rows" "map_get (bd_queries (od_engine d)) q = Some reg" "authorize_op d reg op ctx e = (x, e')"
  shows "calm_step rows e e'"
proof (cases "qr_authorize reg")
  case (Some f)
  then have "f op ctx w = (x, w') \<Longrightarrow> rows w' = rows w" for x w w'
    using assms(1,2) unfolding turns_def quiet_world_def by (metis snd_conv)
  with assms(1,3) Some show ?thesis by (auto simp: authorize_op_def intro: calm_awaiting)
qed (use assms(3) in \<open>simp add: authorize_op_def\<close>)

lemma calm_mutate:
  assumes "turns d st rows" "map_get (bd_queries (od_engine d)) q = Some reg" "mutate_op d reg op ctx e = (x, e')"
  shows "calm_step rows e e'"
proof (cases "qr_mutate reg")
  case (Some f)
  then have "f op ctx w = (x, w') \<Longrightarrow> rows w' = rows w" for x w w'
    using assms(1,2) unfolding turns_def quiet_world_def by (metis snd_conv)
  with assms(1,3) Some show ?thesis by (auto simp: mutate_op_def intro: calm_awaiting)
qed (use assms(3) in \<open>simp add: mutate_op_def\<close>)

lemma calm_broadcasts: "turns d st rows \<Longrightarrow> calm_step rows e (fold (op_broadcast d c) ts e)"
  by (intro keeps_calm fold_keeps) (simp add: op_broadcast_def broadcast_keeps turns_def quiet_world_def)

lemma calm_announce: "turns d st rows \<Longrightarrow> announce d c ts deferred e = (x, e') \<Longrightarrow> calm_step rows e e'"
  using calm_broadcasts by (auto simp: announce_def split: option.splits)

lemma keeps_view [simp]: "keeps rows e (keep_writer_view d op c held e)" "keeps rows e (deliver_eager d op row c e)"
  by (auto simp: keep_writer_view_def deliver_eager_def forgetWriterRow_def recordWriterColumns_def recordDeliveredRow_def
      split: option.splits)

lemma calm_fanout: "turns d st rows \<Longrightarrow> calm_step rows e (eager_fanout d op hlc x c e)"
proof -
  assume t: "turns d st rows"
  have "keeps rows e (snd (calling (bd_send (od_engine d) i m) e))" for i m e
    using t by (auto simp: calling_def turns_def quiet_world_def quiet_engine_def split_def intro: keeps_world)
  then have a: "keeps rows e (fold (\<lambda>i e. snd (calling (bd_send (od_engine d) i m) e)) is e)" for m "is" e
    by (rule fold_keeps)
  have b: "keeps rows e (fold (deliver_eager d op row) is e)" for "is" row e
    by (rule fold_keeps) simp
  show ?thesis using t keeps_calm [OF keeps_trans [OF a b]] by (simp add: eager_fanout_def Let_def turns_def)
qed

section \<open>Each operation keeps the batches in step with the store\<close>

lemma coherent_read:
  assumes t: "turns d st rows" and "in_step rows e" "readRow d table r batch e = (x, e')"
  shows "in_step rows e' \<and> rows (en_world e') = rows (en_world e)"
proof (cases "cached_row batch (rowKey table r) e")
  case None
  obtain y e1 where a: "awaiting d (os_getRow st table r) e = (y, e1)" by (rule prod.exhaust)
  then obtain w where w: "os_getRow st table r (en_world e) = (y, w)" "e1 = e\<lparr>en_world := w\<rparr>"
    using turns_awaiting [OF t a] by blast
  have "row_store st rows" using assms(1) by (simp add: turns_def)
  note got = row_store.got [OF this w(1), THEN conjunct1] row_store.got [OF this w(1), THEN conjunct2]
  have "in_step rows e1" using assms(2) w(2) got(1) by (simp add: in_step_def)
  then have "in_step rows (on_batch batch (unstale (rowKey table r) \<circ> set_row (rowKey table r) ex) e1)" if "y = Some ex" for ex
    using that got w(2) by (auto intro!: coherent_on_batch batch_ok_set_unstale)
  moreover have "od_storage d = Some st" using t by (simp add: turns_def)
  ultimately show ?thesis using \<open>in_step rows e1\<close> got(1) w(2) None a assms(3)
    by (cases y) (auto simp: readRow_def)
qed (use assms(2,3) in \<open>auto simp: readRow_def\<close>)

lemma apply_args_row:
  "wm_row (fst (apply_args op row cc h p)) = row" "wm_hlc (fst (apply_args op row cc h p)) = h"
  "wm_colClocks (fst (apply_args op row cc h p)) = cc" "target_of (fst (apply_args op row cc h p)) = (co_table op, co_rowId op)"
  by (simp_all add: apply_args_def target_of_def)

lemma coherent_applied:
  assumes t: "turns d st rows" and "in_step rows e" and "rows w = (rows (en_world e))(target_of (fst (apply_args op row cc h p)) := written_row (fst (apply_args op row cc h p)))"
  shows "in_step rows (recordBatchWrite batch (co_table op) (co_rowId op) row cc h (e\<lparr>en_world := w\<rparr>))"
  using coherent_write [of rows e w "co_table op" "co_rowId op" "fst (apply_args op row cc h p)" "e\<lparr>en_world := w\<rparr>" batch]
    assms(2,3) by (simp add: apply_args_row)

lemma coherent_persist:
  assumes t: "turns d st rows" and "in_step rows e" "persist_resolved d op o' r ex batch e = (x, e')" "x \<noteq> Rejected_by_store"
  shows "in_step rows e'"
proof -
  let ?args = "apply_args op (pr_resolvedRow r) (pr_colClocks r) (co_hlc op) (logged_payload o' (pr_resolvedRow r))"
  have st: "row_store st rows" "od_storage d = Some st" and idle: "\<And>e. od_meanwhile d e = e" using t by (simp_all add: turns_def)
  show ?thesis
  proof (cases "if object_policy o' then os_applyOpIf st else None")
    case None
    obtain ok w where w: "os_applyOp st (fst ?args) (snd ?args) (en_world e) = (ok, w)" by fastforce
    with None assms(3,4) st(2) have "ok" "e' = recordBatchWrite batch (co_table op) (co_rowId op) (pr_resolvedRow r)
        (pr_colClocks r) (co_hlc op) (e\<lparr>en_world := w\<rparr>)"
      by (auto simp: persist_resolved_def awaiting_def split_def Let_def idle split: if_splits)
    moreover have "rows w = (rows (en_world e))(target_of (fst ?args) := written_row (fst ?args))"
      using w \<open>ok\<close> row_store.applied [OF st(1), of "fst ?args" "snd ?args" "en_world e" w] by simp
    ultimately show ?thesis using coherent_applied [OF t assms(2)] by simp
  next
    case (Some f)
    then have f: "os_applyOpIf st = Some f" by (simp split: if_splits)
    obtain ok w where w: "f (fst ?args) (snd ?args) (ex_rowHlc ex) (en_world e) = (ok, w)" by fastforce
    show ?thesis
    proof (cases "ok = Some True")
      case True
      with Some w assms(3) st(2) have "e' = recordBatchWrite batch (co_table op) (co_rowId op) (pr_resolvedRow r)
          (pr_colClocks r) (co_hlc op) (e\<lparr>en_world := w\<rparr>)"
        by (auto simp: persist_resolved_def awaiting_def split_def Let_def idle)
      moreover have "rows w = (rows (en_world e))(target_of (fst ?args) := written_row (fst ?args))"
        using w True row_store.applied_if [OF st(1) f, of "fst ?args" "snd ?args" "ex_rowHlc ex" "en_world e" w] by simp
      ultimately show ?thesis using coherent_applied [OF t assms(2)] by simp
    next
      case False
      with Some w assms(3,4) st(2) have "ok = Some False" "e' = e\<lparr>en_world := w\<rparr>"
        by (auto simp: persist_resolved_def awaiting_def split_def Let_def idle split: option.splits bool.splits)
      with w row_store.lost [OF st(1) f, of "fst ?args" "snd ?args" "ex_rowHlc ex" "en_world e" w] assms(2)
      show ?thesis by (simp add: in_step_def)
    qed
  qed
qed

lemma coherent_read_existing:
  assumes t: "turns d st rows" and "in_step rows e" "read_existing d op batch again e = (x, e')"
  shows "in_step rows e' \<and> rows (en_world e') = rows (en_world e)"
proof (cases again)
  case True
  have st: "row_store st rows" "od_storage d = Some st" using t by (simp_all add: turns_def)
  have "calm_step rows e e'"
    by (rule calm_awaiting [OF t, of "os_getRow st (co_table op) (co_rowId op)"])
      (use row_store.got [OF st(1)] True assms(3) st(2) in \<open>auto simp: read_existing_def\<close>)
  with assms(2) calm_coherent show ?thesis by (auto simp: calm_step_def)
next
  case False
  with assms coherent_read [OF t assms(2)] show ?thesis by (auto simp: read_existing_def turns_def)
qed

lemma coherent_attempt:
  assumes t: "turns d st rows" and c: "in_step rows e" and reg: "map_get (bd_queries (od_engine d)) q = Some reg"
    and run: "attemptConsistentOp d op reg a s deferred batch again e = (Inr res, deferred', e')"
  shows "in_step rows e'"
proof -
  let ?ctx = "mutation_context op a s" and ?o = "resolved_options reg (mutation_context op a s)"
  obtain x e1 where read: "read_existing d op batch again e = (x, e1)" by (rule prod.exhaust)
  with run obtain ex where x: "x = Some ex" by (cases x) (auto simp: attemptConsistentOp_def)
  let ?now = "od_now d (en_world e1)" and ?l = "on_limiter e1"
  let ?p = "decision d op reg a s ex ?now ?l"
  let ?e1 = "e1\<lparr>on_limiter := snd (processOp ?now op ex (eager_context d a s ?o) ?l)\<rparr>"
  let ?resolved = "\<lparr>ro_type = co_op op, ro_table = co_table op, ro_rowId = co_rowId op,
    ro_payload = pr_resolvedRow ?p, ro_hlc = co_hlc op\<rparr>"
  obtain err e2 where auth: "authorize_op d reg ?resolved ?ctx ?e1 = (err, e2)" by (rule prod.exhaust)
  obtain m e3 where mut: "mutate_op d reg ?resolved ?ctx e2 = (m, e3)" by (rule prod.exhaust)
  obtain y e4 where per: "persist_resolved d op ?o ?p ex batch e3 = (y, e4)" by (rule prod.exhaust)
  have "in_step rows e1" using coherent_read_existing [OF t c read] by blast
  then have e1: "in_step rows ?e1" by (rule calm_coherent [rotated]) (simp add: calm_step_def)
  have e2: "in_step rows e2" using calm_coherent [OF calm_authorize [OF t reg auth] e1] .
  have e3: "in_step rows e3" using calm_coherent [OF calm_mutate [OF t reg mut] e2] .
  show ?thesis
  proof (cases "\<not> pr_accepted ?p \<or> err \<noteq> None \<or> isl m")
    case True
    then have "e' = ?e1 \<or> e' = e2 \<or> e' = e3"
      using run read x auth mut
      by (auto simp: attemptConsistentOp_def Let_def split_def decision_def split: option.splits sum.splits if_splits)
    with e1 e2 e3 show ?thesis by blast
  next
    case False
    then obtain tables where ok: "pr_accepted ?p" "err = None" "m = Inr tables" by (cases m) auto
    have "y \<noteq> Rejected_by_store"
      using run read x auth mut ok per by (auto simp: attemptConsistentOp_def Let_def split_def decision_def)
    then have e4: "in_step rows e4" using coherent_persist [OF t e3 per] by blast
    show ?thesis
    proof (cases "y = Lost_race")
      case True
      with run read x auth mut ok per have "e' = e4" by (auto simp: attemptConsistentOp_def Let_def split_def decision_def)
      with e4 show ?thesis by simp
    next
      case False
      with \<open>y \<noteq> Rejected_by_store\<close> have w: "y = Written" by (cases y) auto
      let ?c = "cs_clientId s"
      let ?hear = "co_op op \<noteq> Delete \<and> resolverChangedValue (pr_resolvedRow ?p) (pr_colClocks ?p) (co_hlc op) (qo_serverSet ?o) (co_payload op)"
      let ?e4 = "keep_writer_view d op ?c (writerHeldColumns (pr_resolvedRow ?p) (pr_colClocks ?p) (co_hlc op)
        (qo_serverSet ?o) (Some (co_payload op))) e4"
      obtain ts e5 where ann: "announce d (if ?hear then [] else ?c) (co_table op # tables) deferred ?e4 = (ts, e5)" by (rule prod.exhaust)
      have "e' = e5" using run read x auth mut ok per w ann by (simp add: attemptConsistentOp_def Let_def split_def decision_def)
      moreover have "in_step rows ?e4" using e4 by (rule calm_coherent [OF keeps_calm [OF keeps_view(1)]])
      ultimately show ?thesis using calm_coherent [OF calm_announce [OF t ann]] by simp
    qed
  qed
qed

lemma coherent_consistent:
  assumes t: "turns d st rows" and reg: "map_get (bd_queries (od_engine d)) q = Some reg"
  shows "in_step rows e \<Longrightarrow> consistent_attempts d op reg a s deferred batch again n e = (Inr r, deferred', e') \<Longrightarrow> in_step rows e'"
proof (induction n arbitrary: e deferred again)
  case (Suc n)
  obtain x ts e1 where one: "attemptConsistentOp d op reg a s deferred batch again e = (x, ts, e1)" by (cases rule: prod_cases3)
  then obtain y where y: "x = Inr y" using Suc.prems(2) by (cases x) auto
  have "in_step rows e1" using coherent_attempt [OF t Suc.prems(1) reg] one y by blast
  then show ?case using Suc.IH Suc.prems(2) one y by (cases y) auto
qed auto

subsection \<open>Durable eager ops\<close>

lemma coherent_eager_row:
  assumes t: "turns d st rows" and "in_step rows e" "eager_row d op hlc batch e = (x, e')"
  shows "in_step rows e'"
proof (cases "co_op op = Update \<and> co_payload op \<noteq> None")
  case True
  obtain y e1 where r: "readRow d (co_table op) (co_rowId op) batch e = (y, e1)" by (rule prod.exhaust)
  have "e' = e1" using True r assms(3) t by (auto simp: eager_row_def turns_def split: option.splits)
  with coherent_read [OF t assms(2) r] show ?thesis by simp
next
  case False
  with assms(2,3) show ?thesis by (auto simp: eager_row_def split: option.splits)
qed

lemma coherent_eager_persist:
  assumes t: "turns d st rows" and "in_step rows e" "qo_broadcast o' = EagerDurable"
    and "eager_persist d op o' hlc x batch e = (True, e')"
  shows "in_step rows e'"
proof -
  let ?args = "apply_args op (fst x) (snd x) hlc (logged_payload o' (co_payload op))"
  have st: "row_store st rows" "od_storage d = Some st" and idle: "\<And>e. od_meanwhile d e = e" using t by (simp_all add: turns_def)
  obtain ok w where w: "os_applyOp st (fst ?args) (snd ?args) (en_world e) = (ok, w)" by (rule prod.exhaust)
  with assms(3,4) st(2) have "ok" "e' = recordBatchWrite batch (co_table op) (co_rowId op) (fst x) (snd x) hlc (e\<lparr>en_world := w\<rparr>)"
    by (auto simp: eager_persist_def awaiting_def split_def Let_def idle split: if_splits)
  moreover have "rows w = (rows (en_world e))(target_of (fst ?args) := written_row (fst ?args))"
    using w \<open>ok\<close> row_store.applied [OF st(1), of "fst ?args" "snd ?args" "en_world e" w] by simp
  ultimately show ?thesis using coherent_applied [OF t assms(2)] by simp
qed

lemma calm_gates: "eager_gates d op ctx e = (x, e') \<Longrightarrow> calm_step rows e e'"
  by (auto simp: eager_gates_def Let_def calm_step_def split: option.splits prod.splits)

lemma calm_stamp:
  assumes "turns d st rows" "calling (bd_nextHlc (od_engine d)) e = (hlc, e')"
  shows "calm_step rows e e'"
proof -
  have "rows (snd (bd_nextHlc (od_engine d) w)) = rows w" for w
    using assms(1) by (simp add: turns_def quiet_world_def quiet_engine_def)
  then show ?thesis using assms(2) by (auto simp: calling_def calm_step_def split_def)
qed

lemma coherent_eager:
  assumes t: "turns d st rows" and c: "in_step rows e" and reg: "map_get (bd_queries (od_engine d)) q = Some reg"
    and durable: "qo_broadcast (qr_options reg) = EagerDurable"
    and run: "processEagerOp d op0 reg a s batch e = (Inr res, e')"
  shows "in_step rows e'"
proof -
  let ?ctx = "mutation_context op0 a s" and ?o = "resolved_options reg (mutation_context op0 a s)"
  let ?op = "enforceServerSet (enforceReadonly op0 ?o) ?o" and ?c = "cs_clientId s"
  obtain g e1 where gates: "eager_gates d op0 (eager_context d a s ?o) e = (g, e1)" by (rule prod.exhaust)
  have e1: "in_step rows e1" using calm_coherent [OF calm_gates [OF gates] c] .
  obtain hlc e2 where hlc: "calling (bd_nextHlc (od_engine d)) e1 = (hlc, e2)" by (rule prod.exhaust)
  have e2: "in_step rows e2" using calm_coherent [OF calm_stamp [OF t hlc] e1] .
  obtain x e3 where row: "eager_row d ?op hlc batch e2 = (x, e3)" by (rule prod.exhaust)
  have e3: "in_step rows e3" using coherent_eager_row [OF t e2 row] .
  let ?resolved = "\<lparr>ro_type = co_op ?op, ro_table = co_table ?op, ro_rowId = co_rowId ?op, ro_payload = co_payload ?op, ro_hlc = hlc\<rparr>"
  obtain err e4 where auth: "authorize_op d reg ?resolved ?ctx e3 = (err, e4)" by (rule prod.exhaust)
  have e4: "in_step rows e4" using calm_coherent [OF calm_authorize [OF t reg auth] e3] .
  obtain m e5 where mut: "mutate_op d reg ?resolved ?ctx e4 = (m, e5)" by (rule prod.exhaust)
  have e5: "in_step rows e5" using calm_coherent [OF calm_mutate [OF t reg mut] e4] .
  obtain ok e6 where per: "eager_persist d ?op ?o hlc x batch e5 = (ok, e6)" by (rule prod.exhaust)
  show ?thesis
  proof (cases "g \<noteq> None \<or> err \<noteq> None \<or> \<not> hasCapacity (on_buffer e4) (co_table ?op) (qo_maxBufferSize ?o) \<or> isl m")
    case True
    then have "e' \<in> {e1, e4, e5}"
      using run gates hlc row auth mut by (auto simp: processEagerOp_def Let_def split: option.splits sum.splits if_splits)
    with e1 e4 e5 show ?thesis by blast
  next
    case False
    then obtain tables where m: "g = None" "err = None" "m = Inr tables" "hasCapacity (on_buffer e4) (co_table ?op) (qo_maxBufferSize ?o)"
      by (cases m) auto
    have ok: ok using run gates hlc row auth mut m per by (cases ok) (auto simp: processEagerOp_def Let_def)
    have "qo_broadcast ?o = EagerDurable" using durable by (simp add: resolved_options_def)
    with coherent_eager_persist [OF t e5] per ok have e6: "in_step rows e6" by simp
    let ?e7 = "keep_writer_view d ?op ?c (writerHeldColumns (fst x) (snd x) hlc (qo_serverSet ?o) None) e6"
    have e7: "in_step rows ?e7" using e6 by (rule calm_coherent [OF keeps_calm [OF keeps_view(1)]])
    have e8: "in_step rows (eager_fanout d ?op hlc x ?c ?e7)" using calm_coherent [OF calm_fanout [OF t] e7] .
    have "e' = fold (op_broadcast d ?c) tables (eager_fanout d ?op hlc x ?c ?e7)"
      using run gates hlc row auth mut m per ok by (simp add: processEagerOp_def Let_def)
    with calm_coherent [OF calm_broadcasts [OF t] e8] show ?thesis by simp
  qed
qed

subsection \<open>Reservations and prefetching\<close>

lemma coherent_reserve_one:
  assumes t: "turns d st rows" and "in_step rows e" "replay_reserve d i e = (x, e')"
  shows "in_step rows e'"
proof -
  have st: "row_store st rows" "od_storage d = Some st" using t by (simp_all add: turns_def)
  have "calm_step rows e e'"
    by (rule calm_awaiting [OF t, of "os_reserveOp st i"])
      (use row_store.reserved [OF st(1)] assms(3) st(2) in \<open>auto simp: replay_reserve_def\<close>)
  with assms(2) show ?thesis by (rule calm_coherent [rotated])
qed

lemma coherent_take:
  assumes t: "turns d st rows" and "in_step rows e" "take_reservation d i batch e = (x, e')"
  shows "in_step rows e'"
proof (cases batch)
  case None
  with coherent_reserve_one [OF t assms(2)] assms(3) show ?thesis by (simp add: take_reservation_def)
next
  case (Some b)
  with assms(2,3) show ?thesis by (auto simp: take_reservation_def intro: coherent_on_batch)
qed

lemma coherent_reserve_each:
  assumes t: "turns d st rows"
  shows "in_step rows e \<Longrightarrow> reserve_each d b ops e = (x, e') \<Longrightarrow> in_step rows e'"
proof (induction ops arbitrary: e)
  case (Cons op ops)
  obtain y e1 where one: "replay_reserve d (co_id op) e = (y, e1)" by (rule prod.exhaust)
  have "in_step rows e1" using coherent_reserve_one [OF t Cons.prems(1) one] .
  moreover from this have "in_step rows (on_batch (Some b) (\<lambda>x. x\<lparr>bx_freshOpIds := set_add (co_id op) (bx_freshOpIds x)\<rparr>) e1)"
    by (auto intro: coherent_on_batch)
  ultimately show ?case using Cons one by (cases y) (auto split: if_splits)
qed simp

lemma coherent_reserve_batch:
  assumes t: "turns d st rows" and c: "in_step rows e" and run: "reserve_batch d b ops e = (x, e')"
  shows "in_step rows e'"
proof (cases "os_reserveOps st")
  case None
  with coherent_reserve_each [OF t c] run t show ?thesis by (simp add: reserve_batch_def turns_def)
next
  case (Some f)
  have st: "row_store st rows" "od_storage d = Some st" using t by (simp_all add: turns_def)
  obtain y e1 where a: "awaiting d (f (map co_id ops)) e = (y, e1)" by (rule prod.exhaust)
  have "calm_step rows e e1"
    by (rule calm_awaiting [OF t _ a]) (use row_store.reserved_many [OF st(1) Some] in blast)
  with c have "in_step rows e1" by (rule calm_coherent [rotated])
  moreover from this have "in_step rows (on_batch (Some b) (\<lambda>x. x\<lparr>bx_freshOpIds := fold set_add ids (bx_freshOpIds x)\<rparr>) e1)" for ids
    by (auto intro: coherent_on_batch)
  ultimately show ?thesis using run Some st(2) a by (cases y) (auto simp: reserve_batch_def)
qed

lemma batch_ok_set_all:
  "batch_ok rows x \<Longrightarrow> \<forall>r \<in> set ids. same_row (g r) (rows (t, r)) \<Longrightarrow> batch_ok rows (fold (\<lambda>r. set_row (rowKey t r) (g r)) ids x)"
  by (induction ids arbitrary: x) (auto intro: batch_ok_set)

lemma coherent_prefetch_table:
  assumes t: "turns d st rows" and c: "in_step rows e" and f: "os_getRowsByIds st = Some f"
  shows "in_step rows (prefetch_table d b f x e)"
proof -
  have st: "row_store st rows" using t by (simp add: turns_def)
  obtain y e1 where a: "awaiting d (f (fst x) (snd x)) e = (y, e1)" by (rule prod.exhaust)
  then obtain w where w: "f (fst x) (snd x) (en_world e) = (y, w)" "e1 = e\<lparr>en_world := w\<rparr>"
    using turns_awaiting [OF t a] by blast
  note got = row_store.got_many [OF st f w(1), THEN conjunct1] row_store.got_many [OF st f w(1), THEN conjunct2]
  have e1: "in_step rows e1" using c w(2) got(1) by (simp add: in_step_def)
  show ?thesis
  proof (cases y)
    case None
    with a e1 show ?thesis by (simp add: prefetch_table_def)
  next
    case (Some found)
    let ?g = "\<lambda>rowId. case obj_get found rowId of Some ex \<Rightarrow> ex | None \<Rightarrow> no_row"
    have "\<forall>r \<in> set (snd x). same_row (?g r) (rows (en_world e1) (fst x, r))" using got Some w(2) by simp
    then have "in_step rows (on_batch (Some b) (fold (\<lambda>rowId. set_row (rowKey (fst x) rowId) (?g rowId)) (snd x)) e1)"
      using e1 by (intro coherent_on_batch batch_ok_set_all) auto
    with a Some show ?thesis by (simp add: prefetch_table_def)
  qed
qed

lemma coherent_prefetch:
  assumes t: "turns d st rows" and c: "in_step rows e" and run: "prefetchBatch d ops e = (x, e')"
  shows "in_step rows e'"
proof -
  let ?e = "e\<lparr>on_created := on_created e + 1,
    on_activeBatches := map_set (on_created e) \<lparr>bx_freshOpIds = [], bx_rows = [], bx_stale = []\<rparr> (on_activeBatches e)\<rparr>"
  have e0: "in_step rows ?e" using c by (auto simp: in_step_def jsmap.get_put batch_ok_def)
  obtain y e1 where r: "reserve_batch d (on_created e) (filter (reservable d) ops) ?e = (y, e1)" by (rule prod.exhaust)
  have e1: "in_step rows e1" using coherent_reserve_batch [OF t e0 r] .
  have all: "in_step rows (fold (prefetch_table d b f) xs e1)" if "os_getRowsByIds st = Some f" for b f xs
    using e1 by (induction xs arbitrary: e1) (auto intro: coherent_prefetch_table [OF t _ that])
  have "od_storage d = Some st" using t by (simp add: turns_def)
  with run r e1 all show ?thesis
    by (cases y; cases "os_getRowsByIds st") (auto simp: prefetchBatch_def Let_def)
qed

lemma coherent_finish: "in_step rows e \<Longrightarrow> in_step rows (finishBatch b e)"
  by (auto simp: in_step_def finishBatch_def jsmap.get_del split: if_splits)

lemma cached_row_Some:
  assumes "cached_row (Some b) k e = Some ex"
  shows "\<exists>x. map_get (on_activeBatches e) b = Some x \<and> k \<notin> set (bx_stale x) \<and> map_get (bx_rows x) k = Some ex"
proof (cases "map_get (on_activeBatches e) b")
  case (Some x)
  with assms show ?thesis by (simp add: cached_row_def context_of_batch_def split: if_splits)
qed (use assms in \<open>simp add: cached_row_def context_of_batch_def\<close>)

section \<open>Interleaved messages\<close>

text \<open>The handlers of several clients take turns: each step is a prefetch, one op of some batch, or the end
  of a batch. Ops that only enter the eager buffer are not steps here, as the store does not have them.\<close>

inductive ops_run :: "'w OpDeps \<Rightarrow> 'w OpEngine \<Rightarrow> 'w OpEngine \<Rightarrow> bool" for d :: "'w OpDeps" where
  start: "ops_run d e e"
| prefetched: "ops_run d e e1 \<Longrightarrow> prefetchBatch d ops e1 = (x, e2) \<Longrightarrow> ops_run d e e2"
| processed: "ops_run d e e1 \<Longrightarrow> map_get (bd_queries (od_engine d)) (co_table op) = Some reg
    \<Longrightarrow> qo_broadcast (qr_options reg) \<noteq> Eager
    \<Longrightarrow> processClientOp d op a s deferred batch e1 = (Inr r, deferred', e2) \<Longrightarrow> ops_run d e e2"
| finished: "ops_run d e e1 \<Longrightarrow> ops_run d e (finishBatch b e1)"

lemma coherent_client_op:
  assumes t: "turns d st rows" and c: "in_step rows e" and reg: "map_get (bd_queries (od_engine d)) (co_table op) = Some reg"
    and br: "qo_broadcast (qr_options reg) \<noteq> Eager"
    and run: "processClientOp d op a s deferred batch e = (Inr r, deferred', e')"
  shows "in_step rows e'"
proof (cases "qr_mutate reg = None")
  case False
  obtain fresh e1 where tk: "take_reservation d (co_id op) batch e = (fresh, e1)" by (rule prod.exhaust)
  have e1: "in_step rows e1" using coherent_take [OF t c tk] .
  let ?e1 = "e1\<lparr>en_world := od_receiveHlc d (co_hlc op) (en_world e1)\<rparr>"
  have "calm_step rows e1 ?e1" using t by (simp add: calm_step_def turns_def quiet_world_def)
  then have e2: "in_step rows ?e1" using e1 by (rule calm_coherent)
  note e3 = calm_coherent [OF calm_broadcasts [OF t] e2]
  show ?thesis
  proof (cases "fresh = Some True")
    case True
    show ?thesis
    proof (cases "qo_broadcast (qr_options reg) = Consistent")
      case cons: True
      have "processConsistentOp d op reg a s deferred batch ?e1 = (Inr r, deferred', e')"
        using run reg False tk True cons by (simp add: processClientOp_def)
      with coherent_consistent [OF t reg e2] show ?thesis by (simp add: processConsistentOp_def)
    next
      case eager: False
      then have "qo_broadcast (qr_options reg) = EagerDurable" using br by (cases "qo_broadcast (qr_options reg)") auto
      moreover have "processEagerOp d op reg a s batch (fold (op_broadcast d (cs_clientId s)) (case deferred of None \<Rightarrow> [] | Some ts \<Rightarrow> ts) ?e1) = (Inr r, e')"
        using run reg False tk True eager by (auto simp: processClientOp_def Let_def split: prod.splits)
      ultimately show ?thesis using coherent_eager [OF t e3 reg] by blast
    qed
  next
    case not_fresh: False
    then have "e' = e1" using run reg False tk by (auto simp: processClientOp_def split: option.splits bool.splits)
    with e1 show ?thesis by simp
  qed
qed (use c reg run in \<open>simp add: processClientOp_def\<close>)


definition turn_start :: "ops_world OpEngine" where
  "turn_start = with_first_row (ops_engine [])"

definition turn_deps :: "ops_world OpDeps" where
  "turn_deps = ops_deps (Some Merge) Consistent"

text \<open>A batch holds the row, another op writes it, and the batch's own op reads it again and writes.\<close>

definition turn_write :: "(unit + OpResult) \<times> string list option \<times> ops_world OpEngine" where
  "turn_write = processClientOp turn_deps second_op ops_auth other_session None None
     (snd (prefetchBatch turn_deps [second_op\<lparr>co_id := ''o9''\<rparr>] turn_start))"

definition turn_end :: "(unit + OpResult) \<times> string list option \<times> ops_world OpEngine" where
  "turn_end = processClientOp turn_deps (sample_client_op ''o9'' Update [(''y'', Num 5)] ''6.1.c'') ops_auth ops_session None (Some 0)
     (snd (snd turn_write))"

lemma turn_deps_ok: "turns turn_deps shared_storage shared_rows"
proof -
  have "quiet_world turn_deps shared_rows"
    by (auto simp: turn_deps_def quiet_world_def quiet_engine_def ops_deps_def ops_engine_deps_def ops_query_def)
  moreover have "row_store shared_storage shared_rows" by unfold_locales
  ultimately show ?thesis by (simp add: turns_def) (simp add: turn_deps_def ops_deps_def)
qed


end
