(* ===== verification/Spec2Isabelle.thy ===== *)
theory Spec2Isabelle
  imports Hlc Text_Facts Enforcement_Facts Client_Store_Facts Result_Cache Ephemeral
    Room_State_Facts Message_Validator Server_Clock Compaction Eager_Buffer Rooms Session
    Wal_Log Wal_Liveness Object_Adapter_Facts Batch_Facts
begin

text \<open>
  ReflectDB is a synchronization engine written in TypeScript: clients keep rows and pending writes
  in a local store, a server resolves the writes against a row store and an op log and broadcasts
  what changed, and one of its storage backends keeps a room in an object store. This development
  models the core of it in definitions that compute and proves what makes each part correct.
  File names below are under \<open>src/src\<close>.

  Shared. \<open>Prelude\<close>: plain objects and maps of JavaScript as association lists under one contract
  (the locale \<open>keyed_store\<close>), maps of maps, sets as lists, order on strings. \<open>Js_Value\<close>: JavaScript
  values, numbers as text. \<open>Json_Size\<close>: the length of \<open>JSON.stringify\<close>. \<open>Types\<close>: the types and
  constants of \<open>core/types.ts\<close>.

  Clocks and text. \<open>Hlc\<close> (\<open>core/hlc.ts\<close>): packing is a faithful, order-preserving encoding; sends
  increase, receives exceed both sides and are bounded by the allowed drift. \<open>Text_Merge\<close>,
  \<open>Text_Diff\<close>, \<open>Text_Facts\<close> (\<open>core/text.ts\<close>): the diff is a script that rebuilds the text, and the
  three-way merge keeps what either side inserted. The search for the shortest script is a loop
  with a measure; that it always meets the end is proved, so no fuel is involved.

  Writes. \<open>Conflict\<close>, \<open>Conflict_Facts\<close> (\<open>server/conflict.ts\<close>): the five policies; merging is
  independent of the order of arrival. \<open>Enforcement\<close>, \<open>Enforcement_Facts\<close> (\<open>server/pipeline.ts\<close>,
  \<open>enforcement.ts\<close>, \<open>replay-detector.ts\<close>): the gates before conflict resolution and the rate limits.
  \<open>Message_Validator\<close> (\<open>message-validator.ts\<close>): acceptance is equivalent to a schema.

  Client. \<open>Client_Store\<close>, \<open>Client_Store_Facts\<close> (\<open>client/store.ts\<close>, \<open>ops.ts\<close>, \<open>storage/memory.ts\<close>):
  optimistic writes, their confirmation and undoing, deltas, and the write chain that persists
  them; the persisted store refines the one in memory.

  Server state. \<open>Session\<close> (\<open>server/session.ts\<close>): reverse indexes against a scan, over the reachable
  states of an inductive step relation. \<open>Rooms\<close> (\<open>rooms.ts\<close> and the pattern compiler of
  \<open>server.ts\<close>): room keys fail closed. \<open>Result_Cache\<close> (\<open>result-cache.ts\<close>): the diff sent to a client
  brings it up to date. \<open>Ephemeral\<close> (\<open>ephemeral/memory.ts\<close>): presence.

  Storage. \<open>Storage\<close>: the locale \<open>storage\<close> states what the parts below rely on of a
  \<open>StorageAdapter\<close> (\<open>handler.ts\<close>), interpreted on the room state and on a room state whose writes
  fail at will; over it \<open>Server_Clock\<close> (\<open>server-clock.ts\<close>), \<open>Compaction\<close> (\<open>compaction-manager.ts\<close>)
  and \<open>Eager_Buffer\<close> (\<open>eager-buffer.ts\<close>). \<open>Room_State\<close>, \<open>Room_State_Inv\<close>, \<open>Room_State_Facts\<close>
  (\<open>storage/object/state.ts\<close>): byte accounting, log reads by bisection, snapshot and replay.

  Object store. \<open>Object_Driver\<close> (\<open>storage/object/types.ts\<close>, \<open>drivers/memory.ts\<close>): the driver contract
  and the driver in memory. \<open>Manifest\<close> (\<open>manifest.ts\<close>): the manifest and the lease. \<open>Object_Store\<close>:
  the locale \<open>object_store\<close> states what a driver shared with other processes promises, over the
  trace of writes; a network, a script of what rivals do before each call and of how its reply
  fares, interprets it. \<open>Manifest_Facts\<close>: commits are linearized, in both modes. The retry loop of a
  commit is structural recursion on the attempts left, six at first, as in the code.

  Effects are explicit: a method takes and returns the state of its object and of what it calls.
  An exception is the left of a sum, or the branch its result type names. A promise is the value it
  resolves to; where other code can run while one waits, the model has it as an argument (arrivals
  during a flush, rivals between two calls) or as a step of a relation. Clocks, timers and random
  ids are arguments. Numbers are unbounded integers; the code stays below \<open>2^53\<close>, except in the hash
  of \<open>core/text.ts\<close>, which is 32-bit words. Strings are lists of code units below 256.

  Not modelled, and why. The message handler, the broadcast engine, the op processor and the sync
  client (\<open>handler.ts\<close>, \<open>broadcast-engine.ts\<close>, \<open>op-processor.ts\<close>, \<open>client/sync-client.ts\<close>) compose the
  parts above around the application's callbacks, and come next. Transports, request signing, the
  drivers for S3 and file systems, SQL storage and the peer connections call the runtime or packages
  that are not in the repository. Bindings for user interfaces, examples and the landing site are
  outside the library.
\<close>

end
